(* ===== verification/LS_Prelude.thy ===== *)
theory LS_Prelude
  imports Main "HOL-Library.Word"
begin

text \<open>
  Shared vocabulary of the development: fixed-width integers and byte buffers, the result
  codes of \<^verbatim>\<open>include/laststate/event.h\<close>, the build configuration of
  \<^verbatim>\<open>include/laststate/config.h\<close>, and the list and word facts every component uses.
  A C buffer is a list of bytes; a copy into it is \<open>overwrite\<close>, a read of it is \<open>bslice\<close>.
  A \<open>size_t\<close> is a \<open>nat\<close> with the checks against \<open>SIZE_MAX\<close> written out.
\<close>

unbundle bit_operations_syntax

text \<open>The collections the component proofs draw on: reads of updated buffers, and the bits of the
  mask constants of the code.\<close>

named_theorems buffer_simps
named_theorems mask_bits

section \<open>Types and result codes\<close>

type_synonym u8 = "8 word"
type_synonym u16 = "16 word"
type_synonym u32 = "32 word"
type_synonym u64 = "64 word"
type_synonym bytes = "8 word list"

text \<open>\<^verbatim>\<open>ls_result_t\<close>.\<close>

datatype ls_result =
    LS_OK | LS_EINVAL | LS_ENOSPACE | LS_EIO | LS_ECORRUPT
  | LS_EAGAIN | LS_ENOTSUP | LS_EBUSY | LS_EAUTH | LS_EOVERFLOW

text \<open>\<^verbatim>\<open>ls_priority_t\<close>: a C enumeration, compared by its values, the most urgent first.\<close>

datatype ls_priority =
    LS_PRIORITY_EMERGENCY | LS_PRIORITY_CRITICAL | LS_PRIORITY_ERROR
  | LS_PRIORITY_WARNING | LS_PRIORITY_DIAGNOSTIC

fun priority_code :: "ls_priority \<Rightarrow> nat" where
  "priority_code LS_PRIORITY_EMERGENCY = 0"
| "priority_code LS_PRIORITY_CRITICAL = 1"
| "priority_code LS_PRIORITY_ERROR = 2"
| "priority_code LS_PRIORITY_WARNING = 3"
| "priority_code LS_PRIORITY_DIAGNOSTIC = 4"

lemma priority_code_inject [simp]: "priority_code p = priority_code q \<longleftrightarrow> p = q"
  by (cases p; cases q) simp_all

instantiation ls_priority :: linorder
begin

definition less_eq_ls_priority :: "ls_priority \<Rightarrow> ls_priority \<Rightarrow> bool" where
  "less_eq_ls_priority p q \<longleftrightarrow> priority_code p \<le> priority_code q"

definition less_ls_priority :: "ls_priority \<Rightarrow> ls_priority \<Rightarrow> bool" where
  "less_ls_priority p q \<longleftrightarrow> priority_code p < priority_code q"

instance
  by standard (auto simp: less_eq_ls_priority_def less_ls_priority_def)

end

definition SIZE_MAX :: nat where
  "SIZE_MAX = 2 ^ 64 - 1"

definition UINT32_MAX :: nat where
  "UINT32_MAX = 2 ^ 32 - 1"

definition UINT16_MAX :: nat where
  "UINT16_MAX = 2 ^ 16 - 1"

text \<open>
  The knobs of \<^verbatim>\<open>config.h\<close> (and of \<^verbatim>\<open>storage.h\<close>) that the modelled code reads. Every one
  of them may be overridden by the build, so they are a parameter of the model;
  \<open>ls_build_config_default\<close> holds the defaults and \<open>build_config_ok\<close> the constraints the
  headers enforce with \<^verbatim>\<open>#error\<close>.
\<close>

record ls_build_config =
  LS_MAX_EVENT_SIZE :: nat
  LS_SPOOL_MAX_RECORDS :: nat
  LS_SPOOL_RESERVED_CRITICAL :: nat
  LS_SPOOL_RESERVED_EMERGENCY :: nat
  LS_STORAGE_MAX_WRITE_SIZE :: nat
  LS_MAX_TRANSPORTS :: nat

definition ls_build_config_default :: ls_build_config where
  "ls_build_config_default =
     \<lparr>LS_MAX_EVENT_SIZE = 4096, LS_SPOOL_MAX_RECORDS = 8, LS_SPOOL_RESERVED_CRITICAL = 2,
      LS_SPOOL_RESERVED_EMERGENCY = 1, LS_STORAGE_MAX_WRITE_SIZE = 256,
      LS_MAX_TRANSPORTS = 6\<rparr>"

definition build_config_ok :: "ls_build_config \<Rightarrow> bool" where
  "build_config_ok cfg \<longleftrightarrow>
     LS_SPOOL_RESERVED_CRITICAL cfg \<le> LS_SPOOL_MAX_RECORDS cfg \<and>
     LS_SPOOL_RESERVED_EMERGENCY cfg \<le> LS_SPOOL_RESERVED_CRITICAL cfg \<and>
     1 \<le> LS_STORAGE_MAX_WRITE_SIZE cfg"

section \<open>Byte buffers\<close>

definition bslice :: "nat \<Rightarrow> nat \<Rightarrow> 'a list \<Rightarrow> 'a list" where
  "bslice off n xs = take n (drop off xs)"

definition overwrite :: "nat \<Rightarrow> 'a list \<Rightarrow> 'a list \<Rightarrow> 'a list" where
  "overwrite off src dst = take off dst @ src @ drop (off + length src) dst"

section \<open>Sequencing of fallible steps\<close>

text \<open>
  The idiom \<^verbatim>\<open>if (result == LS_OK) result = step();\<close>: a later step runs only while every
  earlier one returned \<open>LS_OK\<close>.
\<close>

definition and_then :: "ls_result \<times> 's \<Rightarrow> ('s \<Rightarrow> ls_result \<times> 's) \<Rightarrow> ls_result \<times> 's" where
  "and_then p f = (if fst p = LS_OK then f (snd p) else p)"

fun ls_seq :: "('s \<Rightarrow> ls_result \<times> 's) list \<Rightarrow> 's \<Rightarrow> ls_result \<times> 's" where
  "ls_seq [] s = (LS_OK, s)"
| "ls_seq (f # fs) s = and_then (f s) (ls_seq fs)"

section \<open>Sequences of operations and refinement\<close>

text \<open>The outputs of a sequence of operations, one after the other, and the state they end in.\<close>

fun run_ops :: "('op \<Rightarrow> 's \<Rightarrow> 'r \<times> 's) \<Rightarrow> 'op list \<Rightarrow> 's \<Rightarrow> 'r list \<times> 's" where
  "run_ops step [] s = ([], s)"
| "run_ops step (a # ops) s =
     (let (r, s') = step a s; (rs, s'') = run_ops step ops s' in (r # rs, s''))"

text \<open>
  A component \<open>step\<close> refines a specification \<open>spec\<close> of its observable behaviour: the abstraction of
  the state commutes with every operation and the outputs are equal. \<open>ok n\<close> is the invariant
  with room for \<open>n\<close> more operations, for components with bounded counters.
\<close>

locale budgeted_refinement =
  fixes step :: "'op \<Rightarrow> 's \<Rightarrow> 'r \<times> 's" and spec :: "'op \<Rightarrow> 'a \<Rightarrow> 'r \<times> 'a"
    and abstract :: "'s \<Rightarrow> 'a" and ok :: "nat \<Rightarrow> 's \<Rightarrow> bool"
  assumes step_ok: "ok (Suc n) s \<Longrightarrow> ok n (snd (step a s))"
    and step_refines: "ok (Suc n) s \<Longrightarrow> spec a (abstract s) = map_prod id abstract (step a s)"
begin

lemma run_refines:
  "ok (length ops + n) s \<Longrightarrow>
   ok n (snd (run_ops step ops s)) \<and>
   run_ops spec ops (abstract s) = map_prod id abstract (run_ops step ops s)"
proof (induction ops arbitrary: s)
  case (Cons a ops)
  then have here: "ok (Suc (length ops + n)) s" by simp
  show ?case
    using Cons.IH [OF step_ok [OF here]] step_refines [OF here]
    by (auto simp: split_beta)
qed simp

end

section \<open>Little-endian integers\<close>

text \<open>
  The byte order of the wire format and of every supported target: the structures the code
  hands to the storage as raw memory are read and written with these too.
\<close>

definition le16 :: "u16 \<Rightarrow> bytes" where
  "le16 v = [ucast v, ucast (drop_bit 8 v)]"

definition le32 :: "u32 \<Rightarrow> bytes" where
  "le32 v = [ucast v, ucast (drop_bit 8 v), ucast (drop_bit 16 v), ucast (drop_bit 24 v)]"

definition le64 :: "u64 \<Rightarrow> bytes" where
  "le64 v = map (\<lambda>i. ucast (drop_bit (i * 8) v)) [0..<8]"

text \<open>Reads at an offset of a buffer, byte by byte as the C code does.\<close>

definition read_u16 :: "bytes \<Rightarrow> nat \<Rightarrow> u16" where
  "read_u16 data off = ucast (data ! off) OR push_bit 8 (ucast (data ! (off + 1)))"

definition read_u32 :: "bytes \<Rightarrow> nat \<Rightarrow> u32" where
  "read_u32 data off =
     ucast (data ! off) OR push_bit 8 (ucast (data ! (off + 1))) OR
     push_bit 16 (ucast (data ! (off + 2))) OR push_bit 24 (ucast (data ! (off + 3)))"

text \<open>\<^verbatim>\<open>(int32_t)(candidate - reference) > 0\<close>, the serial-number comparison of the code.\<close>

definition generation_is_newer :: "u32 \<Rightarrow> u32 \<Rightarrow> bool" where
  "generation_is_newer candidate reference \<longleftrightarrow> 0 < sint (candidate - reference)"

section \<open>Facts about buffers\<close>

lemma all_less_Suc_iff: "(\<forall>i<Suc n. P i) \<longleftrightarrow> P 0 \<and> (\<forall>i<n. P (Suc i))"
  by (auto simp: less_Suc_eq_0_disj)

lemma length_bslice [simp]: "length (bslice off n xs) = min n (length xs - off)"
  by (simp add: bslice_def)

lemma bslice_0_length [simp]: "n = length xs \<Longrightarrow> bslice 0 n xs = xs"
  by (simp add: bslice_def)

lemma bslice_zero [simp]: "bslice off 0 xs = []"
  by (simp add: bslice_def)

lemma nth_bslice [simp]: "i < n \<Longrightarrow> off + i < length xs \<Longrightarrow> bslice off n xs ! i = xs ! (off + i)"
  by (simp add: bslice_def)

lemma bslice_bslice: "b + m \<le> n \<Longrightarrow> bslice b m (bslice a n xs) = bslice (a + b) m xs"
  by (simp add: bslice_def drop_take min_def add.commute)

lemma bslice_append_left: "off + n \<le> length xs \<Longrightarrow> bslice off n (xs @ ys) = bslice off n xs"
  by (simp add: bslice_def)

lemma bslice_append_right:
  "length xs \<le> off \<Longrightarrow> bslice off n (xs @ ys) = bslice (off - length xs) n ys"
  by (simp add: bslice_def)

lemma bslice_split: "bslice off (m + n) xs = bslice off m xs @ bslice (off + m) n xs"
  by (simp add: bslice_def take_add add.commute)

lemma bslice_append_drop: "bslice off n xs @ drop (off + n) xs = drop off xs"
  using append_take_drop_id [of n "drop off xs"] by (simp add: bslice_def add.commute)

lemma length_overwrite [simp]:
  "off + length src \<le> length dst \<Longrightarrow> length (overwrite off src dst) = length dst"
  by (simp add: overwrite_def)

lemma overwrite_Nil [simp]: "overwrite off [] dst = dst"
  by (simp add: overwrite_def)

lemma nth_overwrite:
  "off + length src \<le> length dst \<Longrightarrow> i < length dst \<Longrightarrow>
   overwrite off src dst ! i =
     (if off \<le> i \<and> i < off + length src then src ! (i - off) else dst ! i)"
  by (auto simp: overwrite_def nth_append min_def)

lemma bslice_overwrite_same [simp]:
  "off + length src \<le> length dst \<Longrightarrow> n = length src \<Longrightarrow> bslice off n (overwrite off src dst) = src"
  by (simp add: bslice_def overwrite_def)

lemma bslice_overwrite_disjoint:
  assumes "off + length src \<le> length dst" and "a + n \<le> off \<or> off + length src \<le> a"
  shows "bslice a n (overwrite off src dst) = bslice a n dst"
  using assms
  by (intro nth_equalityI) (auto simp: nth_overwrite bslice_def)

lemma bslice_overwrite_inside:
  assumes "off + length src \<le> length dst" and "off \<le> a" and "a + n \<le> off + length src"
  shows "bslice a n (overwrite off src dst) = bslice (a - off) n src"
  using assms
  by (intro nth_equalityI) (auto simp: nth_overwrite bslice_def)

lemma bslice_overwrite_around:
  assumes "off + length src \<le> length dst" and "a \<le> off" and "off + length src \<le> a + n"
    and "a + n \<le> length dst"
  shows "bslice a n (overwrite off src dst) = overwrite (off - a) src (bslice a n dst)"
  using assms
  by (intro nth_equalityI) (auto simp: nth_overwrite bslice_def add.commute)

lemma overwrite_append_adjacent:
  assumes "off + length xs + length ys \<le> length dst"
  shows "overwrite (off + length xs) ys (overwrite off xs dst) = overwrite off (xs @ ys) dst"
  using assms
  by (intro nth_equalityI) (auto simp: nth_overwrite nth_append)

lemma overwrite_commute:
  assumes "a + length xs \<le> b" and "b + length ys \<le> length dst"
  shows "overwrite a xs (overwrite b ys dst) = overwrite b ys (overwrite a xs dst)"
  using assms
  by (intro nth_equalityI) (auto simp: nth_overwrite)

lemma overwrite_id: "off + n \<le> length dst \<Longrightarrow> overwrite off (bslice off n dst) dst = dst"
  by (intro nth_equalityI) (auto simp: nth_overwrite)

lemma overwrite_overwrite_same:
  assumes "length xs = length ys" and "off + length ys \<le> length dst"
  shows "overwrite off xs (overwrite off ys dst) = overwrite off xs dst"
  using assms
  by (intro nth_equalityI) (auto simp: nth_overwrite)

text \<open>Rounding up to a multiple, as the code does it.\<close>

lemma le_round_up: "0 < k \<Longrightarrow> n \<le> ((n + k - 1) div k) * k" for n k :: nat
  using div_mult_mod_eq [of "n + k - 1" k] mod_less_divisor [of k "n + k - 1"] by linarith

section \<open>Facts about sequencing\<close>

lemma and_then_OK [simp]: "and_then (LS_OK, s) f = f s"
  by (simp add: and_then_def)

lemma and_then_error [simp]: "r \<noteq> LS_OK \<Longrightarrow> and_then (r, s) f = (r, s)"
  by (simp add: and_then_def)

lemma and_then_eq_OK:
  "and_then p f = (LS_OK, t) \<longleftrightarrow> (\<exists>s. p = (LS_OK, s) \<and> f s = (LS_OK, t))"
  by (cases p) (auto simp: and_then_def)

lemma ls_seq_single: "ls_seq [g] = g"
  by (rule ext) (simp add: and_then_def prod_eq_iff)

lemma ls_seq_append: "ls_seq (fs @ gs) s = and_then (ls_seq fs s) (ls_seq gs)"
  by (induction fs arbitrary: s) (simp_all add: and_then_def)

text \<open>An invariant of every step is an invariant of the sequence, whatever it returns.\<close>

lemma and_then_invariant:
  assumes "P (snd p)" and "\<And>s. P s \<Longrightarrow> P (snd (f s))"
  shows "P (snd (and_then p f))"
  using assms by (simp add: and_then_def)

section \<open>Facts about words\<close>

lemma length_le16 [simp]: "length (le16 v) = 2"
  by (simp add: le16_def)

lemma length_le32 [simp]: "length (le32 v) = 4"
  by (simp add: le32_def)

lemma length_le64 [simp]: "length (le64 v) = 8"
  by (simp add: le64_def)

text \<open>A value read back at the offset it was written to is the value.\<close>

lemma read_u16_shift: "read_u16 (xs @ ys) (length xs + k) = read_u16 ys k"
  by (simp add: read_u16_def nth_append)

lemma read_u32_shift: "read_u32 (xs @ ys) (length xs + k) = read_u32 ys k"
  by (simp add: read_u32_def nth_append)

lemma read_u16_le16 [simp]: "read_u16 (le16 v @ ys) 0 = v"
  by (rule bit_word_eqI)
    (auto simp: read_u16_def le16_def bit_simps not_less less_Suc_eq_le)

lemma read_u32_le32 [simp]: "read_u32 (le32 v @ ys) 0 = v"
proof (rule bit_word_eqI)
  fix n :: nat
  assume "n < LENGTH(32)"
  then consider "n < 8" | "8 \<le> n \<and> n < 16" | "16 \<le> n \<and> n < 24" | "24 \<le> n \<and> n < 32"
    by fastforce
  then show "bit (read_u32 (le32 v @ ys) 0) n = bit v n"
    by cases (auto simp: read_u32_def le32_def bit_simps)
qed

lemma read_u32_le32_Nil [simp]: "read_u32 (le32 v) 0 = v"
  using read_u32_le32 [of v "[]"] by simp

lemma read_u16_le16_Nil [simp]: "read_u16 (le16 v) 0 = v"
  using read_u16_le16 [of v "[]"] by simp

lemma read_u32_bslice:
  "k + 4 \<le> n \<Longrightarrow> off + n \<le> length xs \<Longrightarrow> read_u32 (bslice off n xs) k = read_u32 xs (off + k)"
  by (simp add: read_u32_def add.assoc)

lemma read_u16_bslice:
  "k + 2 \<le> n \<Longrightarrow> off + n \<le> length xs \<Longrightarrow> read_u16 (bslice off n xs) k = read_u16 xs (off + k)"
  by (simp add: read_u16_def add.assoc)

text \<open>Conversely, four bytes are the encoding of the value they read as.\<close>

lemma ucast_drop_bit_OR_bytes:
  fixes a b c d :: u8
  defines "v \<equiv> (ucast a OR push_bit 8 (ucast b) OR push_bit 16 (ucast c) OR
                push_bit 24 (ucast d) :: u32)"
  shows "ucast v = a" and "ucast (drop_bit 8 v) = b" and "ucast (drop_bit 16 v) = c"
    and "ucast (drop_bit 24 v) = d"
  unfolding v_def
  by (rule bit_word_eqI; auto simp: bit_simps dest: bit_imp_le_length)+

lemma le32_read_u32:
  assumes "off + 4 \<le> length xs"
  shows "le32 (read_u32 xs off) = bslice off 4 xs"
proof -
  have "bslice off 4 xs = [xs ! off, xs ! (off + 1), xs ! (off + 2), xs ! (off + 3)]"
    using assms by (simp add: bslice_def take_Suc_conv_app_nth numeral_eq_Suc)
  then show ?thesis
    unfolding le32_def read_u32_def ucast_drop_bit_OR_bytes by simp
qed

lemma le16_read_u16:
  assumes "off + 2 \<le> length xs"
  shows "le16 (read_u16 xs off) = bslice off 2 xs"
proof -
  have bytes: "ucast (ucast a OR push_bit 8 (ucast b) :: u16) = a"
    "ucast (drop_bit 8 (ucast a OR push_bit 8 (ucast b) :: u16)) = b" for a b :: u8
    by (rule bit_word_eqI; auto simp: bit_simps dest: bit_imp_le_length)+
  have "bslice off 2 xs = [xs ! off, xs ! (off + 1)]"
    using assms by (simp add: bslice_def take_Suc_conv_app_nth numeral_eq_Suc)
  then show ?thesis unfolding le16_def read_u16_def bytes by simp
qed

lemma le16_read_u16_pair:
  assumes "off + 4 \<le> length xs"
  shows "le16 (read_u16 xs off) @ le16 (read_u16 xs (off + 2)) = bslice off 4 xs"
  using assms bslice_split [of off 2 2 xs] by (simp add: le16_read_u16)

lemma generation_is_newer_irrefl [simp]: "\<not> generation_is_newer x x"
  by (simp add: generation_is_newer_def)

text \<open>
  The bits of the constants the code masks with. The simplifier turns a bit of a word numeral
  into the bit of the same integer, so the facts are about integers.
\<close>

lemma bit_0x80 [mask_bits]: "bit (0x80 :: int) n \<longleftrightarrow> n = 7"
proof -
  have *: "(0x80 :: int) = push_bit 7 1" by simp
  show ?thesis unfolding * bit_push_bit_iff by (auto simp: bit_1_iff)
qed

lemma bit_0x7f [mask_bits]: "bit (0x7f :: int) n \<longleftrightarrow> n < 7"
  using bit_mask_iff [of 7 n, where 'a = int] by (simp add: mask_eq_exp_minus_1)

lemma bit_0xf0 [mask_bits]: "bit (0xf0 :: int) n \<longleftrightarrow> 4 \<le> n \<and> n < 8"
proof -
  have *: "(0xf0 :: int) = push_bit 4 (mask 4)" by (simp add: mask_eq_exp_minus_1)
  show ?thesis unfolding * bit_push_bit_iff bit_mask_iff by auto
qed

end
