(* ===== verification/LS_Compression.thy ===== *)
theory LS_Compression
  imports LS_Prelude
begin

text \<open>
  \<^verbatim>\<open>src/envelope/compression.c\<close>: the varint, run-length and delta codecs. A codec returns an
  error code (\<open>Inl\<close>) or what it wrote (\<open>Inr\<close>); the pointer checks at the head of each function
  have no counterpart, since a buffer is a value here. Indices and the \<open>capacity - out\<close> tests are
  those of the C loops.
\<close>

section \<open>Variable-length integers\<close>

function varint_encode_loop :: "u32 \<Rightarrow> bytes \<Rightarrow> nat \<Rightarrow> ls_result + bytes" where
  "varint_encode_loop v out capacity =
     (if length out \<ge> capacity then Inl LS_ENOSPACE
      else let byte = ucast (v AND 0x7f) :: u8;
               v' = drop_bit 7 v;
               byte' = (if v' \<noteq> 0 then byte OR 0x80 else byte);
               out' = out @ [byte']
           in if v' \<noteq> 0 then varint_encode_loop v' out' capacity else Inr out')"
  by pat_completeness auto
termination
  by (relation "measure (\<lambda>(v, out, capacity). capacity - length out)") auto

declare varint_encode_loop.simps [simp del]

definition ls_varint_u32_encode :: "u32 \<Rightarrow> nat \<Rightarrow> ls_result + bytes" where
  "ls_varint_u32_encode v capacity = varint_encode_loop v [] capacity"

fun varint_decode_loop :: "bytes \<Rightarrow> nat \<Rightarrow> u32 \<Rightarrow> ls_result + u32 \<times> nat" where
  "varint_decode_loop [] i result = Inl LS_EAGAIN"
| "varint_decode_loop (byte # rest) i result =
     (if \<not> i < 5 then Inl LS_EAGAIN
      else if i = 4 \<and> byte AND 0xf0 \<noteq> 0 then Inl LS_EOVERFLOW
      else let result' = result OR push_bit (i * 7) (ucast (byte AND 0x7f))
           in if byte AND 0x80 = 0 then Inr (result', i + 1)
              else varint_decode_loop rest (i + 1) result')"

text \<open>The value and the number of bytes consumed.\<close>

definition ls_varint_u32_decode :: "bytes \<Rightarrow> ls_result + u32 \<times> nat" where
  "ls_varint_u32_decode input = varint_decode_loop input 0 0"

section \<open>Run-length encoding\<close>

text \<open>The inner loop that measures the run starting at index \<open>at\<close>.\<close>

function rle_run :: "bytes \<Rightarrow> nat \<Rightarrow> nat \<Rightarrow> nat" where
  "rle_run input at run =
     (if at + run < length input \<and> input ! (at + run) = input ! at \<and> run < 128
      then rle_run input at (run + 1) else run)"
  by pat_completeness auto
termination
  by (relation "measure (\<lambda>(input, at, run). 128 - run)") auto

declare rle_run.simps [simp del]

lemma rle_run_ge: "run \<le> rle_run input at run"
  by (induction input at run rule: rle_run.induct) (subst rle_run.simps, force)

text \<open>The loop that extends a literal while no run of three or more starts.\<close>

function rle_literal_end :: "bytes \<Rightarrow> nat \<Rightarrow> nat \<Rightarrow> nat" where
  "rle_literal_end input literal at =
     (if at < length input
      then let run = rle_run input at 1
           in if run \<ge> 3 \<or> at - literal + run > 128 then at
              else rle_literal_end input literal (at + run)
      else at)"
  by pat_completeness auto
termination
  by (relation "measure (\<lambda>(input, literal, at). length input - at)")
    (use rle_run_ge [of 1] in \<open>auto simp: Suc_le_eq intro: diff_less_mono2\<close>)

declare rle_literal_end.simps [simp del]

lemma rle_literal_end_ge: "at \<le> rle_literal_end input literal at"
  by (induction input literal at rule: rle_literal_end.induct)
    (subst rle_literal_end.simps, auto simp: Let_def intro: le_trans [OF le_add1])

function rle_compress_loop :: "bytes \<Rightarrow> nat \<Rightarrow> nat \<Rightarrow> bytes \<Rightarrow> ls_result + bytes" where
  "rle_compress_loop input capacity at out =
     (if at < length input
      then let run = rle_run input at 1
           in if run \<ge> 3
              then if capacity - length out < 2 then Inl LS_ENOSPACE
                   else rle_compress_loop input capacity (at + run)
                          (out @ [0x80 OR of_nat (run - 1), input ! at])
              else let at' = rle_literal_end input at (at + run);
                       literal_length = at' - at
                   in if capacity - length out < literal_length + 1 then Inl LS_ENOSPACE
                      else rle_compress_loop input capacity at'
                             (out @ of_nat (literal_length - 1) # bslice at literal_length input)
      else Inr out)"
  by pat_completeness auto
termination
proof (relation "measure (\<lambda>(input, capacity, at, out). length input - at)", goal_cases)
  case (2 input capacity at out run)
  then show ?case using rle_run_ge [of 1 input at] by auto
next
  case (3 input capacity at out run at' literal_length)
  then show ?case
    using rle_run_ge [of 1 input at] rle_literal_end_ge [of "at + run" input at] by auto
qed simp

declare rle_compress_loop.simps [simp del]

definition ls_rle_compress :: "bytes \<Rightarrow> nat \<Rightarrow> ls_result + bytes" where
  "ls_rle_compress input capacity = rle_compress_loop input capacity 0 []"

function rle_decompress_loop :: "bytes \<Rightarrow> nat \<Rightarrow> nat \<Rightarrow> bytes \<Rightarrow> ls_result + bytes" where
  "rle_decompress_loop input capacity at out =
     (if at < length input
      then let control = input ! at;
               count = unat (control AND 0x7f) + 1;
               at' = at + 1
           in if control AND 0x80 \<noteq> 0
              then if at' \<ge> length input then Inl LS_ECORRUPT
                   else if count > capacity - length out then Inl LS_ENOSPACE
                   else rle_decompress_loop input capacity (at' + 1)
                          (out @ replicate count (input ! at'))
              else if count > length input - at' then Inl LS_ECORRUPT
                   else if count > capacity - length out then Inl LS_ENOSPACE
                   else rle_decompress_loop input capacity (at' + count)
                          (out @ bslice at' count input)
      else Inr out)"
  by pat_completeness auto
termination
  by (relation "measure (\<lambda>(input, capacity, at, out). length input - at)") auto

declare rle_decompress_loop.simps [simp del]

definition ls_rle_decompress :: "bytes \<Rightarrow> nat \<Rightarrow> ls_result + bytes" where
  "ls_rle_decompress input capacity = rle_decompress_loop input capacity 0 []"

section \<open>Delta encoding\<close>

text \<open>An \<open>int32_t\<close> is kept as its bit pattern; \<open>value < 0\<close> reads its sign.\<close>

definition zigzag_encode :: "u32 \<Rightarrow> u32" where
  "zigzag_encode v = push_bit 1 v XOR (- of_bool (sint v < 0))"

definition zigzag_decode :: "u32 \<Rightarrow> u32" where
  "zigzag_decode v = drop_bit 1 v XOR (- (v AND 1))"

fun delta_encode_loop :: "u32 list \<Rightarrow> nat \<Rightarrow> u32 \<Rightarrow> bytes \<Rightarrow> ls_result + bytes" where
  "delta_encode_loop [] capacity previous out = Inr out"
| "delta_encode_loop (v # vs) capacity previous out =
     (case ls_varint_u32_encode (zigzag_encode (v - previous)) 5 of
        Inl e \<Rightarrow> Inl e
      | Inr encoded \<Rightarrow>
          if length encoded > capacity - length out then Inl LS_ENOSPACE
          else delta_encode_loop vs capacity v (out @ encoded))"

definition ls_delta_u32_encode :: "u32 list \<Rightarrow> nat \<Rightarrow> ls_result + bytes" where
  "ls_delta_u32_encode values capacity = delta_encode_loop values capacity 0 []"

lemma varint_decode_loop_consumed:
  "varint_decode_loop input i r = Inr (v, n) \<Longrightarrow> i < n \<and> n \<le> i + length input"
  by (induction input i r rule: varint_decode_loop.induct)
    (fastforce simp: Let_def split: if_splits)+

function delta_decode_loop :: "bytes \<Rightarrow> nat \<Rightarrow> nat \<Rightarrow> u32 \<Rightarrow> u32 list \<Rightarrow> ls_result + u32 list" where
  "delta_decode_loop input capacity at previous items =
     (if at < length input
      then if length items \<ge> capacity then Inl LS_ENOSPACE
           else (case ls_varint_u32_decode (drop at input) of
                   Inl e \<Rightarrow> Inl e
                 | Inr (encoded, consumed) \<Rightarrow>
                     let previous' = previous + zigzag_decode encoded
                     in delta_decode_loop input capacity (at + consumed) previous'
                          (items @ [previous']))
      else Inr items)"
  by pat_completeness auto
termination
  by (relation "measure (\<lambda>(input, capacity, at, previous, items). length input - at)")
    (auto simp: ls_varint_u32_decode_def dest!: varint_decode_loop_consumed)

declare delta_decode_loop.simps [simp del]

definition ls_delta_u32_decode :: "bytes \<Rightarrow> nat \<Rightarrow> ls_result + u32 list" where
  "ls_delta_u32_decode input capacity = delta_decode_loop input capacity 0 0 []"

section \<open>The varint codec\<close>

lemma varint_encode_decode:
  assumes "varint_encode_loop v out capacity = Inr res" and "i < 5"
    and "\<And>n. bit v n \<Longrightarrow> n + 7 * i < 32"
  shows "\<exists>bs. res = out @ bs \<and> bs \<noteq> [] \<and> i + length bs \<le> 5 \<and>
    (\<forall>rest r. varint_decode_loop (bs @ rest) i r = Inr (r OR push_bit (7 * i) v, i + length bs))"
  using assms
proof (induction v out capacity arbitrary: i rule: varint_encode_loop.induct)
  case (1 v out capacity)
  define v' where "v' = drop_bit 7 v"
  define low where "low = (ucast (v AND 0x7f) :: u8)"
  have eq: "varint_encode_loop v out capacity =
      (if capacity \<le> length out then Inl LS_ENOSPACE
       else if v' \<noteq> 0 then varint_encode_loop v' (out @ [low OR 0x80]) capacity
       else Inr (out @ [low]))"
    by (simp add: varint_encode_loop.simps [of v out capacity] Let_def v'_def low_def)
  have last: "varint_decode_loop (low # rest) i r = Inr (r OR push_bit (7 * i) v, i + 1)"
    if "v' = 0" for rest r
  proof -
    have small: "n < 7" if "bit v n" for n
    proof (rule ccontr)
      assume "\<not> n < 7"
      then have "bit v' (n - 7) = bit v n" by (simp add: v'_def bit_simps)
      with \<open>v' = 0\<close> that show False by simp
    qed
    have "low AND 0xf0 = 0" if "i = 4"
      by (rule bit_word_eqI)
        (use "1.prems"(3) that in \<open>fastforce simp: low_def mask_bits bit_simps\<close>)
    moreover have "low AND 0x80 = 0"
      by (rule bit_word_eqI) (auto simp: low_def mask_bits bit_simps)
    moreover have "ucast (low AND 0x7f) = v"
      by (rule bit_word_eqI) (use small in \<open>force simp: low_def mask_bits bit_simps\<close>)
    ultimately show ?thesis using "1.prems"(2) by (simp add: mult.commute)
  qed
  show ?case
  proof (cases "v' = 0")
    case True
    with "1.prems"(1,2) last show ?thesis
      by (intro exI [where x = "[low]"]) (simp add: eq split: if_splits)
  next
    case False
    have rec: "varint_encode_loop v' (out @ [low OR 0x80]) capacity = Inr res"
      and room: "\<not> capacity \<le> length out"
      using "1.prems"(1) False by (simp_all add: eq split: if_splits)
    have i: "i < 4"
    proof (rule ccontr)
      assume "\<not> i < 4"
      then have "v' = 0"
        by (intro bit_word_eqI) (use "1.prems"(3) in \<open>force simp: v'_def bit_simps\<close>)
      with False show False by simp
    qed
    have bits: "n + 7 * (i + 1) < 32" if "bit v' n" for n
      using "1.prems"(3) [of "7 + n"] that by (simp add: v'_def bit_simps)
    obtain bs where bs: "res = (out @ [low OR 0x80]) @ bs" "bs \<noteq> []" "i + 1 + length bs \<le> 5"
      "\<And>rest r. varint_decode_loop (bs @ rest) (i + 1) r =
         Inr (r OR push_bit (7 * (i + 1)) v', i + 1 + length bs)"
      using "1.IH" [OF room refl refl refl refl, of "i + 1"] False rec i bits
      by (auto simp flip: v'_def low_def)
    have cont: "(low OR 0x80) AND 0x80 \<noteq> 0"
    proof -
      have "bit ((low OR 0x80) AND 0x80) 7" by (simp add: mask_bits bit_simps)
      then show ?thesis by force
    qed
    have value7: "ucast ((low OR 0x80) AND 0x7f) = v AND 0x7f"
      by (rule bit_word_eqI) (auto simp: low_def mask_bits bit_simps)
    have join: "r OR push_bit (i * 7) (v AND 0x7f) OR push_bit (7 * (i + 1)) v' =
        r OR push_bit (7 * i) v" for r
    proof (rule bit_word_eqI)
      fix n :: nat
      assume "n < LENGTH(32)"
      then show "bit (r OR push_bit (i * 7) (v AND 0x7f) OR push_bit (7 * (i + 1)) v') n =
          bit (r OR push_bit (7 * i) v) n"
        by (cases "n < 7 + 7 * i") (auto simp: v'_def mask_bits bit_simps mult.commute)
    qed
    have "varint_decode_loop (((low OR 0x80) # bs) @ rest) i r =
        Inr (r OR push_bit (7 * i) v, i + length ((low OR 0x80) # bs))" for rest r
      using i cont by (simp add: value7 bs(4) [simplified] join [simplified] or.assoc)
    then show ?thesis
      using bs(1,3) by (intro exI [where x = "(low OR 0x80) # bs"]) simp
  qed
qed

lemma varint_encode_total:
  assumes "i < 5" and "\<And>n. bit v n \<Longrightarrow> n + 7 * i < 32" and "length out + (5 - i) \<le> capacity"
  shows "\<exists>res. varint_encode_loop v out capacity = Inr res"
  using assms
proof (induction v out capacity arbitrary: i rule: varint_encode_loop.induct)
  case (1 v out capacity)
  let ?v = "drop_bit 7 v"
  let ?byte = "ucast (v AND 0x7f) OR 0x80"
  have room: "\<not> capacity \<le> length out" using "1.prems" by simp
  show ?case
  proof (cases "?v = 0")
    case True
    then show ?thesis using room by (simp add: varint_encode_loop.simps [of v] Let_def)
  next
    case False
    have i: "i < 4"
    proof (rule ccontr)
      assume "\<not> i < 4"
      then have "?v = 0"
        by (intro bit_word_eqI) (use "1.prems"(2) in \<open>force simp: bit_simps\<close>)
      with False show False by simp
    qed
    have bits: "n + 7 * (i + 1) < 32" if "bit ?v n" for n
      using "1.prems"(2) [of "7 + n"] that by (simp add: bit_simps)
    have "\<exists>res. varint_encode_loop ?v (out @ [?byte]) capacity = Inr res"
      using "1.IH" [OF room refl refl refl refl, of "i + 1"] False i bits "1.prems"(3) by simp
    then show ?thesis using room False by (simp add: varint_encode_loop.simps [of v] Let_def)
  qed
qed

text \<open>A varint needs at most five bytes, and decoding the encoding, whatever follows it in the
  buffer, gives back the value and the length of the encoding.\<close>

theorem varint_roundtrip:
  "\<exists>bs. ls_varint_u32_encode v 5 = Inr bs \<and> length bs \<le> 5 \<and>
     ls_varint_u32_decode (bs @ rest) = Inr (v, length bs)"
proof -
  have bits: "n + 7 * 0 < 32" if "bit v n" for n
    using that by (auto dest: bit_imp_le_length)
  obtain bs where bs: "varint_encode_loop v [] 5 = Inr bs"
    using varint_encode_total [of 0 v "[]" 5] bits by auto
  with varint_encode_decode [OF bs, of 0] bits show ?thesis
    by (auto simp: ls_varint_u32_encode_def ls_varint_u32_decode_def)
qed

section \<open>The delta codec\<close>

lemma zigzag_decode_encode: "zigzag_decode (zigzag_encode v) = v"
proof -
  have sign: "sint v < 0 \<longleftrightarrow> bit v 31"
    using bit_last_iff [of v] by simp
  have low: "zigzag_encode v AND 1 = of_bool (bit v 31)"
    by (rule bit_word_eqI) (auto simp: zigzag_encode_def sign bit_simps bit_double_iff mult.commute [of v 2])
  show ?thesis
    unfolding zigzag_decode_def low
  proof (rule bit_word_eqI)
    fix n :: nat
    assume "n < LENGTH(32)"
    then show "bit (drop_bit 1 (zigzag_encode v) XOR - of_bool (bit v 31)) n = bit v n"
      by (cases "n = 31")
        (auto simp: zigzag_encode_def sign bit_simps bit_double_iff mult.commute [of v 2])
  qed
qed

lemma varint_encode_5:
  obtains bs where "ls_varint_u32_encode v 5 = Inr bs" and "bs \<noteq> []" and "length bs \<le> 5"
    and "\<And>rest. ls_varint_u32_decode (bs @ rest) = Inr (v, length bs)"
proof -
  have bits: "n + 7 * 0 < 32" if "bit v n" for n
    using that by (auto dest: bit_imp_le_length)
  obtain bs where bs: "varint_encode_loop v [] 5 = Inr bs"
    using varint_encode_total [of 0 v "[]" 5] bits by auto
  show ?thesis
    using varint_encode_decode [OF bs, of 0] bits bs that
    by (auto simp: ls_varint_u32_encode_def ls_varint_u32_decode_def)
qed

lemma delta_decode_encode_loop:
  assumes "delta_encode_loop vs ecap previous out = Inr res"
    and "length items + length vs \<le> capacity"
  shows "\<exists>bs. res = out @ bs \<and>
     (\<forall>pre. delta_decode_loop (pre @ bs) capacity (length pre) previous items = Inr (items @ vs))"
  using assms
proof (induction vs ecap previous out arbitrary: items rule: delta_encode_loop.induct)
  case (1 ecap previous out)
  then show ?case by (simp add: delta_decode_loop.simps)
next
  case (2 v vs ecap previous out)
  let ?z = "zigzag_encode (v - previous)"
  obtain bs where bs: "ls_varint_u32_encode ?z 5 = Inr bs" "bs \<noteq> []"
    and dec: "\<And>rest. ls_varint_u32_decode (bs @ rest) = Inr (?z, length bs)"
    using varint_encode_5 [of ?z] by blast
  have "delta_encode_loop vs ecap v (out @ bs) = Inr res"
    and fits: "\<not> length bs > ecap - length out"
    using "2.prems"(1) bs by (auto split: if_splits)
  then obtain cs where cs: "res = (out @ bs) @ cs"
    and rec: "\<And>pre. delta_decode_loop (pre @ cs) capacity (length pre) v (items @ [v]) =
        Inr (items @ v # vs)"
    using "2.IH" [OF bs(1) fits, of "items @ [v]"] "2.prems"(2) by auto
  have "delta_decode_loop (pre @ bs @ cs) capacity (length pre) previous items =
      Inr (items @ v # vs)" for pre
    using bs(2) "2.prems"(2) rec [of "pre @ bs"]
    by (subst delta_decode_loop.simps) (simp add: dec zigzag_decode_encode)
  with cs show ?case by (intro exI [where x = "bs @ cs"]) simp
qed

lemma delta_encode_total:
  "length out + 5 * length vs \<le> capacity \<Longrightarrow> \<exists>res. delta_encode_loop vs capacity previous out = Inr res"
proof (induction vs capacity previous out rule: delta_encode_loop.induct)
  case (1 capacity previous out)
  then show ?case by simp
next
  case (2 v vs capacity previous out)
  obtain bs where bs: "ls_varint_u32_encode (zigzag_encode (v - previous)) 5 = Inr bs"
    and len: "length bs \<le> 5"
    using varint_encode_5 by blast
  then show ?case using "2.IH" [OF bs] "2.prems" by auto
qed

text \<open>The delta codec gives back every sequence of 32-bit samples, wrap-around of the
  differences included, and five bytes per sample are always enough.\<close>

theorem delta_u32_roundtrip:
  assumes "5 * length values \<le> ecap" and "length values \<le> capacity"
  shows "\<exists>bs. ls_delta_u32_encode values ecap = Inr bs \<and>
     ls_delta_u32_decode bs capacity = Inr values"
proof -
  obtain bs where bs: "delta_encode_loop values ecap 0 [] = Inr bs"
    using delta_encode_total [of "[]" "values" ecap 0] assms by auto
  show ?thesis
    using delta_decode_encode_loop [OF bs, of "[]" capacity] bs assms
    by (auto simp: ls_delta_u32_encode_def ls_delta_u32_decode_def dest: spec [of _ "[]"])
qed

theorem delta_u32_roundtrip_witness:
  "\<exists>bs. ls_delta_u32_encode [5, 0xffffffff, 7] 15 = Inr bs \<and>
     ls_delta_u32_decode bs 3 = Inr [5, 0xffffffff, 7]"
  by (rule delta_u32_roundtrip) simp_all

section \<open>The run-length codec\<close>

lemma rle_run_spec:
  assumes "at + run \<le> length input" and "1 \<le> run" and "run \<le> 128"
    and "bslice at run input = replicate run (input ! at)"
  shows "rle_run input at run \<le> 128 \<and> at + rle_run input at run \<le> length input \<and>
    bslice at (rle_run input at run) input = replicate (rle_run input at run) (input ! at)"
  using assms
proof (induction input at run rule: rle_run.induct)
  case (1 input at run)
  show ?case
  proof (cases "at + run < length input \<and> input ! (at + run) = input ! at \<and> run < 128")
    case True
    then have "bslice at (run + 1) input = replicate (run + 1) (input ! at)"
      using 1 bslice_split [of at run 1 input]
      by (simp add: bslice_def take_Suc_conv_app_nth replicate_append_same)
    then show ?thesis
      using 1 True by (subst (1 2 3 4) rle_run.simps) simp
  next
    case False
    then have "rle_run input at run = run" by (subst rle_run.simps) auto
    then show ?thesis using 1 by simp
  qed
qed

lemma rle_run_1:
  assumes "at < length input"
  shows "1 \<le> rle_run input at 1" and "rle_run input at 1 \<le> 128"
    and "at + rle_run input at 1 \<le> length input"
    and "bslice at (rle_run input at 1) input = replicate (rle_run input at 1) (input ! at)"
  using rle_run_spec [of at 1 input] rle_run_ge [of 1 input at] assms
  by (auto simp: bslice_def take_Suc_conv_app_nth)

lemma rle_literal_end_spec:
  assumes "at \<le> length input" and "at - literal \<le> 128" and "literal \<le> at"
  shows "rle_literal_end input literal at \<le> length input \<and>
    rle_literal_end input literal at - literal \<le> 128"
  using assms
proof (induction input literal at rule: rle_literal_end.induct)
  case (1 input literal at)
  show ?case
  proof (cases "at < length input \<and> \<not> (3 \<le> rle_run input at 1 \<or> 128 < at - literal + rle_run input at 1)")
    case True
    then have "rle_literal_end input literal at =
        rle_literal_end input literal (at + rle_run input at 1)"
      by (subst rle_literal_end.simps) (simp add: Let_def)
    then show ?thesis using 1 True rle_run_1(3) [of at input] by simp
  next
    case False
    then have "rle_literal_end input literal at = at"
      by (subst rle_literal_end.simps) (auto simp: Let_def)
    then show ?thesis using 1 by simp
  qed
qed

lemma rle_literal_bounds:
  assumes "at < length input" and "rle_run input at 1 < 3"
  defines "e \<equiv> rle_literal_end input at (at + rle_run input at 1)"
  shows "at < e" and "e \<le> length input" and "e - at \<le> 128"
  using rle_run_1(1,3) [OF assms(1)] assms(2)
    rle_literal_end_ge [of "at + rle_run input at 1" input at]
    rle_literal_end_spec [of "at + rle_run input at 1" input at]
  by (auto simp: e_def)

lemma rle_run_control:
  assumes "n < 128"
  shows "(0x80 OR of_nat n :: u8) AND 0x80 \<noteq> 0" and "unat ((0x80 OR of_nat n :: u8) AND 0x7f) = n"
proof -
  have "bit ((0x80 OR of_nat n :: u8) AND 0x80) 7" by (simp add: mask_bits bit_simps)
  then show "(0x80 OR of_nat n :: u8) AND 0x80 \<noteq> 0" by force
  have "(0x80 OR of_nat n :: u8) AND 0x7f = take_bit 7 (of_nat n)"
    by (rule bit_word_eqI) (auto simp: mask_bits bit_simps)
  also have "\<dots> = of_nat n"
    using assms by (simp add: take_bit_of_nat take_bit_nat_eq_self)
  finally show "unat ((0x80 OR of_nat n :: u8) AND 0x7f) = n"
    using assms by (simp add: unat_of_nat)
qed

lemma rle_literal_control:
  assumes "n < 128"
  shows "(of_nat n :: u8) AND 0x80 = 0" and "unat ((of_nat n :: u8) AND 0x7f) = n"
proof -
  have small: "(of_nat n :: u8) = take_bit 7 (of_nat n)"
    using assms by (simp add: take_bit_of_nat take_bit_nat_eq_self)
  show "(of_nat n :: u8) AND 0x80 = 0"
    by (subst small, rule bit_word_eqI) (auto simp: mask_bits bit_simps)
  have "(of_nat n :: u8) AND 0x7f = take_bit 7 (of_nat n)"
    by (rule bit_word_eqI) (auto simp: mask_bits bit_simps)
  then show "unat ((of_nat n :: u8) AND 0x7f) = n"
    using assms by (simp add: unat_of_nat take_bit_of_nat take_bit_nat_eq_self)
qed

lemma rle_decompress_run:
  assumes "n < 128" and "length dout + n + 1 \<le> dcap"
  shows "rle_decompress_loop (pre @ (0x80 OR of_nat n) # b # bs) dcap (length pre) dout =
    rle_decompress_loop ((pre @ [0x80 OR of_nat n, b]) @ bs) dcap
      (length (pre @ [0x80 OR of_nat n, b])) (dout @ replicate (Suc n) b)"
  using assms rle_run_control [OF assms(1)]
  by (subst rle_decompress_loop.simps) (auto simp: Let_def nth_append)

lemma rle_decompress_literal:
  assumes "length lit = Suc n" and "n < 128" and "length dout + n + 1 \<le> dcap"
  shows "rle_decompress_loop (pre @ of_nat n # lit @ bs) dcap (length pre) dout =
    rle_decompress_loop ((pre @ of_nat n # lit) @ bs) dcap
      (length (pre @ of_nat n # lit)) (dout @ lit)"
  using assms rle_literal_control [OF assms(2)]
  by (subst rle_decompress_loop.simps) (auto simp: Let_def bslice_def)

lemma rle_compress_run:
  assumes "at < length input" and "run = rle_run input at 1" and "3 \<le> run"
  shows "rle_compress_loop input capacity at out =
    (if capacity - length out < 2 then Inl LS_ENOSPACE
     else rle_compress_loop input capacity (at + run)
            (out @ [0x80 OR of_nat (run - 1), input ! at]))"
  using assms by (subst rle_compress_loop.simps) (simp add: Let_def del: One_nat_def)

lemma rle_compress_literal:
  assumes "at < length input" and "run = rle_run input at 1" and "run < 3"
    and "e = rle_literal_end input at (at + run)"
  shows "rle_compress_loop input capacity at out =
    (if capacity - length out < e - at + 1 then Inl LS_ENOSPACE
     else rle_compress_loop input capacity e
            (out @ of_nat (e - at - 1) # bslice at (e - at) input))"
  using assms by (subst rle_compress_loop.simps) (simp add: Let_def del: One_nat_def)

lemma rle_decompress_compress_loop:
  assumes "rle_compress_loop input ccap at out = Inr res" and "at \<le> length input"
    and "length dout + (length input - at) \<le> dcap"
  shows "\<exists>bs. res = out @ bs \<and>
    (\<forall>pre. rle_decompress_loop (pre @ bs) dcap (length pre) dout = Inr (dout @ drop at input))"
  using assms
proof (induction input ccap at out arbitrary: dout rule: rle_compress_loop.induct)
  case (1 input ccap at out)
  define run where "run = rle_run input at 1"
  define e where "e = rle_literal_end input at (at + run)"
  consider (stop) "at = length input" | (run) "at < length input" "3 \<le> run"
    | (lit) "at < length input" "run < 3"
    using "1.prems"(2) by linarith
  then show ?case
  proof cases
    case stop
    then show ?thesis
      using "1.prems"(1) by (auto simp: rle_compress_loop.simps rle_decompress_loop.simps)
  next
    case run
    let ?c = "0x80 OR of_nat (run - 1) :: u8"
    have room: "\<not> ccap - length out < 2"
      and rec: "rle_compress_loop input ccap (at + run) (out @ [?c, input ! at]) = Inr res"
      using "1.prems"(1) unfolding rle_compress_run [OF run(1) run_def run(2)]
      by (simp_all split: if_splits)
    note r = rle_run_1 [OF run(1), folded run_def]
    have len: "length (dout @ replicate run (input ! at)) + (length input - (at + run)) \<le> dcap"
      using "1.prems"(3) r by simp
    obtain bs where bs: "res = (out @ [?c, input ! at]) @ bs"
      and dec: "\<And>pre. rle_decompress_loop (pre @ bs) dcap (length pre)
          (dout @ replicate run (input ! at)) =
        Inr ((dout @ replicate run (input ! at)) @ drop (at + run) input)"
      using "1.IH"(1) [OF run(1) run_def run(2) room rec r(3) len] by blast
    have split: "replicate run (input ! at) @ drop (at + run) input = drop at input"
      unfolding r(4) [symmetric] by (rule bslice_append_drop)
    have "rle_decompress_loop (pre @ ?c # input ! at # bs) dcap (length pre) dout =
        Inr (dout @ drop at input)" for pre
      using rle_decompress_run [of "run - 1" dout dcap pre "input ! at" bs]
        dec [of "pre @ [?c, input ! at]"] r(1,2,3) "1.prems"(3) split by simp
    with bs show ?thesis by (intro exI [where x = "?c # input ! at # bs"]) simp
  next
    case lit
    let ?n = "e - at"
    let ?c = "of_nat (?n - 1) :: u8"
    let ?l = "bslice at ?n input"
    have room: "\<not> ccap - length out < ?n + 1"
      and rec: "rle_compress_loop input ccap e (out @ ?c # ?l) = Inr res"
      using "1.prems"(1) unfolding rle_compress_literal [OF lit(1) run_def lit(2) e_def]
      by (simp_all split: if_splits)
    note b = rle_literal_bounds [OF lit(1) lit(2) [unfolded run_def], folded run_def, folded e_def]
    have len: "length (dout @ ?l) + (length input - e) \<le> dcap"
      using "1.prems"(3) b by simp
    obtain bs where bs: "res = (out @ ?c # ?l) @ bs"
      and dec: "\<And>pre. rle_decompress_loop (pre @ bs) dcap (length pre) (dout @ ?l) =
        Inr ((dout @ ?l) @ drop e input)"
      using "1.IH"(2) [OF lit(1) run_def _ e_def refl room rec b(2) len] lit(2) by auto
    have split: "?l @ drop e input = drop at input"
      using b bslice_append_drop [of at ?n input] by simp
    have l: "length ?l = Suc (?n - 1)" "?n - 1 < 128" "length dout + (?n - 1) + 1 \<le> dcap"
      using b "1.prems"(3) by auto
    have "rle_decompress_loop (pre @ ?c # ?l @ bs) dcap (length pre) dout =
        Inr (dout @ drop at input)" for pre
      unfolding rle_decompress_literal [OF l] dec by (simp only: append_assoc split)
    with bs show ?thesis by (intro exI [where x = "?c # ?l @ bs"]) simp
  qed
qed

lemma rle_literal_end_stop:
  "rle_literal_end input literal at < length input \<Longrightarrow> at \<le> length input \<Longrightarrow>
   3 \<le> rle_run input (rle_literal_end input literal at) 1 \<or>
   128 < rle_literal_end input literal at - literal +
     rle_run input (rle_literal_end input literal at) 1"
proof (induction input literal at rule: rle_literal_end.induct)
  case (1 input literal at)
  show ?case
  proof (cases "at < length input \<and> \<not> (3 \<le> rle_run input at 1 \<or> 128 < at - literal + rle_run input at 1)")
    case True
    then have "rle_literal_end input literal at =
        rle_literal_end input literal (at + rle_run input at 1)"
      by (subst rle_literal_end.simps) (simp add: Let_def)
    then show ?thesis using 1 True rle_run_1(3) [of at input] by simp
  next
    case False
    then have "rle_literal_end input literal at = at"
      by (subst rle_literal_end.simps) (auto simp: Let_def)
    then show ?thesis using 1 False by auto
  qed
qed

text \<open>The bound on the output; a block that opens with a run leaves one byte to spare.\<close>

definition rle_bound :: "nat \<Rightarrow> nat" where
  "rle_bound n = n + (n + 126) div 127"

lemma rle_bound_literal:
  "0 < k \<Longrightarrow> k + 1 \<le> rle_bound k"
  "127 \<le> k \<Longrightarrow> k + 1 + rle_bound m \<le> rle_bound (k + m)"
  "k + rle_bound m \<le> rle_bound (k + m)"
  by (auto simp: rle_bound_def div_le_mono)

lemma rle_compress_total:
  assumes "at \<le> length input"
    and "length out + rle_bound (length input - at) \<le>
      capacity + of_bool (at < length input \<and> 3 \<le> rle_run input at 1)"
  shows "\<exists>res. rle_compress_loop input capacity at out = Inr res"
  using assms
proof (induction input capacity at out rule: rle_compress_loop.induct)
  case (1 input capacity at out)
  define run where "run = rle_run input at 1"
  define e where "e = rle_literal_end input at (at + run)"
  consider (stop) "at = length input" | (run) "at < length input" "3 \<le> run"
    | (lit) "at < length input" "run < 3"
    using "1.prems"(1) by linarith
  then show ?case
  proof cases
    case stop
    then show ?thesis by (simp add: rle_compress_loop.simps)
  next
    case run
    note r = rle_run_1 [OF run(1), folded run_def]
    have "run + rle_bound (length input - (at + run)) \<le> rle_bound (length input - at)"
      using rle_bound_literal(3) [of run "length input - (at + run)"] r(3) by simp
    then have fits: "length out + 2 + rle_bound (length input - (at + run)) \<le> capacity"
      using "1.prems"(2) run unfolding run_def by simp
    then have room: "\<not> capacity - length out < 2" by simp
    have "\<exists>res. rle_compress_loop input capacity (at + run)
        (out @ [0x80 OR of_nat (run - 1), input ! at]) = Inr res"
      by (rule "1.IH"(1) [OF run(1) run_def run(2) room r(3)]) (use fits in simp)
    then show ?thesis
      unfolding rle_compress_run [OF run(1) run_def run(2)] using room by simp
  next
    case lit
    note b = rle_literal_bounds [OF lit(1) lit(2) [unfolded run_def], folded run_def, folded e_def]
    have tail: "e - at + 1 + rle_bound (length input - e) \<le> rle_bound (length input - at) +
        of_bool (e < length input \<and> 3 \<le> rle_run input e 1)"
    proof (cases "e < length input \<and> 127 > e - at")
      case True
      then have "3 \<le> rle_run input e 1"
        using rle_literal_end_stop [of input at "at + run", folded e_def]
          rle_run_1(3) [OF lit(1), folded run_def] True by linarith
      then show ?thesis
        using True b rle_bound_literal(3) [of "e - at" "length input - e"] by simp
    next
      case False
      show ?thesis
      proof (cases "e = length input")
        case True
        then show ?thesis using b rle_bound_literal(1) [of "e - at"] by (simp add: rle_bound_def)
      next
        case ne: False
        then have "e - at + 1 + rle_bound (length input - e) \<le> rle_bound (length input - at)"
          using False b rle_bound_literal(2) [of "e - at" "length input - e"] by simp
        then show ?thesis by linarith
      qed
    qed
    have fits: "length out + (e - at + 1) + rle_bound (length input - e) \<le>
        capacity + of_bool (e < length input \<and> 3 \<le> rle_run input e 1)"
      using "1.prems"(2) lit tail unfolding run_def by simp
    have "0 < rle_bound (length input - e)" if "e < length input"
      using that by (simp add: rle_bound_def)
    then have room: "\<not> capacity - length out < e - at + 1"
      using fits by (cases "e < length input") (auto simp: of_bool_def split: if_splits)
    have "\<exists>res. rle_compress_loop input capacity e
        (out @ of_nat (e - at - 1) # bslice at (e - at) input) = Inr res"
      using "1.IH"(2) [OF lit(1) run_def _ e_def refl room b(2)] lit(2) fits b by simp
    then show ?thesis
      unfolding rle_compress_literal [OF lit(1) run_def lit(2) e_def] using room by simp
  qed
qed

text \<open>C40: run-length compression needs at most one extra byte per 127 bytes of input, and
  decompressing its output into a buffer of the original size gives back the input.\<close>

theorem rle_roundtrip:
  assumes "length input + (length input + 126) div 127 \<le> ccap" and "length input \<le> dcap"
  shows "\<exists>bs. ls_rle_compress input ccap = Inr bs \<and> ls_rle_decompress bs dcap = Inr input"
proof -
  obtain bs where bs: "rle_compress_loop input ccap 0 [] = Inr bs"
    using rle_compress_total [of 0 input "[]" ccap] assms by (auto simp: rle_bound_def)
  show ?thesis
    using rle_decompress_compress_loop [OF bs, of "[]" dcap] bs assms
    by (auto simp: ls_rle_compress_def ls_rle_decompress_def dest: spec [of _ "[]"])
qed

theorem rle_roundtrip_witness:
  "\<exists>bs. ls_rle_compress [1, 2, 2, 3, 3, 3, 3] 8 = Inr bs \<and>
     ls_rle_decompress bs 7 = Inr [1, 2, 2, 3, 3, 3, 3]"
  by (rule rle_roundtrip) simp_all

end
