(* ===== verification/LS_Util.thy ===== *)
theory LS_Util
  imports LS_Prelude
begin

text \<open>
  \<^verbatim>\<open>src/core/util.c\<close>: comparison, C strings, the CRC-32 and FNV-1a loops, and the bounded
  writer every encoder uses. A \<^verbatim>\<open>const char *\<close> is an optional byte list (\<open>None\<close> is the null
  pointer) that holds the characters before the terminating NUL; a fixed character array of a
  structure holds the same. A writer keeps the bytes written so far and its capacity.
\<close>

section \<open>Memory and strings\<close>

type_synonym cstring = "8 word list"

fun ls_memcmp :: "bytes \<Rightarrow> bytes \<Rightarrow> nat \<Rightarrow> int" where
  "ls_memcmp (a # as) (b # bs) (Suc n) =
     (if a \<noteq> b then (if a < b then -1 else 1) else ls_memcmp as bs n)"
| "ls_memcmp _ _ _ = 0"

definition ls_memset :: "nat \<Rightarrow> u8 \<Rightarrow> nat \<Rightarrow> bytes \<Rightarrow> bytes" where
  "ls_memset off v n dst = overwrite off (replicate n v) dst"

definition ls_string_length :: "cstring option \<Rightarrow> nat" where
  "ls_string_length text = (case text of None \<Rightarrow> 0 | Some t \<Rightarrow> length t)"

fun copy_string_loop :: "nat \<Rightarrow> nat \<Rightarrow> cstring \<Rightarrow> cstring" where
  "copy_string_loop at sz [] = []"
| "copy_string_loop at sz (c # cs) =
     (if at + 1 < sz then c # copy_string_loop (at + 1) sz cs else [])"

definition ls_copy_string :: "cstring \<Rightarrow> nat \<Rightarrow> cstring option \<Rightarrow> cstring" where
  "ls_copy_string dst sz src =
     (if sz = 0 then dst
      else (case src of None \<Rightarrow> [] | Some t \<Rightarrow> copy_string_loop 0 sz t))"

section \<open>Checksums and hashes\<close>

definition crc_bit :: "u32 \<Rightarrow> u32" where
  "crc_bit crc = drop_bit 1 crc XOR (0xedb88320 AND - (crc AND 1))"

definition crc_byte :: "u32 \<Rightarrow> u8 \<Rightarrow> u32" where
  "crc_byte crc b = (crc_bit ^^ 8) (crc XOR ucast b)"

definition crc_update :: "u32 \<Rightarrow> bytes \<Rightarrow> u32" where
  "crc_update crc data = foldl crc_byte crc data"

definition ls_crc32 :: "bytes \<Rightarrow> u32" where
  "ls_crc32 data = NOT (crc_update 0xffffffff data)"

definition ls_hash_string :: "cstring option \<Rightarrow> u32" where
  "ls_hash_string text =
     (case text of None \<Rightarrow> 0
      | Some t \<Rightarrow> foldl (\<lambda>hash c. (hash XOR ucast c) * 16777619) 2166136261 t)"

section \<open>The bounded writer\<close>

record ls_writer =
  w_data :: bytes
  w_capacity :: nat

definition w_length :: "ls_writer \<Rightarrow> nat" where
  "w_length w = length (w_data w)"

definition writer_init :: "nat \<Rightarrow> ls_writer" where
  "writer_init cap = \<lparr>w_data = [], w_capacity = cap\<rparr>"

text \<open>A source pointer is an optional buffer; a write copies its first \<open>n\<close> bytes.\<close>

definition ls_writer_write :: "bytes option \<Rightarrow> nat \<Rightarrow> ls_writer \<Rightarrow> ls_result \<times> ls_writer" where
  "ls_writer_write data n w =
     (if (data = None \<and> n \<noteq> 0) \<or> w_length w > w_capacity w \<or> n > w_capacity w - w_length w
      then (LS_ENOSPACE, w)
      else (LS_OK, w\<lparr>w_data := w_data w @ (case data of None \<Rightarrow> [] | Some d \<Rightarrow> take n d)\<rparr>))"

definition ls_writer_u8 :: "u8 \<Rightarrow> ls_writer \<Rightarrow> ls_result \<times> ls_writer" where
  "ls_writer_u8 v = ls_writer_write (Some [v]) 1"

definition ls_writer_u16 :: "u16 \<Rightarrow> ls_writer \<Rightarrow> ls_result \<times> ls_writer" where
  "ls_writer_u16 v = ls_writer_write (Some (le16 v)) 2"

definition ls_writer_u32 :: "u32 \<Rightarrow> ls_writer \<Rightarrow> ls_result \<times> ls_writer" where
  "ls_writer_u32 v = ls_writer_write (Some (le32 v)) 4"

definition ls_writer_u64 :: "u64 \<Rightarrow> ls_writer \<Rightarrow> ls_result \<times> ls_writer" where
  "ls_writer_u64 v = ls_writer_write (Some (le64 v)) 8"

definition ls_writer_tlv :: "u16 \<Rightarrow> bytes option \<Rightarrow> u16 \<Rightarrow> ls_writer \<Rightarrow> ls_result \<times> ls_writer" where
  "ls_writer_tlv ty val len w =
     (if w_length w > w_capacity w \<or> unat len + 4 > w_capacity w - w_length w
      then (LS_ENOSPACE, w)
      else ls_seq [ls_writer_u16 ty, ls_writer_u16 len,
                   ls_writer_write val (unat len)] w)"

text \<open>The well-formedness every writer operation keeps.\<close>

definition writer_ok :: "ls_writer \<Rightarrow> bool" where
  "writer_ok w \<longleftrightarrow> w_length w \<le> w_capacity w"

section \<open>Facts about comparison and strings\<close>

lemma ls_memcmp_eq_0:
  "n \<le> length xs \<Longrightarrow> n \<le> length ys \<Longrightarrow> ls_memcmp xs ys n = 0 \<longleftrightarrow> take n xs = take n ys"
  by (induction xs ys n rule: ls_memcmp.induct) auto

lemma copy_string_loop_take: "copy_string_loop at sz s = take (sz - Suc at) s"
  by (induction at sz s rule: copy_string_loop.induct) (auto simp: take_Cons' Suc_diff_Suc)

lemma ls_copy_string_fits: "0 < sz \<Longrightarrow> length (ls_copy_string dst sz src) < sz"
  by (auto simp: ls_copy_string_def copy_string_loop_take split: option.split)

section \<open>Facts about the CRC\<close>

lemma crc_update_Nil [simp]: "crc_update c [] = c"
  by (simp add: crc_update_def)

lemma crc_update_Cons [simp]: "crc_update c (b # bs) = crc_update (crc_byte c b) bs"
  by (simp add: crc_update_def)

lemma crc_update_append: "crc_update c (xs @ ys) = crc_update (crc_update c xs) ys"
  by (simp add: crc_update_def)

lemma crc_bit_if: "crc_bit c = drop_bit 1 c XOR (if bit c 0 then 0xedb88320 else 0)"
  by (simp add: crc_bit_def and_one_eq mod_2_eq_odd bit_0)

lemma crc_bit_xor: "crc_bit (x XOR y) = crc_bit x XOR crc_bit y"
  by (rule bit_word_eqI) (auto simp: crc_bit_if bit_simps)

lemma crc_bit_0 [simp]: "crc_bit 0 = 0"
  by (simp add: crc_bit_def)

text \<open>The polynomial has its top bit set, so one shift step loses nothing.\<close>

lemma crc_bit_eq_0: "crc_bit x = 0 \<Longrightarrow> x = 0"
proof -
  assume 0: "crc_bit x = 0"
  have "bit (crc_bit x) 31 = bit x 0"
    by (simp add: crc_bit_if bit_simps) (auto dest: bit_imp_le_length)
  with 0 have even: "\<not> bit x 0" by simp
  with 0 have shifted: "drop_bit 1 x = 0" by (simp add: crc_bit_if)
  show "x = 0"
  proof (rule bit_word_eqI)
    fix n :: nat
    assume "n < LENGTH(32)"
    show "bit x n = bit 0 n"
    proof (cases n)
      case 0
      with even show ?thesis by simp
    next
      case (Suc m)
      have "bit (drop_bit 1 x) m = bit x (Suc m)" by (simp add: bit_simps)
      with shifted Suc show ?thesis by simp
    qed
  qed
qed

lemma crc_bits_xor: "(crc_bit ^^ n) (x XOR y) = (crc_bit ^^ n) x XOR (crc_bit ^^ n) y"
  by (induction n) (simp_all add: crc_bit_xor)

lemma crc_bits_eq_0: "(crc_bit ^^ n) x = 0 \<Longrightarrow> x = 0"
  by (induction n) (auto dest: crc_bit_eq_0)

lemma xor_eq_0_imp_eq:
  fixes x y :: "'a::len word"
  assumes "x XOR y = 0"
  shows "x = y"
proof -
  have "x = (x XOR y) XOR y" by (simp add: xor.assoc)
  then show ?thesis using assms by simp
qed

lemma xor_right_inject:
  fixes x y z :: "'a::len word"
  shows "x XOR z = y XOR z \<longleftrightarrow> x = y"
proof
  assume "x XOR z = y XOR z"
  then have "(x XOR z) XOR z = (y XOR z) XOR z" by simp
  then show "x = y" by (simp add: xor.assoc)
qed simp

lemma crc_bits_inject: "(crc_bit ^^ n) x = (crc_bit ^^ n) y \<longleftrightarrow> x = y"
proof
  assume "(crc_bit ^^ n) x = (crc_bit ^^ n) y"
  then have "(crc_bit ^^ n) (x XOR y) = 0" by (simp add: crc_bits_xor)
  then have "x XOR y = 0" by (rule crc_bits_eq_0)
  then show "x = y" by (rule xor_eq_0_imp_eq)
qed simp

lemma crc_update_inject: "crc_update c xs = crc_update d xs \<longleftrightarrow> c = d"
proof (induction xs arbitrary: c d)
  case Nil
  then show ?case by simp
next
  case (Cons b xs)
  have "crc_byte c b = crc_byte d b \<longleftrightarrow> c XOR ucast b = d XOR ucast b"
    by (simp add: crc_byte_def crc_bits_inject)
  also have "\<dots> \<longleftrightarrow> c = d"
    by (rule xor_right_inject)
  finally show ?case by (simp add: Cons.IH)
qed

text \<open>
  Up to four bytes enter the register like one 32-bit word: shifting a word that fits above
  the bits being consumed only moves it down.
\<close>

primrec burst_word :: "bytes \<Rightarrow> u32" where
  "burst_word [] = 0"
| "burst_word (b # bs) = ucast b XOR push_bit 8 (burst_word bs)"

lemma bit_burst_word: "bit (burst_word bs) i \<Longrightarrow> i < 8 * length bs"
proof (induction bs arbitrary: i)
  case Nil
  then show ?case by simp
next
  case (Cons b bs)
  then have "bit b i \<or> (8 \<le> i \<and> bit (burst_word bs) (i - 8))"
    by (auto simp: bit_simps)
  then show ?case
    using Cons.IH [of "i - 8"] by (auto dest: bit_imp_le_length)
qed

lemma crc_bits_push:
  assumes "\<And>i. bit w i \<Longrightarrow> i + n < 32"
  shows "(crc_bit ^^ n) (push_bit n w) = w"
  using assms
proof (induction n)
  case 0
  then show ?case by simp
next
  case (Suc n)
  have "drop_bit 1 (push_bit (Suc n) w) = push_bit n w"
  proof (rule bit_word_eqI)
    fix k :: nat
    assume "k < LENGTH(32)"
    have "Suc k < 32" if "bit w (k - n)" and "n \<le> k"
      using Suc.prems [OF that(1)] that(2) by simp
    then show "bit (drop_bit 1 (push_bit (Suc n) w)) k = bit (push_bit n w) k"
      using \<open>k < LENGTH(32)\<close> by (auto simp: bit_simps simp del: push_bit_Suc)
  qed
  then have "crc_bit (push_bit (Suc n) w) = push_bit n w"
    by (simp add: crc_bit_if bit_simps del: push_bit_Suc)
  moreover have "(crc_bit ^^ n) (push_bit n w) = w"
    by (rule Suc.IH) (use Suc.prems in fastforce)
  ultimately show ?case by (simp del: funpow.simps push_bit_Suc add: funpow_Suc_right)
qed

lemma crc_update_burst:
  "length bs \<le> 4 \<Longrightarrow> crc_update c bs = (crc_bit ^^ (8 * length bs)) (c XOR burst_word bs)"
proof (induction bs arbitrary: c)
  case Nil
  then show ?case by simp
next
  case (Cons b bs)
  let ?w = "burst_word bs"
  have "(crc_bit ^^ 8) (push_bit 8 ?w) = ?w"
    by (rule crc_bits_push) (use Cons.prems bit_burst_word [of bs] in fastforce)
  then have "crc_byte c b XOR ?w = (crc_bit ^^ 8) (c XOR burst_word (b # bs))"
    by (simp add: crc_byte_def crc_bits_xor xor.assoc)
  with Cons show ?case
    using funpow_add [of "8 * length bs" 8 crc_bit] by (simp add: add.commute)
qed

lemma burst_word_inject:
  "length xs = length ys \<Longrightarrow> length xs \<le> 4 \<Longrightarrow> burst_word xs = burst_word ys \<longleftrightarrow> xs = ys"
proof (induction xs ys rule: list_induct2)
  case Nil
  then show ?case by simp
next
  case (Cons x xs y ys)
  have low: "bit (burst_word (b # bs)) i = bit b i" if "i < 8" for b bs i
    using that by (simp add: bit_simps)
  have high: "bit (burst_word (b # bs)) (i + 8) = bit (burst_word bs) i"
    if "length bs \<le> 3" for b bs i
    using that bit_burst_word [of bs i] by (auto simp: bit_simps dest: bit_imp_le_length)
  show ?case
  proof
    assume eq: "burst_word (x # xs) = burst_word (y # ys)"
    have "x = y"
    proof (rule bit_word_eqI)
      fix n :: nat
      assume "n < LENGTH(8)"
      then show "bit x n = bit y n"
        using low [of n x xs] low [of n y ys] by (simp add: eq del: burst_word.simps)
    qed
    moreover have "burst_word xs = burst_word ys"
    proof (rule bit_word_eqI)
      fix n :: nat
      have "length xs \<le> 3" and "length ys \<le> 3" using Cons.hyps Cons.prems by simp_all
      then show "bit (burst_word xs) n = bit (burst_word ys) n"
        using high [of xs x n] high [of ys y n] eq by metis
    qed
    ultimately show "x # xs = y # ys" using Cons by simp
  qed simp
qed

lemma crc32_burst_differs:
  assumes "length xs = length ys" and "length xs \<le> 4" and "xs \<noteq> ys"
  shows "ls_crc32 (pre @ xs @ post) \<noteq> ls_crc32 (pre @ ys @ post)"
proof -
  let ?c = "crc_update 0xffffffff pre"
  have "burst_word xs \<noteq> burst_word ys" using assms by (simp add: burst_word_inject)
  then have "burst_word xs XOR ?c \<noteq> burst_word ys XOR ?c" by (simp add: xor_right_inject)
  then have "crc_update ?c xs \<noteq> crc_update ?c ys"
    using assms by (simp add: crc_update_burst crc_bits_inject xor.commute [of ?c])
  then show ?thesis
    by (simp add: ls_crc32_def crc_update_append crc_update_inject)
qed

text \<open>A corruption confined to at most four consecutive bytes, anywhere in a buffer, always
  changes the CRC-32 the code stores with it.\<close>

theorem crc32_detects_burst:
  assumes "length xs = length ys" and "length xs \<le> 4" and "xs \<noteq> ys"
  shows "ls_crc32 (pre @ xs @ post) \<noteq> ls_crc32 (pre @ ys @ post)"
  using assms by (rule crc32_burst_differs)

theorem crc32_detects_burst_witness:
  "ls_crc32 ([0x31, 0x32] @ [0x33, 0] @ [0x35]) \<noteq> ls_crc32 ([0x31, 0x32] @ [0x33, 0x34] @ [0x35])"
  by (rule crc32_detects_burst) simp_all

section \<open>Facts about the writer\<close>

lemma writer_write_ok:
  "writer_ok w \<Longrightarrow> w_length w + n \<le> w_capacity w \<Longrightarrow> n \<le> length d \<Longrightarrow>
   ls_writer_write (Some d) n w = (LS_OK, w\<lparr>w_data := w_data w @ take n d\<rparr>)"
  by (auto simp: ls_writer_write_def writer_ok_def)

lemma writer_write_full:
  "w_capacity w < w_length w + n \<Longrightarrow> ls_writer_write d n w = (LS_ENOSPACE, w)"
  by (auto simp: ls_writer_write_def)

lemma writer_write_invariant:
  "writer_ok w \<Longrightarrow>
   writer_ok (snd (ls_writer_write d n w))"
  by (auto simp: ls_writer_write_def writer_ok_def w_length_def split: option.split)

lemma writer_init_ok [simp]: "writer_ok (writer_init cap)"
  by (simp add: writer_ok_def writer_init_def w_length_def)

text \<open>Writing a TLV is all or nothing: with room for the four header bytes and the value,
  exactly type, length and value are appended; otherwise the writer is left as it was and
  \<open>LS_ENOSPACE\<close> is returned. It never goes past the capacity.\<close>

theorem writer_tlv_all_or_nothing:
  assumes "writer_ok w" and "unat len \<le> length val"
  shows "ls_writer_tlv ty (Some val) len w =
     (if w_length w + 4 + unat len \<le> w_capacity w
      then (LS_OK, w\<lparr>w_data := w_data w @ le16 ty @ le16 len @ take (unat len) val\<rparr>)
      else (LS_ENOSPACE, w)) \<and>
     writer_ok (snd (ls_writer_tlv ty (Some val) len w))"
  using assms
  by (auto simp: ls_writer_tlv_def ls_writer_u16_def ls_writer_write_def writer_ok_def w_length_def)

theorem writer_tlv_all_or_nothing_witness:
  "ls_writer_tlv 0x0102 (Some [7, 8, 9]) 3 (writer_init 7) =
     (LS_OK, \<lparr>w_data = [2, 1, 3, 0, 7, 8, 9], w_capacity = 7\<rparr>)"
  using writer_tlv_all_or_nothing [where w = "writer_init 7" and len = 3 and val = "[7, 8, 9]"
      and ty = "0x0102"]
  by (simp add: writer_init_def w_length_def writer_ok_def le16_def)

end
