(* ===== verification/LS_Fault_Injection.thy ===== *)
theory LS_Fault_Injection
  imports LS_Util
begin

text \<open>
  \<^verbatim>\<open>src/core/fault_injection.c\<close>: the table of armed faults inside \<^verbatim>\<open>ls_runtime\<close>. The table is a
  list whose length is \<^verbatim>\<open>LS_FAULT_INJECTION_CAPACITY\<close>; the storage and spool code asks it at
  named points whether an operation should fail there.
\<close>

section \<open>State\<close>

record ls_fault_injection_state =
  name_hash :: u32
  hits :: u32
  trigger_hit :: u32
  fi_result :: ls_result
  armed :: bool

definition zero_fault :: ls_fault_injection_state where
  "zero_fault = \<lparr>name_hash = 0, hits = 0, trigger_hit = 0, fi_result = LS_OK, armed = False\<rparr>"

record ls_faults =
  fault_injections :: "ls_fault_injection_state list"
  fault_injection_active :: bool

text \<open>The characters of a string literal of the code.\<close>

definition cstr :: "string \<Rightarrow> cstring" where
  "cstr s = map of_char s"

section \<open>Operations\<close>

fun first_index :: "('a \<Rightarrow> bool) \<Rightarrow> 'a list \<Rightarrow> nat option" where
  "first_index P [] = None"
| "first_index P (x # xs) = (if P x then Some 0 else map_option Suc (first_index P xs))"

definition find_state :: "u32 \<Rightarrow> ls_faults \<Rightarrow> nat option" where
  "find_state hash f = first_index (\<lambda>s. armed s \<and> name_hash s = hash) (fault_injections f)"

definition ls_fault_injection_arm ::
  "cstring option \<Rightarrow> u32 \<Rightarrow> ls_result \<Rightarrow> ls_faults \<Rightarrow> ls_result \<times> ls_faults" where
  "ls_fault_injection_arm name trigger result f =
     (if name = None \<or> name = Some [] \<or> trigger = 0 \<or> result = LS_OK then (LS_EINVAL, f)
      else let hash = ls_hash_string name;
               slot = (case find_state hash f of
                         Some i \<Rightarrow> Some i
                       | None \<Rightarrow> first_index (\<lambda>s. \<not> armed s) (fault_injections f))
           in case slot of
                None \<Rightarrow> (LS_ENOSPACE, f)
              | Some i \<Rightarrow>
                  (LS_OK,
                   f\<lparr>fault_injections := (fault_injections f)
                        [i := \<lparr>name_hash = hash, hits = 0, trigger_hit = trigger,
                              fi_result = result, armed = True\<rparr>],
                     fault_injection_active := True\<rparr>))"

definition ls_fault_injection_disarm :: "cstring option \<Rightarrow> ls_faults \<Rightarrow> ls_faults" where
  "ls_fault_injection_disarm name f =
     (if name = None then f
      else let table = (case find_state (ls_hash_string name) f of
                          None \<Rightarrow> fault_injections f
                        | Some i \<Rightarrow> (fault_injections f)[i := zero_fault])
           in f\<lparr>fault_injections := table, fault_injection_active := list_ex armed table\<rparr>)"

definition ls_fault_injection_clear :: "ls_faults \<Rightarrow> ls_faults" where
  "ls_fault_injection_clear f =
     f\<lparr>fault_injections := map (\<lambda>_. zero_fault) (fault_injections f),
       fault_injection_active := False\<rparr>"

definition count_hit :: "ls_fault_injection_state \<Rightarrow> ls_fault_injection_state" where
  "count_hit s = (if hits s \<noteq> - 1 then s\<lparr>hits := hits s + 1\<rparr> else s)"

definition ls_fault_injection_hit :: "cstring option \<Rightarrow> ls_faults \<Rightarrow> ls_result \<times> ls_faults" where
  "ls_fault_injection_hit name f =
     (if name = None then (LS_EINVAL, f)
      else if \<not> fault_injection_active f then (LS_OK, f)
      else case find_state (ls_hash_string name) f of
             None \<Rightarrow> (LS_OK, f)
           | Some i \<Rightarrow>
               let s = count_hit (fault_injections f ! i)
               in (if hits s = trigger_hit s then fi_result s else LS_OK,
                   f\<lparr>fault_injections := (fault_injections f)[i := s]\<rparr>))"

definition ls_fault_injection_get ::
  "cstring option \<Rightarrow> ls_faults \<Rightarrow> ls_result + ls_fault_injection_state" where
  "ls_fault_injection_get name f =
     (if name = None then Inl LS_EINVAL
      else case find_state (ls_hash_string name) f of
             None \<Rightarrow> Inl LS_EAGAIN
           | Some i \<Rightarrow> Inr (fault_injections f ! i))"

section \<open>Facts\<close>

lemma first_index_SomeD:
  "first_index P xs = Some i \<Longrightarrow> i < length xs \<and> P (xs ! i) \<and> (\<forall>j<i. \<not> P (xs ! j))"
proof (induction xs arbitrary: i)
  case Nil
  then show ?case by simp
next
  case (Cons x xs)
  then show ?case by (auto simp: nth_Cons split: if_splits nat.split)
qed

lemma first_index_None [simp]: "first_index P xs = None \<longleftrightarrow> (\<forall>x\<in>set xs. \<not> P x)"
  by (induction xs) auto

lemma first_index_eqI:
  "i < length xs \<Longrightarrow> P (xs ! i) \<Longrightarrow> (\<And>j. j < i \<Longrightarrow> \<not> P (xs ! j)) \<Longrightarrow> first_index P xs = Some i"
proof (induction xs arbitrary: i)
  case Nil
  then show ?case by simp
next
  case (Cons x xs)
  show ?case
  proof (cases i)
    case 0
    then show ?thesis using Cons.prems by simp
  next
    case (Suc k)
    have "first_index P xs = Some k"
      by (rule Cons.IH) (use Cons.prems Suc in \<open>fastforce+\<close>)
    then show ?thesis using Cons.prems(3) [of 0] Suc by simp
  qed
qed

text \<open>The summary flag is set exactly when some entry is armed, and an armed entry never carries
  \<open>LS_OK\<close>.\<close>

definition faults_ok :: "ls_faults \<Rightarrow> bool" where
  "faults_ok f \<longleftrightarrow>
     fault_injection_active f = list_ex armed (fault_injections f) \<and>
     list_all (\<lambda>s. armed s \<longrightarrow> fi_result s \<noteq> LS_OK \<and> trigger_hit s \<noteq> 0) (fault_injections f)"

lemma hit_inactive [simp]:
  "\<not> fault_injection_active f \<Longrightarrow> ls_fault_injection_hit (Some n) f = (LS_OK, f)"
  by (simp add: ls_fault_injection_hit_def)

lemma arm_faults_ok: "faults_ok f \<Longrightarrow> faults_ok (snd (ls_fault_injection_arm name t r f))"
  by (auto simp: ls_fault_injection_arm_def faults_ok_def find_state_def Let_def list_all_length
      list_ex_length nth_list_update split: option.splits if_splits
      dest!: first_index_SomeD)

lemma disarm_faults_ok: "faults_ok f \<Longrightarrow> faults_ok (ls_fault_injection_disarm name f)"
  by (auto simp: ls_fault_injection_disarm_def faults_ok_def zero_fault_def Let_def list_all_length
      nth_list_update find_state_def split: option.split if_splits dest!: first_index_SomeD)

lemma clear_faults_ok: "faults_ok (ls_fault_injection_clear f)"
  by (auto simp: ls_fault_injection_clear_def faults_ok_def zero_fault_def list_all_length
      list_ex_iff)

lemma hit_faults_ok: "faults_ok f \<Longrightarrow> faults_ok (snd (ls_fault_injection_hit name f))"
  by (auto simp: ls_fault_injection_hit_def faults_ok_def count_hit_def Let_def list_all_length
      list_ex_length nth_list_update find_state_def split: option.split if_splits dest!: first_index_SomeD)

section \<open>When a fault fires\<close>

text \<open>The entry of \<open>name\<close> after \<open>k\<close> hits.\<close>

definition fault_counts :: "cstring \<Rightarrow> nat \<Rightarrow> u32 \<Rightarrow> ls_result \<Rightarrow> ls_faults \<Rightarrow> bool" where
  "fault_counts name k t r f \<longleftrightarrow> fault_injection_active f \<and>
     (\<exists>i. find_state (ls_hash_string (Some name)) f = Some i \<and>
        fault_injections f ! i = \<lparr>name_hash = ls_hash_string (Some name), hits = of_nat k,
          trigger_hit = t, fi_result = r, armed = True\<rparr>)"

lemma find_state_update:
  assumes "i < length (fault_injections f)" and "armed s" and "name_hash s = h"
    and "\<And>j. j < i \<Longrightarrow> \<not> (armed (fault_injections f ! j) \<and> name_hash (fault_injections f ! j) = h)"
  shows "find_state h (f\<lparr>fault_injections := (fault_injections f)[i := s]\<rparr>) = Some i"
  unfolding find_state_def by (rule first_index_eqI) (use assms in auto)

lemma arm_fault_counts:
  assumes "ls_fault_injection_arm (Some name) t r f = (LS_OK, f')"
  shows "fault_counts name 0 t r f'"
proof -
  let ?h = "ls_hash_string (Some name)"
  let ?s = "\<lparr>name_hash = ?h, hits = 0, trigger_hit = t, fi_result = r, armed = True\<rparr>"
  obtain i where i: "find_state ?h f = Some i \<or>
      find_state ?h f = None \<and> first_index (\<lambda>s. \<not> armed s) (fault_injections f) = Some i"
    and f': "f' = f\<lparr>fault_injections := (fault_injections f)[i := ?s],
        fault_injection_active := True\<rparr>"
    using assms
    by (auto simp: ls_fault_injection_arm_def Let_def split: if_splits option.splits)
  have len: "i < length (fault_injections f)"
    using i by (auto simp: find_state_def dest: first_index_SomeD)
  have before: "\<not> (armed (fault_injections f ! j) \<and> name_hash (fault_injections f ! j) = ?h)"
    if "j < i" for j
    using i that len
    by (auto simp: find_state_def dest: first_index_SomeD)
  have "find_state ?h f' = Some i"
    using find_state_update [OF len _ _ before, of ?s] by (simp add: f' find_state_def)
  then show ?thesis using len by (simp add: fault_counts_def f')
qed

lemma hit_fault_counts:
  assumes "fault_counts name k t r f" and "k < UINT32_MAX"
  shows "fst (ls_fault_injection_hit (Some name) f) = (if of_nat (Suc k) = t then r else LS_OK)"
    and "fault_counts name (Suc k) t r (snd (ls_fault_injection_hit (Some name) f))"
proof -
  let ?h = "ls_hash_string (Some name)"
  obtain i where act: "fault_injection_active f" and i: "find_state ?h f = Some i"
    and e: "fault_injections f ! i = \<lparr>name_hash = ?h, hits = of_nat k, trigger_hit = t,
       fi_result = r, armed = True\<rparr>"
    using assms(1) by (auto simp: fault_counts_def)
  have "unat (of_nat k :: u32) \<noteq> unat (- 1 :: u32)"
    using assms(2) by (simp add: UINT32_MAX_def unat_of_nat unsigned_minus_1_eq_mask
        mask_eq_exp_minus_1)
  then have "(of_nat k :: u32) \<noteq> - 1" by metis
  then have step: "count_hit (fault_injections f ! i) = \<lparr>name_hash = ?h, hits = of_nat (Suc k),
      trigger_hit = t, fi_result = r, armed = True\<rparr>"
    by (simp add: count_hit_def e add.commute)
  note at = first_index_SomeD [OF i [unfolded find_state_def]]
  show "fst (ls_fault_injection_hit (Some name) f) = (if of_nat (Suc k) = t then r else LS_OK)"
    by (simp add: ls_fault_injection_hit_def act i step Let_def del: of_nat_Suc)
  have "find_state ?h (f\<lparr>fault_injections := (fault_injections f)[i := count_hit (fault_injections f ! i)]\<rparr>) = Some i"
    by (rule find_state_update) (use at step in auto)
  then show "fault_counts name (Suc k) t r (snd (ls_fault_injection_hit (Some name) f))"
    using at
    by (simp add: ls_fault_injection_hit_def act i step Let_def fault_counts_def del: of_nat_Suc)
qed

lemma hits_fault_counts:
  assumes "fault_counts name 0 t r f" and "n < UINT32_MAX"
  shows "fault_counts name n t r (((\<lambda>g. snd (ls_fault_injection_hit (Some name) g)) ^^ n) f)"
  using assms(2)
proof (induction n)
  case 0
  then show ?case using assms(1) by simp
next
  case (Suc n)
  then show ?case using hit_fault_counts(2) [of name n] by simp
qed

text \<open>An armed fault fires exactly at its trigger: of the hits of its point that follow the
  arming, the one numbered \<open>trigger\<close> returns the armed result and every other returns \<open>LS_OK\<close>
  (up to the saturation of the 32-bit hit counter).\<close>

theorem fault_fires_at_trigger:
  assumes "ls_fault_injection_arm (Some name) t r f = (LS_OK, f')" and "n < UINT32_MAX"
  shows "fst (ls_fault_injection_hit (Some name)
       (((\<lambda>g. snd (ls_fault_injection_hit (Some name) g)) ^^ n) f')) =
     (if Suc n = unat t then r else LS_OK)"
proof -
  have "of_nat (Suc n) = t \<longleftrightarrow> Suc n = unat t"
    using assms(2) unat_of_nat [of "Suc n", where 'a = 32]
    by (auto simp: UINT32_MAX_def simp del: of_nat_Suc)
  then show ?thesis
    using hit_fault_counts(1) [OF hits_fault_counts [OF arm_fault_counts [OF assms(1)] assms(2)]
        assms(2)] by simp
qed

definition faults_none :: ls_faults where
  "faults_none = \<lparr>fault_injections = replicate 2 zero_fault, fault_injection_active = False\<rparr>"

theorem fault_fires_at_trigger_witness:
  "\<exists>f'. ls_fault_injection_arm (Some [0x61]) 2 LS_EIO faults_none = (LS_OK, f') \<and>
     fst (ls_fault_injection_hit (Some [0x61])
       (((\<lambda>g. snd (ls_fault_injection_hit (Some [0x61]) g)) ^^ 1) f')) = LS_EIO"
proof -
  obtain f' where f': "ls_fault_injection_arm (Some [0x61]) 2 LS_EIO faults_none = (LS_OK, f')"
    by (simp add: ls_fault_injection_arm_def find_state_def faults_none_def zero_fault_def
        numeral_2_eq_2)
  show ?thesis
    using fault_fires_at_trigger [OF f', of 1] f' by (auto simp: UINT32_MAX_def)
qed

end
