(* ===== verification/LS_Storage.thy ===== *)
theory LS_Storage
  imports LS_Fault_Injection
begin

text \<open>
  \<^verbatim>\<open>include/laststate/storage.h\<close> and \<^verbatim>\<open>src/storage/memory_storage.c\<close>. A backend is the structure
  of sizes and function pointers (\<open>None\<close> is a null pointer); a callback acts on a world that holds
  the context object the backend points to and the fault-injection table of the runtime, which
  \<open>ls_storage_program\<close> and the layered backends consult. The locale \<open>storage_device\<close> states what
  the layers above rely on, for a device that may fail at any operation; \<open>reliable_device\<close> adds
  that a healthy device does not.
\<close>

section \<open>Backends\<close>

record 's world =
  faults :: ls_faults
  ctx :: 's

record 's ls_storage_backend =
  be_capacity :: nat
  be_erase_size :: nat
  be_write_size :: nat
  be_read :: "(nat \<Rightarrow> nat \<Rightarrow> 's world \<Rightarrow> (ls_result \<times> bytes) \<times> 's world) option"
  be_write :: "(nat \<Rightarrow> bytes \<Rightarrow> 's world \<Rightarrow> ls_result \<times> 's world) option"
  be_erase :: "(nat \<Rightarrow> nat \<Rightarrow> 's world \<Rightarrow> ls_result \<times> 's world) option"
  be_sync :: "('s world \<Rightarrow> ls_result \<times> 's world) option"

text \<open>Calls through the function pointers. A read returns the bytes stored at the destination
  when it succeeds.\<close>

definition call_read :: "'s ls_storage_backend \<Rightarrow> nat \<Rightarrow> nat \<Rightarrow> 's world \<Rightarrow> (ls_result \<times> bytes) \<times> 's world" where
  "call_read dev = the (be_read dev)"

definition call_write :: "'s ls_storage_backend \<Rightarrow> nat \<Rightarrow> bytes \<Rightarrow> 's world \<Rightarrow> ls_result \<times> 's world" where
  "call_write dev = the (be_write dev)"

definition call_erase :: "'s ls_storage_backend \<Rightarrow> nat \<Rightarrow> nat \<Rightarrow> 's world \<Rightarrow> ls_result \<times> 's world" where
  "call_erase dev = the (be_erase dev)"

text \<open>The optional sync callback, as every caller guards it.\<close>

definition call_sync :: "'s ls_storage_backend \<Rightarrow> 's world \<Rightarrow> ls_result \<times> 's world" where
  "call_sync dev w = (case be_sync dev of None \<Rightarrow> (LS_OK, w) | Some f \<Rightarrow> f w)"

text \<open>A fault-injection point.\<close>

definition fault_point :: "string \<Rightarrow> 's world \<Rightarrow> ls_result \<times> 's world" where
  "fault_point name w =
     (case ls_fault_injection_hit (Some (cstr name)) (faults w) of
        (r, f) \<Rightarrow> (r, w\<lparr>faults := f\<rparr>))"

section \<open>Storage in memory\<close>

record ls_memory_storage =
  ms_data :: "bytes option"
  ms_size :: nat

definition memory_bounds :: "ls_memory_storage \<Rightarrow> nat \<Rightarrow> nat \<Rightarrow> ls_result" where
  "memory_bounds m off n =
     (if ms_data m = None \<or> off > ms_size m \<or> n > ms_size m - off then LS_EINVAL else LS_OK)"

definition ls_memory_storage_read ::
  "nat \<Rightarrow> nat \<Rightarrow> ls_memory_storage world \<Rightarrow> (ls_result \<times> bytes) \<times> ls_memory_storage world" where
  "ls_memory_storage_read off n w =
     (let result = memory_bounds (ctx w) off n
      in if result = LS_OK then ((result, bslice off n (the (ms_data (ctx w)))), w)
         else ((result, []), w))"

definition ls_memory_storage_write ::
  "nat \<Rightarrow> bytes \<Rightarrow> ls_memory_storage world \<Rightarrow> ls_result \<times> ls_memory_storage world" where
  "ls_memory_storage_write off src w =
     (let result = memory_bounds (ctx w) off (length src)
      in if result = LS_OK
         then (result, w\<lparr>ctx := (ctx w)\<lparr>ms_data := Some (overwrite off src (the (ms_data (ctx w))))\<rparr>\<rparr>)
         else (result, w))"

definition ls_memory_storage_erase ::
  "nat \<Rightarrow> nat \<Rightarrow> ls_memory_storage world \<Rightarrow> ls_result \<times> ls_memory_storage world" where
  "ls_memory_storage_erase off n w =
     (let result = memory_bounds (ctx w) off n
      in if result = LS_OK
         then (result, w\<lparr>ctx := (ctx w)\<lparr>ms_data := Some (ls_memset off 0xff n (the (ms_data (ctx w))))\<rparr>\<rparr>)
         else (result, w))"

section \<open>Programming a backend\<close>

definition storage_bounds :: "'s ls_storage_backend \<Rightarrow> nat \<Rightarrow> nat \<Rightarrow> ls_result" where
  "storage_bounds dev off n =
     (if be_read dev = None \<or> be_write dev = None \<or> off > be_capacity dev \<or>
         n > be_capacity dev - off
      then LS_EINVAL else LS_OK)"

text \<open>The inner loop over the bytes of one write unit; \<open>None\<close> is the \<open>LS_EIO\<close> of a 0-to-1 bit.\<close>

fun program_bytes :: "bytes \<Rightarrow> nat \<Rightarrow> bytes \<Rightarrow> bool \<Rightarrow> (bytes \<times> bool) option" where
  "program_bytes unit_data index [] changed = Some (unit_data, changed)"
| "program_bytes unit_data index (v # vs) changed =
     (if NOT (unit_data ! index) AND v \<noteq> 0 then None
      else let programmed = unit_data ! index AND v
           in if programmed \<noteq> unit_data ! index
              then program_bytes (unit_data[index := programmed]) (index + 1) vs True
              else program_bytes unit_data (index + 1) vs changed)"

text \<open>The loop over the write units; its step is positive whenever it is entered.\<close>

function program_loop ::
  "'s ls_storage_backend \<Rightarrow> nat \<Rightarrow> nat \<Rightarrow> bytes \<Rightarrow> nat \<Rightarrow> nat \<Rightarrow> 's world \<Rightarrow> ls_result \<times> 's world" where
  "program_loop dev write_size offset input last_end unit_offset w =
     (if unit_offset < last_end \<and> 0 < write_size
      then (case call_read dev unit_offset write_size w of
              ((result, unit_data), w1) \<Rightarrow>
                if result \<noteq> LS_OK then (result, w1)
                else let unit_end = unit_offset + write_size;
                         target_end = offset + length input;
                         lo = (if offset > unit_offset then offset else unit_offset);
                         hi = (if target_end < unit_end then target_end else unit_end)
                     in case program_bytes unit_data (lo - unit_offset)
                               (bslice (lo - offset) (hi - lo) input) False of
                          None \<Rightarrow> (LS_EIO, w1)
                        | Some (unit', changed) \<Rightarrow>
                            and_then
                              (if changed
                               then and_then (fault_point ''storage.program.unit'' w1)
                                      (call_write dev unit_offset unit')
                               else (LS_OK, w1))
                              (\<lambda>w2. program_loop dev write_size offset input last_end
                                      (unit_offset + write_size) w2))
      else (LS_OK, w))"
  by pat_completeness auto
termination
  by (relation "measure (\<lambda>(dev, write_size, offset, input, last_end, unit_offset, w).
        last_end - unit_offset)") auto

declare program_loop.simps [simp del]

definition ls_storage_program ::
  "ls_build_config \<Rightarrow> 's ls_storage_backend \<Rightarrow> nat \<Rightarrow> bytes \<Rightarrow> 's world \<Rightarrow> ls_result \<times> 's world" where
  "ls_storage_program cfg dev offset src w =
     (if storage_bounds dev offset (length src) \<noteq> LS_OK then (LS_EINVAL, w)
      else if src = [] then (LS_OK, w)
      else and_then (fault_point ''storage.program.before'' w) (\<lambda>w1.
        let write_size = (if be_write_size dev \<noteq> 0 then be_write_size dev else 1)
        in if write_size > LS_STORAGE_MAX_WRITE_SIZE cfg then (LS_ENOTSUP, w1)
           else if offset > SIZE_MAX - length src then (LS_EOVERFLOW, w1)
           else if write_size = 1
           then and_then (call_write dev offset src w1) (fault_point ''storage.program.after'')
           else let first = offset - offset mod write_size;
                    target_end = offset + length src
                in if target_end > SIZE_MAX - (write_size - 1) then (LS_EOVERFLOW, w1)
                   else let last_end = ((target_end + write_size - 1) div write_size) * write_size
                        in if last_end > be_capacity dev then (LS_ENOSPACE, w1)
                           else and_then (program_loop dev write_size offset src last_end first w1)
                                  (fault_point ''storage.program.after'')))"

text \<open>The scan for erased bytes, in chunks of the local buffer; \<open>Some e\<close> is \<^verbatim>\<open>*erased\<close>.\<close>

function erased_loop ::
  "nat \<Rightarrow> 's ls_storage_backend \<Rightarrow> nat \<Rightarrow> nat \<Rightarrow> 's world \<Rightarrow> (ls_result \<times> bool option) \<times> 's world" where
  "erased_loop chunk dev offset n w =
     (if n \<noteq> 0 \<and> 0 < chunk
      then let count = (if n > chunk then chunk else n)
           in (case call_read dev offset count w of
                 ((result, data), w1) \<Rightarrow>
                   if result \<noteq> LS_OK then ((result, None), w1)
                   else if list_ex (\<lambda>b. b \<noteq> 0xff) data then ((LS_OK, Some False), w1)
                   else erased_loop chunk dev (offset + count) (n - count) w1)
      else ((LS_OK, Some True), w))"
  by pat_completeness auto
termination
  by (relation "measure (\<lambda>(chunk, dev, offset, n, w). n)") auto

declare erased_loop.simps [simp del]

definition ls_storage_is_erased ::
  "ls_build_config \<Rightarrow> 's ls_storage_backend \<Rightarrow> nat \<Rightarrow> nat \<Rightarrow> 's world \<Rightarrow>
     (ls_result \<times> bool option) \<times> 's world" where
  "ls_storage_is_erased cfg dev offset n w =
     (if storage_bounds dev offset n \<noteq> LS_OK then ((LS_EINVAL, None), w)
      else erased_loop (LS_STORAGE_MAX_WRITE_SIZE cfg) dev offset n w)"

section \<open>Torn updates\<close>

text \<open>What an interrupted update may leave: every byte is the old or the new one.\<close>

definition torn :: "bytes \<Rightarrow> bytes \<Rightarrow> bytes \<Rightarrow> bool" where
  "torn old new cur \<longleftrightarrow>
     length cur = length old \<and> (\<forall>i<length old. cur ! i = old ! i \<or> cur ! i = new ! i)"

text \<open>A byte a NOR flash can be programmed to: no bit goes from 0 to 1.\<close>

definition clears_only :: "u8 \<Rightarrow> u8 \<Rightarrow> bool" where
  "clears_only old new \<longleftrightarrow> NOT old AND new = 0"

text \<open>A torn update in which moreover every changed byte only lost bits.\<close>

definition nor_torn :: "bytes \<Rightarrow> bytes \<Rightarrow> bytes \<Rightarrow> bool" where
  "nor_torn old new cur \<longleftrightarrow>
     length cur = length old \<and>
     (\<forall>i<length old. cur ! i = old ! i \<or> cur ! i = new ! i \<and> clears_only (old ! i) (new ! i))"

lemma torn_refl [simp]: "torn old new old"
  by (simp add: torn_def)

lemma torn_new: "length new = length old \<Longrightarrow> torn old new new"
  by (simp add: torn_def)

lemma torn_length: "torn old new cur \<Longrightarrow> length cur = length old"
  by (simp add: torn_def)

lemma nor_torn_refl [simp]: "nor_torn old new old"
  by (simp add: nor_torn_def)

lemma nor_torn_imp_torn: "nor_torn old new cur \<Longrightarrow> torn old new cur"
  by (auto simp: nor_torn_def torn_def)

lemma torn_same [simp]: "torn old old cur \<longleftrightarrow> cur = old"
  by (auto simp: torn_def intro: nth_equalityI)

lemma torn_nth: "torn old new cur \<Longrightarrow> i < length old \<Longrightarrow> cur ! i = old ! i \<or> cur ! i = new ! i"
  by (simp add: torn_def)

text \<open>A torn update of a single byte is no update or a complete one.\<close>

lemma torn_single:
  assumes "torn m (overwrite k [b] m) m'" and "k < length m"
  shows "m' = m \<or> m' = overwrite k [b] m"
proof -
  have len: "length m' = length m" and at: "m' ! k = m ! k \<or> m' ! k = b"
    using assms by (auto simp: torn_def nth_overwrite)
  have other: "m' ! i = m ! i" if "i < length m" "i \<noteq> k" for i
    using torn_nth [OF assms(1) that(1)] that assms(2) by (auto simp: nth_overwrite)
  show ?thesis
  proof (cases "m' ! k = m ! k")
    case True
    then have "m' = m" using len other by (metis nth_equalityI)
    then show ?thesis ..
  next
    case False
    have "m' ! i = overwrite k [b] m ! i" if "i < length m" for i
      using that other [of i] at False assms(2) by (cases "i = k") (auto simp: nth_overwrite)
    then have "m' = overwrite k [b] m" using len assms(2) by (intro nth_equalityI) simp_all
    then show ?thesis ..
  qed
qed

text \<open>Outside the range of the update nothing changes.\<close>

lemma torn_overwrite_frame:
  assumes "torn m (overwrite off src m) m'" and "off + length src \<le> length m"
    and "a + n \<le> off \<or> off + length src \<le> a"
  shows "bslice a n m' = bslice a n m"
proof (rule nth_equalityI)
  fix i
  assume "i < length (bslice a n m')"
  then have i: "i < n" "a + i < length m" and len: "length m' = length m"
    using assms(1) by (auto simp: torn_def)
  then have "m' ! (a + i) = m ! (a + i)"
    using assms by (auto simp: torn_def nth_overwrite)
  then show "bslice a n m' ! i = bslice a n m ! i" using i len by simp
qed (use assms(1) in \<open>simp add: torn_def\<close>)

lemma clears_only_iff: "clears_only old new \<longleftrightarrow> (\<forall>n. bit new n \<longrightarrow> bit old n)"
proof -
  have "clears_only old new \<longleftrightarrow> (\<forall>n<8. bit new n \<longrightarrow> bit old n)"
    by (auto simp: clears_only_def bit_eq_iff bit_simps)
  also have "\<dots> \<longleftrightarrow> (\<forall>n. bit new n \<longrightarrow> bit old n)"
    using bit_imp_le_length [of new] by auto
  finally show ?thesis .
qed

lemma clears_only_and: "clears_only old new \<Longrightarrow> old AND new = new"
  by (rule bit_word_eqI) (auto simp: clears_only_iff bit_simps)

lemma clears_only_ff [simp]: "clears_only 0xff b"
proof -
  have ff: "(0xff :: u8) = - 1" by simp
  show ?thesis unfolding clears_only_iff ff by (auto simp: bit_simps dest: bit_imp_le_length)
qed

lemma clears_only_refl [simp]: "clears_only b b"
  by (simp add: clears_only_iff)

section \<open>The bytes of one unit\<close>

lemma program_bytes_Cons:
  assumes "k < length u"
  shows "program_bytes u k (v # vs) ch =
    (if clears_only (u ! k) v then program_bytes (u[k := v]) (Suc k) vs (ch \<or> v \<noteq> u ! k) else None)"
proof (cases "clears_only (u ! k) v")
  case True
  then have "u ! k AND v = v" by (rule clears_only_and)
  then show ?thesis
    using True assms by (cases "v = u ! k") (auto simp: clears_only_def)
next
  case False
  then show ?thesis by (simp add: clears_only_def)
qed

lemma program_bytes_eq:
  assumes "k + length vs \<le> length u"
  shows "program_bytes u k vs ch =
    (if \<forall>i<length vs. clears_only (u ! (k + i)) (vs ! i)
     then Some (overwrite k vs u, ch \<or> overwrite k vs u \<noteq> u) else None)"
  using assms
proof (induction vs arbitrary: u k ch)
  case Nil
  then show ?case by simp
next
  case (Cons v vs)
  have ow: "overwrite (Suc k) vs (u[k := v]) = overwrite k (v # vs) u"
    using Cons.prems by (intro nth_equalityI) (auto simp: nth_overwrite nth_list_update nth_Cons')
  have all: "(\<forall>i<length (v # vs). clears_only (u ! (k + i)) ((v # vs) ! i)) \<longleftrightarrow>
      clears_only (u ! k) v \<and> (\<forall>i<length vs. clears_only (u[k := v] ! (Suc k + i)) (vs ! i))"
    by (auto simp: nth_Cons split: nat.split)
  have "overwrite k (v # vs) u ! k = v"
    using Cons.prems by (simp add: nth_overwrite)
  moreover have "overwrite (Suc k) vs (u[k := v]) \<noteq> u[k := v] \<longleftrightarrow> overwrite k (v # vs) u \<noteq> u"
    if "v = u ! k"
    using that ow by auto
  ultimately have ch: "(ch \<or> v \<noteq> u ! k \<or> overwrite (Suc k) vs (u[k := v]) \<noteq> u[k := v]) =
      (ch \<or> overwrite (Suc k) vs (u[k := v]) \<noteq> u)"
    by (metis ow)
  have k: "k < length u" and len: "Suc k + length vs \<le> length (u[k := v])"
    using Cons.prems by simp_all
  show ?case
    unfolding program_bytes_Cons [OF k] all Cons.IH [OF len] ow [symmetric] ch [symmetric]
    by simp
qed

lemma program_bytes_overwrite:
  assumes "k + length vs \<le> length u \<or> vs = []" and "overwrite k vs u = u'"
  shows "program_bytes u k vs False =
    (if \<forall>i<length u. clears_only (u ! i) (u' ! i) then Some (u', u' \<noteq> u) else None)"
proof (cases "vs = []")
  case True
  then show ?thesis using assms(2) by simp
next
  case False
  with assms have len: "k + length vs \<le> length u" by simp
  have "(\<forall>i<length vs. clears_only (u ! (k + i)) (vs ! i)) \<longleftrightarrow>
      (\<forall>i<length u. clears_only (u ! i) (u' ! i))" (is "?l \<longleftrightarrow> ?r")
  proof
    assume ?l
    then show ?r
      using len by (auto simp: nth_overwrite simp flip: assms(2)) (metis add_diff_cancel_left'
          le_add_diff_inverse nat_add_left_cancel_less)
  next
    assume r: ?r
    show ?l
    proof (intro allI impI)
      fix i
      assume "i < length vs"
      then show "clears_only (u ! (k + i)) (vs ! i)"
        using r [rule_format, of "k + i"] len by (simp add: nth_overwrite flip: assms(2))
    qed
  qed
  then show ?thesis using program_bytes_eq [OF len, of False] assms(2) by simp
qed

section \<open>What a backend promises\<close>

definition no_faults :: "'s world \<Rightarrow> bool" where
  "no_faults w \<longleftrightarrow> \<not> fault_injection_active (faults w)"

text \<open>
  A device that may fail: \<open>mem\<close> is its content, \<open>inv\<close> the invariant of its context. A read never
  changes the content and returns it when it succeeds; a write that succeeds stores its bytes, one
  that fails leaves a torn update.
\<close>

locale storage_device =
  fixes dev :: "'s ls_storage_backend" and inv :: "'s \<Rightarrow> bool" and mem :: "'s \<Rightarrow> bytes"
  assumes has_read: "be_read dev \<noteq> None"
    and has_write: "be_write dev \<noteq> None"
    and mem_length: "inv s \<Longrightarrow> length (mem s) = be_capacity dev"
    and read_law: "inv (ctx w) \<Longrightarrow> off + n \<le> be_capacity dev \<Longrightarrow>
      call_read dev off n w = ((r, d), w') \<Longrightarrow>
      inv (ctx w') \<and> mem (ctx w') = mem (ctx w) \<and> (r = LS_OK \<longrightarrow> d = bslice off n (mem (ctx w)))"
    and write_law: "inv (ctx w) \<Longrightarrow> off + length src \<le> be_capacity dev \<Longrightarrow>
      call_write dev off src w = (r, w') \<Longrightarrow>
      inv (ctx w') \<and>
      torn (mem (ctx w)) (overwrite off src (mem (ctx w))) (mem (ctx w')) \<and>
      (r = LS_OK \<longrightarrow> mem (ctx w') = overwrite off src (mem (ctx w)))"
    and sync_law: "inv (ctx w) \<Longrightarrow> call_sync dev w = (r, w') \<Longrightarrow>
      inv (ctx w') \<and> mem (ctx w') = mem (ctx w)"

text \<open>A device with an erase callback, which sets bytes to 0xff.\<close>

locale flash_device = storage_device +
  assumes has_erase: "be_erase dev \<noteq> None"
    and erase_law: "inv (ctx w) \<Longrightarrow> off + n \<le> be_capacity dev \<Longrightarrow>
      call_erase dev off n w = (r, w') \<Longrightarrow>
      inv (ctx w') \<and>
      torn (mem (ctx w)) (overwrite off (replicate n 0xff) (mem (ctx w))) (mem (ctx w')) \<and>
      (r = LS_OK \<longrightarrow> mem (ctx w') = overwrite off (replicate n 0xff) (mem (ctx w)))"

text \<open>
  A device that, while \<open>healthy\<close> and with no fault armed, does not fail: an erase of whole blocks
  succeeds, and so does a write of bytes that are \<open>writable\<close> over the present ones, as every byte
  that only clears bits is.
\<close>

locale reliable_device = flash_device +
  fixes healthy :: "'a \<Rightarrow> bool" and writable :: "u8 \<Rightarrow> u8 \<Rightarrow> bool"
  assumes writable_clears: "clears_only old new \<Longrightarrow> writable old new"
    and read_ok: "inv (ctx w) \<Longrightarrow> healthy (ctx w) \<Longrightarrow> no_faults w \<Longrightarrow> off + n \<le> be_capacity dev \<Longrightarrow>
      \<exists>d w'. call_read dev off n w = ((LS_OK, d), w') \<and> healthy (ctx w') \<and> no_faults w'"
    and write_ok: "inv (ctx w) \<Longrightarrow> healthy (ctx w) \<Longrightarrow> no_faults w \<Longrightarrow>
      off + length src \<le> be_capacity dev \<Longrightarrow>
      (\<And>i. i < length src \<Longrightarrow> writable (mem (ctx w) ! (off + i)) (src ! i)) \<Longrightarrow>
      \<exists>w'. call_write dev off src w = (LS_OK, w') \<and> healthy (ctx w') \<and> no_faults w'"
    and erase_ok: "inv (ctx w) \<Longrightarrow> healthy (ctx w) \<Longrightarrow> no_faults w \<Longrightarrow> off + n \<le> be_capacity dev \<Longrightarrow>
      be_erase_size dev dvd off \<Longrightarrow> be_erase_size dev dvd n \<Longrightarrow>
      \<exists>w'. call_erase dev off n w = (LS_OK, w') \<and> healthy (ctx w') \<and> no_faults w'"
    and sync_ok: "inv (ctx w) \<Longrightarrow> healthy (ctx w) \<Longrightarrow> no_faults w \<Longrightarrow>
      \<exists>w'. call_sync dev w = (LS_OK, w') \<and> healthy (ctx w') \<and> no_faults w'"

section \<open>Programming, on every device\<close>

lemma fault_point_ctx [simp]: "ctx (snd (fault_point name w)) = ctx w"
  by (simp add: fault_point_def split: prod.split)

lemma fault_point_ctxD: "fault_point name w = (r, w') \<Longrightarrow> ctx w' = ctx w"
  using fault_point_ctx [of name w] by simp

lemma and_then_fault_pointD:
  "and_then (r2, w2) (fault_point name) = (r, w') \<Longrightarrow> ctx w' = ctx w2 \<and> (r = LS_OK \<longrightarrow> r2 = LS_OK)"
  by (cases "r2 = LS_OK") (auto dest: fault_point_ctxD)

lemma fault_point_quiet [simp]: "no_faults w \<Longrightarrow> fault_point name w = (LS_OK, w)"
  by (simp add: fault_point_def no_faults_def)

text \<open>One unit of the target, computed from the present content of the unit.\<close>

lemma program_unit_slice:
  assumes "offset + length input \<le> length m0" and "u + ws \<le> length m0"
  defines "lo \<equiv> (if offset > u then offset else u)"
    and "hi \<equiv> (if offset + length input < u + ws then offset + length input else u + ws)"
  shows "lo - u + length (bslice (lo - offset) (hi - lo) input) \<le> ws \<or>
      bslice (lo - offset) (hi - lo) input = []"
    and "overwrite (lo - u) (bslice (lo - offset) (hi - lo) input) (bslice u ws m0) =
      bslice u ws (overwrite offset input m0)"
proof -
  let ?vs = "bslice (lo - offset) (hi - lo) input"
  have len: "length ?vs = hi - lo"
    using assms by (auto simp: lo_def hi_def)
  show 1: "lo - u + length ?vs \<le> ws \<or> ?vs = []"
    unfolding len by (auto simp: lo_def hi_def bslice_def)
  show "overwrite (lo - u) ?vs (bslice u ws m0) = bslice u ws (overwrite offset input m0)"
  proof (cases "hi \<le> lo")
    case True
    then have "?vs = []" by simp
    moreover have "offset + length input \<le> u \<or> u + ws \<le> offset \<or> input = [] \<or> ws = 0"
      using True by (auto simp: lo_def hi_def split: if_splits)
    ultimately show ?thesis
      using assms bslice_overwrite_disjoint [of offset input m0 u ws] by auto
  next
    case False
    then have *: "lo - u + length ?vs \<le> length (bslice u ws m0)"
      unfolding len using assms(1,2) by (auto simp: lo_def hi_def split: if_splits)
    show ?thesis
    proof (rule nth_equalityI)
      fix i
      assume "i < length (overwrite (lo - u) ?vs (bslice u ws m0))"
      then have i: "i < ws" using * assms(2) by simp
      have "overwrite (lo - u) ?vs (bslice u ws m0) ! i =
          (if lo \<le> u + i \<and> u + i < hi then input ! (u + i - offset) else m0 ! (u + i))"
        using * i len assms(1,2) False
        by (auto simp: nth_overwrite lo_def hi_def add.commute split: if_splits)
      also have "\<dots> = overwrite offset input m0 ! (u + i)"
        using i assms(1,2) by (auto simp: nth_overwrite lo_def hi_def)
      finally show "overwrite (lo - u) ?vs (bslice u ws m0) ! i =
          bslice u ws (overwrite offset input m0) ! i"
        using i assms(1,2) by simp
    qed (use * assms(1,2) in simp)
  qed
qed

text \<open>The content between two units: new below \<open>u\<close>, old above.\<close>

definition programmed_to :: "nat \<Rightarrow> bytes \<Rightarrow> bytes \<Rightarrow> bytes" where
  "programmed_to u new old = take u new @ drop u old"

lemma programmed_to_start:
  "u \<le> offset \<Longrightarrow> offset + length input \<le> length m0 \<Longrightarrow>
   programmed_to u (overwrite offset input m0) m0 = m0"
  by (simp add: programmed_to_def overwrite_def)

lemma programmed_to_end:
  assumes "offset + length input \<le> u" and "offset + length input \<le> length m0"
  shows "programmed_to u (overwrite offset input m0) m0 = overwrite offset input m0"
  using assms
  by (intro nth_equalityI) (auto simp: programmed_to_def nth_append nth_overwrite min_def)

lemma bslice_programmed_to:
  "length new = length old \<Longrightarrow> u \<le> length old \<Longrightarrow>
   bslice u ws (programmed_to u new old) = bslice u ws old"
  by (simp add: programmed_to_def bslice_def)

lemma programmed_to_step:
  assumes "length new = length old" and "u + ws \<le> length old"
  shows "overwrite u (bslice u ws new) (programmed_to u new old) = programmed_to (u + ws) new old"
  using assms
  by (intro nth_equalityI) (auto simp: programmed_to_def nth_append nth_overwrite min_def)

lemma length_programmed_to [simp]:
  "length new = length old \<Longrightarrow> length (programmed_to u new old) = length old"
  by (simp add: programmed_to_def min_def)

lemma nth_programmed_to:
  "length new = length old \<Longrightarrow> i < length old \<Longrightarrow>
   programmed_to u new old ! i = (if i < u then new ! i else old ! i)"
  by (auto simp: programmed_to_def nth_append min_def)

text \<open>Tearing one step of the progress is tearing the whole update.\<close>

lemma nor_torn_step:
  assumes "nor_torn old new (programmed_to u new old)" and "length new = length old"
    and "u + ws \<le> length old" and "\<And>i. i < ws \<Longrightarrow> clears_only (old ! (u + i)) (new ! (u + i))"
    and "torn (programmed_to u new old) (programmed_to (u + ws) new old) cur"
  shows "nor_torn old new cur"
  unfolding nor_torn_def
proof (intro conjI allI impI)
  show "length cur = length old" using assms(2,5) by (simp add: torn_def)
next
  fix i
  assume i: "i < length old"
  have "cur ! i = programmed_to u new old ! i \<or> cur ! i = programmed_to (u + ws) new old ! i"
    using assms(2,5) i by (simp add: torn_def)
  then have "cur ! i = old ! i \<or> cur ! i = new ! i \<and> i < u + ws"
    unfolding nth_programmed_to [OF assms(2) i] by (auto split: if_splits)
  moreover have "old ! i = new ! i \<or> clears_only (old ! i) (new ! i)" if "i < u"
    using assms(1,2) i that by (auto simp: nor_torn_def nth_programmed_to)
  moreover have "clears_only (old ! i) (new ! i)" if "u \<le> i" "i < u + ws"
    using assms(4) [of "i - u"] that by simp
  ultimately show "cur ! i = old ! i \<or> cur ! i = new ! i \<and> clears_only (old ! i) (new ! i)"
    by (cases "i < u") auto
qed

context storage_device
begin

lemma bounds_eq: "storage_bounds dev off n = LS_OK \<longleftrightarrow> off + n \<le> be_capacity dev"
  using has_read has_write by (auto simp: storage_bounds_def)

lemma bounds_error: "\<not> off + n \<le> be_capacity dev \<Longrightarrow> storage_bounds dev off n = LS_EINVAL"
  using has_read has_write by (auto simp: storage_bounds_def)

lemma program_unit_write:
  assumes "inv (ctx w1)" and "mem (ctx w1) = programmed_to u new old"
    and "length new = length old" and "length old = be_capacity dev" and "u + ws \<le> be_capacity dev"
    and "(if bslice u ws new \<noteq> bslice u ws old
          then and_then (fault_point ''storage.program.unit'' w1) (call_write dev u (bslice u ws new))
          else (LS_OK, w1)) = (r2, w2)"
  shows "inv (ctx w2) \<and> torn (mem (ctx w1)) (programmed_to (u + ws) new old) (mem (ctx w2)) \<and>
    (r2 = LS_OK \<longrightarrow> mem (ctx w2) = programmed_to (u + ws) new old)"
proof -
  have next_unit: "overwrite u (bslice u ws new) (mem (ctx w1)) = programmed_to (u + ws) new old"
    using assms(2-5) by (simp add: programmed_to_step)
  have same: "bslice u ws (mem (ctx w1)) = bslice u ws old"
    using assms(2-5) by (simp add: bslice_programmed_to)
  show ?thesis
  proof (cases "bslice u ws new = bslice u ws old")
    case True
    then have "programmed_to (u + ws) new old = mem (ctx w1)"
      using next_unit same overwrite_id [of u ws "mem (ctx w1)"] assms(2-5) by simp
    then show ?thesis using assms(1,6) True by simp
  next
    case False
    obtain fr wf where f: "fault_point ''storage.program.unit'' w1 = (fr, wf)"
      by (metis prod.exhaust)
    have ctx: "ctx wf = ctx w1" using f by (rule fault_point_ctxD)
    show ?thesis
    proof (cases "fr = LS_OK")
      case True
      then have "call_write dev u (bslice u ws new) wf = (r2, w2)" using assms(6) False f by simp
      then show ?thesis
        using write_law [of wf u "bslice u ws new" r2 w2] assms(1-5) ctx next_unit by simp
    next
      case fr: False
      then show ?thesis using assms(1,6) False f ctx by auto
    qed
  qed
qed

text \<open>One unit: either it fails and leaves a torn update, or the loop goes on after it.\<close>

lemma program_unit_effect:
  assumes "program_loop dev ws offset input last_end u w = (r, w')"
    and "inv (ctx w)" and "mem (ctx w) = programmed_to u (overwrite offset input m0) m0"
    and "nor_torn m0 (overwrite offset input m0) (mem (ctx w))"
    and "length m0 = be_capacity dev" and "offset + length input \<le> be_capacity dev"
    and "u + ws \<le> be_capacity dev" and "0 < ws" and "u < last_end"
  shows "inv (ctx w') \<and> r \<noteq> LS_OK \<and> nor_torn m0 (overwrite offset input m0) (mem (ctx w')) \<or>
    (\<exists>w2. inv (ctx w2) \<and> mem (ctx w2) = programmed_to (u + ws) (overwrite offset input m0) m0 \<and>
      nor_torn m0 (overwrite offset input m0) (mem (ctx w2)) \<and>
      program_loop dev ws offset input last_end (u + ws) w2 = (r, w'))"
proof -
  let ?T = "overwrite offset input m0"
  let ?lo = "if offset > u then offset else u"
  let ?hi = "if offset + length input < u + ws then offset + length input else u + ws"
  let ?vs = "bslice (?lo - offset) (?hi - ?lo) input"
  have lenT: "length ?T = length m0" using assms by simp
  obtain r1 d w1 where rd: "call_read dev u ws w = ((r1, d), w1)" by (metis prod.exhaust)
  note R = read_law [OF assms(2,7) rd]
  note unfold = assms(1) [unfolded program_loop.simps [of dev ws offset input last_end u w] rd Let_def]
  show ?thesis
  proof (cases "r1 = LS_OK")
    case False
    then show ?thesis using unfold assms(4,8,9) R by auto
  next
    case True
    then have d: "d = bslice u ws m0"
      using R assms(3,5,7) lenT by (simp add: bslice_programmed_to)
    have S: "overwrite (?lo - u) ?vs d = bslice u ws ?T"
      and len: "?lo - u + length ?vs \<le> length d \<or> ?vs = []"
      using program_unit_slice [of offset input m0 u ws] assms(5,6,7) d by simp_all
    show ?thesis
    proof (cases "program_bytes d (?lo - u) ?vs False")
      case None
      then show ?thesis using unfold True assms(4,8,9) R by auto
    next
      case (Some p)
      then have eq: "program_bytes d (?lo - u) ?vs False =
          Some (bslice u ws ?T, bslice u ws ?T \<noteq> d)"
        and clears: "\<forall>i<length d. clears_only (d ! i) (bslice u ws ?T ! i)"
        using program_bytes_overwrite [OF len S] by (auto split: if_splits)
      have clears': "clears_only (m0 ! (u + i)) (?T ! (u + i))" if "i < ws" for i
        using clears [rule_format, of i] that d assms(5,7) lenT by simp
      define p2 where "p2 = (if bslice u ws ?T \<noteq> d
        then and_then (fault_point ''storage.program.unit'' w1) (call_write dev u (bslice u ws ?T))
        else (LS_OK, w1))"
      obtain r2 w2 where p2: "p2 = (r2, w2)" by (metis prod.exhaust)
      have go: "and_then p2 (program_loop dev ws offset input last_end (u + ws)) = (r, w')"
        using unfold True assms(8,9) eq by (simp add: p2_def)
      have step: "inv (ctx w2) \<and>
          torn (mem (ctx w)) (programmed_to (u + ws) ?T m0) (mem (ctx w2)) \<and>
          (r2 = LS_OK \<longrightarrow> mem (ctx w2) = programmed_to (u + ws) ?T m0)"
        using program_unit_write [of w1 u ?T m0 ws] R assms(3,5,7) lenT p2
        unfolding p2_def d by simp
      then have "nor_torn m0 ?T (mem (ctx w2))"
        using nor_torn_step [of m0 ?T u ws "mem (ctx w2)"] clears' lenT assms(3,4,5,7) by simp
      then show ?thesis
        using go p2 step by (cases "r2 = LS_OK") auto
    qed
  qed
qed

text \<open>The whole loop.\<close>

lemma program_loop_effect:
  assumes "program_loop dev ws offset input last_end u w = (r, w')"
    and "inv (ctx w)" and "mem (ctx w) = programmed_to u (overwrite offset input m0) m0"
    and "nor_torn m0 (overwrite offset input m0) (mem (ctx w))"
    and "length m0 = be_capacity dev" and "offset + length input \<le> be_capacity dev"
    and "last_end \<le> be_capacity dev" and "ws dvd last_end" and "ws dvd u" and "0 < ws"
    and "offset + length input \<le> last_end"
  shows "inv (ctx w') \<and> nor_torn m0 (overwrite offset input m0) (mem (ctx w')) \<and>
    (r = LS_OK \<longrightarrow> mem (ctx w') = overwrite offset input m0)"
  using assms(1-4,9)
proof (induction "last_end - u" arbitrary: u w rule: less_induct)
  case less
  show ?case
  proof (cases "u < last_end")
    case False
    then have "programmed_to u (overwrite offset input m0) m0 = overwrite offset input m0"
      using assms(5,6,11) by (simp add: programmed_to_end)
    then show ?thesis using less.prems False by (simp add: program_loop.simps)
  next
    case True
    have "ws dvd last_end - u" using assms(8) less.prems(5) by (rule dvd_diff_nat)
    then have "ws \<le> last_end - u" using True by (intro dvd_imp_le) simp_all
    then have fits: "u + ws \<le> be_capacity dev" using True assms(7) by simp
    show ?thesis
      using program_unit_effect [OF less.prems(1-4) assms(5,6) fits assms(10) True]
        less.hyps [of "u + ws"] True assms(10) less.prems(5)
      by (auto simp: diff_less_mono2)
  qed
qed

lemma program_effects:
  assumes "ls_storage_program cfg dev off src w = (r, w')" and "inv (ctx w)"
    and fit: "off + length src \<le> be_capacity dev"
  defines "m \<equiv> mem (ctx w)" and "new \<equiv> overwrite off src (mem (ctx w))"
  shows "inv (ctx w') \<and> torn m new (mem (ctx w')) \<and> (r = LS_OK \<longrightarrow> mem (ctx w') = new) \<and>
    (1 < be_write_size dev \<longrightarrow> nor_torn m new (mem (ctx w')))"
proof -
  let ?ws = "if be_write_size dev \<noteq> 0 then be_write_size dev else 1"
  let ?last = "((off + length src + ?ws - 1) div ?ws) * ?ws"
  let ?first = "off - off mod ?ws"
  have len: "length m = be_capacity dev" using assms(2) by (simp add: m_def mem_length)
  obtain fr wf where f: "fault_point ''storage.program.before'' w = (fr, wf)"
    by (metis prod.exhaust)
  have ctx: "ctx wf = ctx w" using f by (rule fault_point_ctxD)
  have unchanged: ?thesis if "ctx w' = ctx w" "r \<noteq> LS_OK \<or> src = []"
    using that assms(2) by (auto simp: m_def new_def)
  consider (early) "ctx w' = ctx w" "r \<noteq> LS_OK \<or> src = []"
    | (byte) "be_write_size dev \<le> 1"
        "and_then (call_write dev off src wf) (fault_point ''storage.program.after'') = (r, w')"
    | (units) "?last \<le> be_capacity dev" "1 < be_write_size dev"
        "and_then (program_loop dev ?ws off src ?last ?first wf)
           (fault_point ''storage.program.after'') = (r, w')"
    using assms(1) fit f ctx
    by (cases "fr = LS_OK")
      (auto simp: ls_storage_program_def bounds_eq Let_def split: if_splits)
  then show ?thesis
  proof cases
    case early
    then show ?thesis by (rule unchanged)
  next
    case byte
    obtain r2 w2 where wr: "call_write dev off src wf = (r2, w2)" by (metis prod.exhaust)
    show ?thesis
      using write_law [OF _ fit wr] and_then_fault_pointD [OF byte(2) [unfolded wr]] ctx assms(2)
        byte(1)
      by (simp add: m_def new_def)
  next
    case units
    obtain r2 w2 where lp: "program_loop dev ?ws off src ?last ?first wf = (r2, w2)"
      by (metis prod.exhaust)
    have le: "off + length src \<le> ?last" by (rule le_round_up) simp
    have dvd: "?ws dvd ?first" by (simp add: minus_mod_eq_mult_div)
    have start: "programmed_to ?first new m = m"
      using fit len by (simp add: new_def m_def programmed_to_start)
    have "inv (ctx w2) \<and> nor_torn m new (mem (ctx w2)) \<and> (r2 = LS_OK \<longrightarrow> mem (ctx w2) = new)"
      unfolding new_def m_def
      by (rule program_loop_effect [OF lp])
        (use ctx assms(2) fit len le dvd start units(1) in \<open>simp_all add: m_def new_def\<close>)
    then show ?thesis
      using and_then_fault_pointD [OF units(3) [unfolded lp]]
      by (auto simp: nor_torn_imp_torn)
  qed
qed

lemma erased_loop_effect:
  assumes "erased_loop chunk dev off n w = ((r, e), w')" and "inv (ctx w)"
    and "off + n \<le> be_capacity dev" and "0 < chunk"
  shows "inv (ctx w') \<and> mem (ctx w') = mem (ctx w) \<and>
    (r = LS_OK \<longrightarrow> e = Some (\<forall>i<n. mem (ctx w) ! (off + i) = 0xff))"
  using assms
proof (induction n arbitrary: off w rule: less_induct)
  case (less n)
  show ?case
  proof (cases "n = 0")
    case True
    then show ?thesis using less.prems by (simp add: erased_loop.simps)
  next
    case False
    define k where "k = min chunk n"
    have k: "(if n > chunk then chunk else n) = k" "0 < k" "k \<le> n"
      using False less.prems(4) by (auto simp: k_def)
    obtain r1 d w1 where rd: "call_read dev off k w = ((r1, d), w1)" by (metis prod.exhaust)
    have fit: "off + k \<le> be_capacity dev" using k less.prems(3) by simp
    note R = read_law [OF less.prems(2) fit rd]
    have unfold: "erased_loop chunk dev off n w =
        (if r1 \<noteq> LS_OK then ((r1, None), w1)
         else if list_ex (\<lambda>b. b \<noteq> 0xff) d then ((LS_OK, Some False), w1)
         else erased_loop chunk dev (off + k) (n - k) w1)"
      using False less.prems(4) rd by (subst erased_loop.simps) (simp add: Let_def k(1))
    have len: "length (mem (ctx w)) = be_capacity dev" using less.prems(2) by (rule mem_length)
    have d: "list_ex (\<lambda>b. b \<noteq> 0xff) d \<longleftrightarrow> (\<exists>i<k. mem (ctx w) ! (off + i) \<noteq> 0xff)" if "r1 = LS_OK"
      using R that fit len by (auto simp: list_ex_length)
    have split: "(\<forall>i<n. P (off + i)) \<longleftrightarrow> (\<forall>i<k. P (off + i)) \<and> (\<forall>i<n - k. P (off + k + i))" for P
      using k(3) by (auto simp: add.assoc) (metis add_diff_inverse_nat less_diff_conv2 not_less nat_add_left_cancel_less)
    consider (err) "r1 \<noteq> LS_OK" | (dirty) "r1 = LS_OK" "list_ex (\<lambda>b. b \<noteq> 0xff) d"
      | (clean) "r1 = LS_OK" "\<not> list_ex (\<lambda>b. b \<noteq> 0xff) d"
      by blast
    then show ?thesis
    proof cases
      case err
      then show ?thesis using less.prems(1) unfold R by auto
    next
      case dirty
      then have "\<not> (\<forall>i<n. mem (ctx w) ! (off + i) = 0xff)"
        using d k(3) by (meson less_le_trans)
      then show ?thesis using less.prems(1) unfold R dirty by auto
    next
      case clean
      then have "erased_loop chunk dev (off + k) (n - k) w1 = ((r, e), w')"
        using less.prems(1) unfold by simp
      then have "inv (ctx w') \<and> mem (ctx w') = mem (ctx w1) \<and>
          (r = LS_OK \<longrightarrow> e = Some (\<forall>i<n - k. mem (ctx w1) ! (off + k + i) = 0xff))"
        by (rule less.IH [rotated]) (use R k less.prems(3,4) in simp_all)
      moreover have "\<forall>i<k. mem (ctx w) ! (off + i) = 0xff" using clean d by auto
      ultimately show ?thesis using R split [of "\<lambda>j. mem (ctx w) ! j = 0xff"] by simp
    qed
  qed
qed

lemma is_erased_effect:
  assumes "ls_storage_is_erased cfg dev off n w = ((r, e), w')" and "inv (ctx w)"
    and "1 \<le> LS_STORAGE_MAX_WRITE_SIZE cfg"
  shows "inv (ctx w') \<and> mem (ctx w') = mem (ctx w) \<and>
    (r = LS_OK \<longrightarrow> e = Some (\<forall>i<n. mem (ctx w) ! (off + i) = 0xff))"
proof (cases "off + n \<le> be_capacity dev")
  case True
  then show ?thesis
    using assms by (intro erased_loop_effect) (auto simp: ls_storage_is_erased_def bounds_eq)
next
  case False
  then show ?thesis using assms by (auto simp: ls_storage_is_erased_def bounds_error)
qed

lemma program_out_of_bounds:
  "\<not> off + length src \<le> be_capacity dev \<Longrightarrow> ls_storage_program cfg dev off src w = (LS_EINVAL, w)"
  by (simp add: ls_storage_program_def bounds_error)

end

section \<open>Programming, on a reliable device\<close>

context reliable_device
begin

lemma program_loop_ok:
  assumes "inv (ctx w)" and "healthy (ctx w)" and "no_faults w"
    and "mem (ctx w) = programmed_to u (overwrite offset input m0) m0"
    and len: "length m0 = be_capacity dev" and fit: "offset + length input \<le> be_capacity dev"
    and last: "last_end \<le> be_capacity dev" "ws dvd last_end" and "ws dvd u" and ws: "0 < ws"
    and clears: "\<And>i. i < length m0 \<Longrightarrow> clears_only (m0 ! i) (overwrite offset input m0 ! i)"
  shows "\<exists>w'. program_loop dev ws offset input last_end u w = (LS_OK, w') \<and>
    healthy (ctx w') \<and> no_faults w'"
  using assms(1-4,9)
proof (induction "last_end - u" arbitrary: u w rule: less_induct)
  case less
  let ?T = "overwrite offset input m0"
  let ?unit = "bslice u ws ?T"
  have lenT: "length ?T = length m0" using len fit by simp
  show ?case
  proof (cases "u < last_end")
    case False
    then show ?thesis using less.prems by (simp add: program_loop.simps)
  next
    case True
    have "ws dvd last_end - u" using last(2) less.prems(5) by (rule dvd_diff_nat)
    then have "ws \<le> last_end - u" using True by (intro dvd_imp_le) simp_all
    then have fits: "u + ws \<le> be_capacity dev" using True last by simp
    obtain d w1 where rd: "call_read dev u ws w = ((LS_OK, d), w1)"
      and h1: "healthy (ctx w1)" "no_faults w1"
      using read_ok [OF less.prems(1-3) fits] by blast
    note R = read_law [OF less.prems(1) fits rd]
    have d: "d = bslice u ws m0"
      using R less.prems(4) fits len lenT by (simp add: bslice_programmed_to)
    note slice = program_unit_slice [of offset input m0 u ws, folded d]
    have len_d: "length d = ws" using d fits len by simp
    have "program_bytes d ((if offset > u then offset else u) - u)
        (bslice ((if offset > u then offset else u) - offset)
          ((if offset + length input < u + ws then offset + length input else u + ws) -
           (if offset > u then offset else u)) input) False =
        (if \<forall>i<length d. clears_only (d ! i) (?unit ! i) then Some (?unit, ?unit \<noteq> d) else None)"
      by (rule program_bytes_overwrite) (use slice fit fits len len_d in simp_all)
    moreover have unit_clears: "clears_only (d ! i) (?unit ! i)" if "i < length d" for i
      using clears [of "u + i"] that fits len lenT d by simp
    ultimately have eq: "program_loop dev ws offset input last_end u w =
        and_then (if ?unit \<noteq> d
          then and_then (fault_point ''storage.program.unit'' w1) (call_write dev u ?unit)
          else (LS_OK, w1)) (program_loop dev ws offset input last_end (u + ws))"
      using True ws rd by (subst program_loop.simps) (simp add: Let_def)
    obtain w2 where w2: "(if ?unit \<noteq> d
          then and_then (fault_point ''storage.program.unit'' w1) (call_write dev u ?unit)
          else (LS_OK, w1)) = (LS_OK, w2)" "healthy (ctx w2)" "no_faults w2"
      using write_ok [of w1 u ?unit] R h1 less.prems(4) unit_clears fits len lenT d
      by (cases "?unit = d") (auto simp: nth_programmed_to intro: writable_clears)
    have "inv (ctx w2) \<and> mem (ctx w2) = programmed_to (u + ws) ?T m0"
      using program_unit_write [of w1 u ?T m0 ws LS_OK w2] R w2(1) less.prems(4) fits len lenT d
      by simp
    then show ?thesis
      unfolding eq w2(1)
      using less.hyps [of "u + ws" w2] w2 True ws less.prems(5) by (simp add: diff_less_mono2)
  qed
qed

lemma program_ok:
  assumes "inv (ctx w)" and "healthy (ctx w)" and "no_faults w"
    and fit: "off + length src \<le> be_capacity dev"
    and size: "be_write_size dev \<le> LS_STORAGE_MAX_WRITE_SIZE cfg" "1 \<le> LS_STORAGE_MAX_WRITE_SIZE cfg"
    and cap: "be_write_size dev dvd be_capacity dev" "be_capacity dev + be_write_size dev \<le> SIZE_MAX"
    and clears: "\<And>i. i < length src \<Longrightarrow> clears_only (mem (ctx w) ! (off + i)) (src ! i)"
  shows "\<exists>w'. ls_storage_program cfg dev off src w = (LS_OK, w') \<and> healthy (ctx w') \<and> no_faults w' \<and>
    inv (ctx w') \<and> mem (ctx w') = overwrite off src (mem (ctx w))"
proof -
  let ?ws = "if be_write_size dev \<noteq> 0 then be_write_size dev else 1"
  let ?last = "((off + length src + ?ws - 1) div ?ws) * ?ws"
  let ?first = "off - off mod ?ws"
  let ?m = "mem (ctx w)"
  have len: "length ?m = be_capacity dev" using assms(1) by (rule mem_length)
  have clears_all: "clears_only (?m ! i) (overwrite off src ?m ! i)" if "i < length ?m" for i
    using clears [of "i - off"] that fit len by (auto simp: nth_overwrite)
  have "\<exists>w'. ls_storage_program cfg dev off src w = (LS_OK, w') \<and> healthy (ctx w') \<and> no_faults w'"
  proof (cases "src = [] \<or> be_write_size dev \<le> 1")
    case True
    have "\<exists>w'. call_write dev off src w = (LS_OK, w') \<and> healthy (ctx w') \<and> no_faults w'"
      using assms(1-4) clears by (intro write_ok) (auto intro: writable_clears)
    then show ?thesis
      using True assms(1-4) size cap fit
      by (auto simp: ls_storage_program_def bounds_eq)
  next
    case False
    have "?last \<le> be_capacity dev"
    proof -
      have "?ws dvd be_capacity dev" using cap False by simp
      then obtain k where k: "be_capacity dev = k * ?ws" by (metis dvd_def mult.commute)
      have "off + length src + ?ws - 1 < Suc k * ?ws" using k fit False by auto
      then have "(off + length src + ?ws - 1) div ?ws \<le> k"
        by (metis less_Suc_eq_le less_mult_imp_div_less)
      then show ?thesis unfolding k by (rule mult_le_mono1)
    qed
    moreover have "programmed_to ?first (overwrite off src ?m) ?m = ?m"
      using fit len by (intro programmed_to_start) simp_all
    moreover have "?ws dvd ?first" by (simp add: minus_mod_eq_mult_div)
    ultimately have "\<exists>w'. program_loop dev ?ws off src ?last ?first w = (LS_OK, w') \<and>
        healthy (ctx w') \<and> no_faults w'"
      using assms(1-4) len clears_all by (intro program_loop_ok [where ?m0.0 = "mem (ctx w)"]) auto
    then show ?thesis
      using False assms(3) fit size cap \<open>?last \<le> be_capacity dev\<close>
      by (auto simp: ls_storage_program_def bounds_eq Let_def)
  qed
  then show ?thesis using program_effects [OF _ assms(1) fit] by blast
qed

end

section \<open>The memory backend\<close>

definition memory_backend :: "nat \<Rightarrow> nat \<Rightarrow> nat \<Rightarrow> ls_memory_storage ls_storage_backend" where
  "memory_backend cap erase_sz write_sz =
     \<lparr>be_capacity = cap, be_erase_size = erase_sz, be_write_size = write_sz,
      be_read = Some ls_memory_storage_read, be_write = Some ls_memory_storage_write,
      be_erase = Some ls_memory_storage_erase, be_sync = None\<rparr>"

definition memory_ok :: "nat \<Rightarrow> ls_memory_storage \<Rightarrow> bool" where
  "memory_ok cap m \<longleftrightarrow> ms_size m = cap \<and> (\<exists>d. ms_data m = Some d \<and> length d = cap)"

definition memory_content :: "ls_memory_storage \<Rightarrow> bytes" where
  "memory_content m = (case ms_data m of None \<Rightarrow> [] | Some d \<Rightarrow> d)"

lemmas memory_calls = memory_backend_def call_read_def call_write_def call_erase_def call_sync_def
  ls_memory_storage_read_def ls_memory_storage_write_def ls_memory_storage_erase_def ls_memset_def

lemma memory_bounds_OK: "memory_ok cap m \<Longrightarrow> off + n \<le> cap \<Longrightarrow> memory_bounds m off n = LS_OK"
  by (auto simp: memory_ok_def memory_bounds_def)

lemma memory_content_the: "memory_ok cap m \<Longrightarrow> the (ms_data m) = memory_content m"
  by (auto simp: memory_ok_def memory_content_def)

lemma memory_ok_update:
  "memory_ok cap m \<Longrightarrow> length d = cap \<Longrightarrow> memory_ok cap (m\<lparr>ms_data := Some d\<rparr>)"
  "memory_content (m\<lparr>ms_data := Some d\<rparr>) = d"
  "memory_ok cap m \<Longrightarrow> length (memory_content m) = cap"
  by (auto simp: memory_ok_def memory_content_def)

interpretation memory: reliable_device "memory_backend cap erase_sz write_sz" "memory_ok cap"
  memory_content "\<lambda>_. True" "\<lambda>_ _. True"
  by unfold_locales
    (auto simp: memory_calls memory_bounds_OK memory_content_the memory_ok_update Let_def torn_new
      no_faults_def)

end
