(* ===== verification/LS_Storage_Sim.thy ===== *)
theory LS_Storage_Sim
  imports LS_Storage
begin

text \<open>
  \<^verbatim>\<open>src/storage/storage_sim.c\<close>: the power-loss simulator, a backend that interrupts one chosen
  operation after a chosen number of bytes and can enforce NOR semantics. It is the model of a
  failing flash the layers above are tested against; here it interprets \<open>flash_device\<close>, and
  \<open>reliable_device\<close> while no failure is scheduled.
\<close>

record ls_storage_sim =
  sim_data :: "bytes option"
  sim_size :: nat
  operation_count :: u32
  fail_operation :: u32
  partial_bytes :: nat
  enforce_nor :: bool

definition sim_fail :: "ls_storage_sim \<Rightarrow> bool \<times> ls_storage_sim" where
  "sim_fail s =
     (let s' = s\<lparr>operation_count := operation_count s + 1\<rparr>
      in (fail_operation s' \<noteq> 0 \<and> operation_count s' = fail_operation s', s'))"

definition sim_bounds :: "ls_storage_sim \<Rightarrow> nat \<Rightarrow> nat \<Rightarrow> ls_result" where
  "sim_bounds s off n =
     (if sim_data s = None \<or> off > sim_size s \<or> n > sim_size s - off then LS_EINVAL else LS_OK)"

definition ls_storage_sim_reset_faults :: "ls_storage_sim \<Rightarrow> ls_storage_sim" where
  "ls_storage_sim_reset_faults s =
     s\<lparr>operation_count := 0, fail_operation := 0, partial_bytes := 0\<rparr>"

definition ls_storage_sim_fail_at :: "u32 \<Rightarrow> nat \<Rightarrow> ls_storage_sim \<Rightarrow> ls_storage_sim" where
  "ls_storage_sim_fail_at operation partial s =
     s\<lparr>operation_count := 0, fail_operation := operation, partial_bytes := partial\<rparr>"

definition ls_storage_sim_read ::
  "nat \<Rightarrow> nat \<Rightarrow> ls_storage_sim world \<Rightarrow> (ls_result \<times> bytes) \<times> ls_storage_sim world" where
  "ls_storage_sim_read off n w =
     (if sim_bounds (ctx w) off n \<noteq> LS_OK then ((LS_EINVAL, []), w)
      else case sim_fail (ctx w) of
             (True, s) \<Rightarrow> ((LS_EIO, []), w\<lparr>ctx := s\<rparr>)
           | (False, s) \<Rightarrow> ((LS_OK, bslice off n (the (sim_data s))), w\<lparr>ctx := s\<rparr>))"

definition ls_storage_sim_write ::
  "nat \<Rightarrow> bytes \<Rightarrow> ls_storage_sim world \<Rightarrow> ls_result \<times> ls_storage_sim world" where
  "ls_storage_sim_write off src w =
     (if sim_bounds (ctx w) off (length src) \<noteq> LS_OK then (LS_EINVAL, w)
      else case sim_fail (ctx w) of
             (interrupted, s) \<Rightarrow>
               let written = (if interrupted
                     then (if partial_bytes s < length src then partial_bytes s else length src)
                     else length src);
                   input = take written src;
                   data = the (sim_data s);
                   old = bslice off written data
               in if enforce_nor s \<and> list_ex (\<lambda>(d, v). NOT d AND v \<noteq> 0) (zip old input)
                  then (LS_EIO, w\<lparr>ctx := s\<rparr>)
                  else (if interrupted then LS_EIO else LS_OK,
                        w\<lparr>ctx := s\<lparr>sim_data :=
                          Some (overwrite off
                            (map (\<lambda>(d, v). if enforce_nor s then d AND v else v) (zip old input))
                            data)\<rparr>\<rparr>))"

definition ls_storage_sim_erase ::
  "nat \<Rightarrow> nat \<Rightarrow> ls_storage_sim world \<Rightarrow> ls_result \<times> ls_storage_sim world" where
  "ls_storage_sim_erase off n w =
     (if sim_bounds (ctx w) off n \<noteq> LS_OK then (LS_EINVAL, w)
      else case sim_fail (ctx w) of
             (interrupted, s) \<Rightarrow>
               let erased = (if interrupted
                     then (if partial_bytes s < n then partial_bytes s else n) else n)
               in (if interrupted then LS_EIO else LS_OK,
                   w\<lparr>ctx := s\<lparr>sim_data := Some (ls_memset off 0xff erased (the (sim_data s)))\<rparr>\<rparr>))"

definition ls_storage_sim_sync :: "ls_storage_sim world \<Rightarrow> ls_result \<times> ls_storage_sim world" where
  "ls_storage_sim_sync w =
     (case sim_fail (ctx w) of (interrupted, s) \<Rightarrow>
        (if interrupted then LS_EIO else LS_OK, w\<lparr>ctx := s\<rparr>))"

section \<open>The simulator as a device\<close>

definition sim_backend :: "nat \<Rightarrow> nat \<Rightarrow> nat \<Rightarrow> ls_storage_sim ls_storage_backend" where
  "sim_backend cap erase_sz write_sz =
     \<lparr>be_capacity = cap, be_erase_size = erase_sz, be_write_size = write_sz,
      be_read = Some ls_storage_sim_read, be_write = Some ls_storage_sim_write,
      be_erase = Some ls_storage_sim_erase, be_sync = Some ls_storage_sim_sync\<rparr>"

definition sim_ok :: "nat \<Rightarrow> ls_storage_sim \<Rightarrow> bool" where
  "sim_ok cap s \<longleftrightarrow> sim_size s = cap \<and> (\<exists>d. sim_data s = Some d \<and> length d = cap)"

definition sim_content :: "ls_storage_sim \<Rightarrow> bytes" where
  "sim_content s = (case sim_data s of None \<Rightarrow> [] | Some d \<Rightarrow> d)"

definition sim_healthy :: "ls_storage_sim \<Rightarrow> bool" where
  "sim_healthy s \<longleftrightarrow> fail_operation s = 0"

lemma sim_fail_frame:
  assumes "sim_fail s = (b, s')"
  shows "sim_ok cap s' = sim_ok cap s" "sim_content s' = sim_content s"
    "sim_healthy s' = sim_healthy s" "sim_data s' = sim_data s" "sim_size s' = sim_size s"
    "enforce_nor s' = enforce_nor s" "sim_healthy s \<Longrightarrow> \<not> b"
  using assms by (auto simp: sim_fail_def sim_ok_def sim_content_def sim_healthy_def Let_def)

lemma sim_bounds_OK: "sim_ok cap s \<Longrightarrow> off + n \<le> cap \<Longrightarrow> sim_bounds s off n = LS_OK"
  by (auto simp: sim_ok_def sim_bounds_def)

lemma sim_content_the: "sim_ok cap s \<Longrightarrow> the (sim_data s) = sim_content s"
  by (auto simp: sim_ok_def sim_content_def)

lemma sim_update [simp]:
  "sim_content (s\<lparr>sim_data := Some d\<rparr>) = d"
  "sim_healthy (s\<lparr>sim_data := Some d\<rparr>) = sim_healthy s"
  "sim_ok cap s \<Longrightarrow> length d = cap \<Longrightarrow> sim_ok cap (s\<lparr>sim_data := Some d\<rparr>)"
  by (auto simp: sim_ok_def sim_content_def sim_healthy_def)

lemma sim_content_length: "sim_ok cap s \<Longrightarrow> length (sim_content s) = cap"
  by (auto simp: sim_ok_def sim_content_def)

text \<open>A prefix of an update is a torn update.\<close>

lemma torn_prefix:
  assumes "off + length src \<le> length m"
  shows "torn m (overwrite off src m) (overwrite off (take k src) m)"
  using assms by (auto simp: torn_def nth_overwrite)

text \<open>What the write stores is the input itself, since a NOR write only passes when it clears.\<close>

lemma sim_stored:
  fixes old input :: bytes
  assumes "length old = length input"
    and "\<not> (nor \<and> list_ex (\<lambda>(d, v). NOT d AND v \<noteq> 0) (zip old input))"
  shows "map (\<lambda>(d, v). if nor then d AND v else v) (zip old input) = input"
proof (rule nth_equalityI)
  fix i
  assume "i < length (map (\<lambda>(d, v). if nor then d AND v else v) (zip old input))"
  then have i: "i < length input" "i < length old" using assms(1) by simp_all
  then have "nor \<Longrightarrow> clears_only (old ! i) (input ! i)"
    using assms(2) by (auto simp: clears_only_def list_ex_length)
  then show "map (\<lambda>(d, v). if nor then d AND v else v) (zip old input) ! i = input ! i"
    using i by (simp add: clears_only_and)
qed (use assms(1) in simp)

lemma sim_write_cases:
  assumes "sim_ok cap (ctx w)" and "off + length src \<le> cap"
    and "ls_storage_sim_write off src w = (r, w')" and "sim_fail (ctx w) = (b, s)"
  obtains (nor) "r = LS_EIO" "w' = w\<lparr>ctx := s\<rparr>"
      "\<not> (\<forall>i<length src. clears_only (sim_content (ctx w) ! (off + i)) (src ! i))"
    | (stored) k where "k \<le> length src" "r = (if b then LS_EIO else LS_OK)" "\<not> b \<Longrightarrow> k = length src"
      "w' = w\<lparr>ctx := s\<lparr>sim_data := Some (overwrite off (take k src) (sim_content (ctx w)))\<rparr>\<rparr>"
proof -
  define k where "k = (if b then (if partial_bytes s < length src then partial_bytes s
      else length src) else length src)"
  let ?old = "bslice off k (sim_content (ctx w))"
  let ?bad = "enforce_nor s \<and> list_ex (\<lambda>(d, v). NOT d AND v \<noteq> 0) (zip ?old (take k src))"
  have k: "k \<le> length src" "\<not> b \<Longrightarrow> k = length src" by (auto simp: k_def)
  note frame = sim_fail_frame [OF assms(4)]
  have the: "the (sim_data s) = sim_content (ctx w)"
    using assms(1) frame sim_content_the by metis
  have len: "length ?old = length (take k src)"
    using assms(1,2) k(1) sim_content_length [of cap "ctx w"] by simp
  have unfold: "ls_storage_sim_write off src w =
      (if ?bad then (LS_EIO, w\<lparr>ctx := s\<rparr>)
       else (if b then LS_EIO else LS_OK, w\<lparr>ctx := s\<lparr>sim_data := Some (overwrite off
          (map (\<lambda>(d, v). if enforce_nor s then d AND v else v) (zip ?old (take k src)))
          (sim_content (ctx w)))\<rparr>\<rparr>))"
    using assms(1,2,4)
    by (simp add: ls_storage_sim_write_def sim_bounds_OK Let_def the k_def [symmetric])
  show ?thesis
  proof (cases ?bad)
    case True
    then obtain i where "i < length src" "i < k"
        "\<not> clears_only (sim_content (ctx w) ! (off + i)) (src ! i)"
      using k(1) by (auto simp: list_ex_length clears_only_def)
    then show ?thesis using nor unfold assms(3) True by auto
  next
    case False
    then show ?thesis using stored k unfold assms(3) sim_stored [OF len False] by auto
  qed
qed

lemma sim_write_law:
  assumes "sim_ok cap (ctx w)" and "off + length src \<le> cap"
    and "ls_storage_sim_write off src w = (r, w')"
  shows "sim_ok cap (ctx w') \<and>
    torn (sim_content (ctx w)) (overwrite off src (sim_content (ctx w))) (sim_content (ctx w')) \<and>
    (r = LS_OK \<longrightarrow> sim_content (ctx w') = overwrite off src (sim_content (ctx w)))"
    and "sim_healthy (ctx w) \<Longrightarrow> (\<And>i. i < length src \<Longrightarrow>
      clears_only (sim_content (ctx w) ! (off + i)) (src ! i)) \<Longrightarrow> r = LS_OK"
    and "sim_healthy (ctx w') = sim_healthy (ctx w)" and "faults w' = faults w"
proof -
  obtain b s where f: "sim_fail (ctx w) = (b, s)" by (metis prod.exhaust)
  note frame = sim_fail_frame [OF f]
  have len: "length (sim_content (ctx w)) = cap" using assms(1) by (rule sim_content_length)
  show "sim_ok cap (ctx w') \<and>
    torn (sim_content (ctx w)) (overwrite off src (sim_content (ctx w))) (sim_content (ctx w')) \<and>
    (r = LS_OK \<longrightarrow> sim_content (ctx w') = overwrite off src (sim_content (ctx w)))"
    using assms(1,2) frame(1-6) len torn_prefix [of off src "sim_content (ctx w)"]
    by (cases rule: sim_write_cases [OF assms f]) auto
  show "r = LS_OK" if "sim_healthy (ctx w)"
    "\<And>i. i < length src \<Longrightarrow> clears_only (sim_content (ctx w) ! (off + i)) (src ! i)"
    using that frame(7) by (cases rule: sim_write_cases [OF assms f]) auto
  show "sim_healthy (ctx w') = sim_healthy (ctx w)" and "faults w' = faults w"
    using frame(3) by (cases rule: sim_write_cases [OF assms f]; simp)+
qed

lemma sim_erase_law:
  assumes "sim_ok cap (ctx w)" and "off + n \<le> cap" and "ls_storage_sim_erase off n w = (r, w')"
  shows "sim_ok cap (ctx w') \<and>
    torn (sim_content (ctx w)) (overwrite off (replicate n 0xff) (sim_content (ctx w)))
      (sim_content (ctx w')) \<and>
    (r = LS_OK \<longrightarrow> sim_content (ctx w') = overwrite off (replicate n 0xff) (sim_content (ctx w)))"
    and "sim_healthy (ctx w) \<Longrightarrow> r = LS_OK"
    and "sim_healthy (ctx w') = sim_healthy (ctx w)" and "faults w' = faults w"
proof -
  obtain b s where f: "sim_fail (ctx w) = (b, s)" by (metis prod.exhaust)
  note frame = sim_fail_frame [OF f]
  have len: "length (sim_content (ctx w)) = cap" using assms(1) by (rule sim_content_length)
  have the: "the (sim_data s) = sim_content (ctx w)"
    using assms(1) frame sim_content_the by metis
  define k where "k = (if b then (if partial_bytes s < n then partial_bytes s else n) else n)"
  have k: "k \<le> n" "\<not> b \<Longrightarrow> k = n" by (auto simp: k_def)
  have r: "r = (if b then LS_EIO else LS_OK)"
    and w': "w' = w\<lparr>ctx := s\<lparr>sim_data := Some (overwrite off (replicate k 0xff) (sim_content (ctx w)))\<rparr>\<rparr>"
    using assms f the
    by (auto simp: ls_storage_sim_erase_def sim_bounds_OK Let_def ls_memset_def k_def)
  have "torn (sim_content (ctx w)) (overwrite off (replicate n 0xff) (sim_content (ctx w)))
      (overwrite off (replicate k 0xff) (sim_content (ctx w)))"
    using torn_prefix [of off "replicate n 0xff" "sim_content (ctx w)" k] assms(2) len k(1)
    by (simp add: min_def)
  then show "sim_ok cap (ctx w') \<and>
    torn (sim_content (ctx w)) (overwrite off (replicate n 0xff) (sim_content (ctx w)))
      (sim_content (ctx w')) \<and>
    (r = LS_OK \<longrightarrow> sim_content (ctx w') = overwrite off (replicate n 0xff) (sim_content (ctx w)))"
    using w' r k frame assms(1,2) len by auto
  show "sim_healthy (ctx w) \<Longrightarrow> r = LS_OK"
    and "sim_healthy (ctx w') = sim_healthy (ctx w)" and "faults w' = faults w"
    using w' r frame by auto
qed

lemma sim_read_law:
  assumes "sim_ok cap (ctx w)" and "off + n \<le> cap" and "ls_storage_sim_read off n w = ((r, d), w')"
  shows "sim_ok cap (ctx w') \<and> sim_content (ctx w') = sim_content (ctx w) \<and>
    (r = LS_OK \<longrightarrow> d = bslice off n (sim_content (ctx w)))"
    and "sim_healthy (ctx w) \<Longrightarrow> r = LS_OK"
    and "sim_healthy (ctx w') = sim_healthy (ctx w)" and "faults w' = faults w"
proof -
  obtain b s where f: "sim_fail (ctx w) = (b, s)" by (metis prod.exhaust)
  note frame = sim_fail_frame [OF f]
  have the: "the (sim_data s) = sim_content (ctx w)"
    using assms(1) frame sim_content_the by metis
  have eq: "((r, d), w') = ((if b then LS_EIO else LS_OK,
      if b then [] else bslice off n (sim_content (ctx w))), w\<lparr>ctx := s\<rparr>)"
    using assms f the by (simp add: ls_storage_sim_read_def sim_bounds_OK split: if_splits bool.splits)
  show "sim_ok cap (ctx w') \<and> sim_content (ctx w') = sim_content (ctx w) \<and>
    (r = LS_OK \<longrightarrow> d = bslice off n (sim_content (ctx w)))"
    and "sim_healthy (ctx w) \<Longrightarrow> r = LS_OK"
    and "sim_healthy (ctx w') = sim_healthy (ctx w)" and "faults w' = faults w"
    using eq frame assms(1) by auto
qed

lemma sim_sync_law:
  assumes "ls_storage_sim_sync w = (r, w')"
  shows "sim_ok cap (ctx w') = sim_ok cap (ctx w)" "sim_content (ctx w') = sim_content (ctx w)"
    "sim_healthy (ctx w') = sim_healthy (ctx w)" "faults w' = faults w"
    "sim_healthy (ctx w) \<Longrightarrow> r = LS_OK"
proof -
  obtain b s where f: "sim_fail (ctx w) = (b, s)" by (metis prod.exhaust)
  then have "r = (if b then LS_EIO else LS_OK)" and "w' = w\<lparr>ctx := s\<rparr>"
    using assms by (auto simp: ls_storage_sim_sync_def)
  then show "sim_ok cap (ctx w') = sim_ok cap (ctx w)" "sim_content (ctx w') = sim_content (ctx w)"
    "sim_healthy (ctx w') = sim_healthy (ctx w)" "faults w' = faults w"
    "sim_healthy (ctx w) \<Longrightarrow> r = LS_OK"
    using sim_fail_frame [OF f] by simp_all
qed

lemmas sim_calls = sim_backend_def call_read_def call_write_def call_erase_def call_sync_def

interpretation sim: reliable_device "sim_backend cap erase_sz write_sz" "sim_ok cap" sim_content
  sim_healthy clears_only
proof (unfold_locales, goal_cases)
  case (4 w off n r d w')
  then show ?case using sim_read_law(1) by (simp add: sim_calls)
next
  case (5 w off src r w')
  then show ?case using sim_write_law(1) by (simp add: sim_calls)
next
  case (6 w r w')
  then show ?case using sim_sync_law by (simp add: sim_calls)
next
  case (8 w off n r w')
  then show ?case using sim_erase_law(1) by (simp add: sim_calls)
next
  case (10 w off n)
  obtain r d w' where "ls_storage_sim_read off n w = ((r, d), w')" by (metis prod.exhaust)
  with sim_read_law [of cap w off n r d w'] 10 show ?case by (simp add: sim_calls no_faults_def)
next
  case (11 w off src)
  obtain r w' where "ls_storage_sim_write off src w = (r, w')" by (metis prod.exhaust)
  with sim_write_law [of cap w off src r w'] 11 show ?case by (simp add: sim_calls no_faults_def)
next
  case (12 w off n)
  obtain r w' where "ls_storage_sim_erase off n w = (r, w')" by (metis prod.exhaust)
  with sim_erase_law [of cap w off n r w'] 12 show ?case by (simp add: sim_calls no_faults_def)
next
  case (13 w)
  obtain r w' where "ls_storage_sim_sync w = (r, w')" by (metis prod.exhaust)
  with sim_sync_law [of w r w'] 13 show ?case by (simp add: sim_calls no_faults_def)
qed (simp_all add: sim_calls sim_content_length)

section \<open>Programming the simulated flash\<close>

text \<open>C39: whatever operation the power loss hits and however many bytes it lets through, a call of
  \<open>ls_storage_program\<close> leaves every byte of the flash either as it was or as requested, never
  touches a byte outside the requested range, and with write units of more than one byte only
  clears bits; when it reports success, the range holds exactly the requested bytes.\<close>

theorem storage_program_power_loss:
  assumes "sim_ok cap (ctx w)" and "off + length src \<le> cap"
    and "ls_storage_program cfg (sim_backend cap erase_sz write_sz) off src w = (r, w')"
  shows "sim_ok cap (ctx w') \<and>
    torn (sim_content (ctx w)) (overwrite off src (sim_content (ctx w))) (sim_content (ctx w')) \<and>
    (r = LS_OK \<longrightarrow> sim_content (ctx w') = overwrite off src (sim_content (ctx w))) \<and>
    (1 < write_sz \<longrightarrow>
       (\<forall>i<cap. clears_only (sim_content (ctx w) ! i) (sim_content (ctx w') ! i)))"
proof -
  note E = sim.program_effects [OF assms(3,1)]
  have "\<forall>i<cap. clears_only (sim_content (ctx w) ! i) (sim_content (ctx w') ! i)"
    if "nor_torn (sim_content (ctx w)) (overwrite off src (sim_content (ctx w))) (sim_content (ctx w'))"
    using that sim_content_length [OF assms(1)] by (auto simp: nor_torn_def)
  then show ?thesis using E assms(2) by (simp add: sim_backend_def)
qed

text \<open>On a simulated flash with no failure scheduled, whose capacity is a multiple of its
  write unit, programming bytes that only clear bits succeeds: any erased range can be written,
  in any alignment.\<close>

theorem storage_program_succeeds:
  assumes "sim_ok cap (ctx w)" and "sim_healthy (ctx w)" and "no_faults w"
    and "off + length src \<le> cap"
    and "write_sz \<le> LS_STORAGE_MAX_WRITE_SIZE cfg" and "1 \<le> LS_STORAGE_MAX_WRITE_SIZE cfg"
    and "write_sz dvd cap" and "cap + write_sz \<le> SIZE_MAX"
    and "\<forall>i<length src. clears_only (sim_content (ctx w) ! (off + i)) (src ! i)"
  shows "\<exists>w'. ls_storage_program cfg (sim_backend cap erase_sz write_sz) off src w = (LS_OK, w') \<and>
    sim_content (ctx w') = overwrite off src (sim_content (ctx w))"
proof -
  have "\<exists>w'. ls_storage_program cfg (sim_backend cap erase_sz write_sz) off src w = (LS_OK, w') \<and>
      sim_healthy (ctx w') \<and> no_faults w' \<and> sim_ok cap (ctx w') \<and>
      sim_content (ctx w') = overwrite off src (sim_content (ctx w))"
    by (rule sim.program_ok) (use assms in \<open>auto simp: sim_backend_def\<close>)
  then show ?thesis by blast
qed

text \<open>A small NOR flash, and the same flash losing power at its fourth operation after one byte.\<close>

definition example_flash :: "bytes \<Rightarrow> ls_storage_sim world" where
  "example_flash d =
     \<lparr>faults = faults_none,
      ctx = \<lparr>sim_data = Some d, sim_size = length d, operation_count = 0, fail_operation = 0,
             partial_bytes = 0, enforce_nor = True\<rparr>\<rparr>"

definition failing_flash :: "bytes \<Rightarrow> ls_storage_sim world" where
  "failing_flash d =
     (example_flash d)\<lparr>ctx := ls_storage_sim_fail_at 4 1 (ctx (example_flash d))\<rparr>"

lemma example_flash_simps [simp]:
  "n = length d \<Longrightarrow> sim_ok n (ctx (example_flash d))" "sim_healthy (ctx (example_flash d))"
  "no_faults (example_flash d)" "sim_content (ctx (example_flash d)) = d"
  "n = length d \<Longrightarrow> sim_ok n (ctx (failing_flash d))" "sim_content (ctx (failing_flash d)) = d"
  by (simp_all add: example_flash_def failing_flash_def ls_storage_sim_fail_at_def sim_ok_def
      sim_healthy_def no_faults_def faults_none_def sim_content_def)

theorem storage_program_power_loss_witness:
  "torn [0xff, 0xff, 0x0f, 0xff] [0xff, 0x12, 0x05, 0xff]
     (sim_content (ctx (snd (ls_storage_program ls_build_config_default (sim_backend 4 4 2) 1
        [0x12, 0x05] (failing_flash [0xff, 0xff, 0x0f, 0xff])))))"
proof -
  obtain r w' where p: "ls_storage_program ls_build_config_default (sim_backend 4 4 2) 1
      [0x12, 0x05] (failing_flash [0xff, 0xff, 0x0f, 0xff]) = (r, w')"
    by (metis prod.exhaust)
  show ?thesis
    unfolding p using storage_program_power_loss [OF _ _ p] by (simp add: overwrite_def)
qed

theorem storage_program_succeeds_witness:
  "\<exists>w'. ls_storage_program ls_build_config_default (sim_backend 4 4 2) 1 [0x12, 0x05]
       (example_flash [0xff, 0xff, 0x0f, 0xff]) = (LS_OK, w') \<and>
     sim_content (ctx w') = [0xff, 0x12, 0x05, 0xff]"
  using storage_program_succeeds [of 4 "example_flash [0xff, 0xff, 0x0f, 0xff]" 1 "[0x12, 0x05]" 2
      ls_build_config_default 4]
  by (simp add: ls_build_config_default_def SIZE_MAX_def overwrite_def clears_only_def
      all_less_Suc_iff)

end
