(* ===== verification/LS_Flash_Mirror.thy ===== *)
theory LS_Flash_Mirror
  imports LS_Storage_Sim
begin

text \<open>
  \<^verbatim>\<open>src/storage/flash_mirror.c\<close>: a logical byte store kept as a whole image in one of two banks of
  a raw flash. An update writes the new image to the other bank and ends with a commit marker. The
  mirror's context holds the raw device's context; \<open>on_raw\<close> runs a raw operation inside it. The raw
  backend is the parameter \<open>raw\<close>, since the code never changes it after initialisation.
\<close>

section \<open>Layout\<close>

definition FLASH_MAGIC :: u32 where "FLASH_MAGIC = 0x464d534c"
definition FLASH_VERSION :: u32 where "FLASH_VERSION = 2"
definition FLASH_COMMITTED :: u8 where "FLASH_COMMITTED = 0xa5"

record flash_header =
  fh_magic :: u32
  fh_version :: u32
  fh_generation :: u32
  fh_logical_capacity :: u32
  fh_data_crc :: u32
  fh_header_crc :: u32

text \<open>The structure as it lies in memory.\<close>

definition flash_header_bytes :: "flash_header \<Rightarrow> bytes" where
  "flash_header_bytes h =
     le32 (fh_magic h) @ le32 (fh_version h) @ le32 (fh_generation h) @
     le32 (fh_logical_capacity h) @ le32 (fh_data_crc h) @ le32 (fh_header_crc h)"

definition flash_header_parse :: "bytes \<Rightarrow> flash_header" where
  "flash_header_parse d =
     \<lparr>fh_magic = read_u32 d 0, fh_version = read_u32 d 4, fh_generation = read_u32 d 8,
      fh_logical_capacity = read_u32 d 12, fh_data_crc = read_u32 d 16,
      fh_header_crc = read_u32 d 20\<rparr>"

definition add_size :: "nat \<Rightarrow> nat \<Rightarrow> nat option" where
  "add_size left right = (if left > SIZE_MAX - right then None else Some (left + right))"

definition align_size :: "nat \<Rightarrow> nat \<Rightarrow> nat option" where
  "align_size v alignment =
     (if alignment = 0 then None
      else let remainder = v mod alignment
           in if remainder = 0 then Some v else add_size v (alignment - remainder))"

text \<open>The offsets of the payload and of the commit marker in a bank, and the size of a bank.\<close>

definition flash_layout :: "ls_build_config \<Rightarrow> nat \<Rightarrow> nat \<Rightarrow> nat \<Rightarrow> (nat \<times> nat \<times> nat) option" where
  "flash_layout cfg logical_capacity erase_size write_size =
     (if logical_capacity = 0 \<or> erase_size = 0 \<or> write_size = 0 \<or> write_size > erase_size \<or>
         erase_size mod write_size \<noteq> 0 \<or> write_size > LS_STORAGE_MAX_WRITE_SIZE cfg
      then None
      else Option.bind (align_size 24 write_size) (\<lambda>commit.
           Option.bind (add_size commit write_size) (\<lambda>metadata_end.
           Option.bind (align_size metadata_end write_size) (\<lambda>payload.
           Option.bind (add_size payload logical_capacity) (\<lambda>bank.
           Option.bind (align_size bank erase_size) (\<lambda>bank'.
             Some (payload, commit, bank')))))))"

definition ls_flash_mirror_physical_size_for_write ::
  "ls_build_config \<Rightarrow> nat \<Rightarrow> nat \<Rightarrow> nat \<Rightarrow> nat" where
  "ls_flash_mirror_physical_size_for_write cfg logical_capacity erase_size write_size =
     (let write_size = (if write_size = 0 then 1 else write_size)
      in case flash_layout cfg logical_capacity erase_size write_size of
           None \<Rightarrow> 0
         | Some (payload, commit, bank) \<Rightarrow>
             (case add_size bank bank of None \<Rightarrow> 0 | Some physical \<Rightarrow> physical))"

definition ls_flash_mirror_physical_size :: "ls_build_config \<Rightarrow> nat \<Rightarrow> nat \<Rightarrow> nat" where
  "ls_flash_mirror_physical_size cfg logical_capacity erase_size =
     ls_flash_mirror_physical_size_for_write cfg logical_capacity erase_size 1"

section \<open>State and operations\<close>

record 'r ls_flash_mirror =
  fm_raw :: 'r
  fm_workspace :: bytes
  fm_logical_capacity :: nat
  fm_bank_size :: nat
  fm_payload_offset :: nat
  fm_commit_offset :: nat
  fm_active_bank :: u8
  fm_generation :: u32

definition on_raw ::
  "('r world \<Rightarrow> 'a \<times> 'r world) \<Rightarrow> 'r ls_flash_mirror world \<Rightarrow> 'a \<times> 'r ls_flash_mirror world" where
  "on_raw f w =
     (case f \<lparr>faults = faults w, ctx = fm_raw (ctx w)\<rparr> of
        (a, w') \<Rightarrow> (a, \<lparr>faults = faults w', ctx = (ctx w)\<lparr>fm_raw := ctx w'\<rparr>\<rparr>))"

definition bank_offset :: "'r ls_flash_mirror \<Rightarrow> u8 \<Rightarrow> nat" where
  "bank_offset m bank = unat bank * fm_bank_size m"

definition header_crc :: "flash_header \<Rightarrow> u32" where
  "header_crc h = ls_crc32 (take 20 (flash_header_bytes h))"

definition valid_header :: "'r ls_flash_mirror \<Rightarrow> flash_header \<Rightarrow> bool" where
  "valid_header m h \<longleftrightarrow>
     fh_magic h = FLASH_MAGIC \<and> fh_version h = FLASH_VERSION \<and>
     unat (fh_logical_capacity h) = fm_logical_capacity m \<and>
     fh_header_crc h = header_crc h"

text \<open>The result, the header read and \<^verbatim>\<open>*valid\<close>; the payload is read into the workspace.\<close>

definition valid_bank ::
  "'r ls_storage_backend \<Rightarrow> u8 \<Rightarrow> 'r ls_flash_mirror world \<Rightarrow>
     (ls_result \<times> flash_header \<times> bool) \<times> 'r ls_flash_mirror world" where
  "valid_bank raw bank w =
     (let m = ctx w; offset = bank_offset m bank
      in case on_raw (call_read raw offset 24) w of
           ((r, d), w1) \<Rightarrow>
             let h = flash_header_parse d
             in if r \<noteq> LS_OK then ((r, h, False), w1)
                else if \<not> valid_header m h then ((LS_OK, h, False), w1)
                else case on_raw (call_read raw (offset + fm_commit_offset m) 1) w1 of
                       ((r, committed), w2) \<Rightarrow>
                         if r \<noteq> LS_OK then ((r, h, False), w2)
                         else if committed ! 0 \<noteq> FLASH_COMMITTED then ((LS_OK, h, False), w2)
                         else case on_raw (call_read raw (offset + fm_payload_offset m)
                                              (fm_logical_capacity m)) w2 of
                                ((r, payload), w3) \<Rightarrow>
                                  if r \<noteq> LS_OK then ((r, h, False), w3)
                                  else ((LS_OK, h, fh_data_crc h = ls_crc32 payload),
                                        w3\<lparr>ctx := (ctx w3)\<lparr>fm_workspace :=
                                          overwrite 0 payload (fm_workspace (ctx w3))\<rparr>\<rparr>))"

definition image_header :: "nat \<Rightarrow> u32 \<Rightarrow> bytes \<Rightarrow> flash_header" where
  "image_header logical_capacity generation img =
     (let h = \<lparr>fh_magic = FLASH_MAGIC, fh_version = FLASH_VERSION, fh_generation = generation,
               fh_logical_capacity = of_nat logical_capacity, fh_data_crc = ls_crc32 img,
               fh_header_crc = 0\<rparr>
      in h\<lparr>fh_header_crc := header_crc h\<rparr>)"

definition commit_image ::
  "ls_build_config \<Rightarrow> 'r ls_storage_backend \<Rightarrow> u8 \<Rightarrow> u32 \<Rightarrow> 'r ls_flash_mirror world \<Rightarrow>
     ls_result \<times> 'r ls_flash_mirror world" where
  "commit_image cfg raw bank generation w =
     (let m = ctx w;
          offset = bank_offset m bank;
          img = take (fm_logical_capacity m) (fm_workspace m);
          h = image_header (fm_logical_capacity m) generation img
      in case on_raw (ls_seq
                [call_erase raw offset (fm_bank_size m),
                 ls_storage_program cfg raw offset (flash_header_bytes h),
                 ls_storage_program cfg raw (offset + fm_payload_offset m) img,
                 call_sync raw,
                 ls_storage_program cfg raw (offset + fm_commit_offset m) [FLASH_COMMITTED],
                 call_sync raw]) w of
           (r, w') \<Rightarrow>
             if r = LS_OK
             then (r, w'\<lparr>ctx := (ctx w')\<lparr>fm_active_bank := bank, fm_generation := generation\<rparr>\<rparr>)
             else (r, w'))"

definition mirror_read ::
  "'r ls_storage_backend \<Rightarrow> nat \<Rightarrow> nat \<Rightarrow> 'r ls_flash_mirror world \<Rightarrow>
     (ls_result \<times> bytes) \<times> 'r ls_flash_mirror world" where
  "mirror_read raw off n w =
     (let m = ctx w
      in if off > fm_logical_capacity m \<or> n > fm_logical_capacity m - off then ((LS_EINVAL, []), w)
         else on_raw (call_read raw
                (bank_offset m (fm_active_bank m) + fm_payload_offset m + off) n) w)"

text \<open>\<open>read_active_image\<close> fills the workspace when the read succeeds.\<close>

definition read_active_image ::
  "'r ls_storage_backend \<Rightarrow> 'r ls_flash_mirror world \<Rightarrow> ls_result \<times> 'r ls_flash_mirror world" where
  "read_active_image raw w =
     (let m = ctx w
      in case on_raw (call_read raw (bank_offset m (fm_active_bank m) + fm_payload_offset m)
                        (fm_logical_capacity m)) w of
           ((r, d), w') \<Rightarrow>
             if r = LS_OK then (r, w'\<lparr>ctx := (ctx w')\<lparr>fm_workspace := overwrite 0 d (fm_workspace (ctx w'))\<rparr>\<rparr>) else (r, w'))"

text \<open>An update of the image; \<open>None\<close> erases \<open>n\<close> bytes, \<open>Some src\<close> stores them.\<close>

definition update_image ::
  "ls_build_config \<Rightarrow> 'r ls_storage_backend \<Rightarrow> nat \<Rightarrow> bytes option \<Rightarrow> nat \<Rightarrow>
     'r ls_flash_mirror world \<Rightarrow> ls_result \<times> 'r ls_flash_mirror world" where
  "update_image cfg raw off src n w =
     (let m = ctx w
      in if off > fm_logical_capacity m \<or> n > fm_logical_capacity m - off then (LS_EINVAL, w)
         else and_then (read_active_image raw w) (\<lambda>w1.
           let data = (case src of None \<Rightarrow> replicate n 0xff | Some d \<Rightarrow> take n d);
               w2 = w1\<lparr>ctx := (ctx w1)\<lparr>fm_workspace := overwrite off data (fm_workspace (ctx w1))\<rparr>\<rparr>
           in commit_image cfg raw (fm_active_bank m XOR 1) (fm_generation m + 1) w2))"

definition mirror_write where
  "mirror_write cfg raw off src w = update_image cfg raw off (Some src) (length src) w"

definition mirror_erase where
  "mirror_erase cfg raw off n w = update_image cfg raw off None n w"

definition mirror_sync :: "'r ls_storage_backend \<Rightarrow> 'r ls_flash_mirror world \<Rightarrow> ls_result \<times> 'r ls_flash_mirror world" where
  "mirror_sync raw w = on_raw (call_sync raw) w"

text \<open>The backend the mirror publishes.\<close>

definition mirror_backend ::
  "ls_build_config \<Rightarrow> 'r ls_storage_backend \<Rightarrow> nat \<Rightarrow> 'r ls_flash_mirror ls_storage_backend" where
  "mirror_backend cfg raw logical_capacity =
     \<lparr>be_capacity = logical_capacity, be_erase_size = 1, be_write_size = 1,
      be_read = Some (mirror_read raw), be_write = Some (mirror_write cfg raw),
      be_erase = Some (mirror_erase cfg raw), be_sync = Some (mirror_sync raw)\<rparr>"

definition ls_flash_mirror_init ::
  "ls_build_config \<Rightarrow> 'r ls_storage_backend \<Rightarrow> bytes \<Rightarrow> nat \<Rightarrow> 'r ls_flash_mirror world \<Rightarrow>
     ls_result \<times> 'r ls_flash_mirror world" where
  "ls_flash_mirror_init cfg raw workspace logical_capacity w =
     (if be_read raw = None \<or> be_write raw = None \<or> be_erase raw = None \<or>
         logical_capacity = 0 \<or> logical_capacity > UINT32_MAX
      then (LS_EINVAL, w)
      else let write_size = (if be_write_size raw \<noteq> 0 then be_write_size raw else 1)
           in case flash_layout cfg logical_capacity (be_erase_size raw) write_size of
                None \<Rightarrow> (LS_EINVAL, w)
              | Some (payload, commit, bank) \<Rightarrow>
                  if bank > SIZE_MAX div 2 \<or> be_capacity raw < bank * 2 then (LS_ENOSPACE, w)
                  else let w0 = w\<lparr>ctx := \<lparr>fm_raw = fm_raw (ctx w), fm_workspace = workspace,
                                  fm_logical_capacity = logical_capacity, fm_bank_size = bank,
                                  fm_payload_offset = payload, fm_commit_offset = commit,
                                  fm_active_bank = 0, fm_generation = 0\<rparr>\<rparr>
                       in case valid_bank raw 0 w0 of
                            ((r1, first, first_valid), w1) \<Rightarrow>
                              if r1 \<noteq> LS_OK then (r1, w1)
                              else case valid_bank raw 1 w1 of
                                ((r2, second, second_valid), w2) \<Rightarrow>
                                  if r2 \<noteq> LS_OK then (r2, w2)
                                  else if first_valid \<or> second_valid
                                  then if second_valid \<and>
                                          (\<not> first_valid \<or>
                                           generation_is_newer (fh_generation second)
                                             (fh_generation first))
                                       then (LS_OK, w2\<lparr>ctx := (ctx w2)\<lparr>fm_active_bank := 1,
                                               fm_generation := fh_generation second\<rparr>\<rparr>)
                                       else (LS_OK, w2\<lparr>ctx := (ctx w2)\<lparr>fm_active_bank := 0,
                                               fm_generation := fh_generation first\<rparr>\<rparr>)
                                  else commit_image cfg raw 0 1
                                         (w2\<lparr>ctx := (ctx w2)\<lparr>fm_workspace :=
                                            ls_memset 0 0xff logical_capacity
                                              (fm_workspace (ctx w2))\<rparr>\<rparr>))"

section \<open>Facts about the layout\<close>

lemma dvd_round_up: "0 < k \<Longrightarrow> k dvd v + k - v mod k" for k v :: nat
proof -
  have "v + k - v mod k = (v - v mod k) + k" by simp
  moreover have "k dvd v - v mod k" by (rule dvd_minus_mod)
  ultimately show ?thesis by (metis dvd_add dvd_refl)
qed

lemma le_round_up_mod: "0 < k \<Longrightarrow> v \<le> v + k - v mod k" for k v :: nat
  using mod_less_divisor [of k v] by linarith

lemma align_size_SomeD: "align_size v k = Some r \<Longrightarrow> v \<le> r \<and> k dvd r \<and> 0 < k"
  by (auto simp: align_size_def add_size_def Let_def dvd_round_up le_round_up_mod split: if_splits)

lemma flash_layoutD:
  assumes "flash_layout cfg lc es ws = Some (p, c, b)"
  shows "24 \<le> c" and "c + ws \<le> p" and "p + lc \<le> b" and "es dvd b" and "0 < ws" and "0 < lc"
    and "ws dvd b" and "ws \<le> LS_STORAGE_MAX_WRITE_SIZE cfg"
  using assms
  by (auto simp: flash_layout_def add_size_def bind_eq_Some_conv mod_eq_0_iff_dvd split: if_splits
      dest!: align_size_SomeD intro: dvd_trans)

lemma flash_header_parse_bytes [simp]: "flash_header_parse (flash_header_bytes h) = h"
proof -
  have "read_u32 (le32 a @ xs) (4 + k) = read_u32 xs k" for a xs k
    using read_u32_shift [of "le32 a" xs k] by simp
  note s = this [of _ _ 0, simplified] this [of _ _ 4, simplified] this [of _ _ 8, simplified]
    this [of _ _ 12, simplified] this [of _ _ 16, simplified]
  show ?thesis by (simp add: flash_header_parse_def flash_header_bytes_def s)
qed

lemma length_flash_header_bytes [simp]: "length (flash_header_bytes h) = 24"
  by (simp add: flash_header_bytes_def)

section \<open>Committing an image\<close>

text \<open>The raw content after a complete commit of \<open>img\<close> to the bank at \<open>base\<close>.\<close>

definition committed_bank ::
  "nat \<Rightarrow> nat \<Rightarrow> nat \<Rightarrow> nat \<Rightarrow> bytes \<Rightarrow> bytes \<Rightarrow> bytes \<Rightarrow> bytes" where
  "committed_bank base bank_size payload commit hdr img m =
     overwrite (base + commit) [FLASH_COMMITTED]
       (overwrite (base + payload) img
         (overwrite base hdr
           (overwrite base (replicate bank_size 0xff) m)))"

text \<open>An interrupted commit outside the erase: the bank has no marker, the rest is untouched.\<close>

definition uncommitted_bank :: "nat \<Rightarrow> nat \<Rightarrow> nat \<Rightarrow> bytes \<Rightarrow> bytes \<Rightarrow> bool" where
  "uncommitted_bank base bank_size commit m m' \<longleftrightarrow>
     m' ! (base + commit) = 0xff \<and>
     (\<forall>a n. a + n \<le> base \<or> base + bank_size \<le> a \<longrightarrow> bslice a n m' = bslice a n m)"

lemma uncommitted_torn:
  assumes "uncommitted_bank base bs c m m1" and "torn m1 (overwrite off src m1) m2"
    and "off + length src \<le> base + c \<or> base + c < off" and "base \<le> off"
    and "off + length src \<le> base + bs" and "base + bs \<le> length m1" and "c < bs"
  shows "uncommitted_bank base bs c m m2"
proof -
  have "bslice a n m2 = bslice a n m1" if "a + n \<le> off \<or> off + length src \<le> a" for a n
    by (rule torn_overwrite_frame [OF assms(2) _ that]) (use assms in linarith)
  moreover from this [of "base + c" 1] have "m2 ! (base + c) = m1 ! (base + c)"
  proof -
    have "bslice (base + c) 1 m2 = bslice (base + c) 1 m1"
      using \<open>base + c + 1 \<le> off \<or> off + length src \<le> base + c \<Longrightarrow>
        bslice (base + c) 1 m2 = bslice (base + c) 1 m1\<close> assms(3) by auto
    moreover have "length m2 = length m1" using assms(2) by (rule torn_length)
    ultimately show ?thesis
      using assms(6,7) nth_bslice [of 0 1 "base + c" m2] nth_bslice [of 0 1 "base + c" m1] by simp
  qed
  ultimately show ?thesis
    using assms by (auto simp: uncommitted_bank_def)
qed

lemma uncommitted_erased:
  assumes "base + bs \<le> length m" and "c < bs"
  shows "uncommitted_bank base bs c m (overwrite base (replicate bs 0xff) m)"
  using assms
  by (auto simp: uncommitted_bank_def nth_overwrite intro: bslice_overwrite_disjoint)

text \<open>The content left by an erase that did not complete.\<close>

definition erase_failed ::
  "'s ls_storage_backend \<Rightarrow> ('s \<Rightarrow> bool) \<Rightarrow> ('s \<Rightarrow> bytes) \<Rightarrow> nat \<Rightarrow> nat \<Rightarrow> bytes \<Rightarrow> bytes \<Rightarrow> bool" where
  "erase_failed dev dev_inv mem base n old new \<longleftrightarrow>
     (\<exists>w0 w1 r. dev_inv (ctx w0) \<and> mem (ctx w0) = old \<and> call_erase dev base n w0 = (r, w1) \<and>
        mem (ctx w1) = new)"

context flash_device
begin

lemma erase_failed_torn:
  "erase_failed dev inv mem base n old new \<Longrightarrow> base + n \<le> be_capacity dev \<Longrightarrow>
   torn old (overwrite base (replicate n 0xff) old) new"
  using erase_law by (auto simp: erase_failed_def)

lemma commit_steps:
  assumes "ls_seq [call_erase dev base bs, ls_storage_program cfg dev base hdr,
      ls_storage_program cfg dev (base + p) img, call_sync dev,
      ls_storage_program cfg dev (base + c) [FLASH_COMMITTED], call_sync dev] w = (r, w')"
    and "inv (ctx w)" and bank: "base + bs \<le> be_capacity dev"
    and lay: "length hdr \<le> c" "c < p" "p + length img \<le> bs"
  shows "inv (ctx w')"
    and "mem (ctx w') = committed_bank base bs p c hdr img (mem (ctx w)) \<or>
      r \<noteq> LS_OK \<and> (erase_failed dev inv mem base bs (mem (ctx w)) (mem (ctx w')) \<or>
        uncommitted_bank base bs c (mem (ctx w)) (mem (ctx w')))"
proof -
  let ?m = "mem (ctx w)"
  let ?E = "overwrite base (replicate bs 0xff) ?m"
  let ?H = "overwrite base hdr ?E"
  let ?P = "overwrite (base + p) img ?H"
  let ?F = "overwrite (base + c) [FLASH_COMMITTED] ?P"
  have len: "length ?m = be_capacity dev" using assms(2) by (rule mem_length)
  have fits: "base + length hdr \<le> be_capacity dev" "base + p + length img \<le> be_capacity dev"
    "base + c + length [FLASH_COMMITTED] \<le> be_capacity dev"
    using bank lay by simp_all
  have uE: "uncommitted_bank base bs c ?m ?E"
    using bank lay len by (intro uncommitted_erased) simp_all
  have uH: "uncommitted_bank base bs c ?m x" if "torn ?E ?H x" for x
    by (rule uncommitted_torn [OF uE that]) (use bank lay len in simp_all)
  have uH': "uncommitted_bank base bs c ?m ?H"
    by (rule uH) (use bank lay len in \<open>simp add: torn_new\<close>)
  have uP: "uncommitted_bank base bs c ?m x" if "torn ?H ?P x" for x
    by (rule uncommitted_torn [OF uH' that]) (use bank lay len in simp_all)
  have uP': "uncommitted_bank base bs c ?m ?P"
    by (rule uP) (use bank lay len in \<open>simp add: torn_new\<close>)
  have F: "x = ?P \<or> x = ?F" if "torn ?P ?F x" for x
    by (rule torn_single [OF that]) (use bank lay len in simp)
  obtain r1 w1 where s1: "call_erase dev base bs w = (r1, w1)" by (metis prod.exhaust)
  note e1 = erase_law [OF assms(2) bank s1]
  obtain r2 w2 where s2: "ls_storage_program cfg dev base hdr w1 = (r2, w2)" by (metis prod.exhaust)
  note e2 = program_effects [OF s2 conjunct1 [OF e1] fits(1)]
  obtain r3 w3 where s3: "ls_storage_program cfg dev (base + p) img w2 = (r3, w3)"
    by (metis prod.exhaust)
  note e3 = program_effects [OF s3 conjunct1 [OF e2] fits(2)]
  obtain r4 w4 where s4: "call_sync dev w3 = (r4, w4)" by (metis prod.exhaust)
  note e4 = sync_law [OF conjunct1 [OF e3] s4]
  obtain r5 w5 where s5: "ls_storage_program cfg dev (base + c) [FLASH_COMMITTED] w4 = (r5, w5)"
    by (metis prod.exhaust)
  note e5 = program_effects [OF s5 conjunct1 [OF e4] fits(3)]
  obtain r6 w6 where s6: "call_sync dev w5 = (r6, w6)" by (metis prod.exhaust)
  note e6 = sync_law [OF conjunct1 [OF e5] s6]
  have run: "(r, w') = (if r1 \<noteq> LS_OK then (r1, w1) else if r2 \<noteq> LS_OK then (r2, w2)
      else if r3 \<noteq> LS_OK then (r3, w3) else if r4 \<noteq> LS_OK then (r4, w4)
      else if r5 \<noteq> LS_OK then (r5, w5) else (r6, w6))"
    using assms(1) s1 s2 s3 s4 s5 s6 by (auto simp: and_then_def split: if_splits)
  have m1: "r1 = LS_OK \<Longrightarrow> mem (ctx w1) = ?E" using e1 by simp
  have m2: "r1 = LS_OK \<Longrightarrow> r2 = LS_OK \<Longrightarrow> mem (ctx w2) = ?H" using e2 m1 by simp
  have m4: "r1 = LS_OK \<Longrightarrow> r2 = LS_OK \<Longrightarrow> r3 = LS_OK \<Longrightarrow> mem (ctx w4) = ?P \<and> mem (ctx w3) = ?P"
    using e3 e4 m2 by simp
  show "inv (ctx w')" using run e1 e2 e3 e4 e5 e6 by (auto split: if_splits)
  have ef: "erase_failed dev inv mem base bs ?m (mem (ctx w1))"
    using s1 assms(2) by (auto simp: erase_failed_def)
  have "mem (ctx w') = ?F \<or> r \<noteq> LS_OK \<and> (erase_failed dev inv mem base bs ?m (mem (ctx w')) \<or>
      uncommitted_bank base bs c ?m (mem (ctx w')))"
  proof (cases "r1 = LS_OK \<and> r2 = LS_OK \<and> r3 = LS_OK")
    case True
    then have P: "mem (ctx w4) = ?P" and T: "torn ?P ?F (mem (ctx w5))" using m4 e5 by simp_all
    from F [OF T] show ?thesis
      using True run e5 e6 P uP' by (auto split: if_splits)
  next
    case False
    then show ?thesis
      using run ef e2 e3 m1 m2 uH uP by (cases "r1 = LS_OK"; cases "r2 = LS_OK") auto
  qed
  then show "mem (ctx w') = committed_bank base bs p c hdr img ?m \<or>
      r \<noteq> LS_OK \<and> (erase_failed dev inv mem base bs ?m (mem (ctx w')) \<or>
        uncommitted_bank base bs c ?m (mem (ctx w')))"
    by (simp add: committed_bank_def)
qed

end

section \<open>The mirror's invariant\<close>

text \<open>The bytes of one bank, and when they hold a committed image of a generation.\<close>

definition bank_slice :: "'r ls_flash_mirror \<Rightarrow> u8 \<Rightarrow> bytes \<Rightarrow> bytes" where
  "bank_slice m bank raw = bslice (bank_offset m bank) (fm_bank_size m) raw"

definition bank_ok :: "'r ls_flash_mirror \<Rightarrow> bytes \<Rightarrow> bool" where
  "bank_ok m b \<longleftrightarrow>
     valid_header m (flash_header_parse (bslice 0 24 b)) \<and> b ! fm_commit_offset m = FLASH_COMMITTED \<and>
     fh_data_crc (flash_header_parse (bslice 0 24 b)) =
       ls_crc32 (bslice (fm_payload_offset m) (fm_logical_capacity m) b)"

definition bank_generation :: "bytes \<Rightarrow> u32" where
  "bank_generation b = fh_generation (flash_header_parse (bslice 0 24 b))"

definition mirror_wf :: "nat \<Rightarrow> 'r ls_flash_mirror \<Rightarrow> bool" where
  "mirror_wf cap m \<longleftrightarrow>
     24 \<le> fm_commit_offset m \<and> fm_commit_offset m < fm_payload_offset m \<and>
     fm_payload_offset m + fm_logical_capacity m \<le> fm_bank_size m \<and> 2 * fm_bank_size m \<le> cap \<and>
     fm_logical_capacity m \<le> UINT32_MAX \<and> fm_logical_capacity m \<le> length (fm_workspace m)"

definition mirror_ok ::
  "'r ls_storage_backend \<Rightarrow> ('r \<Rightarrow> bool) \<Rightarrow> ('r \<Rightarrow> bytes) \<Rightarrow> nat \<Rightarrow> 'r ls_flash_mirror \<Rightarrow> bool" where
  "mirror_ok raw raw_inv mem lc m \<longleftrightarrow>
     mirror_wf (be_capacity raw) m \<and> fm_logical_capacity m = lc \<and>
     (fm_active_bank m = 0 \<or> fm_active_bank m = 1) \<and> raw_inv (fm_raw m) \<and>
     bank_ok m (bank_slice m (fm_active_bank m) (mem (fm_raw m)))"

definition mirror_content :: "('r \<Rightarrow> bytes) \<Rightarrow> 'r ls_flash_mirror \<Rightarrow> bytes" where
  "mirror_content mem m =
     bslice (fm_payload_offset m) (fm_logical_capacity m)
       (bank_slice m (fm_active_bank m) (mem (fm_raw m)))"

text \<open>The bytes of a freshly committed bank.\<close>

definition fresh_bank :: "'r ls_flash_mirror \<Rightarrow> u32 \<Rightarrow> bytes \<Rightarrow> bytes" where
  "fresh_bank m gen img =
     overwrite (fm_commit_offset m) [FLASH_COMMITTED]
       (overwrite (fm_payload_offset m) img
         (overwrite 0 (flash_header_bytes (image_header (fm_logical_capacity m) gen img))
           (replicate (fm_bank_size m) 0xff)))"

lemma header_crc_eq:
  "header_crc h = ls_crc32 (le32 (fh_magic h) @ le32 (fh_version h) @ le32 (fh_generation h) @
     le32 (fh_logical_capacity h) @ le32 (fh_data_crc h))"
  by (simp add: header_crc_def flash_header_bytes_def)

lemma image_header_valid:
  assumes "fm_logical_capacity m \<le> UINT32_MAX"
  shows "valid_header m (image_header (fm_logical_capacity m) gen img)"
    and "fh_generation (image_header lc gen img) = gen"
    and "fh_data_crc (image_header lc gen img) = ls_crc32 img"
  using assms
  by (simp_all add: valid_header_def image_header_def Let_def unat_of_nat UINT32_MAX_def
      header_crc_eq)

lemma fresh_bank_ok:
  assumes "mirror_wf cap m" and "length img = fm_logical_capacity m"
  shows "bank_ok m (fresh_bank m gen img)" and "bank_generation (fresh_bank m gen img) = gen"
    and "bslice (fm_payload_offset m) (fm_logical_capacity m) (fresh_bank m gen img) = img"
proof -
  let ?h = "image_header (fm_logical_capacity m) gen img"
  have hdr: "bslice 0 24 (fresh_bank m gen img) = flash_header_bytes ?h"
    using assms by (simp add: fresh_bank_def mirror_wf_def bslice_overwrite_disjoint)
  have pay: "bslice (fm_payload_offset m) (fm_logical_capacity m) (fresh_bank m gen img) = img"
    using assms by (simp add: fresh_bank_def mirror_wf_def bslice_overwrite_disjoint)
  have mark: "fresh_bank m gen img ! fm_commit_offset m = FLASH_COMMITTED"
    using assms by (simp add: fresh_bank_def mirror_wf_def nth_overwrite)
  show "bank_ok m (fresh_bank m gen img)" and "bank_generation (fresh_bank m gen img) = gen"
    using assms(1) hdr pay mark image_header_valid(1) [of m gen img]
      image_header_valid(2,3) [of m "fm_logical_capacity m" gen img]
    by (simp_all add: bank_ok_def bank_generation_def mirror_wf_def)
  show "bslice (fm_payload_offset m) (fm_logical_capacity m) (fresh_bank m gen img) = img"
    by (rule pay)
qed

lemma bslice_committed_bank:
  assumes "mirror_wf (length raw) m" and "length img = fm_logical_capacity m"
    and "base + fm_bank_size m \<le> length raw"
  shows "bslice base (fm_bank_size m)
      (committed_bank base (fm_bank_size m) (fm_payload_offset m) (fm_commit_offset m)
        (flash_header_bytes (image_header (fm_logical_capacity m) gen img)) img raw) =
    fresh_bank m gen img"
  using assms
  by (simp add: committed_bank_def fresh_bank_def mirror_wf_def bslice_overwrite_around)

lemma committed_bank_frame:
  assumes "length hdr \<le> c" "c < p" "p + length img \<le> bs" "base + bs \<le> length raw"
    and "a + n \<le> base \<or> base + bs \<le> a"
  shows "bslice a n (committed_bank base bs p c hdr img raw) = bslice a n raw"
  unfolding committed_bank_def using assms
  by (auto simp: bslice_overwrite_disjoint)

definition same_layout :: "'r ls_flash_mirror \<Rightarrow> 'r ls_flash_mirror \<Rightarrow> bool" where
  "same_layout m m' \<longleftrightarrow>
     fm_logical_capacity m' = fm_logical_capacity m \<and> fm_bank_size m' = fm_bank_size m \<and>
     fm_payload_offset m' = fm_payload_offset m \<and> fm_commit_offset m' = fm_commit_offset m \<and>
     length (fm_workspace m') = length (fm_workspace m)"

lemma same_layoutD:
  assumes "same_layout m m'"
  shows "bank_slice m' = bank_slice m" "bank_ok m' = bank_ok m" "fresh_bank m' = fresh_bank m"
    "mirror_wf cap m' = mirror_wf cap m" "bank_offset m' = bank_offset m"
    "fm_logical_capacity m' = fm_logical_capacity m" "fm_bank_size m' = fm_bank_size m"
    "fm_payload_offset m' = fm_payload_offset m" "fm_commit_offset m' = fm_commit_offset m"
    "length (fm_workspace m') = length (fm_workspace m)"
  using assms
  by (auto simp: same_layout_def fun_eq_iff bank_slice_def bank_offset_def bank_ok_def
      valid_header_def fresh_bank_def mirror_wf_def)

lemma take_overwrite:
  "off + length src \<le> k \<Longrightarrow> k \<le> length dst \<Longrightarrow>
   take k (overwrite off src dst) = overwrite off src (take k dst)"
  by (intro nth_equalityI) (auto simp: nth_overwrite)

lemma xor_1_banks: "a = 0 \<or> a = 1 \<Longrightarrow> a XOR 1 = 0 \<and> a = 1 \<or> a XOR 1 = 1 \<and> a = 0" for a :: u8
  by auto

lemma world_eta [simp]: "\<lparr>faults = faults w, ctx = ctx w\<rparr> = (w :: 's world)"
  by simp

lemma on_raw_step:
  "f \<lparr>faults = faults w, ctx = fm_raw (ctx w)\<rparr> = (a, w1) \<Longrightarrow>
   on_raw f w = (a, \<lparr>faults = faults w1, ctx = (ctx w)\<lparr>fm_raw := ctx w1\<rparr>\<rparr>)"
  by (simp add: on_raw_def)

lemma on_rawD:
  "on_raw f w = (a, w') \<Longrightarrow>
   \<exists>w1. f \<lparr>faults = faults w, ctx = fm_raw (ctx w)\<rparr> = (a, w1) \<and>
        w' = \<lparr>faults = faults w1, ctx = (ctx w)\<lparr>fm_raw := ctx w1\<rparr>\<rparr>"
  by (auto simp: on_raw_def split: prod.splits)

context flash_device
begin

lemma commit_image_effect:
  assumes run: "commit_image cfg dev bank gen w = (r, w')"
    and wf: "mirror_wf (be_capacity dev) (ctx w)" and raw: "inv (fm_raw (ctx w))"
    and bank: "bank = 0 \<and> other = 1 \<or> bank = 1 \<and> other = 0"
  defines "m \<equiv> ctx w" and "old \<equiv> mem (fm_raw (ctx w))" and "new \<equiv> mem (fm_raw (ctx w'))"
  shows "inv (fm_raw (ctx w'))"
    and "\<exists>raw'. ctx w' = m\<lparr>fm_raw := raw',
      fm_active_bank := (if r = LS_OK then bank else fm_active_bank m),
      fm_generation := (if r = LS_OK then gen else fm_generation m)\<rparr>"
    and "bank_slice m other new = bank_slice m other old"
    and "bank_slice m bank new = fresh_bank m gen (take (fm_logical_capacity m) (fm_workspace m)) \<or>
      r \<noteq> LS_OK \<and> (erase_failed dev inv mem (bank_offset m bank) (fm_bank_size m) old new \<or>
        bank_slice m bank new ! fm_commit_offset m = 0xff)"
proof -
  define base where "base = bank_offset m bank"
  define img where "img = take (fm_logical_capacity m) (fm_workspace m)"
  define hdr where "hdr = flash_header_bytes (image_header (fm_logical_capacity m) gen img)"
  let ?bs = "fm_bank_size m" and ?p = "fm_payload_offset m" and ?c = "fm_commit_offset m"
  have len: "length old = be_capacity dev" using raw by (simp add: old_def mem_length)
  have img: "length img = fm_logical_capacity m" using wf by (simp add: img_def mirror_wf_def m_def)
  have fits: "base + ?bs \<le> be_capacity dev"
    using bank wf by (auto simp: base_def bank_offset_def mirror_wf_def m_def)
  have lay: "length hdr \<le> ?c" "?c < ?p" "?p + length img \<le> ?bs"
    using wf img by (auto simp: mirror_wf_def m_def hdr_def)
  obtain w1 where steps: "ls_seq [call_erase dev base ?bs, ls_storage_program cfg dev base hdr,
      ls_storage_program cfg dev (base + ?p) img, call_sync dev,
      ls_storage_program cfg dev (base + ?c) [FLASH_COMMITTED], call_sync dev]
      \<lparr>faults = faults w, ctx = fm_raw (ctx w)\<rparr> = (r, w1)"
    and raw': "fm_raw (ctx w') = ctx w1"
    and ctx': "ctx w' = m\<lparr>fm_raw := ctx w1,
      fm_active_bank := (if r = LS_OK then bank else fm_active_bank m),
      fm_generation := (if r = LS_OK then gen else fm_generation m)\<rparr>"
    using run
    by (auto simp: commit_image_def Let_def simp flip: m_def base_def img_def hdr_def
        split: prod.splits if_splits dest!: on_rawD)
  note effect = commit_steps [OF steps _ fits lay, simplified, OF raw]
  show "inv (fm_raw (ctx w'))" using effect(1) raw' by simp
  show "\<exists>raw'. ctx w' = m\<lparr>fm_raw := raw',
      fm_active_bank := (if r = LS_OK then bank else fm_active_bank m),
      fm_generation := (if r = LS_OK then gen else fm_generation m)\<rparr>"
    using ctx' by blast
  let ?K = "committed_bank base ?bs ?p ?c hdr img old"
  have E: "new = ?K \<or> r \<noteq> LS_OK \<and> (erase_failed dev inv mem base ?bs old new \<or>
      uncommitted_bank base ?bs ?c old new)"
    using effect(2) by (simp add: new_def old_def raw')
  have frame: "bslice a n new = bslice a n old" if "a + n \<le> base \<or> base + ?bs \<le> a" for a n
    using E that fits len lay
    by (auto simp: committed_bank_frame uncommitted_bank_def torn_overwrite_frame
        dest: erase_failed_torn)
  show "bank_slice m other new = bank_slice m other old"
    unfolding bank_slice_def
    by (rule frame) (use bank in \<open>auto simp: base_def bank_offset_def\<close>)
  show "bank_slice m bank new = fresh_bank m gen (take (fm_logical_capacity m) (fm_workspace m)) \<or>
      r \<noteq> LS_OK \<and> (erase_failed dev inv mem (bank_offset m bank) ?bs old new \<or>
        bank_slice m bank new ! ?c = 0xff)"
  proof -
    have slice: "bank_slice m bank = bslice base ?bs" by (simp add: fun_eq_iff bank_slice_def base_def)
    have len': "length new = be_capacity dev"
      using effect(1) raw' by (simp add: new_def mem_length)
    have 1: "bslice base ?bs ?K = fresh_bank m gen img"
      unfolding hdr_def
      by (rule bslice_committed_bank) (use wf img fits len in \<open>simp_all add: m_def\<close>)
    have 3: "bslice base ?bs new ! ?c = 0xff" if "uncommitted_bank base ?bs ?c old new"
      using that lay fits len' by (simp add: uncommitted_bank_def)
    show ?thesis unfolding slice img_def [symmetric] base_def [symmetric] using E 1 3 by auto
  qed
qed

lemma mirror_content_length:
  assumes "mirror_ok dev inv mem lc m"
  shows "length (mirror_content mem m) = lc"
proof -
  have "length (mem (fm_raw m)) = be_capacity dev"
    using assms by (simp add: mirror_ok_def mem_length)
  then show ?thesis
    using assms
    by (auto simp: mirror_ok_def mirror_wf_def mirror_content_def bank_slice_def bank_offset_def)
qed

text \<open>The bytes of one update, as the image it leads to.\<close>

lemma read_active_effect:
  assumes "read_active_image dev w = (r, w')" and "mirror_ok dev inv mem lc (ctx w)"
  shows "\<exists>raw1 ws. length ws = length (fm_workspace (ctx w)) \<and>
      ctx w' = (ctx w)\<lparr>fm_raw := raw1, fm_workspace := ws\<rparr> \<and> inv raw1 \<and>
      mem raw1 = mem (fm_raw (ctx w)) \<and>
      (r = LS_OK \<longrightarrow> take lc ws = mirror_content mem (ctx w))"
proof -
  let ?m = "ctx w"
  let ?off = "bank_offset ?m (fm_active_bank ?m) + fm_payload_offset ?m"
  have ok: "inv (fm_raw ?m)" and wf: "mirror_wf (be_capacity dev) ?m" "fm_logical_capacity ?m = lc"
    and act: "fm_active_bank ?m = 0 \<or> fm_active_bank ?m = 1"
    using assms(2) by (auto simp: mirror_ok_def)
  have fit: "?off + lc \<le> be_capacity dev"
    using wf act by (auto simp: mirror_wf_def bank_offset_def)
  have "bslice ?off lc (mem (fm_raw ?m)) = mirror_content mem ?m"
    unfolding mirror_content_def bank_slice_def
    by (subst bslice_bslice) (use wf in \<open>simp_all add: mirror_wf_def\<close>)
  then have content: "bslice ?off lc (mem (fm_raw ?m)) = mirror_content mem ?m" .
  obtain d w1 where rd: "call_read dev ?off lc \<lparr>faults = faults w, ctx = fm_raw ?m\<rparr> = ((r, d), w1)"
    and ctx': "ctx w' = ?m\<lparr>fm_raw := ctx w1, fm_workspace :=
      (if r = LS_OK then overwrite 0 d (fm_workspace ?m) else fm_workspace ?m)\<rparr>"
    using assms(1) wf(2)
    by (auto simp: read_active_image_def Let_def split: prod.splits if_splits dest!: on_rawD)
  note R = read_law [OF _ fit rd, simplified, OF ok]
  have len: "r = LS_OK \<Longrightarrow> length d = lc"
    using R fit ok by (simp add: mem_length)
  have "take lc (overwrite 0 d (fm_workspace ?m)) = d" if "r = LS_OK"
    using len [OF that] by (simp add: overwrite_def)
  then show ?thesis
    using R ctx' content len wf
    by (intro exI [of _ "ctx w1"] exI [of _ "fm_workspace (ctx w')"]) (auto simp: mirror_wf_def)
qed

lemma update_effect:
  assumes run: "update_image cfg dev off src n w = (r, w')" and ok: "mirror_ok dev inv mem lc (ctx w)"
    and fit: "off + n \<le> lc"
    and data: "data = (case src of None \<Rightarrow> replicate n 0xff | Some d \<Rightarrow> take n d)" "length data = n"
  defines "m \<equiv> ctx w" and "new_img \<equiv> overwrite off data (mirror_content mem (ctx w))"
    and "act \<equiv> fm_active_bank (ctx w)"
  shows "mirror_ok dev inv mem lc (ctx w') \<and>
    mirror_content mem (ctx w') = (if r = LS_OK then new_img else mirror_content mem m) \<and>
    bank_slice m act (mem (fm_raw (ctx w'))) = bank_slice m act (mem (fm_raw m)) \<and>
    (bank_slice m (act XOR 1) (mem (fm_raw (ctx w'))) = fresh_bank m (fm_generation m + 1) new_img \<or>
     r \<noteq> LS_OK \<and>
     (erase_failed dev inv mem (bank_offset m (act XOR 1)) (fm_bank_size m) (mem (fm_raw m))
        (mem (fm_raw (ctx w'))) \<or>
      mem (fm_raw (ctx w')) = mem (fm_raw m) \<or>
      bank_slice m (act XOR 1) (mem (fm_raw (ctx w'))) ! fm_commit_offset m = 0xff)) \<and>
    same_layout m (ctx w') \<and> (r \<noteq> LS_OK \<longrightarrow> fm_active_bank (ctx w') = act)"
proof -
  have lc: "fm_logical_capacity m = lc" and wf: "mirror_wf (be_capacity dev) m"
    and act: "act = 0 \<or> act = 1" and bank: "bank_ok m (bank_slice m act (mem (fm_raw m)))"
    using ok by (auto simp: mirror_ok_def m_def act_def)
  obtain r1 w1 where rd: "read_active_image dev w = (r1, w1)" by (metis prod.exhaust)
  obtain raw1 ws where ws: "length ws = length (fm_workspace m)"
    and ctx1: "ctx w1 = m\<lparr>fm_raw := raw1, fm_workspace := ws\<rparr>"
    and inv1: "inv raw1" and mem1: "mem raw1 = mem (fm_raw m)"
    and read: "r1 = LS_OK \<Longrightarrow> take lc ws = mirror_content mem m"
    using read_active_effect [OF rd ok] by (auto simp: m_def)
  define w2 where "w2 = w1\<lparr>ctx := (ctx w1)\<lparr>fm_workspace := overwrite off data ws\<rparr>\<rparr>"
  have lw: "length (overwrite off data ws) = length ws"
    using fit data(2) wf ws lc by (auto simp: mirror_wf_def)
  have lay1: "same_layout m (ctx w1)" and lay2: "same_layout m (ctx w2)"
    using ws lw by (simp_all add: same_layout_def w2_def ctx1)
  have unfold: "update_image cfg dev off src n w =
      and_then (r1, w1) (\<lambda>_. commit_image cfg dev (act XOR 1) (fm_generation m + 1) w2)"
    using fit lc
    by (auto simp: update_image_def rd w2_def and_then_def data(1) ctx1 Let_def m_def act_def)
  show ?thesis
  proof (cases "r1 = LS_OK")
    case False
    then have "r = r1" and "w' = w1" using run unfold by simp_all
    then show ?thesis
      using False ok lc act bank inv1 mem1 lay1 ctx1 same_layoutD [OF lay1]
      by (auto simp: mirror_ok_def mirror_content_def m_def act_def)
  next
    case True
    then have go: "commit_image cfg dev (act XOR 1) (fm_generation m + 1) w2 = (r, w')"
      using run unfold by simp
    have img: "take lc (fm_workspace (ctx w2)) = new_img"
      using True read ws fit data(2) wf lc
      by (simp add: w2_def new_img_def m_def take_overwrite mirror_wf_def)
    have wf2: "mirror_wf (be_capacity dev) (ctx w2)" using wf same_layoutD(4) [OF lay2] by simp
    have inv2: "inv (fm_raw (ctx w2))" using inv1 by (simp add: w2_def ctx1)
    note C = commit_image_effect [OF go wf2 inv2, of act, OF xor_1_banks [OF act]]
    note lay = same_layoutD [OF lay2]
    have raw2: "mem (fm_raw (ctx w2)) = mem (fm_raw m)" by (simp add: w2_def ctx1 mem1)
    obtain raw' where ctx': "ctx w' = (ctx w2)\<lparr>fm_raw := raw',
        fm_active_bank := (if r = LS_OK then act XOR 1 else fm_active_bank (ctx w2)),
        fm_generation := (if r = LS_OK then fm_generation m + 1 else fm_generation (ctx w2))\<rparr>"
      using C(2) by blast
    have lay': "same_layout m (ctx w')" using lay2 by (simp add: ctx' same_layout_def)
    have act': "fm_active_bank (ctx w') = (if r = LS_OK then act XOR 1 else act)"
      by (simp add: ctx' w2_def ctx1 act_def m_def)
    let ?new = "mem (fm_raw (ctx w'))"
    have keep: "bank_slice m act ?new = bank_slice m act (mem (fm_raw m))"
      using C(3) raw2 lay by simp
    have other: "bank_slice m (act XOR 1) ?new = fresh_bank m (fm_generation m + 1) new_img \<or>
       r \<noteq> LS_OK \<and> (erase_failed dev inv mem (bank_offset m (act XOR 1)) (fm_bank_size m)
          (mem (fm_raw m)) ?new \<or> bank_slice m (act XOR 1) ?new ! fm_commit_offset m = 0xff)"
      using C(4) raw2 lay img lc by simp
    have len: "length new_img = fm_logical_capacity m"
      using fit data(2) lc mirror_content_length [OF ok] by (simp add: new_img_def)
    note fresh = fresh_bank_ok [OF wf len, of "fm_generation m + 1"]
    show ?thesis
      using other keep fresh bank C(1) lay' same_layoutD [OF lay'] act' lc wf xor_1_banks [OF act] act
      by (auto simp: mirror_ok_def mirror_content_def m_def act_def)
  qed
qed

text \<open>The mirror over any flash device is a flash device, whose failed updates change nothing.\<close>

lemma mirror_write_eq:
  assumes "mirror_write cfg dev off src w = (r, w')" and "mirror_ok dev inv mem lc (ctx w)"
    and "off + length src \<le> lc"
  shows "mirror_ok dev inv mem lc (ctx w') \<and> mirror_content mem (ctx w') =
    (if r = LS_OK then overwrite off src (mirror_content mem (ctx w)) else mirror_content mem (ctx w))"
  using update_effect [OF assms(1) [unfolded mirror_write_def] assms(2,3), of src] by simp

lemma mirror_erase_eq:
  assumes "mirror_erase cfg dev off n w = (r, w')" and "mirror_ok dev inv mem lc (ctx w)"
    and "off + n \<le> lc"
  shows "mirror_ok dev inv mem lc (ctx w') \<and> mirror_content mem (ctx w') =
    (if r = LS_OK then overwrite off (replicate n 0xff) (mirror_content mem (ctx w))
     else mirror_content mem (ctx w))"
  using update_effect [OF assms(1) [unfolded mirror_erase_def] assms(2,3), of "replicate n 0xff"]
  by simp

lemma mirror_read_eq:
  assumes "mirror_read dev off n w = ((r, d), w')" and "mirror_ok dev inv mem lc (ctx w)"
    and "off + n \<le> lc"
  shows "mirror_ok dev inv mem lc (ctx w') \<and> mirror_content mem (ctx w') = mirror_content mem (ctx w) \<and>
    (r = LS_OK \<longrightarrow> d = bslice off n (mirror_content mem (ctx w)))"
proof -
  let ?m = "ctx w"
  let ?off = "bank_offset ?m (fm_active_bank ?m) + fm_payload_offset ?m + off"
  have ok: "inv (fm_raw ?m)" and wf: "mirror_wf (be_capacity dev) ?m" "fm_logical_capacity ?m = lc"
    and act: "fm_active_bank ?m = 0 \<or> fm_active_bank ?m = 1"
    using assms(2) by (auto simp: mirror_ok_def)
  have fit: "?off + n \<le> be_capacity dev"
    using wf act assms(3) by (auto simp: mirror_wf_def bank_offset_def)
  have content: "bslice off n (mirror_content mem ?m) = bslice ?off n (mem (fm_raw ?m))"
    unfolding mirror_content_def bank_slice_def
    using wf assms(3) by (simp add: bslice_bslice mirror_wf_def add.assoc)
  obtain w1 where rd: "call_read dev ?off n \<lparr>faults = faults w, ctx = fm_raw ?m\<rparr> = ((r, d), w1)"
    and ctx': "ctx w' = ?m\<lparr>fm_raw := ctx w1\<rparr>"
    using assms(1,3) wf(2) by (auto simp: mirror_read_def Let_def split: if_splits dest!: on_rawD)
  note R = read_law [OF _ fit rd, simplified, OF ok]
  have lay: "same_layout ?m (ctx w')" by (simp add: ctx' same_layout_def)
  show ?thesis
    using R assms(2) content same_layoutD [OF lay]
    by (simp add: mirror_ok_def mirror_content_def ctx')
qed

lemma mirror_sync_eq:
  assumes "mirror_sync dev w = (r, w')" and "mirror_ok dev inv mem lc (ctx w)"
  shows "mirror_ok dev inv mem lc (ctx w') \<and> mirror_content mem (ctx w') = mirror_content mem (ctx w)"
proof -
  obtain w1 where sy: "call_sync dev \<lparr>faults = faults w, ctx = fm_raw (ctx w)\<rparr> = (r, w1)"
    and ctx': "ctx w' = (ctx w)\<lparr>fm_raw := ctx w1\<rparr>"
    using assms(1) by (auto simp: mirror_sync_def dest!: on_rawD)
  have "inv (fm_raw (ctx w))" using assms(2) by (simp add: mirror_ok_def)
  then have R: "inv (ctx w1) \<and> mem (ctx w1) = mem (fm_raw (ctx w))"
    using sync_law [OF _ sy] by simp
  have lay: "same_layout (ctx w) (ctx w')" by (simp add: ctx' same_layout_def)
  show ?thesis
    using R assms(2) same_layoutD [OF lay]
    by (simp add: mirror_ok_def mirror_content_def ctx')
qed

lemma mirror_is_flash_device:
  "flash_device (mirror_backend cfg dev lc) (mirror_ok dev inv mem lc) (mirror_content mem)"
proof (unfold_locales, goal_cases)
  case (4 w off n r d w')
  then show ?case using mirror_read_eq by (simp add: mirror_backend_def call_read_def)
next
  case (5 w off src r w')
  then have "mirror_write cfg dev off src w = (r, w')" and "off + length src \<le> lc"
    by (simp_all add: mirror_backend_def call_write_def)
  with mirror_write_eq [OF _ 5(1)] mirror_content_length [OF 5(1)] show ?case
    by (auto simp: torn_new)
next
  case (6 w r w')
  then show ?case using mirror_sync_eq by (simp add: mirror_backend_def call_sync_def)
next
  case (8 w off n r w')
  then have "mirror_erase cfg dev off n w = (r, w')" and "off + n \<le> lc"
    by (simp_all add: mirror_backend_def call_erase_def)
  with mirror_erase_eq [OF _ 8(1)] mirror_content_length [OF 8(1)] show ?case
    by (auto simp: torn_new)
qed (simp_all add: mirror_backend_def mirror_content_length)

end

interpretation mirror_sim: flash_device
  "mirror_backend cfg (sim_backend cap erase_sz write_sz) lc"
  "mirror_ok (sim_backend cap erase_sz write_sz) (sim_ok cap) sim_content lc"
  "mirror_content sim_content"
  by (rule sim.mirror_is_flash_device)

section \<open>Recovery after a power loss\<close>

text \<open>A device whose interrupted erase has erased a prefix of the range.\<close>

locale sequential_flash = flash_device +
  assumes erase_prefix: "inv (ctx w) \<Longrightarrow> off + n \<le> be_capacity dev \<Longrightarrow>
    call_erase dev off n w = (r, w') \<Longrightarrow>
    \<exists>k\<le>n. mem (ctx w') = overwrite off (replicate k 0xff) (mem (ctx w))"

text \<open>The bank that initialisation selects, when one of them is valid.\<close>

definition bank_selected :: "'r ls_flash_mirror \<Rightarrow> bytes \<Rightarrow> u8" where
  "bank_selected m raw =
     (let b0 = bank_slice m 0 raw; b1 = bank_slice m 1 raw
      in if bank_ok m b1 \<and>
            (\<not> bank_ok m b0 \<or> generation_is_newer (bank_generation b1) (bank_generation b0))
         then 1 else 0)"

text \<open>A mirror whose active bank is the one a restart selects.\<close>

definition mirror_recoverable ::
  "ls_build_config \<Rightarrow> 'r ls_storage_backend \<Rightarrow> ('r \<Rightarrow> bytes) \<Rightarrow> 'r ls_flash_mirror \<Rightarrow> bool" where
  "mirror_recoverable cfg raw mem m \<longleftrightarrow>
     flash_layout cfg (fm_logical_capacity m) (be_erase_size raw)
       (if be_write_size raw \<noteq> 0 then be_write_size raw else 1) =
       Some (fm_payload_offset m, fm_commit_offset m, fm_bank_size m) \<and>
     bank_selected m (mem (fm_raw m)) = fm_active_bank m \<and>
     fm_generation m = bank_generation (bank_slice m (fm_active_bank m) (mem (fm_raw m)))"

lemma bank_ok_not_erased:
  assumes "bank_ok m b" and "24 \<le> length b"
  shows "b ! 0 \<noteq> 0xff"
proof
  assume ff: "b ! 0 = 0xff"
  have "ucast (read_u32 (bslice 0 24 b) 0) = (0xff :: u8)"
    using assms(2) ff unfolding read_u32_def ucast_drop_bit_OR_bytes(1) by (simp add: bslice_def)
  moreover have "read_u32 (bslice 0 24 b) 0 = FLASH_MAGIC"
    using assms(1) by (simp add: bank_ok_def valid_header_def flash_header_parse_def)
  ultimately show False by (simp add: FLASH_MAGIC_def)
qed

lemma generation_successor:
  "generation_is_newer (g + 1) g" "\<not> generation_is_newer g (g + 1)"
  by (simp_all add: generation_is_newer_def)

context flash_device
begin

lemma valid_bank_effect:
  assumes run: "valid_bank dev bank w = ((r, h, v), w')" and wf: "mirror_wf (be_capacity dev) (ctx w)"
    and raw: "inv (fm_raw (ctx w))" and bank: "bank = 0 \<or> bank = 1"
  shows "\<exists>raw' ws. ctx w' = (ctx w)\<lparr>fm_raw := raw', fm_workspace := ws\<rparr> \<and>
      length ws = length (fm_workspace (ctx w)) \<and> inv raw' \<and> mem raw' = mem (fm_raw (ctx w)) \<and>
      (r = LS_OK \<longrightarrow> v = bank_ok (ctx w) (bank_slice (ctx w) bank (mem (fm_raw (ctx w)))) \<and>
         fh_generation h = bank_generation (bank_slice (ctx w) bank (mem (fm_raw (ctx w)))))"
proof -
  let ?m = "ctx w"
  let ?base = "bank_offset ?m bank"
  let ?b = "bank_slice ?m bank (mem (fm_raw ?m))"
  have fits: "?base + 24 \<le> be_capacity dev" "?base + fm_commit_offset ?m + 1 \<le> be_capacity dev"
    "?base + fm_payload_offset ?m + fm_logical_capacity ?m \<le> be_capacity dev"
    using wf bank by (auto simp: mirror_wf_def bank_offset_def)
  have sub: "bslice (?base + a) n (mem (fm_raw ?m)) = bslice a n ?b" if "a + n \<le> fm_bank_size ?m" for a n
    using that by (simp add: bank_slice_def bslice_bslice)
  obtain r1 d1 w1 where rd1: "call_read dev ?base 24 \<lparr>faults = faults w, ctx = fm_raw ?m\<rparr> = ((r1, d1), w1)"
    by (metis prod.exhaust)
  note R1 = read_law [OF _ fits(1) rd1, simplified, OF raw]
  obtain r2 d2 w2 where rd2: "call_read dev (?base + fm_commit_offset ?m) 1 w1 = ((r2, d2), w2)"
    by (metis prod.exhaust)
  note R2 = read_law [OF conjunct1 [OF R1] fits(2) rd2]
  obtain r3 d3 w3 where rd3: "call_read dev (?base + fm_payload_offset ?m) (fm_logical_capacity ?m) w2 = ((r3, d3), w3)"
    by (metis prod.exhaust)
  note R3 = read_law [OF conjunct1 [OF R2] fits(3) rd3]
  let ?c = "\<lambda>w1. \<lparr>faults = faults w1, ctx = ?m\<lparr>fm_raw := ctx w1\<rparr>\<rparr>"
  have o1: "on_raw (call_read dev ?base 24) w = ((r1, d1), ?c w1)"
    using rd1 by (rule on_raw_step)
  have o2: "on_raw (call_read dev (?base + fm_commit_offset ?m) 1) (?c w1) = ((r2, d2), ?c w2)"
    using on_raw_step [of "call_read dev (?base + fm_commit_offset ?m) 1" "?c w1"] rd2 by simp
  have o3: "on_raw (call_read dev (?base + fm_payload_offset ?m) (fm_logical_capacity ?m)) (?c w2) =
      ((r3, d3), ?c w3)"
    using on_raw_step [of "call_read dev (?base + fm_payload_offset ?m) (fm_logical_capacity ?m)" "?c w2"]
      rd3 by simp
  have wfm: "fm_commit_offset ?m < fm_payload_offset ?m" "24 \<le> fm_commit_offset ?m"
    "fm_payload_offset ?m + fm_logical_capacity ?m \<le> fm_bank_size ?m"
    "fm_logical_capacity ?m \<le> length (fm_workspace ?m)"
    using wf by (auto simp: mirror_wf_def)
  have bank_len: "length ?b = fm_bank_size ?m"
    using mem_length [OF raw] wf bank by (auto simp: bank_slice_def mirror_wf_def bank_offset_def)
  have d1: "r1 = LS_OK \<Longrightarrow> d1 = bslice 0 24 ?b" using R1 sub [of 0 24] wfm by simp
  have d2: "r2 = LS_OK \<Longrightarrow> d2 ! 0 = ?b ! fm_commit_offset ?m"
  proof -
    assume "r2 = LS_OK"
    moreover have le: "fm_commit_offset ?m + 1 \<le> fm_bank_size ?m" using wfm by linarith
    ultimately have "d2 = bslice (fm_commit_offset ?m) 1 ?b" using R1 R2 sub [OF le] by (simp only: add.assoc)
    moreover have "fm_commit_offset ?m + 0 < length ?b" using le bank_len by linarith
    ultimately show "d2 ! 0 = ?b ! fm_commit_offset ?m"
      using nth_bslice [of 0 1 "fm_commit_offset ?m" ?b] by simp
  qed
  have d3: "r3 = LS_OK \<Longrightarrow> d3 = bslice (fm_payload_offset ?m) (fm_logical_capacity ?m) ?b"
    using R1 R2 R3 sub wfm by simp
  have len3: "r3 = LS_OK \<Longrightarrow> length (overwrite 0 d3 (fm_workspace ?m)) = length (fm_workspace ?m)"
    using d3 wfm bank_len by simp
  let ?h = "flash_header_parse d1"
  have eq: "((r, h, v), w') =
     (if r1 \<noteq> LS_OK then ((r1, ?h, False), ?c w1)
      else if \<not> valid_header ?m ?h then ((LS_OK, ?h, False), ?c w1)
      else if r2 \<noteq> LS_OK then ((r2, ?h, False), ?c w2)
      else if d2 ! 0 \<noteq> FLASH_COMMITTED then ((LS_OK, ?h, False), ?c w2)
      else if r3 \<noteq> LS_OK then ((r3, ?h, False), ?c w3)
      else ((LS_OK, ?h, fh_data_crc ?h = ls_crc32 d3),
        (?c w3)\<lparr>ctx := (ctx (?c w3))\<lparr>fm_workspace := overwrite 0 d3 (fm_workspace ?m)\<rparr>\<rparr>))"
    using run by (auto simp: valid_bank_def Let_def o1 o2 o3 simp del: One_nat_def split: if_splits)
  have ok: "bank_ok ?m ?b = (valid_header ?m ?h \<and> d2 ! 0 = FLASH_COMMITTED \<and> fh_data_crc ?h = ls_crc32 d3)"
    if "r1 = LS_OK" "r2 = LS_OK" "r3 = LS_OK"
    using that d1 d2 d3 by (simp add: bank_ok_def)
  have gen: "r1 = LS_OK \<Longrightarrow> fh_generation ?h = bank_generation ?b"
    using d1 by (simp add: bank_generation_def)
  show ?thesis
    using eq R1 R2 R3 ok gen len3 d1 d2
    by (intro exI [of _ "fm_raw (ctx w')"] exI [of _ "fm_workspace (ctx w')"])
      (auto simp: bank_ok_def split: if_splits)
qed

text \<open>The fields initialisation gives a mirror before it looks at the banks.\<close>

lemma init_effect:
  assumes run: "ls_flash_mirror_init cfg dev ws lc w = (LS_OK, w')" and raw: "inv (fm_raw (ctx w))"
    and ws: "lc \<le> length ws"
    and lay: "flash_layout cfg lc (be_erase_size dev)
      (if be_write_size dev \<noteq> 0 then be_write_size dev else 1) = Some (p, c, b)"
  defines "m0 \<equiv> \<lparr>fm_raw = fm_raw (ctx w), fm_workspace = ws, fm_logical_capacity = lc,
      fm_bank_size = b, fm_payload_offset = p, fm_commit_offset = c, fm_active_bank = 0,
      fm_generation = 0\<rparr>" and "old \<equiv> mem (fm_raw (ctx w))"
  assumes some: "bank_ok m0 (bank_slice m0 0 old) \<or> bank_ok m0 (bank_slice m0 1 old)"
  shows "mirror_ok dev inv mem lc (ctx w') \<and> mirror_recoverable cfg dev mem (ctx w') \<and>
    same_layout m0 (ctx w') \<and> mem (fm_raw (ctx w')) = old \<and>
    fm_active_bank (ctx w') = bank_selected m0 old"
proof -
  define w0 where "w0 = w\<lparr>ctx := m0\<rparr>"
  note L = flash_layoutD [OF lay]
  have caps: "\<not> (b > SIZE_MAX div 2 \<or> be_capacity dev < b * 2)" and lc: "lc \<noteq> 0" "lc \<le> UINT32_MAX"
    using run lay by (auto simp: ls_flash_mirror_init_def Let_def split: if_splits)
  have wf: "mirror_wf (be_capacity dev) m0"
    using L caps lc ws by (auto simp: mirror_wf_def m0_def)
  have raw0: "inv (fm_raw (ctx w0))" "mem (fm_raw (ctx w0)) = old"
    using raw by (simp_all add: w0_def m0_def old_def)
  obtain r1 h1 v1 w1 where v1: "valid_bank dev 0 w0 = ((r1, h1, v1), w1)" by (metis prod.exhaust)
  have ctx0: "ctx w0 = m0" by (simp add: w0_def)
  obtain raw1 ws1 where c1: "ctx w1 = m0\<lparr>fm_raw := raw1, fm_workspace := ws1\<rparr>"
    "length ws1 = length (fm_workspace m0)" "inv raw1" "mem raw1 = old"
    "r1 = LS_OK \<Longrightarrow> v1 = bank_ok m0 (bank_slice m0 0 old) \<and>
      fh_generation h1 = bank_generation (bank_slice m0 0 old)"
    using valid_bank_effect [OF v1] wf raw0 by (auto simp: ctx0)
  obtain r2 h2 v2 w2 where v2: "valid_bank dev 1 w1 = ((r2, h2, v2), w2)" by (metis prod.exhaust)
  have lay1: "same_layout m0 (ctx w1)" using c1(2) by (simp add: c1(1) same_layout_def)
  obtain raw2 ws2 where c2: "ctx w2 = m0\<lparr>fm_raw := raw2, fm_workspace := ws2\<rparr>"
    "length ws2 = length (fm_workspace m0)" "inv raw2" "mem raw2 = old"
    "r2 = LS_OK \<Longrightarrow> v2 = bank_ok m0 (bank_slice m0 1 old) \<and>
      fh_generation h2 = bank_generation (bank_slice m0 1 old)"
    using valid_bank_effect [OF v2] wf c1 same_layoutD [OF lay1] by (auto simp: c1(1))
  let ?second = "v2 \<and> (\<not> v1 \<or> generation_is_newer (fh_generation h2) (fh_generation h1))"
  have eq: "ls_flash_mirror_init cfg dev ws lc w =
     (if r1 \<noteq> LS_OK then (r1, w1) else if r2 \<noteq> LS_OK then (r2, w2)
      else if v1 \<or> v2
      then if ?second
           then (LS_OK, w2\<lparr>ctx := (ctx w2)\<lparr>fm_active_bank := 1, fm_generation := fh_generation h2\<rparr>\<rparr>)
           else (LS_OK, w2\<lparr>ctx := (ctx w2)\<lparr>fm_active_bank := 0, fm_generation := fh_generation h1\<rparr>\<rparr>)
      else commit_image cfg dev 0 1 (w2\<lparr>ctx := (ctx w2)\<lparr>fm_workspace :=
             ls_memset 0 0xff lc (fm_workspace (ctx w2))\<rparr>\<rparr>))"
  proof -
    obtain fr fw fe where "be_read dev = Some fr" "be_write dev = Some fw" "be_erase dev = Some fe"
      using has_read has_write has_erase by blast
    then show ?thesis
      using lay caps lc v1 v2 by (simp add: ls_flash_mirror_init_def Let_def w0_def m0_def)
  qed
  have ok12: "r1 = LS_OK" "r2 = LS_OK" using run eq by (auto split: if_splits)
  note V = c1(5) [OF ok12(1)] c2(5) [OF ok12(2)]
  have valid: "v1 \<or> v2" using some V by simp
  have sel: "bank_selected m0 old = (if ?second then 1 else 0)"
    using V by (simp add: bank_selected_def Let_def)
  have ctx': "ctx w' = (ctx w2)\<lparr>fm_active_bank := bank_selected m0 old,
      fm_generation := bank_generation (bank_slice m0 (bank_selected m0 old) old)\<rparr>"
    using run valid ok12 V unfolding eq sel by (cases ?second) auto
  have lay': "same_layout m0 (ctx w')"
    using c2(2) by (simp add: ctx' c2(1) same_layout_def)
  have chosen: "bank_ok m0 (bank_slice m0 (bank_selected m0 old) old)"
    using some by (auto simp: bank_selected_def Let_def)
  show ?thesis
    using lay' same_layoutD [OF lay'] wf c2 chosen lay
    by (auto simp: mirror_ok_def mirror_recoverable_def ctx' m0_def bank_selected_def Let_def)
qed

end

text \<open>Which bank a restart selects, given what the two banks hold.\<close>

lemma bank_selected_eq:
  assumes "act = 0 \<or> act = 1"
  shows "bank_selected m raw = act \<longleftrightarrow>
    \<not> (bank_ok m (bank_slice m (act XOR 1) raw)) \<and> (act = 0 \<or> bank_ok m (bank_slice m act raw)) \<or>
    bank_ok m (bank_slice m act raw) \<and> bank_ok m (bank_slice m (act XOR 1) raw) \<and>
    (if act = 1 then generation_is_newer (bank_generation (bank_slice m 1 raw)) (bank_generation (bank_slice m 0 raw))
     else \<not> generation_is_newer (bank_generation (bank_slice m 1 raw)) (bank_generation (bank_slice m 0 raw)))"
  using assms by (auto simp: bank_selected_def Let_def)

lemma bank_selected_fields:
  assumes "fm_logical_capacity m' = fm_logical_capacity m" "fm_bank_size m' = fm_bank_size m"
    "fm_payload_offset m' = fm_payload_offset m" "fm_commit_offset m' = fm_commit_offset m"
  shows "bank_slice m' = bank_slice m" "bank_ok m' = bank_ok m" "bank_selected m' = bank_selected m"
proof -
  show 1: "bank_slice m' = bank_slice m"
    using assms by (simp add: fun_eq_iff bank_slice_def bank_offset_def)
  show 2: "bank_ok m' = bank_ok m"
    using assms by (simp add: fun_eq_iff bank_ok_def valid_header_def)
  show "bank_selected m' = bank_selected m"
    using 1 2 by (simp add: fun_eq_iff bank_selected_def)
qed

context sequential_flash
begin

lemma erase_failed_prefix:
  assumes "erase_failed dev inv mem base n old new" and "base + n \<le> be_capacity dev"
  obtains k where "k \<le> n" and "new = overwrite base (replicate k 0xff) old"
proof -
  obtain w0 w1 r where "inv (ctx w0)" "mem (ctx w0) = old" "call_erase dev base n w0 = (r, w1)"
    "mem (ctx w1) = new"
    using assms(1) by (auto simp: erase_failed_def)
  then show ?thesis using erase_prefix [of w0 base n r w1] assms(2) that by auto
qed

text \<open>After an update, whatever its result, a restart selects the old image or the new one.\<close>

lemma update_selects:
  assumes run: "update_image cfg dev off src n w = (r, w')" and ok: "mirror_ok dev inv mem lc (ctx w)"
    and rec: "mirror_recoverable cfg dev mem (ctx w)" and fit: "off + n \<le> lc"
    and data: "data = (case src of None \<Rightarrow> replicate n 0xff | Some d \<Rightarrow> take n d)" "length data = n"
  defines "m \<equiv> ctx w" and "new_img \<equiv> overwrite off data (mirror_content mem (ctx w))"
    and "act \<equiv> fm_active_bank (ctx w)" and "new \<equiv> mem (fm_raw (ctx w'))"
  shows "bank_selected m new = act XOR 1 \<and> bank_slice m (act XOR 1) new = fresh_bank m (fm_generation m + 1) new_img \<or>
    r \<noteq> LS_OK \<and> bank_selected m new = act"
proof -
  note U = update_effect [OF run ok fit data, folded m_def new_img_def act_def new_def]
  have act: "act = 0 \<or> act = 1" and bank: "bank_ok m (bank_slice m act (mem (fm_raw m)))"
    and wf: "mirror_wf (be_capacity dev) m" and lc: "fm_logical_capacity m = lc"
    and raw: "inv (fm_raw m)"
    using ok by (auto simp: mirror_ok_def m_def act_def)
  have sel: "bank_selected m (mem (fm_raw m)) = act"
    and gen: "bank_generation (bank_slice m act (mem (fm_raw m))) = fm_generation m"
    using rec by (auto simp: mirror_recoverable_def m_def act_def)
  have keep: "bank_slice m act new = bank_slice m act (mem (fm_raw m))" using U by blast
  have len: "length new_img = fm_logical_capacity m"
    using fit data(2) lc mirror_content_length [OF ok] by (simp add: new_img_def)
  note fresh = fresh_bank_ok [OF wf len, of "fm_generation m + 1"]
  have blen: "length (bank_slice m b raw) = fm_bank_size m"
    if "length raw = be_capacity dev" "b = 0 \<or> b = 1" for b raw
    using that wf by (auto simp: bank_slice_def bank_offset_def mirror_wf_def)
  let ?o = "bank_slice m (act XOR 1)"
  have quiet: "bank_selected m new = act" if "\<not> bank_ok m (?o new)"
    using that keep bank act by (subst bank_selected_eq) auto
  consider (fresh) "?o new = fresh_bank m (fm_generation m + 1) new_img"
    | (erase) "r \<noteq> LS_OK" "erase_failed dev inv mem (bank_offset m (act XOR 1)) (fm_bank_size m) (mem (fm_raw m)) new"
    | (same) "r \<noteq> LS_OK" "new = mem (fm_raw m)"
    | (nomark) "r \<noteq> LS_OK" "?o new ! fm_commit_offset m = 0xff"
    using U by blast
  then show ?thesis
  proof cases
    case fresh
    have "bank_selected m new = act XOR 1"
      using act fresh keep bank gen \<open>bank_ok m (fresh_bank m (fm_generation m + 1) new_img)\<close>
        \<open>bank_generation (fresh_bank m (fm_generation m + 1) new_img) = fm_generation m + 1\<close>
      by (auto simp: bank_selected_def Let_def generation_successor)
    then show ?thesis using fresh by simp
  next
    case erase
    let ?base = "bank_offset m (act XOR 1)"
    have fit': "?base + fm_bank_size m \<le> be_capacity dev"
      using wf xor_1_banks [OF act] by (auto simp: bank_offset_def mirror_wf_def)
    obtain k where k: "k \<le> fm_bank_size m" "new = overwrite ?base (replicate k 0xff) (mem (fm_raw m))"
      by (rule erase_failed_prefix [OF erase(2) fit'])
    have len0: "length (mem (fm_raw m)) = be_capacity dev" using raw by (rule mem_length)
    show ?thesis
    proof (cases "k = 0")
      case True
      then show ?thesis using k(2) sel erase(1) by simp
    next
      case False
      have big: "24 \<le> fm_bank_size m" using wf by (simp add: mirror_wf_def)
      have ff: "?o new ! 0 = 0xff"
        using k False fit' len0 big by (simp add: bank_slice_def nth_overwrite)
      have "length (?o new) = fm_bank_size m"
        using k fit' len0 xor_1_banks [OF act] by (intro blen) auto
      then have "\<not> bank_ok m (?o new)" using bank_ok_not_erased big ff by metis
      then show ?thesis using quiet erase(1) by simp
    qed
  next
    case same
    then show ?thesis using sel by simp
  next
    case nomark
    then have "\<not> bank_ok m (?o new)" by (simp add: bank_ok_def FLASH_COMMITTED_def)
    then show ?thesis using quiet nomark(1) by simp
  qed
qed

lemma update_recovery:
  assumes run: "update_image cfg dev off src n w = (r, w')" and ok: "mirror_ok dev inv mem lc (ctx w)"
    and rec: "mirror_recoverable cfg dev mem (ctx w)" and fit: "off + n \<le> lc"
    and data: "data = (case src of None \<Rightarrow> replicate n 0xff | Some d \<Rightarrow> take n d)" "length data = n"
    and restart: "inv (fm_raw (ctx w1))" "mem (fm_raw (ctx w1)) = mem (fm_raw (ctx w'))"
    and init: "ls_flash_mirror_init cfg dev ws lc w1 = (LS_OK, w2)" "lc \<le> length ws"
  defines "old_img \<equiv> mirror_content mem (ctx w)"
  shows "mirror_ok dev inv mem lc (ctx w2) \<and> mirror_recoverable cfg dev mem (ctx w2) \<and>
    (mirror_content mem (ctx w2) = overwrite off data old_img \<or>
     r \<noteq> LS_OK \<and> mirror_content mem (ctx w2) = old_img)"
proof -
  define m where "m = ctx w"
  note S = update_selects [OF run ok rec fit data, folded m_def]
  note U = update_effect [OF run ok fit data, folded m_def]
  define m0 where "m0 = \<lparr>fm_raw = fm_raw (ctx w1), fm_workspace = ws, fm_logical_capacity = lc,
      fm_bank_size = fm_bank_size m, fm_payload_offset = fm_payload_offset m,
      fm_commit_offset = fm_commit_offset m, fm_active_bank = 0, fm_generation = 0\<rparr>"
  have lay: "flash_layout cfg lc (be_erase_size dev)
      (if be_write_size dev \<noteq> 0 then be_write_size dev else 1) =
      Some (fm_payload_offset m, fm_commit_offset m, fm_bank_size m)"
    and act: "fm_active_bank m = 0 \<or> fm_active_bank m = 1" and lc: "fm_logical_capacity m = lc"
    and wf: "mirror_wf (be_capacity dev) m"
    and bank: "bank_ok m (bank_slice m (fm_active_bank m) (mem (fm_raw m)))"
    using rec ok by (auto simp: mirror_recoverable_def mirror_ok_def m_def)
  have f: "bank_slice m0 = bank_slice m" "bank_ok m0 = bank_ok m" "bank_selected m0 = bank_selected m"
    by (rule bank_selected_fields; simp add: m0_def lc)+
  let ?new = "mem (fm_raw (ctx w'))"
  have "bank_ok m (bank_slice m (fm_active_bank m) ?new)" using U bank by simp
  then have some: "bank_ok m0 (bank_slice m0 0 ?new) \<or> bank_ok m0 (bank_slice m0 1 ?new)"
    using act f by auto
  note I = init_effect [OF init(1) restart(1) init(2) lay, folded m0_def, unfolded restart(2), OF some]
  have content: "mirror_content mem (ctx w2) =
      bslice (fm_payload_offset m) (fm_logical_capacity m) (bank_slice m (bank_selected m ?new) ?new)"
    using I f same_layoutD [of m0 "ctx w2"] by (simp add: mirror_content_def m0_def lc)
  have len: "length (overwrite off data old_img) = fm_logical_capacity m"
    using fit data(2) lc mirror_content_length [OF ok] by (simp add: old_img_def)
  note fresh = fresh_bank_ok(3) [OF wf len, of "fm_generation m + 1"]
  have "bank_slice m (fm_active_bank m) ?new = bank_slice m (fm_active_bank m) (mem (fm_raw m))"
    using U by simp
  then show ?thesis
    using I S content fresh by (auto simp: old_img_def m_def mirror_content_def)
qed

end

lemma sim_erase_prefix:
  assumes "sim_ok cap (ctx w)" and "off + n \<le> cap" and "ls_storage_sim_erase off n w = (r, w')"
  shows "\<exists>k\<le>n. sim_content (ctx w') = overwrite off (replicate k 0xff) (sim_content (ctx w))"
proof -
  obtain b s where f: "sim_fail (ctx w) = (b, s)" by (metis prod.exhaust)
  have the: "the (sim_data s) = sim_content (ctx w)"
    using assms(1) sim_fail_frame [OF f] sim_content_the by metis
  have "\<exists>k\<le>n. w' = w\<lparr>ctx := s\<lparr>sim_data := Some (overwrite off (replicate k 0xff) (sim_content (ctx w)))\<rparr>\<rparr>"
    using assms f the
    by (auto simp: ls_storage_sim_erase_def sim_bounds_OK Let_def ls_memset_def intro: less_imp_le
        split: if_splits)
  then show ?thesis by auto
qed

interpretation sim_seq: sequential_flash "sim_backend cap erase_sz write_sz" "sim_ok cap" sim_content
  by unfold_locales (use sim_erase_prefix in \<open>auto simp: sim_calls\<close>)

section \<open>Restart on a healthy device\<close>

context reliable_device
begin

lemma valid_bank_ok:
  assumes "mirror_wf (be_capacity dev) (ctx w)" and "inv (fm_raw (ctx w))"
    and "bank = 0 \<or> bank = 1" and "healthy (fm_raw (ctx w))" and "no_faults w"
  shows "\<exists>h v w'. valid_bank dev bank w = ((LS_OK, h, v), w') \<and> healthy (fm_raw (ctx w')) \<and> no_faults w'"
proof -
  let ?m = "ctx w"
  let ?base = "bank_offset ?m bank"
  have fits: "?base + 24 \<le> be_capacity dev" "?base + fm_commit_offset ?m + 1 \<le> be_capacity dev"
    "?base + fm_payload_offset ?m + fm_logical_capacity ?m \<le> be_capacity dev"
    using assms(1,3) by (auto simp: mirror_wf_def bank_offset_def)
  let ?c = "\<lambda>w1. \<lparr>faults = faults w1, ctx = ?m\<lparr>fm_raw := ctx w1\<rparr>\<rparr>"
  obtain d1 w1 where rd1: "call_read dev ?base 24 \<lparr>faults = faults w, ctx = fm_raw ?m\<rparr> = ((LS_OK, d1), w1)"
    and h1: "healthy (ctx w1)" "no_faults w1"
    using read_ok [of "\<lparr>faults = faults w, ctx = fm_raw ?m\<rparr>" ?base 24] assms fits
    by (auto simp: no_faults_def)
  have i1: "inv (ctx w1)" using read_law [OF _ fits(1) rd1] assms(2) by simp
  obtain d2 w2 where rd2: "call_read dev (?base + fm_commit_offset ?m) 1 w1 = ((LS_OK, d2), w2)"
    and h2: "healthy (ctx w2)" "no_faults w2"
    using read_ok [OF i1 h1 fits(2)] by blast
  have i2: "inv (ctx w2)" using read_law [OF i1 fits(2) rd2] by simp
  obtain d3 w3 where rd3: "call_read dev (?base + fm_payload_offset ?m) (fm_logical_capacity ?m) w2 = ((LS_OK, d3), w3)"
    and h3: "healthy (ctx w3)" "no_faults w3"
    using read_ok [OF i2 h2 fits(3)] by blast
  have o1: "on_raw (call_read dev ?base 24) w = ((LS_OK, d1), ?c w1)"
    using rd1 by (rule on_raw_step)
  have o2: "on_raw (call_read dev (?base + fm_commit_offset ?m) 1) (?c w1) = ((LS_OK, d2), ?c w2)"
    using on_raw_step [of "call_read dev (?base + fm_commit_offset ?m) 1" "?c w1"] rd2 by simp
  have o3: "on_raw (call_read dev (?base + fm_payload_offset ?m) (fm_logical_capacity ?m)) (?c w2) =
      ((LS_OK, d3), ?c w3)"
    using on_raw_step [of "call_read dev (?base + fm_payload_offset ?m) (fm_logical_capacity ?m)" "?c w2"]
      rd3 by simp
  show ?thesis
    using h1 h2 h3 by (auto simp: valid_bank_def Let_def o1 o2 o3 no_faults_def simp del: One_nat_def)
qed

lemma init_ok:
  assumes "inv (fm_raw (ctx w))" and "healthy (fm_raw (ctx w))" and "no_faults w"
    and ws: "lc \<le> length ws" and lc: "0 < lc" "lc \<le> UINT32_MAX"
    and lay: "flash_layout cfg lc (be_erase_size dev)
      (if be_write_size dev \<noteq> 0 then be_write_size dev else 1) = Some (p, c, b)"
    and cap: "b \<le> SIZE_MAX div 2" "2 * b \<le> be_capacity dev"
  defines "m0 \<equiv> \<lparr>fm_raw = fm_raw (ctx w), fm_workspace = ws, fm_logical_capacity = lc,
      fm_bank_size = b, fm_payload_offset = p, fm_commit_offset = c, fm_active_bank = 0,
      fm_generation = 0\<rparr>" and "old \<equiv> mem (fm_raw (ctx w))"
  assumes some: "bank_ok m0 (bank_slice m0 0 old) \<or> bank_ok m0 (bank_slice m0 1 old)"
  shows "\<exists>w'. ls_flash_mirror_init cfg dev ws lc w = (LS_OK, w')"
proof -
  define w0 where "w0 = w\<lparr>ctx := m0\<rparr>"
  have wf: "mirror_wf (be_capacity dev) m0"
    using flash_layoutD [OF lay] cap lc ws by (auto simp: mirror_wf_def m0_def)
  have ctx0: "ctx w0 = m0" "mem (fm_raw m0) = old" by (simp_all add: w0_def m0_def old_def)
  have raw0: "inv (fm_raw m0)" "healthy (fm_raw m0)" "no_faults w0"
    using assms(1-3) by (simp_all add: w0_def m0_def no_faults_def)
  obtain h1 v1 w1 where v1: "valid_bank dev 0 w0 = ((LS_OK, h1, v1), w1)"
    and g1: "healthy (fm_raw (ctx w1))" "no_faults w1"
    using valid_bank_ok [of w0 0] wf raw0 by (auto simp: ctx0)
  obtain raw1 ws1 where c1: "ctx w1 = m0\<lparr>fm_raw := raw1, fm_workspace := ws1\<rparr>"
    "length ws1 = length (fm_workspace m0)" "inv raw1" "mem raw1 = old"
    "v1 = bank_ok m0 (bank_slice m0 0 old)"
    using valid_bank_effect [OF v1] wf raw0 by (auto simp: ctx0)
  have lay1: "same_layout m0 (ctx w1)" using c1(2) by (simp add: c1(1) same_layout_def)
  obtain h2 v2 w2 where v2: "valid_bank dev 1 w1 = ((LS_OK, h2, v2), w2)"
    using valid_bank_ok [of w1 1] wf g1 c1 same_layoutD [OF lay1] by auto
  have "v2 = bank_ok m0 (bank_slice m0 1 old)"
    using valid_bank_effect [OF v2] wf c1 same_layoutD [OF lay1] by auto
  then have valid: "v1 \<or> v2" using some c1(5) by simp
  obtain fr fw fe where "be_read dev = Some fr" "be_write dev = Some fw" "be_erase dev = Some fe"
    using has_read has_write has_erase by blast
  then show ?thesis
    using lay cap lc v1 v2 valid
    by (auto simp: ls_flash_mirror_init_def Let_def w0_def m0_def)
qed

end

section \<open>Properties over the simulated flash\<close>

abbreviation mirror_on_sim ::
  "nat \<Rightarrow> nat \<Rightarrow> nat \<Rightarrow> nat \<Rightarrow> ls_storage_sim ls_flash_mirror \<Rightarrow> bool" where
  "mirror_on_sim cap es ws lc \<equiv> mirror_ok (sim_backend cap es ws) (sim_ok cap) sim_content lc"

text \<open>C5: an update of the mirror is atomic on a flash that loses power at any operation: when it
  reports success the logical content is the old one with the bytes stored, and when it fails the
  logical content is unchanged; either way the mirror stays well formed.\<close>

theorem mirror_write_atomic:
  assumes "mirror_on_sim cap es ws lc (ctx w)" and "off + length src \<le> lc"
    and "mirror_write cfg (sim_backend cap es ws) off src w = (r, w')"
  shows "mirror_on_sim cap es ws lc (ctx w') \<and>
    mirror_content sim_content (ctx w') =
      (if r = LS_OK then overwrite off src (mirror_content sim_content (ctx w))
       else mirror_content sim_content (ctx w))"
  using sim.mirror_write_eq [OF assms(3,1,2)] .

text \<open>C6: a power loss during an update is recoverable: restarting the mirror on the bytes the
  flash then holds gives the old image or the new one, never a mixture, and the new one if the
  update had reported success; the restarted mirror is again in a recoverable state.\<close>

theorem mirror_power_loss_recovery:
  assumes "mirror_on_sim cap es ws lc (ctx w)"
    and "mirror_recoverable cfg (sim_backend cap es ws) sim_content (ctx w)"
    and "off + length src \<le> lc"
    and "mirror_write cfg (sim_backend cap es ws) off src w = (r, w')"
    and "sim_ok cap (fm_raw (ctx w1))"
    and "sim_content (fm_raw (ctx w1)) = sim_content (fm_raw (ctx w'))"
    and "ls_flash_mirror_init cfg (sim_backend cap es ws) workspace lc w1 = (LS_OK, w2)"
    and "lc \<le> length workspace"
  shows "mirror_on_sim cap es ws lc (ctx w2) \<and>
    mirror_recoverable cfg (sim_backend cap es ws) sim_content (ctx w2) \<and>
    (mirror_content sim_content (ctx w2) = overwrite off src (mirror_content sim_content (ctx w)) \<or>
     r \<noteq> LS_OK \<and> mirror_content sim_content (ctx w2) = mirror_content sim_content (ctx w))"
  using sim_seq.update_recovery [OF assms(4) [unfolded mirror_write_def] assms(1-3) _ _ assms(5-8),
      of src]
  by simp

text \<open>A mirror of one byte over a 52-byte flash that loses power at its fourth operation.\<close>

definition example_mirror :: "bytes \<Rightarrow> ls_storage_sim ls_flash_mirror" where
  "example_mirror d =
     \<lparr>fm_raw = ctx (failing_flash d), fm_workspace = [0], fm_logical_capacity = 1, fm_bank_size = 26,
      fm_payload_offset = 25, fm_commit_offset = 24, fm_active_bank = 0, fm_generation = 1\<rparr>"

definition example_banks :: bytes where
  "example_banks = fresh_bank (example_mirror []) 1 [7] @ replicate 26 0xff"

definition example_mirror_world :: "ls_storage_sim ls_flash_mirror world" where
  "example_mirror_world = \<lparr>faults = faults_none, ctx = example_mirror example_banks\<rparr>"

lemma example_mirror_facts:
  defines "m \<equiv> ctx example_mirror_world" and "dev \<equiv> sim_backend 52 26 1"
  shows "mirror_ok dev (sim_ok 52) sim_content 1 m"
    and "mirror_recoverable ls_build_config_default dev sim_content m"
    and "mirror_content sim_content m = [7]"
proof -
  have wf: "mirror_wf 52 (example_mirror d)" for d
    by (simp add: mirror_wf_def example_mirror_def UINT32_MAX_def)
  note fresh = fresh_bank_ok [OF wf [of "[]"], of "[7]" 1]
  have lay: "same_layout (example_mirror []) m"
    by (simp add: same_layout_def m_def example_mirror_world_def example_mirror_def)
  note L = same_layoutD [OF lay]
  have len: "length (fresh_bank (example_mirror []) 1 [7]) = 26"
    by (simp add: fresh_bank_def example_mirror_def)
  have raw: "sim_content (fm_raw m) = example_banks" "sim_ok 52 (fm_raw m)"
    using len by (simp_all add: m_def example_mirror_world_def example_mirror_def example_banks_def)
  have b0: "bank_slice m 0 example_banks = fresh_bank (example_mirror []) 1 [7]"
    and b1: "bank_slice m 1 example_banks = replicate 26 0xff"
    using len unfolding L
    by (simp_all add: bank_slice_def bank_offset_def example_mirror_def example_banks_def bslice_def)
  have no1: "\<not> bank_ok m (replicate 26 0xff)"
    using bank_ok_not_erased [of m "replicate 26 0xff"] by auto
  have ok0: "bank_ok m (fresh_bank (example_mirror []) 1 [7])"
    using fresh(1) unfolding L by (simp add: example_mirror_def)
  have act: "fm_active_bank m = 0" "fm_generation m = 1" "fm_logical_capacity m = 1"
    by (simp_all add: m_def example_mirror_world_def example_mirror_def)
  have lay': "flash_layout ls_build_config_default 1 26 1 = Some (25, 24, 26)"
    by (simp add: flash_layout_def ls_build_config_default_def align_size_def add_size_def SIZE_MAX_def)
  show "mirror_ok dev (sim_ok 52) sim_content 1 m"
    using wf ok0 raw b0 act L
    by (simp add: mirror_ok_def dev_def sim_backend_def m_def example_mirror_world_def)
  show "mirror_recoverable ls_build_config_default dev sim_content m"
    using ok0 no1 raw b0 b1 act lay' fresh(2)
    by (simp add: mirror_recoverable_def dev_def sim_backend_def bank_selected_def m_def
        example_mirror_world_def example_mirror_def)
  show "mirror_content sim_content m = [7]"
    using raw b0 act fresh(3) by (simp add: mirror_content_def L example_mirror_def)
qed

theorem mirror_write_atomic_witness:
  "\<exists>r w'. mirror_write ls_build_config_default (sim_backend 52 26 1) 0 [9] example_mirror_world = (r, w') \<and>
     mirror_content sim_content (ctx w') = (if r = LS_OK then [9] else [7])"
proof -
  obtain r w' where run: "mirror_write ls_build_config_default (sim_backend 52 26 1) 0 [9]
      example_mirror_world = (r, w')"
    by (metis prod.exhaust)
  show ?thesis
    using mirror_write_atomic [OF example_mirror_facts(1) _ run] run example_mirror_facts(3)
    by (auto simp: overwrite_def)
qed

theorem mirror_power_loss_recovery_witness:
  "\<exists>r w' w1 w2. mirror_write ls_build_config_default (sim_backend 52 26 1) 0 [9] example_mirror_world = (r, w') \<and>
     w1 = w'\<lparr>ctx := (ctx w')\<lparr>fm_raw := ls_storage_sim_reset_faults (fm_raw (ctx w'))\<rparr>, faults := faults_none\<rparr> \<and>
     ls_flash_mirror_init ls_build_config_default (sim_backend 52 26 1) [0] 1 w1 = (LS_OK, w2) \<and>
     mirror_content sim_content (ctx w2) \<in> {[7], [9]}"
proof -
  obtain r w' where run: "mirror_write ls_build_config_default (sim_backend 52 26 1) 0 [9]
      example_mirror_world = (r, w')"
    by (metis prod.exhaust)
  note facts = example_mirror_facts
  have A: "mirror_on_sim 52 26 1 1 (ctx w')" and fields: "same_layout (ctx example_mirror_world) (ctx w')"
    using sim.update_effect [OF run [unfolded mirror_write_def] facts(1), of "[9]"] by simp_all
  define w1 where "w1 = w'\<lparr>ctx := (ctx w')\<lparr>fm_raw := ls_storage_sim_reset_faults (fm_raw (ctx w'))\<rparr>,
      faults := faults_none\<rparr>"
  have raw1: "sim_ok 52 (fm_raw (ctx w1))" "sim_content (fm_raw (ctx w1)) = sim_content (fm_raw (ctx w'))"
    "sim_healthy (fm_raw (ctx w1))" "no_faults w1"
    using A by (simp_all add: w1_def ls_storage_sim_reset_faults_def sim_ok_def sim_content_def
        sim_healthy_def no_faults_def faults_none_def mirror_ok_def)
  define m0 where "m0 = \<lparr>fm_raw = fm_raw (ctx w1), fm_workspace = [0], fm_logical_capacity = 1,
      fm_bank_size = 26, fm_payload_offset = 25, fm_commit_offset = 24, fm_active_bank = 0,
      fm_generation = 0\<rparr>"
  have f: "bank_slice m0 = bank_slice (ctx w')" "bank_ok m0 = bank_ok (ctx w')"
    by (rule bank_selected_fields; use fields in \<open>simp add: m0_def same_layout_def example_mirror_world_def
        example_mirror_def\<close>)+
  have lay: "flash_layout ls_build_config_default 1 26 1 = Some (25, 24, 26)"
    by (simp add: flash_layout_def ls_build_config_default_def align_size_def add_size_def SIZE_MAX_def)
  have "\<exists>w2. ls_flash_mirror_init ls_build_config_default (sim_backend 52 26 1) [0] 1 w1 = (LS_OK, w2)"
    using sim.init_ok [of 52 w1 1 "[0]" ls_build_config_default 26 1 25 24 26, folded m0_def] raw1 A f lay
    by (auto simp: sim_backend_def UINT32_MAX_def SIZE_MAX_def mirror_ok_def)
  then obtain w2 where init: "ls_flash_mirror_init ls_build_config_default (sim_backend 52 26 1) [0] 1 w1 =
      (LS_OK, w2)" ..
  show ?thesis
    using mirror_power_loss_recovery [OF facts(1,2) _ run raw1(1,2) init] init run facts(3)
    by (auto simp: overwrite_def w1_def)
qed

end
