(* ===== verification/LS_Envelope.thy ===== *)
theory LS_Envelope
  imports LS_Util
begin

text \<open>
  The wire format of \<^verbatim>\<open>src/envelope/lep.c\<close>: the 24-byte header, the TLV payload, the two CRCs,
  validation, the TLV visitor, and the replay window. An envelope is a byte list; validation
  returns an error (\<open>Inl\<close>) or the parsed header (\<open>Inr\<close>); a visitor is a state-passing callback.
\<close>

declare One_nat_def [simp del]

section \<open>Constants and the header\<close>

definition LS_MAGIC :: u32 where "LS_MAGIC = 0x5054534C"
definition LS_LEP_HEADER_SIZE :: nat where "LS_LEP_HEADER_SIZE = 24"
definition LS_LEP_CURRENT_VERSION :: u8 where "LS_LEP_CURRENT_VERSION = 1"
definition LS_LEP_MIN_SUPPORTED_VERSION :: u8 where "LS_LEP_MIN_SUPPORTED_VERSION = 1"
definition LS_LEP_MAX_SUPPORTED_VERSION :: u8 where "LS_LEP_MAX_SUPPORTED_VERSION = 1"
definition LS_ENVELOPE_AUTHENTICATED :: u8 where "LS_ENVELOPE_AUTHENTICATED = 1"
definition LS_ENVELOPE_ENCRYPTED :: u8 where "LS_ENVELOPE_ENCRYPTED = 2"
definition LS_ENVELOPE_AEAD :: u8 where "LS_ENVELOPE_AEAD = 4"
definition LS_ENVELOPE_TRUNCATED :: u8 where "LS_ENVELOPE_TRUNCATED = 8"
definition LS_ENVELOPE_KNOWN_FLAGS :: u8 where
  "LS_ENVELOPE_KNOWN_FLAGS =
     LS_ENVELOPE_AUTHENTICATED OR LS_ENVELOPE_ENCRYPTED OR LS_ENVELOPE_AEAD OR LS_ENVELOPE_TRUNCATED"
definition LS_ENVELOPE_SECURITY_METADATA_SIZE :: nat where "LS_ENVELOPE_SECURITY_METADATA_SIZE = 28"
definition LS_AEAD_TAG_SIZE :: nat where "LS_AEAD_TAG_SIZE = 16"
definition LS_HMAC_SHA256_SIZE :: nat where "LS_HMAC_SHA256_SIZE = 32"
definition LS_ENVELOPE_REPLAY_WINDOW_SIZE :: nat where "LS_ENVELOPE_REPLAY_WINDOW_SIZE = 64"

lemmas envelope_sizes = LS_LEP_HEADER_SIZE_def LS_ENVELOPE_SECURITY_METADATA_SIZE_def
  LS_AEAD_TAG_SIZE_def LS_HMAC_SHA256_SIZE_def

lemmas envelope_flag_defs = LS_ENVELOPE_AUTHENTICATED_def LS_ENVELOPE_ENCRYPTED_def
  LS_ENVELOPE_AEAD_def LS_ENVELOPE_TRUNCATED_def LS_ENVELOPE_KNOWN_FLAGS_def

record ls_envelope_info =
  ei_version :: u8
  ei_type :: u8
  ei_architecture :: u8
  ei_flags :: u8
  ei_sequence :: u32
  ei_event_id :: u32
  ei_payload_length :: u32

definition lep_write_header :: "u8 \<Rightarrow> u8 \<Rightarrow> u8 \<Rightarrow> u32 \<Rightarrow> u32 \<Rightarrow> u32 \<Rightarrow> bytes" where
  "lep_write_header type architecture flags sequence event_id payload_length =
     (let h = le32 LS_MAGIC @ [LS_LEP_CURRENT_VERSION, type, architecture, flags] @
              le32 sequence @ le32 event_id @ le32 payload_length
      in h @ le32 (ls_crc32 h))"

section \<open>Validation\<close>

definition flags_valid :: "u8 \<Rightarrow> bool" where
  "flags_valid flags \<longleftrightarrow>
     flags AND NOT LS_ENVELOPE_KNOWN_FLAGS = 0 \<and>
     (let authenticated = flags AND LS_ENVELOPE_AUTHENTICATED \<noteq> 0;
          encrypted = flags AND LS_ENVELOPE_ENCRYPTED \<noteq> 0;
          aead = flags AND LS_ENVELOPE_AEAD \<noteq> 0
      in encrypted = aead \<and> (\<not> aead \<or> authenticated))"

function validate_payload_loop :: "bytes \<Rightarrow> nat \<Rightarrow> ls_result" where
  "validate_payload_loop payload offset =
     (if offset < length payload
      then if length payload - offset < 4 then LS_ECORRUPT
           else let type = read_u16 payload offset;
                    field_length = unat (read_u16 payload (offset + 2));
                    offset' = offset + 4
                in if type = 0 \<or> field_length > length payload - offset' then LS_ECORRUPT
                   else validate_payload_loop payload (offset' + field_length)
      else LS_OK)"
  by pat_completeness auto
termination
  by (relation "measure (\<lambda>(payload, offset). length payload - offset)") auto

declare validate_payload_loop.simps [simp del]

definition validate_payload :: "bytes \<Rightarrow> ls_result" where
  "validate_payload payload = validate_payload_loop payload 0"

definition envelope_metadata_size :: "u8 \<Rightarrow> nat" where
  "envelope_metadata_size flags =
     (if flags AND LS_ENVELOPE_ENCRYPTED \<noteq> 0 then LS_ENVELOPE_SECURITY_METADATA_SIZE else 0)"

definition envelope_authentication_size :: "u8 \<Rightarrow> nat" where
  "envelope_authentication_size flags =
     (if flags AND LS_ENVELOPE_ENCRYPTED \<noteq> 0 then LS_AEAD_TAG_SIZE
      else if flags AND LS_ENVELOPE_AUTHENTICATED \<noteq> 0 then LS_HMAC_SHA256_SIZE else 0)"

definition ls_envelope_validate :: "bytes \<Rightarrow> ls_result + ls_envelope_info" where
  "ls_envelope_validate data =
     (if length data < LS_LEP_HEADER_SIZE + 4 \<or> read_u32 data 0 \<noteq> LS_MAGIC then Inl LS_ECORRUPT
      else if data ! 4 < LS_LEP_MIN_SUPPORTED_VERSION \<or> data ! 4 > LS_LEP_MAX_SUPPORTED_VERSION
      then Inl LS_ECORRUPT
      else let flags = data ! 7
           in if \<not> flags_valid flags then Inl LS_ECORRUPT
              else let metadata_size = envelope_metadata_size flags;
                       authentication_size = envelope_authentication_size flags;
                       payload_length = read_u32 data 16;
                       overhead = LS_LEP_HEADER_SIZE + metadata_size + 4 + authentication_size
                   in if length data < overhead \<or> unat payload_length > length data - overhead \<or>
                         length data \<noteq> overhead + unat payload_length
                      then Inl LS_ECORRUPT
                      else let crc_offset = LS_LEP_HEADER_SIZE + metadata_size + unat payload_length
                           in if read_u32 data 20 \<noteq> ls_crc32 (bslice 0 20 data) \<or>
                                 read_u32 data crc_offset \<noteq>
                                   ls_crc32 (bslice LS_LEP_HEADER_SIZE
                                     (metadata_size + unat payload_length) data)
                              then Inl LS_ECORRUPT
                              else let result =
                                         (if flags AND LS_ENVELOPE_ENCRYPTED \<noteq> 0 then LS_OK
                                          else validate_payload
                                                 (bslice LS_LEP_HEADER_SIZE (unat payload_length) data))
                                   in if result \<noteq> LS_OK then Inl result
                                      else Inr \<lparr>ei_version = data ! 4, ei_type = data ! 5,
                                                 ei_architecture = data ! 6, ei_flags = flags,
                                                 ei_sequence = read_u32 data 8,
                                                 ei_event_id = read_u32 data 12,
                                                 ei_payload_length = payload_length\<rparr>)"

definition ls_envelope_is_truncated :: "ls_envelope_info \<Rightarrow> bool" where
  "ls_envelope_is_truncated info \<longleftrightarrow> ei_flags info AND LS_ENVELOPE_TRUNCATED \<noteq> 0"

section \<open>The replay window\<close>

record ls_envelope_replay =
  highest_sequence :: u32
  seen_sequences :: u64
  replay_initialized :: bool

definition ls_envelope_replay_reset :: "ls_envelope_replay \<Rightarrow> ls_envelope_replay" where
  "ls_envelope_replay_reset r =
     r\<lparr>highest_sequence := 0, seen_sequences := 0, replay_initialized := False\<rparr>"

definition ls_envelope_replay_accept ::
  "ls_envelope_replay \<Rightarrow> u32 \<Rightarrow> bool \<times> ls_envelope_replay" where
  "ls_envelope_replay_accept r sequence =
     (if \<not> replay_initialized r
      then (True, r\<lparr>highest_sequence := sequence, seen_sequences := 1, replay_initialized := True\<rparr>)
      else let forward = sequence - highest_sequence r
           in if forward \<noteq> 0 \<and> forward < 0x80000000
              then (True,
                    r\<lparr>seen_sequences :=
                        (if unat forward \<ge> LS_ENVELOPE_REPLAY_WINDOW_SIZE then 1
                         else push_bit (unat forward) (seen_sequences r) OR 1),
                      highest_sequence := sequence\<rparr>)
              else let distance = unat (highest_sequence r - sequence)
                   in if distance \<ge> LS_ENVELOPE_REPLAY_WINDOW_SIZE then (False, r)
                      else let mask = push_bit distance 1
                           in if seen_sequences r AND mask \<noteq> 0 then (False, r)
                              else (True, r\<lparr>seen_sequences := seen_sequences r OR mask\<rparr>))"

section \<open>Visiting the payload\<close>

function visit_payload_loop ::
  "('c \<Rightarrow> u16 \<Rightarrow> bytes \<Rightarrow> ls_result \<times> 'c) \<Rightarrow> bytes \<Rightarrow> nat \<Rightarrow> 'c \<Rightarrow> ls_result \<times> 'c" where
  "visit_payload_loop visitor payload offset context =
     (if offset < length payload
      then if length payload - offset < 4 then (LS_ECORRUPT, context)
           else let type = read_u16 payload offset;
                    field_length = unat (read_u16 payload (offset + 2));
                    offset' = offset + 4
                in if type = 0 \<or> field_length > length payload - offset' then (LS_ECORRUPT, context)
                   else case visitor context type (bslice offset' field_length payload) of
                          (result, context') \<Rightarrow>
                            if result \<noteq> LS_OK then (result, context')
                            else visit_payload_loop visitor payload (offset' + field_length) context'
      else (LS_OK, context))"
  by pat_completeness auto
termination
  by (relation "measure (\<lambda>(visitor, payload, offset, context). length payload - offset)") auto

declare visit_payload_loop.simps [simp del]

text \<open>A null visitor is \<open>None\<close>.\<close>

definition visit_payload ::
  "bytes \<Rightarrow> ('c \<Rightarrow> u16 \<Rightarrow> bytes \<Rightarrow> ls_result \<times> 'c) option \<Rightarrow> 'c \<Rightarrow> ls_result \<times> 'c" where
  "visit_payload payload visitor context =
     (case visitor of None \<Rightarrow> (LS_EINVAL, context)
      | Some v \<Rightarrow> visit_payload_loop v payload 0 context)"

definition ls_envelope_visit ::
  "bytes \<Rightarrow> ('c \<Rightarrow> u16 \<Rightarrow> bytes \<Rightarrow> ls_result \<times> 'c) option \<Rightarrow> 'c \<Rightarrow> ls_result \<times> 'c" where
  "ls_envelope_visit data visitor context =
     (case ls_envelope_validate data of
        Inl e \<Rightarrow> (e, context)
      | Inr info \<Rightarrow>
          if ei_flags info AND LS_ENVELOPE_ENCRYPTED \<noteq> 0 then (LS_EAUTH, context)
          else visit_payload (bslice LS_LEP_HEADER_SIZE (unat (ei_payload_length info)) data)
                 visitor context)"

section \<open>TLV sequences\<close>

text \<open>The reference: a payload is the concatenation of its TLVs.\<close>

definition tlv_bytes :: "u16 \<times> bytes \<Rightarrow> bytes" where
  "tlv_bytes t = le16 (fst t) @ le16 (of_nat (length (snd t))) @ snd t"

definition tlvs_bytes :: "(u16 \<times> bytes) list \<Rightarrow> bytes" where
  "tlvs_bytes ts = concat (map tlv_bytes ts)"

definition tlvs_ok :: "(u16 \<times> bytes) list \<Rightarrow> bool" where
  "tlvs_ok ts \<longleftrightarrow> (\<forall>t\<in>set ts. fst t \<noteq> 0 \<and> length (snd t) < 65536)"

lemma length_tlv_bytes [simp]: "length (tlv_bytes t) = 4 + length (snd t)"
  by (simp add: tlv_bytes_def)

lemma tlvs_bytes_simps [simp]:
  "tlvs_bytes [] = []" "tlvs_bytes (t # ts) = tlv_bytes t @ tlvs_bytes ts"
  by (simp_all add: tlvs_bytes_def)

lemma read_tlv_header:
  assumes "length v < 65536"
  shows "read_u16 (pre @ tlv_bytes (ty, v) @ post) (length pre) = ty"
    and "unat (read_u16 (pre @ tlv_bytes (ty, v) @ post) (length pre + 2)) = length v"
proof -
  let ?t = "le16 (of_nat (length v)) @ v @ post"
  have a: "pre @ tlv_bytes (ty, v) @ post = pre @ (le16 ty @ ?t)" by (simp add: tlv_bytes_def)
  have b: "pre @ tlv_bytes (ty, v) @ post = (pre @ le16 ty) @ ?t" by (simp add: tlv_bytes_def)
  show "read_u16 (pre @ tlv_bytes (ty, v) @ post) (length pre) = ty"
    unfolding a using read_u16_shift [of pre "le16 ty @ ?t" 0] by simp
  have "read_u16 ((pre @ le16 ty) @ ?t) (length (pre @ le16 ty) + 0) = of_nat (length v)"
    unfolding read_u16_shift by simp
  then show "unat (read_u16 (pre @ tlv_bytes (ty, v) @ post) (length pre + 2)) = length v"
    unfolding b using assms by (simp add: unat_of_nat)
qed

lemma validate_tlvs: "tlvs_ok ts \<Longrightarrow> validate_payload_loop (pre @ tlvs_bytes ts) (length pre) = LS_OK"
proof (induction ts arbitrary: pre)
  case Nil
  then show ?case by (simp add: validate_payload_loop.simps)
next
  case (Cons t ts)
  obtain ty v where t: "t = (ty, v)" by (cases t)
  have ok: "ty \<noteq> 0" "length v < 65536" "tlvs_ok ts" using Cons.prems t by (auto simp: tlvs_ok_def)
  note hd = read_tlv_header [OF ok(2), of pre ty "tlvs_bytes ts"]
  have "validate_payload_loop (pre @ tlvs_bytes (t # ts)) (length pre) =
      validate_payload_loop ((pre @ tlv_bytes t) @ tlvs_bytes ts) (length (pre @ tlv_bytes t))"
    using ok(1) hd by (subst validate_payload_loop.simps) (simp add: t Let_def add.assoc)
  then show ?case using Cons.IH [OF ok(3), of "pre @ tlv_bytes t"] by simp
qed

lemma visit_tlvs:
  assumes "tlvs_ok ts" and "\<And>c ty v. fst (visitor c ty v) = LS_OK"
  shows "visit_payload_loop visitor (pre @ tlvs_bytes ts) (length pre) c =
    (LS_OK, foldl (\<lambda>c (ty, v). snd (visitor c ty v)) c ts)"
  using assms(1)
proof (induction ts arbitrary: pre c)
  case Nil
  then show ?case by (simp add: visit_payload_loop.simps)
next
  case (Cons t ts)
  obtain ty v where t: "t = (ty, v)" by (cases t)
  have ok: "ty \<noteq> 0" "length v < 65536" "tlvs_ok ts" using Cons.prems t by (auto simp: tlvs_ok_def)
  note hd = read_tlv_header [OF ok(2), of pre ty "tlvs_bytes ts"]
  obtain c' where c': "visitor c ty v = (LS_OK, c')" using assms(2) [of c ty v] by (cases "visitor c ty v") simp
  have val: "bslice (length pre + 4) (length v) (pre @ tlv_bytes (ty, v) @ tlvs_bytes ts) = v"
    by (simp add: bslice_def tlv_bytes_def)
  have "visit_payload_loop visitor (pre @ tlvs_bytes (t # ts)) (length pre) c =
      visit_payload_loop visitor ((pre @ tlv_bytes t) @ tlvs_bytes ts) (length (pre @ tlv_bytes t)) c'"
    using ok(1) hd c' val
    by (subst visit_payload_loop.simps) (simp add: t Let_def add.assoc)
  then show ?case using Cons.IH [OF ok(3), of "pre @ tlv_bytes t" c'] c' t by simp
qed

lemma validate_payload_loop_tlvs:
  "validate_payload_loop payload offset = LS_OK \<Longrightarrow> offset \<le> length payload \<Longrightarrow>
   \<exists>ts. tlvs_ok ts \<and> drop offset payload = tlvs_bytes ts"
proof (induction payload offset rule: validate_payload_loop.induct)
  case (1 payload offset)
  show ?case
  proof (cases "offset < length payload")
    case False
    then show ?thesis using "1.prems" by (intro exI [of _ "[]"]) (simp add: tlvs_ok_def)
  next
    case True
    define ty where "ty = read_u16 payload offset"
    define n where "n = unat (read_u16 payload (offset + 2))"
    have enough: "\<not> length payload - offset < 4" and ok: "\<not> (ty = 0 \<or> n > length payload - (offset + 4))"
      and rec: "validate_payload_loop payload (offset + 4 + n) = LS_OK"
      using "1.prems"(1) True
      by (auto simp: validate_payload_loop.simps [of payload offset] Let_def ty_def n_def split: if_splits)
    have fits: "offset + 4 + n \<le> length payload" using enough ok True by auto
    obtain ts where ts: "tlvs_ok ts" "drop (offset + 4 + n) payload = tlvs_bytes ts"
      using "1.IH" [OF True enough ty_def n_def refl ok rec fits] by blast
    have n: "n < 65536" unfolding n_def using unsigned_less [of "read_u16 payload (offset + 2)"] by simp
    have "of_nat n = read_u16 payload (offset + 2)" by (simp add: n_def)
    then have "le16 ty @ le16 (of_nat n) = bslice offset 4 payload"
      using le16_read_u16_pair [of offset payload] enough True by (simp add: ty_def)
    then have "tlv_bytes (ty, bslice (offset + 4) n payload) = bslice offset (4 + n) payload"
      using fits by (simp add: tlv_bytes_def bslice_split)
    then have "drop offset payload = tlvs_bytes ((ty, bslice (offset + 4) n payload) # ts)"
      using ts(2) bslice_append_drop [of offset "4 + n" payload] by (simp add: add.assoc)
    moreover have "tlvs_ok ((ty, bslice (offset + 4) n payload) # ts)"
      using ts(1) ok n fits by (simp add: tlvs_ok_def)
    ultimately show ?thesis by blast
  qed
qed

text \<open>C21: payload validation accepts exactly the concatenations of TLVs with non-zero types: it
  never accepts a payload whose last TLV is cut, and never rejects a well-formed one.\<close>

theorem validate_payload_iff:
  "validate_payload payload = LS_OK \<longleftrightarrow> (\<exists>ts. tlvs_ok ts \<and> payload = tlvs_bytes ts)"
  using validate_payload_loop_tlvs [of payload 0] validate_tlvs [of _ "[]"]
  by (auto simp: validate_payload_def)

text \<open>The visitor that records what it is given.\<close>

definition record_tlv :: "(u16 \<times> bytes) list \<Rightarrow> u16 \<Rightarrow> bytes \<Rightarrow> ls_result \<times> (u16 \<times> bytes) list" where
  "record_tlv seen ty v = (LS_OK, seen @ [(ty, v)])"

lemma record_tlv_OK: "fst (record_tlv c ty v) = LS_OK"
  by (simp add: record_tlv_def)

lemma fold_record: "foldl (\<lambda>c (ty, v). snd (record_tlv c ty v)) c ts = c @ ts"
  by (induction ts arbitrary: c) (auto simp: record_tlv_def)

lemma envelope_validate_payload:
  assumes "ls_envelope_validate data = Inr info" and "ei_flags info AND LS_ENVELOPE_ENCRYPTED = 0"
  shows "validate_payload (bslice LS_LEP_HEADER_SIZE (unat (ei_payload_length info)) data) = LS_OK"
  using assms by (auto simp: ls_envelope_validate_def Let_def split: if_splits)

text \<open>C22: visiting a valid plaintext envelope hands the visitor every TLV of the payload, in order,
  with exactly its bytes: their concatenation is the payload.\<close>

theorem envelope_visit_delivers:
  assumes "ls_envelope_validate data = Inr info" and "ei_flags info AND LS_ENVELOPE_ENCRYPTED = 0"
  shows "\<exists>ts. ls_envelope_visit data (Some record_tlv) [] = (LS_OK, ts) \<and> tlvs_ok ts \<and>
    tlvs_bytes ts = bslice LS_LEP_HEADER_SIZE (unat (ei_payload_length info)) data"
proof -
  let ?p = "bslice LS_LEP_HEADER_SIZE (unat (ei_payload_length info)) data"
  obtain ts where ts: "tlvs_ok ts" "?p = tlvs_bytes ts"
    using validate_payload_loop_tlvs [of ?p 0] envelope_validate_payload [OF assms]
    by (auto simp: validate_payload_def)
  have "visit_payload_loop record_tlv ?p 0 [] = (LS_OK, ts)"
    using visit_tlvs [OF ts(1), of record_tlv "[]" "[]", OF record_tlv_OK] ts(2) by (simp add: fold_record)
  then show ?thesis
    using assms ts by (simp add: ls_envelope_visit_def visit_payload_def)
qed

section \<open>Building and validating an envelope\<close>

lemma length_lep_write_header [simp]: "length (lep_write_header t a f s e n) = 24"
  by (simp add: lep_write_header_def Let_def)

text \<open>The plaintext, unauthenticated envelope around a payload, as the encoder lays it out.\<close>

definition plain_envelope :: "u8 \<Rightarrow> u8 \<Rightarrow> u8 \<Rightarrow> u32 \<Rightarrow> u32 \<Rightarrow> bytes \<Rightarrow> bytes" where
  "plain_envelope type architecture flags sequence event_id payload =
     lep_write_header type architecture flags sequence event_id (of_nat (length payload)) @
     payload @ le32 (ls_crc32 payload)"

lemma lep_header_fields:
  fixes h :: bytes
  assumes "h = lep_write_header t a f s e n"
  shows "read_u32 (h @ xs) 0 = LS_MAGIC" "(h @ xs) ! 4 = LS_LEP_CURRENT_VERSION" "(h @ xs) ! 5 = t"
    "(h @ xs) ! 6 = a" "(h @ xs) ! 7 = f" "read_u32 (h @ xs) 8 = s" "read_u32 (h @ xs) 12 = e"
    "read_u32 (h @ xs) 16 = n" "read_u32 (h @ xs) 20 = ls_crc32 (bslice 0 20 (h @ xs))"
proof -
  define b where "b = [LS_LEP_CURRENT_VERSION, t, a, f]"
  let ?c = "le32 LS_MAGIC @ b @ le32 s @ le32 e @ le32 n"
  have h: "h @ xs = le32 LS_MAGIC @ b @ le32 s @ le32 e @ le32 n @ le32 (ls_crc32 ?c) @ xs"
    using assms by (simp add: lep_write_header_def Let_def b_def)
  have len: "length b = 4" by (simp add: b_def)
  have shift: "read_u32 (le32 x @ ys) (4 + k) = read_u32 ys k" for x ys k
    using read_u32_shift [of "le32 x" ys k] by simp
  have shiftb: "read_u32 (b @ ys) (4 + k) = read_u32 ys k" for ys k
    using read_u32_shift [of b ys k] by (simp only: len)
  note s = shift [of _ _ 4, simplified] shift [of _ _ 8, simplified] shift [of _ _ 12, simplified]
    shift [of _ _ 16, simplified] shift [of _ _ 0, simplified] shiftb [of _ 0, simplified]
    shiftb [of _ 4, simplified] shiftb [of _ 8, simplified] shiftb [of _ 12, simplified]
  show "read_u32 (h @ xs) 0 = LS_MAGIC" unfolding h by simp
  show "(h @ xs) ! 4 = LS_LEP_CURRENT_VERSION" "(h @ xs) ! 5 = t" "(h @ xs) ! 6 = a" "(h @ xs) ! 7 = f"
    unfolding h by (simp_all add: nth_append b_def)
  show "read_u32 (h @ xs) 8 = s" "read_u32 (h @ xs) 12 = e" "read_u32 (h @ xs) 16 = n"
    unfolding h by (simp_all add: s)
  have "bslice 0 20 (h @ xs) = ?c" unfolding h by (simp add: bslice_def len)
  then show "read_u32 (h @ xs) 20 = ls_crc32 (bslice 0 20 (h @ xs))"
    unfolding h by (simp add: s)
qed

text \<open>What validation has checked, as one equivalence.\<close>

definition envelope_crc_offset :: "bytes \<Rightarrow> nat" where
  "envelope_crc_offset data =
     LS_LEP_HEADER_SIZE + envelope_metadata_size (data ! 7) + unat (read_u32 data 16)"

lemma validate_InrD:
  assumes "ls_envelope_validate data = Inr info"
  shows "read_u32 data 20 = ls_crc32 (bslice 0 20 data)"
    and "read_u32 data (envelope_crc_offset data) =
      ls_crc32 (bslice 24 (envelope_crc_offset data - 24) data)"
    and "length data = envelope_crc_offset data + 4 + envelope_authentication_size (data ! 7)"
    and "ei_payload_length info = read_u32 data 16" and "ei_flags info = data ! 7"
    and "ei_sequence info = read_u32 data 8"
  using assms
  by (auto simp: ls_envelope_validate_def envelope_crc_offset_def LS_LEP_HEADER_SIZE_def Let_def
      split: if_splits)

lemma validate_payload_loop_cases:
  "validate_payload_loop payload offset = LS_OK \<or> validate_payload_loop payload offset = LS_ECORRUPT"
  by (induction payload offset rule: validate_payload_loop.induct)
    (subst (1 2) validate_payload_loop.simps, auto simp: Let_def)

lemma validate_InlD: "ls_envelope_validate data = Inl e \<Longrightarrow> e = LS_ECORRUPT"
  using validate_payload_loop_cases
  by (auto simp: ls_envelope_validate_def validate_payload_def Let_def split: if_splits)

lemma validate_not_Inr: "(\<And>info. ls_envelope_validate data \<noteq> Inr info) \<Longrightarrow> ls_envelope_validate data = Inl LS_ECORRUPT"
  using validate_InlD by (cases "ls_envelope_validate data") auto

lemma validate_plain_envelope:
  assumes "tlvs_ok ts" and "length (tlvs_bytes ts) \<le> UINT32_MAX" and "flags \<in> {0, LS_ENVELOPE_TRUNCATED}"
  shows "ls_envelope_validate (plain_envelope type architecture flags sequence event_id (tlvs_bytes ts)) =
    Inr \<lparr>ei_version = LS_LEP_CURRENT_VERSION, ei_type = type, ei_architecture = architecture,
         ei_flags = flags, ei_sequence = sequence, ei_event_id = event_id,
         ei_payload_length = of_nat (length (tlvs_bytes ts))\<rparr>"
proof -
  define p where "p = tlvs_bytes ts"
  define h where "h = lep_write_header type architecture flags sequence event_id (of_nat (length p))"
  define xs where "xs = p @ le32 (ls_crc32 p)"
  have env: "plain_envelope type architecture flags sequence event_id (tlvs_bytes ts) = h @ xs"
    by (simp add: plain_envelope_def h_def xs_def p_def)
  note f = lep_header_fields [OF h_def, of xs]
  have lenh: "length h = 24" by (simp add: h_def)
  have n: "unat (of_nat (length p) :: u32) = length p"
    using assms(2) by (simp add: p_def unat_of_nat UINT32_MAX_def)
  have payload: "bslice 24 (length p) (h @ xs) = p"
    by (simp add: bslice_def xs_def lenh)
  have "read_u32 ((h @ p) @ le32 (ls_crc32 p)) (length (h @ p) + 0) = ls_crc32 p"
    unfolding read_u32_shift by simp
  then have crc: "read_u32 (h @ xs) (24 + length p) = ls_crc32 p"
    by (simp add: xs_def lenh)
  have flags: "flags_valid flags" "envelope_metadata_size flags = 0"
    "envelope_authentication_size flags = 0" "flags AND LS_ENVELOPE_ENCRYPTED = 0"
    using assms(3)
    by (auto simp: flags_valid_def envelope_metadata_size_def envelope_authentication_size_def
        envelope_flag_defs Let_def)
  have valid: "validate_payload p = LS_OK"
    using validate_tlvs [OF assms(1), of "[]"] by (simp add: validate_payload_def p_def)
  have lenx: "length xs = 4 + length p" by (simp add: xs_def)
  show ?thesis
    unfolding env ls_envelope_validate_def
    by (simp add: f flags n payload crc valid lenh lenx Let_def LS_LEP_HEADER_SIZE_def
        LS_LEP_MIN_SUPPORTED_VERSION_def LS_LEP_MAX_SUPPORTED_VERSION_def LS_LEP_CURRENT_VERSION_def
        p_def [symmetric])
qed

text \<open>C23: an envelope around any TLV payload, with the flags of a plaintext envelope, validates,
  and validation gives back every header field.\<close>

theorem plain_envelope_validates:
  assumes "tlvs_ok ts" and "length (tlvs_bytes ts) \<le> UINT32_MAX" and "flags \<in> {0, LS_ENVELOPE_TRUNCATED}"
  shows "ls_envelope_validate (plain_envelope type architecture flags sequence event_id (tlvs_bytes ts)) =
    Inr \<lparr>ei_version = LS_LEP_CURRENT_VERSION, ei_type = type, ei_architecture = architecture,
         ei_flags = flags, ei_sequence = sequence, ei_event_id = event_id,
         ei_payload_length = of_nat (length (tlvs_bytes ts))\<rparr>"
  using assms by (rule validate_plain_envelope)

theorem plain_envelope_validates_witness:
  "ls_envelope_validate (plain_envelope 1 2 0 7 9 (tlvs_bytes [(3, [10, 11])])) =
    Inr \<lparr>ei_version = LS_LEP_CURRENT_VERSION, ei_type = 1, ei_architecture = 2, ei_flags = 0,
         ei_sequence = 7, ei_event_id = 9, ei_payload_length = 6\<rparr>"
  using plain_envelope_validates [of "[(3, [10, 11])]" 0 1 2 7 9]
  by (simp add: tlvs_ok_def UINT32_MAX_def)

theorem envelope_visit_delivers_witness:
  "\<exists>ts. ls_envelope_visit (plain_envelope 1 2 0 7 9 (tlvs_bytes [(3, [10, 11])]))
       (Some record_tlv) [] = (LS_OK, ts) \<and> tlvs_ok ts \<and>
     tlvs_bytes ts = [3, 0, 2, 0, 10, 11]"
proof -
  let ?d = "plain_envelope 1 2 0 7 9 (tlvs_bytes [(3, [10, 11])])"
  note v = validate_plain_envelope [of "[(3, [10, 11])]" 0 1 2 7 9]
  show ?thesis
    using envelope_visit_delivers [OF v]
    by (simp add: plain_envelope_def bslice_def LS_LEP_HEADER_SIZE_def tlv_bytes_def le16_def
        tlvs_ok_def UINT32_MAX_def)
qed

text \<open>C24: an envelope that validates is rejected as corrupt after any change confined to at most
  four consecutive bytes of the first twenty header bytes, or to four consecutive bytes of the
  region between header and payload CRC.\<close>

theorem envelope_detects_burst:
  assumes "ls_envelope_validate (pre @ xs @ post) = Inr info"
    and "length xs = length ys" and "length xs \<le> 4" and "xs \<noteq> ys"
    and "length pre + length xs \<le> 20 \<or>
      24 \<le> length pre \<and> length pre + length xs \<le> envelope_crc_offset (pre @ xs @ post)"
  shows "ls_envelope_validate (pre @ ys @ post) = Inl LS_ECORRUPT"
proof (rule validate_not_Inr)
  fix info'
  let ?d = "pre @ xs @ post" and ?e = "pre @ ys @ post"
  note D = validate_InrD [OF assms(1)]
  show "ls_envelope_validate ?e \<noteq> Inr info'"
  proof
    assume "ls_envelope_validate ?e = Inr info'"
    note E = validate_InrD [OF this]
    have len: "length ?e = length ?d" using assms(2) by simp
    have same: "?d ! i = ?e ! i" if "i < length pre \<or> length pre + length xs \<le> i" for i
      using that assms(2) by (auto simp: nth_append)
    have same32: "read_u32 ?d k = read_u32 ?e k"
      if "k + 4 \<le> length pre \<or> length pre + length xs \<le> k" for k
    proof -
      have "?d ! (k + j) = ?e ! (k + j)" if "j < 4" for j
        by (rule same) (use that \<open>k + 4 \<le> length pre \<or> length pre + length xs \<le> k\<close> in linarith)
      from this [of 0] this [of 1] this [of 2] this [of 3] show ?thesis by (simp add: read_u32_def)
    qed
    have differ: "ls_crc32 (drop k pre @ xs @ take n post) \<noteq> ls_crc32 (drop k pre @ ys @ take n post)"
      for k n
      using crc32_burst_differs [OF assms(2-4)] .
    have cut: "bslice k n (pre @ zs @ post) =
        drop k pre @ zs @ take (k + n - length pre - length zs) post"
      if "k \<le> length pre" "length pre + length zs \<le> k + n" for k n zs
      using that by (simp add: bslice_def add.commute diff_diff_add)
    show False
    proof (cases "length pre + length xs \<le> 20")
      case True
      then have "read_u32 ?d 20 = read_u32 ?e 20" by (intro same32) simp
      then show False
        using D(1) E(1) differ [of 0 "20 - length pre - length xs"] cut [of 0 xs 20] cut [of 0 ys 20]
          True assms(2) by simp
    next
      case False
      then have pay: "24 \<le> length pre" "length pre + length xs \<le> envelope_crc_offset ?d"
        using assms(5) by auto
      have off: "envelope_crc_offset ?e = envelope_crc_offset ?d"
        using pay(1) same [of 7] same32 [of 16] by (simp add: envelope_crc_offset_def)
      let ?n = "envelope_crc_offset ?d - 24"
      have "read_u32 ?d (envelope_crc_offset ?d) = read_u32 ?e (envelope_crc_offset ?d)"
        using pay(2) by (intro same32) simp
      then show False
        using D(2) E(2) differ [of 24 "24 + ?n - length pre - length xs"]
          cut [of 24 xs ?n] cut [of 24 ys ?n] pay assms(2) by (simp add: off)
    qed
  qed
qed

theorem envelope_detects_burst_witness:
  "ls_envelope_validate ((lep_write_header 1 2 0 7 9 6 @ [3, 0, 2, 0]) @ [99] @
       ([11] @ le32 (ls_crc32 [3, 0, 2, 0, 10, 11]))) = Inl LS_ECORRUPT"
proof (rule envelope_detects_burst)
  let ?h = "lep_write_header 1 2 0 7 9 6"
  let ?d = "(?h @ [3, 0, 2, 0]) @ [10] @ ([11] @ le32 (ls_crc32 [3, 0, 2, 0, 10, 11]))"
  have d: "plain_envelope 1 2 0 7 9 (tlvs_bytes [(3, [10, 11])]) = ?d"
    by (simp add: plain_envelope_def tlv_bytes_def le16_def)
  show "ls_envelope_validate ?d = Inr \<lparr>ei_version = LS_LEP_CURRENT_VERSION, ei_type = 1,
      ei_architecture = 2, ei_flags = 0, ei_sequence = 7, ei_event_id = 9, ei_payload_length = 6\<rparr>"
    unfolding d [symmetric] using validate_plain_envelope [of "[(3, [10, 11])]" 0 1 2 7 9]
    by (simp add: tlvs_ok_def UINT32_MAX_def)
  have "envelope_crc_offset ?d = 30"
    using lep_header_fields(5,8) [OF refl, of 1 2 0 7 9 6 "[3, 0, 2, 0] @ [10] @ ([11] @ le32 (ls_crc32 [3, 0, 2, 0, 10, 11]))"]
    by (simp add: envelope_crc_offset_def LS_LEP_HEADER_SIZE_def envelope_metadata_size_def)
  then show "length (?h @ [3, 0, 2, 0]) + length [10 :: u8] \<le> 20 \<or>
      24 \<le> length (?h @ [3, 0, 2, 0]) \<and>
      length (?h @ [3, 0, 2, 0]) + length [10 :: u8] \<le> envelope_crc_offset ?d"
    by simp
qed simp_all

section \<open>The replay window rejects repetitions\<close>

text \<open>A sequence number the window remembers, or has moved past by less than half the range.\<close>

definition replay_seen :: "ls_envelope_replay \<Rightarrow> u32 \<Rightarrow> bool" where
  "replay_seen r s \<longleftrightarrow> replay_initialized r \<and>
     (let d = unat (highest_sequence r - s)
      in d < 0x80000000 \<and> (d < LS_ENVELOPE_REPLAY_WINDOW_SIZE \<longrightarrow> bit (seen_sequences r) d))"

lemma and_push_bit_1: "(x AND push_bit d 1 \<noteq> 0) \<longleftrightarrow> bit x d" for x :: u64
  by (auto simp: bit_eq_iff [of _ 0] bit_simps dest: bit_imp_le_length)

lemma bit_and_shifted_nonzero: "bit x d \<Longrightarrow> x AND push_bit d 1 \<noteq> 0" for x :: u64
  by (simp only: and_push_bit_1)

lemma unat_minus_swap: "a \<noteq> b \<Longrightarrow> unat (a - b) + unat (b - a) = 2 ^ 32" for a b :: u32
  using unsigned_less [of a, where 'a = nat] unsigned_less [of b, where 'a = nat]
  by (auto simp: unat_sub_if_size word_size word_unat_eq_iff)

lemma unat_minus_trans:
  fixes a b c :: u32
  assumes "unat (a - b) + unat (b - c) < 2 ^ 32"
  shows "unat (a - c) = unat (a - b) + unat (b - c)"
proof -
  have "a - c = (a - b) + (b - c)" by simp
  then show ?thesis using assms unat_add_lem [of "a - b" "b - c"] by simp
qed

lemma replay_forward_iff:
  "forward \<noteq> 0 \<and> forward < 0x80000000 \<longleftrightarrow> 0 < unat forward \<and> unat forward < 0x80000000" for forward :: u32
  by (auto simp: word_less_nat_alt unat_eq_0 [symmetric] One_nat_def simp del: unat_eq_0)

lemma replay_seen_rejected:
  assumes "replay_seen r s"
  shows "ls_envelope_replay_accept r s = (False, r)"
proof -
  let ?d = "unat (highest_sequence r - s)"
  have d: "replay_initialized r" "?d < 0x80000000" "?d < 64 \<Longrightarrow> bit (seen_sequences r) ?d"
    using assms by (auto simp: replay_seen_def LS_ENVELOPE_REPLAY_WINDOW_SIZE_def Let_def)
  have "\<not> (s - highest_sequence r \<noteq> 0 \<and> s - highest_sequence r < 0x80000000)"
    unfolding replay_forward_iff using unat_minus_swap [of "highest_sequence r" s] d(2)
    by (cases "highest_sequence r = s") auto
  then show ?thesis
    using d bit_and_shifted_nonzero [of "seen_sequences r" ?d]
    by (auto simp: ls_envelope_replay_accept_def LS_ENVELOPE_REPLAY_WINDOW_SIZE_def Let_def)
qed

lemma replay_accept_seen:
  assumes "ls_envelope_replay_accept r s = (True, r')"
  shows "replay_seen r' s"
proof -
  have one: "bit (1 :: u64) 0" "bit (x OR 1) 0" for x :: u64 by (simp_all add: bit_simps)
  consider (fresh) "highest_sequence r' = s" "bit (seen_sequences r') 0" "replay_initialized r'"
    | (old) "unat (highest_sequence r - s) < 64" "replay_initialized r'"
        "r' = r\<lparr>seen_sequences := seen_sequences r OR push_bit (unat (highest_sequence r - s)) 1\<rparr>"
    using assms one
    by (auto simp: ls_envelope_replay_accept_def LS_ENVELOPE_REPLAY_WINDOW_SIZE_def Let_def
        split: if_splits)
  then show ?thesis
    by cases (auto simp: replay_seen_def LS_ENVELOPE_REPLAY_WINDOW_SIZE_def Let_def bit_simps)
qed

lemma replay_seen_step:
  assumes "replay_seen r s" and "ls_envelope_replay_accept r t = (b, r')"
    and "unat (highest_sequence r - s) + unat (highest_sequence r' - highest_sequence r) < 0x80000000"
  shows "replay_seen r' s"
proof -
  let ?d = "unat (highest_sequence r - s)"
  let ?f = "unat (highest_sequence r' - highest_sequence r)"
  have d: "replay_initialized r" "?d < 64 \<Longrightarrow> bit (seen_sequences r) ?d"
    using assms(1) by (auto simp: replay_seen_def LS_ENVELOPE_REPLAY_WINDOW_SIZE_def Let_def)
  have sum: "unat (highest_sequence r' - s) = ?d + ?f"
    using unat_minus_trans [of "highest_sequence r'" "highest_sequence r" s] assms(3) by simp
  have bits: "bit (seen_sequences r') (?d + ?f)" if "?d + ?f < 64"
    using assms(2) d that
    by (auto simp: ls_envelope_replay_accept_def LS_ENVELOPE_REPLAY_WINDOW_SIZE_def Let_def bit_simps
        split: if_splits)
  have "replay_initialized r'"
    using assms(2) d(1) by (auto simp: ls_envelope_replay_accept_def Let_def split: if_splits)
  then show ?thesis
    using bits assms(3) by (simp add: replay_seen_def LS_ENVELOPE_REPLAY_WINDOW_SIZE_def sum)
qed

text \<open>A run of the window over a sequence of numbers, and how far it advances.\<close>

fun replay_run :: "ls_envelope_replay \<Rightarrow> u32 list \<Rightarrow> ls_envelope_replay" where
  "replay_run r [] = r"
| "replay_run r (t # ts) = replay_run (snd (ls_envelope_replay_accept r t)) ts"

fun replay_advance :: "ls_envelope_replay \<Rightarrow> u32 list \<Rightarrow> nat" where
  "replay_advance r [] = 0"
| "replay_advance r (t # ts) =
     (let r' = snd (ls_envelope_replay_accept r t)
      in unat (highest_sequence r' - highest_sequence r) + replay_advance r' ts)"

lemma replay_seen_run:
  "replay_seen r s \<Longrightarrow> unat (highest_sequence r - s) + replay_advance r ts < 0x80000000 \<Longrightarrow>
   replay_seen (replay_run r ts) s"
proof (induction ts arbitrary: r)
  case Nil
  then show ?case by simp
next
  case (Cons t ts)
  obtain b r' where a: "ls_envelope_replay_accept r t = (b, r')" by (metis prod.exhaust)
  let ?f = "unat (highest_sequence r' - highest_sequence r)"
  have bound: "unat (highest_sequence r - s) + ?f + replay_advance r' ts < 0x80000000"
    using Cons.prems(2) a by (simp add: Let_def)
  have "replay_seen r' s" by (rule replay_seen_step [OF Cons.prems(1) a]) (use bound in simp)
  moreover have "unat (highest_sequence r' - s) = ?f + unat (highest_sequence r - s)"
    by (rule unat_minus_trans) (use bound in simp)
  ultimately show ?case using Cons.IH [of r'] bound a by simp
qed

text \<open>C25: the replay window accepts a sequence number at most once: after it has been accepted, and
  whatever numbers follow, it is rejected as long as the window has advanced by less than half the
  32-bit range, across wrap-around too.\<close>

theorem replay_accepts_once:
  assumes "ls_envelope_replay_accept r s = (True, r')"
    and "unat (highest_sequence r' - s) + replay_advance r' ts < 0x80000000"
  shows "fst (ls_envelope_replay_accept (replay_run r' ts) s) = False"
  using replay_seen_rejected [OF replay_seen_run [OF replay_accept_seen [OF assms(1)] assms(2)]]
  by simp

definition replay_start :: ls_envelope_replay where
  "replay_start = \<lparr>highest_sequence = 0, seen_sequences = 0, replay_initialized = False\<rparr>"

lemma replay_example:
  "ls_envelope_replay_accept replay_start 0xffffffff =
     (True, \<lparr>highest_sequence = 0xffffffff, seen_sequences = 1, replay_initialized = True\<rparr>)"
  "ls_envelope_replay_accept
     \<lparr>highest_sequence = 0xffffffff, seen_sequences = 1, replay_initialized = True\<rparr> 3 =
     (True, \<lparr>highest_sequence = 3, seen_sequences = 17, replay_initialized = True\<rparr>)"
  "ls_envelope_replay_accept
     \<lparr>highest_sequence = 3, seen_sequences = 17, replay_initialized = True\<rparr> 1 =
     (True, \<lparr>highest_sequence = 3, seen_sequences = 21, replay_initialized = True\<rparr>)"
  by (simp_all add: ls_envelope_replay_accept_def replay_start_def LS_ENVELOPE_REPLAY_WINDOW_SIZE_def
      One_nat_def)

theorem replay_accepts_once_witness:
  "fst (ls_envelope_replay_accept
     (replay_run \<lparr>highest_sequence = 0xffffffff, seen_sequences = 1, replay_initialized = True\<rparr> [3, 1])
     0xffffffff) = False"
  by (rule replay_accepts_once [OF replay_example(1)])
    (simp add: Let_def replay_example One_nat_def)

end
