(* ===== verification/LS_Transport.thy ===== *)
theory LS_Transport
  imports LS_Storage
begin

text \<open>
  \<^verbatim>\<open>src/transport/transport.c\<close>: the table of transports, the choice of one for an event, sending
  with retries and fragmentation, and the reassembly of fragments at the receiver. A transport
  is a record of optional callbacks over the \<open>world\<close> (the fault table and the context behind the
  \<^verbatim>\<open>void *context\<close> of the callbacks); its address is a number, and \<open>heap\<close> dereferences it. The
  busy table is not reachable from a callback: a callback that sends again is not modelled.
\<close>

declare One_nat_def [simp del] push_bit_of_1 [simp del]

section \<open>Fragments and transports\<close>

definition LS_TRANSPORT_ACK :: u32 where "LS_TRANSPORT_ACK = 1"
definition LS_TRANSPORT_FRAGMENT :: u32 where "LS_TRANSPORT_FRAGMENT = 2"
definition LS_TRANSPORT_DURABLE_ACK :: u32 where "LS_TRANSPORT_DURABLE_ACK = LS_TRANSPORT_ACK"

record ls_transport_fragment =
  fr_event_id :: u32
  fr_envelope_crc :: u32
  fr_total_length :: u32
  fr_offset :: u32
  fr_fragment_capacity :: u32
  fr_fragment_crc :: u32
  fr_fragment_index :: u16
  fr_fragment_count :: u16
  fr_data :: "bytes option"
  fr_length :: nat

record 's ls_transport_backend =
  tb_priority :: "32 word"
  tb_available :: "('s world \<Rightarrow> bool \<times> 's world) option"
  tb_send :: "(bytes \<Rightarrow> 's world \<Rightarrow> ls_result \<times> 's world) option"
  tb_send_fragment ::
    "(u32 \<Rightarrow> u16 \<Rightarrow> u16 \<Rightarrow> bytes \<Rightarrow> u32 \<Rightarrow> 's world \<Rightarrow> ls_result \<times> 's world) option"
  tb_max_payload :: "('s world \<Rightarrow> nat \<times> 's world) option"
  tb_capabilities :: u32
  tb_energy_cost :: u16
  tb_monetary_cost :: u16
  tb_send_fragment_v2 :: "(ls_transport_fragment \<Rightarrow> 's world \<Rightarrow> ls_result \<times> 's world) option"
  tb_retry :: "(u8 \<Rightarrow> ls_result \<Rightarrow> 's world \<Rightarrow> bool \<times> 's world) option"
  tb_retry_limit :: u8

type_synonym tptr = nat

definition has_fragment_sender :: "'s ls_transport_backend \<Rightarrow> bool" where
  "has_fragment_sender t \<longleftrightarrow> tb_send_fragment t \<noteq> None \<or> tb_send_fragment_v2 t \<noteq> None"

section \<open>The busy table\<close>

fun acquire_transport :: "tptr \<Rightarrow> tptr option list \<Rightarrow> bool \<times> tptr option list" where
  "acquire_transport p [] = (False, [])"
| "acquire_transport p (b # busy) =
     (if b = Some p then (False, b # busy)
      else if b = None then (True, Some p # busy)
      else case acquire_transport p busy of (ok, busy') \<Rightarrow> (ok, b # busy'))"

fun release_transport :: "tptr \<Rightarrow> tptr option list \<Rightarrow> tptr option list" where
  "release_transport p [] = []"
| "release_transport p (b # busy) =
     (if b = Some p then None # busy else b # release_transport p busy)"

section \<open>Choosing a transport\<close>

definition transport_mtu :: "'s ls_transport_backend \<Rightarrow> nat \<Rightarrow> 's world \<Rightarrow> nat \<times> 's world" where
  "transport_mtu t event_size w =
     (case tb_max_payload t of None \<Rightarrow> (event_size, w) | Some f \<Rightarrow> f w)"

definition transport_available :: "'s ls_transport_backend \<Rightarrow> 's world \<Rightarrow> bool \<times> 's world" where
  "transport_available t w = (case tb_available t of None \<Rightarrow> (True, w) | Some f \<Rightarrow> f w)"

definition ls_transport_result_is_retryable :: "ls_result \<Rightarrow> bool" where
  "ls_transport_result_is_retryable result \<longleftrightarrow> result = LS_EAGAIN \<or> result = LS_EBUSY"

definition ls_transport_can_send :: "'s ls_transport_backend \<Rightarrow> nat \<Rightarrow> 's world \<Rightarrow> bool \<times> 's world" where
  "ls_transport_can_send t event_size w =
     (if tb_send t = None \<and> \<not> has_fragment_sender t then (False, w)
      else case transport_available t w of (available, w1) \<Rightarrow>
        if \<not> available then (False, w1)
        else case transport_mtu t event_size w1 of (mtu, w2) \<Rightarrow>
          if mtu = 0 then (False, w2)
          else (event_size \<le> mtu \<or>
                  (tb_capabilities t AND LS_TRANSPORT_FRAGMENT \<noteq> 0 \<and> has_fragment_sender t), w2))"

text \<open>The registered transports are the first \<^verbatim>\<open>transport_count\<close> entries of the runtime's array.\<close>

definition ls_transport_register ::
  "ls_build_config \<Rightarrow> (tptr \<Rightarrow> 's ls_transport_backend) \<Rightarrow> tptr option \<Rightarrow> tptr list \<Rightarrow> tptr list" where
  "ls_transport_register cfg heap transport ts =
     (case transport of
        None \<Rightarrow> ts
      | Some p \<Rightarrow>
          if tb_send (heap p) = None \<and> \<not> has_fragment_sender (heap p) then ts
          else if p \<in> set ts then ts
          else if length ts < LS_MAX_TRANSPORTS cfg then ts @ [p] else ts)"

definition ls_transport_clear :: "tptr list \<Rightarrow> tptr list" where
  "ls_transport_clear ts = []"

definition INT64_MIN :: int where "INT64_MIN = - (2 ^ 63)"

definition transport_score :: "ls_priority \<Rightarrow> 's ls_transport_backend \<Rightarrow> int" where
  "transport_score priority t =
     (let score = sint (tb_priority t) * 1000;
          score1 = (if priority \<ge> LS_PRIORITY_WARNING
                    then score - uint (tb_energy_cost t) - uint (tb_monetary_cost t) * 2
                    else score)
      in if tb_capabilities t AND LS_TRANSPORT_DURABLE_ACK \<noteq> 0 then score1 + 20 else score1)"

fun select_loop ::
  "(tptr \<Rightarrow> 's ls_transport_backend) \<Rightarrow> ls_priority \<Rightarrow> nat \<Rightarrow> tptr list \<Rightarrow> tptr option \<Rightarrow> int \<Rightarrow>
   's world \<Rightarrow> tptr option \<times> 's world" where
  "select_loop heap priority event_size [] best best_score w = (best, w)"
| "select_loop heap priority event_size (p # ps) best best_score w =
     (case ls_transport_can_send (heap p) event_size w of (ok, w') \<Rightarrow>
        if \<not> ok then select_loop heap priority event_size ps best best_score w'
        else let score = transport_score priority (heap p)
             in if score > best_score
                then select_loop heap priority event_size ps (Some p) score w'
                else select_loop heap priority event_size ps best best_score w')"

definition ls_transport_select ::
  "ls_build_config \<Rightarrow> (tptr \<Rightarrow> 's ls_transport_backend) \<Rightarrow> tptr list \<Rightarrow> ls_priority \<Rightarrow> nat \<Rightarrow>
   's world \<Rightarrow> tptr option \<times> 's world" where
  "ls_transport_select cfg heap ts priority event_size w =
     select_loop heap priority event_size (take (LS_MAX_TRANSPORTS cfg) ts) None INT64_MIN w"

section \<open>Sending\<close>

definition should_retry ::
  "'s ls_transport_backend \<Rightarrow> u8 \<Rightarrow> ls_result \<Rightarrow> 's world \<Rightarrow> (bool \<times> u8) \<times> 's world" where
  "should_retry t attempt result w =
     (if \<not> ls_transport_result_is_retryable result \<or> attempt \<ge> tb_retry_limit t
      then ((False, attempt), w)
      else let attempt' = attempt + 1
           in case tb_retry t of
                None \<Rightarrow> ((True, attempt'), w)
              | Some f \<Rightarrow> (case f attempt' result w of (again, w') \<Rightarrow> ((again, attempt'), w')))"

lemma should_retry_progress:
  "should_retry t attempt result w = ((True, attempt'), w') \<Longrightarrow>
   attempt < tb_retry_limit t \<and> unat attempt' = unat attempt + 1"
proof -
  assume *: "should_retry t attempt result w = ((True, attempt'), w')"
  then have lt: "attempt < tb_retry_limit t" and eq: "attempt' = attempt + 1"
    by (auto simp: should_retry_def Let_def not_le split: if_splits option.splits prod.splits)
  have "unat attempt + 1 < 256"
    using lt unsigned_less [of "tb_retry_limit t", where 'a = nat] by (simp add: word_less_nat_alt)
  then have "unat attempt' = unat attempt + 1"
    unfolding eq by (subst unat_add_lem [THEN iffD1]) (simp_all add: One_nat_def)
  with lt show ?thesis by simp
qed

text \<open>The loop \<^verbatim>\<open>do { result = ...; } while (should_retry(transport, &attempt, result));\<close> shared by
  the complete and the fragmented send; \<open>step\<close> is its body.\<close>

function retry_loop ::
  "'s ls_transport_backend \<Rightarrow> ('s world \<Rightarrow> ls_result \<times> 's world) \<Rightarrow> u8 \<Rightarrow> 's world \<Rightarrow>
   ls_result \<times> 's world" where
  "retry_loop t step attempt w =
     (case step w of (result, w1) \<Rightarrow>
        case should_retry t attempt result w1 of ((again, attempt'), w2) \<Rightarrow>
          if again then retry_loop t step attempt' w2 else (result, w2))"
  by pat_completeness auto
termination
  by (relation "measure (\<lambda>(t, step, attempt, w). unat (tb_retry_limit t) - unat attempt)")
    (auto simp: word_less_nat_alt dest!: sym [of _ "should_retry _ _ _ _"] should_retry_progress)

declare retry_loop.simps [simp del]

definition send_complete_step ::
  "'s ls_transport_backend \<Rightarrow> bytes \<Rightarrow> 's world \<Rightarrow> ls_result \<times> 's world" where
  "send_complete_step t data w =
     and_then (fault_point ''transport.send'' w) (the (tb_send t) data)"

definition send_complete :: "'s ls_transport_backend \<Rightarrow> bytes \<Rightarrow> 's world \<Rightarrow> ls_result \<times> 's world" where
  "send_complete t data w =
     (if tb_send t = None then (LS_ENOTSUP, w)
      else retry_loop t (send_complete_step t data) 0 w)"

definition send_fragment_step ::
  "'s ls_transport_backend \<Rightarrow> ls_transport_fragment \<Rightarrow> 's world \<Rightarrow> ls_result \<times> 's world" where
  "send_fragment_step t fragment w =
     and_then (fault_point ''transport.fragment'' w)
       (\<lambda>w1. case tb_send_fragment_v2 t of
          Some f \<Rightarrow> f fragment w1
        | None \<Rightarrow> (case tb_send_fragment t of
            Some f \<Rightarrow> f (fr_event_id fragment) (fr_fragment_index fragment)
                        (fr_fragment_count fragment) (the (fr_data fragment))
                        (fr_fragment_crc fragment) w1
          | None \<Rightarrow> (LS_ENOTSUP, w1)))"

definition send_fragment ::
  "'s ls_transport_backend \<Rightarrow> ls_transport_fragment \<Rightarrow> 's world \<Rightarrow> ls_result \<times> 's world" where
  "send_fragment t fragment w = retry_loop t (send_fragment_step t fragment) 0 w"

definition fragment_count :: "nat \<Rightarrow> nat \<Rightarrow> nat" where
  "fragment_count len mtu = (if len mod mtu \<noteq> 0 then len div mtu + 1 else len div mtu)"

text \<open>The fragment the loop builds at \<open>index\<close>.\<close>

definition transport_fragment :: "u32 \<Rightarrow> bytes \<Rightarrow> nat \<Rightarrow> nat \<Rightarrow> ls_transport_fragment" where
  "transport_fragment event_id data mtu index =
     (let offset = index * mtu;
          rest = length data - offset;
          fragment_length = (if rest > mtu then mtu else rest)
      in \<lparr>fr_event_id = event_id, fr_envelope_crc = ls_crc32 data,
          fr_total_length = of_nat (length data), fr_offset = of_nat offset,
          fr_fragment_capacity = of_nat mtu,
          fr_fragment_crc = ls_crc32 (bslice offset fragment_length data),
          fr_fragment_index = of_nat index,
          fr_fragment_count = of_nat (fragment_count (length data) mtu),
          fr_data = Some (bslice offset fragment_length data), fr_length = fragment_length\<rparr>)"

fun send_fragments ::
  "'s ls_transport_backend \<Rightarrow> u32 \<Rightarrow> bytes \<Rightarrow> nat \<Rightarrow> nat list \<Rightarrow> 's world \<Rightarrow> ls_result \<times> 's world" where
  "send_fragments t event_id data mtu [] w = (LS_OK, w)"
| "send_fragments t event_id data mtu (index # indices) w =
     and_then (send_fragment t (transport_fragment event_id data mtu index) w)
       (send_fragments t event_id data mtu indices)"

definition transport_transmit ::
  "'s ls_transport_backend \<Rightarrow> u32 \<Rightarrow> bytes \<Rightarrow> nat \<Rightarrow> 's world \<Rightarrow> ls_result \<times> 's world" where
  "transport_transmit t event_id data mtu w =
     (if \<not> length data > mtu \<and> tb_send t \<noteq> None then send_complete t data w
      else let count = fragment_count (length data) mtu
           in if count > UINT16_MAX \<or> mtu > UINT32_MAX then (LS_EOVERFLOW, w)
              else send_fragments t event_id data mtu [0..<count] w)"

definition ls_transport_send ::
  "(tptr \<Rightarrow> 's ls_transport_backend) \<Rightarrow> tptr option \<Rightarrow> u32 \<Rightarrow> bytes option \<Rightarrow> tptr option list \<Rightarrow>
   's world \<Rightarrow> ls_result \<times> tptr option list \<times> 's world" where
  "ls_transport_send heap transport event_id data busy w =
     (case (transport, data) of
        (Some p, Some d) \<Rightarrow>
          let t = heap p in
          if length d = 0 then (LS_EINVAL, busy, w)
          else if length d > UINT32_MAX then (LS_EOVERFLOW, busy, w)
          else (case transport_available t w of (available, w1) \<Rightarrow>
            if \<not> available then (LS_EAGAIN, busy, w1)
            else (case transport_mtu t (length d) w1 of (mtu, w2) \<Rightarrow>
              if mtu = 0 then (LS_EINVAL, busy, w2)
              else let fragmented = length d > mtu;
                       fragments = tb_capabilities t AND LS_TRANSPORT_FRAGMENT \<noteq> 0 \<and>
                                     has_fragment_sender t
                   in if fragmented \<and> \<not> fragments then (LS_ENOTSUP, busy, w2)
                      else if \<not> fragmented \<and> tb_send t = None \<and> \<not> fragments
                      then (LS_ENOTSUP, busy, w2)
                      else (case acquire_transport p busy of (acquired, busy1) \<Rightarrow>
                        if \<not> acquired then (LS_EBUSY, busy1, w2)
                        else (case transport_transmit t event_id d mtu w2 of (result, w3) \<Rightarrow>
                               (result, release_transport p busy1, w3)))))
      | _ \<Rightarrow> (LS_EINVAL, busy, w))"

section \<open>Reassembly\<close>

record ls_transport_reassembly =
  ra_data :: "bytes option"
  ra_capacity :: nat
  ra_received :: "bytes option"
  ra_received_capacity :: nat
  ra_event_id :: u32
  ra_envelope_crc :: u32
  ra_total_length :: u32
  ra_fragment_capacity :: u32
  ra_fragment_count :: u16
  ra_received_count :: u16
  ra_active :: bool
  ra_complete :: bool

definition clear_bitmap :: "ls_transport_reassembly \<Rightarrow> bytes option" where
  "clear_bitmap r = map_option (ls_memset 0 0 (ra_received_capacity r)) (ra_received r)"

definition ls_transport_reassembly_reset ::
  "ls_transport_reassembly \<Rightarrow> ls_transport_reassembly" where
  "ls_transport_reassembly_reset r =
     r\<lparr>ra_received := clear_bitmap r, ra_event_id := 0, ra_envelope_crc := 0, ra_total_length := 0,
       ra_fragment_capacity := 0, ra_fragment_count := 0, ra_received_count := 0,
       ra_active := False, ra_complete := False\<rparr>"

definition ls_transport_reassembly_init ::
  "bytes option \<Rightarrow> nat \<Rightarrow> bytes option \<Rightarrow> nat \<Rightarrow> ls_transport_reassembly" where
  "ls_transport_reassembly_init data capacity received received_capacity =
     ls_transport_reassembly_reset
       \<lparr>ra_data = data, ra_capacity = capacity, ra_received = received,
        ra_received_capacity = received_capacity, ra_event_id = 0, ra_envelope_crc = 0,
        ra_total_length = 0, ra_fragment_capacity = 0, ra_fragment_count = 0,
        ra_received_count = 0, ra_active = False, ra_complete = False\<rparr>"

definition validate_fragment :: "ls_transport_reassembly \<Rightarrow> ls_transport_fragment \<Rightarrow> ls_result" where
  "validate_fragment r fr =
     (if ra_data r = None \<or> ra_received r = None \<or> fr_data fr = None \<or> fr_length fr = 0 \<or>
         fr_total_length fr = 0 \<or> fr_fragment_capacity fr = 0 \<or> fr_fragment_count fr = 0 \<or>
         fr_fragment_index fr \<ge> fr_fragment_count fr
      then LS_EINVAL
      else if unat (fr_total_length fr) > ra_capacity r \<or>
              unat (fr_fragment_count fr) > ra_received_capacity r * 8 mod (SIZE_MAX + 1)
      then LS_ENOSPACE
      else let expected_count =
                 fragment_count (unat (fr_total_length fr)) (unat (fr_fragment_capacity fr))
           in if expected_count = 0 \<or> expected_count > UINT16_MAX \<or>
                 unat (fr_fragment_count fr) \<noteq> expected_count
              then LS_ECORRUPT
              else let expected_offset =
                         unat (fr_fragment_index fr) * unat (fr_fragment_capacity fr)
                   in if expected_offset \<ge> unat (fr_total_length fr) \<or>
                         unat (fr_offset fr) \<noteq> expected_offset
                      then LS_ECORRUPT
                      else let rest = unat (fr_total_length fr) - expected_offset;
                               expected_length = min rest (unat (fr_fragment_capacity fr))
                           in if fr_length fr \<noteq> expected_length \<or>
                                 fr_fragment_crc fr \<noteq> ls_crc32 (take (fr_length fr) (the (fr_data fr)))
                              then LS_ECORRUPT else LS_OK)"

definition reassembly_start ::
  "ls_transport_reassembly \<Rightarrow> ls_transport_fragment \<Rightarrow> ls_transport_reassembly" where
  "reassembly_start r fr =
     r\<lparr>ra_event_id := fr_event_id fr, ra_envelope_crc := fr_envelope_crc fr,
       ra_total_length := fr_total_length fr, ra_fragment_capacity := fr_fragment_capacity fr,
       ra_fragment_count := fr_fragment_count fr, ra_received_count := 0,
       ra_received := clear_bitmap r, ra_active := True\<rparr>"

definition reassembly_matches :: "ls_transport_reassembly \<Rightarrow> ls_transport_fragment \<Rightarrow> bool" where
  "reassembly_matches r fr \<longleftrightarrow>
     ra_event_id r = fr_event_id fr \<and> ra_envelope_crc r = fr_envelope_crc fr \<and>
     ra_total_length r = fr_total_length fr \<and> ra_fragment_capacity r = fr_fragment_capacity fr \<and>
     ra_fragment_count r = fr_fragment_count fr"

text \<open>The rest of the push, once the fragment is known to belong to the frame.\<close>

definition reassembly_store ::
  "ls_transport_reassembly \<Rightarrow> ls_transport_fragment \<Rightarrow> (ls_result \<times> nat) \<times> ls_transport_reassembly" where
  "reassembly_store r fr =
     (let data = the (ra_data r);
          received = the (ra_received r);
          src = take (fr_length fr) (the (fr_data fr));
          bitmap_index = unat (fr_fragment_index fr) div 8;
          bit_mask = push_bit (unat (fr_fragment_index fr) mod 8) (1 :: u8)
      in if received ! bitmap_index AND bit_mask \<noteq> 0
         then if ls_memcmp (drop (unat (fr_offset fr)) data) src (fr_length fr) \<noteq> 0
              then ((LS_ECORRUPT, 0), ls_transport_reassembly_reset r)
              else ((LS_OK, 0), r)
         else let data' = overwrite (unat (fr_offset fr)) src data;
                  r' = r\<lparr>ra_data := Some data',
                         ra_received := Some (received[bitmap_index :=
                           received ! bitmap_index OR bit_mask]),
                         ra_received_count := ra_received_count r + 1\<rparr>
              in if ra_received_count r' \<noteq> ra_fragment_count r' then ((LS_OK, 0), r')
                 else if ls_crc32 (take (unat (ra_total_length r')) data') \<noteq> ra_envelope_crc r'
                 then ((LS_ECORRUPT, 0), ls_transport_reassembly_reset r')
                 else ((LS_OK, unat (ra_total_length r')), r'\<lparr>ra_complete := True\<rparr>))"

definition ls_transport_reassembly_push ::
  "ls_transport_reassembly \<Rightarrow> ls_transport_fragment \<Rightarrow> (ls_result \<times> nat) \<times> ls_transport_reassembly" where
  "ls_transport_reassembly_push r fr =
     (let result = validate_fragment r fr
      in if result \<noteq> LS_OK then ((result, 0), r)
         else if ra_complete r then ((LS_EBUSY, 0), r)
         else if \<not> ra_active r then reassembly_store (reassembly_start r fr) fr
         else if \<not> reassembly_matches r fr then ((LS_EBUSY, 0), r)
         else reassembly_store r fr)"


section \<open>Counting fragments and the bitmap\<close>

lemma fragment_count_iff: "0 < mtu \<Longrightarrow> i < fragment_count n mtu \<longleftrightarrow> i * mtu < n"
proof -
  assume mtu: "0 < mtu"
  define q r where "q = n div mtu" and "r = n mod mtu"
  have n: "n = q * mtu + r" and r: "r < mtu" using mtu by (simp_all add: q_def r_def)
  have lower: "i * mtu < q * mtu + r" if "i < q \<or> i = q \<and> 0 < r"
    using that mtu by (auto intro: trans_less_add1)
  have upper: "q * mtu + mtu \<le> i * mtu" if "q < i"
    using that mult_le_mono1 [of "Suc q" i mtu] by simp
  have "fragment_count n mtu = (if r \<noteq> 0 then Suc q else q)"
    by (simp add: fragment_count_def q_def r_def)
  then show ?thesis
    using n r lower upper mtu by (cases "i < q"; cases "i = q") (auto intro: le_less_trans)
qed

lemma fragment_count_pos [simp]: "0 < mtu \<Longrightarrow> 0 < n \<Longrightarrow> 0 < fragment_count n mtu"
  by (simp add: fragment_count_iff)

definition received_bit :: "bytes \<Rightarrow> nat \<Rightarrow> bool" where
  "received_bit received i \<longleftrightarrow> bit (received ! (i div 8)) (i mod 8)"

lemma and_push_bit_u8: "k < 8 \<Longrightarrow> (x AND push_bit k 1 \<noteq> 0) \<longleftrightarrow> bit x k" for x :: u8
  by (auto simp: bit_eq_iff [of "x AND push_bit k 1" 0] bit_simps)

lemma received_bit_mask:
  "(received ! (i div 8) AND push_bit (i mod 8) 1 \<noteq> 0) \<longleftrightarrow> received_bit received i"
  using and_push_bit_u8 [of "i mod 8" "received ! (i div 8)"] by (simp only: received_bit_def)

lemma received_bit_set:
  assumes "i div 8 < length received"
  shows "received_bit (received[i div 8 := received ! (i div 8) OR push_bit (i mod 8) 1]) j \<longleftrightarrow>
           j = i \<or> received_bit received j"
proof (cases "j div 8 = i div 8")
  case True
  then have "j = i \<longleftrightarrow> j mod 8 = i mod 8" by (metis div_mult_mod_eq)
  then show ?thesis using assms True by (auto simp: received_bit_def bit_simps)
next
  case False
  then show ?thesis by (auto simp: received_bit_def)
qed

lemma received_bit_clear [simp]: "i div 8 < n \<Longrightarrow> \<not> received_bit (replicate n 0) i"
  by (simp add: received_bit_def)

definition received_set :: "ls_transport_reassembly \<Rightarrow> nat set" where
  "received_set r = {i. i < 8 * ra_received_capacity r \<and> received_bit (the (ra_received r)) i}"

lemma finite_received_set [simp]: "finite (received_set r)"
  by (simp add: received_set_def)

section \<open>The invariant of the reassembly\<close>

text \<open>The caller's buffers are as long as it declares them.\<close>

definition reassembly_buffers :: "ls_transport_reassembly \<Rightarrow> bool" where
  "reassembly_buffers r \<longleftrightarrow>
     (\<exists>d. ra_data r = Some d \<and> length d = ra_capacity r) \<and>
     (\<exists>b. ra_received r = Some b \<and> length b = ra_received_capacity r)"

text \<open>A frame in progress counts the fragments it holds, all of them below its fragment count.\<close>

definition reassembly_frame :: "ls_transport_reassembly \<Rightarrow> bool" where
  "reassembly_frame r \<longleftrightarrow>
     unat (ra_total_length r) \<le> ra_capacity r \<and>
     received_set r \<subseteq> {..<unat (ra_fragment_count r)} \<and>
     unat (ra_received_count r) = card (received_set r)"

definition reassembly_ok :: "ls_transport_reassembly \<Rightarrow> bool" where
  "reassembly_ok r \<longleftrightarrow>
     reassembly_buffers r \<and>
     (ra_active r \<longrightarrow> reassembly_frame r) \<and>
     (ra_complete r \<longrightarrow> ra_active r \<and> received_set r = {..<unat (ra_fragment_count r)} \<and>
        ls_crc32 (take (unat (ra_total_length r)) (the (ra_data r))) = ra_envelope_crc r) \<and>
     (ra_active r \<and> \<not> ra_complete r \<longrightarrow> received_set r \<noteq> {..<unat (ra_fragment_count r)})"

lemma clear_bitmap_eq: "reassembly_buffers r \<Longrightarrow> clear_bitmap r = Some (replicate (ra_received_capacity r) 0)"
  by (auto simp: clear_bitmap_def reassembly_buffers_def ls_memset_def overwrite_def)

lemma received_set_clear:
  "the (ra_received r) = replicate (ra_received_capacity r) 0 \<Longrightarrow> received_set r = {}"
  by (auto simp: received_set_def less_mult_imp_div_less mult.commute)

lemma reassembly_reset_ok: "reassembly_buffers r \<Longrightarrow> reassembly_ok (ls_transport_reassembly_reset r)"
  by (auto simp: reassembly_ok_def reassembly_buffers_def ls_transport_reassembly_reset_def
      clear_bitmap_eq)

lemma validate_fragment_OK:
  assumes "validate_fragment r fr = LS_OK"
  shows "fr_data fr \<noteq> None" and "0 < fr_length fr" and "fr_fragment_index fr < fr_fragment_count fr"
    and "unat (fr_total_length fr) \<le> ra_capacity r"
    and "unat (fr_fragment_count fr) \<le> 8 * ra_received_capacity r"
    and "unat (fr_fragment_count fr) =
           fragment_count (unat (fr_total_length fr)) (unat (fr_fragment_capacity fr))"
    and "unat (fr_offset fr) = unat (fr_fragment_index fr) * unat (fr_fragment_capacity fr)"
    and "unat (fr_offset fr) + fr_length fr \<le> unat (fr_total_length fr)"
    and "fr_length fr = min (unat (fr_total_length fr) - unat (fr_offset fr)) (unat (fr_fragment_capacity fr))"
  using assms
  by (auto simp: validate_fragment_def Let_def not_le not_less mult.commute [of _ 8] min_def
      intro: order_trans [OF _ mod_less_eq_dividend] split: if_splits)

text \<open>Storing a fragment of the frame in progress: one that is already there, and a new one.\<close>

definition stored :: "ls_transport_reassembly \<Rightarrow> ls_transport_fragment \<Rightarrow> ls_transport_reassembly" where
  "stored r fr =
     (let i = unat (fr_fragment_index fr); b = the (ra_received r)
      in r\<lparr>ra_data := Some (overwrite (unat (fr_offset fr))
                (take (fr_length fr) (the (fr_data fr))) (the (ra_data r))),
           ra_received := Some (b[i div 8 := b ! (i div 8) OR push_bit (i mod 8) 1]),
           ra_received_count := ra_received_count r + 1\<rparr>)"

lemma reassembly_store_again:
  assumes "received_bit (the (ra_received r)) (unat (fr_fragment_index fr))"
  shows "reassembly_store r fr =
    (if ls_memcmp (drop (unat (fr_offset fr)) (the (ra_data r)))
          (take (fr_length fr) (the (fr_data fr))) (fr_length fr) \<noteq> 0
     then ((LS_ECORRUPT, 0), ls_transport_reassembly_reset r) else ((LS_OK, 0), r))"
  using assms received_bit_mask [of "the (ra_received r)" "unat (fr_fragment_index fr)"]
  by (simp add: reassembly_store_def)

lemma reassembly_store_new:
  assumes "\<not> received_bit (the (ra_received r)) (unat (fr_fragment_index fr))"
  shows "reassembly_store r fr =
    (let q = stored r fr
     in if ra_received_count q \<noteq> ra_fragment_count q then ((LS_OK, 0), q)
        else if ls_crc32 (take (unat (ra_total_length q)) (the (ra_data q))) \<noteq> ra_envelope_crc q
        then ((LS_ECORRUPT, 0), ls_transport_reassembly_reset q)
        else ((LS_OK, unat (ra_total_length q)), q\<lparr>ra_complete := True\<rparr>))"
proof -
  let ?i = "unat (fr_fragment_index fr)"
  have "the (ra_received r) ! (?i div 8) AND push_bit (?i mod 8) 1 = 0"
    using assms received_bit_mask [of "the (ra_received r)" ?i] by blast
  then show ?thesis by (simp add: reassembly_store_def stored_def Let_def)
qed

text \<open>The frame a validated new fragment makes of a frame in progress.\<close>

lemma stored_frame:
  assumes buffers: "reassembly_buffers r" and frame: "reassembly_frame r"
    and valid: "validate_fragment r fr = LS_OK" and matches: "reassembly_matches r fr"
    and len: "fr_length fr \<le> length (the (fr_data fr))"
    and new: "unat (fr_fragment_index fr) \<notin> received_set r"
  shows "reassembly_buffers (stored r fr)" and "reassembly_frame (stored r fr)"
    and "received_set (stored r fr) = insert (unat (fr_fragment_index fr)) (received_set r)"
    and "ra_received_count (stored r fr) = ra_fragment_count (stored r fr) \<longleftrightarrow>
           received_set (stored r fr) = {..<unat (ra_fragment_count r)}"
    and "\<not> received_bit (the (ra_received r)) (unat (fr_fragment_index fr))"
proof -
  let ?i = "unat (fr_fragment_index fr)" and ?q = "stored r fr"
  obtain d b where d: "ra_data r = Some d" "length d = ra_capacity r"
    and b: "ra_received r = Some b" "length b = ra_received_capacity r"
    using buffers by (auto simp: reassembly_buffers_def)
  note v = validate_fragment_OK [OF valid]
  have i: "?i < unat (ra_fragment_count r)" "unat (ra_fragment_count r) \<le> 8 * ra_received_capacity r"
    using v(3,5) matches by (simp_all add: reassembly_matches_def word_less_nat_alt)
  have idiv: "?i div 8 < length b" using i b(2) by simp
  have fits: "unat (fr_offset fr) + length (take (fr_length fr) (the (fr_data fr))) \<le> length d"
    using v(4,8) len d(2) by simp
  show "\<not> received_bit (the (ra_received r)) ?i"
    using new i by (simp add: received_set_def)
  show buf: "reassembly_buffers ?q"
    using d b fits by (simp add: reassembly_buffers_def stored_def Let_def)
  show set: "received_set ?q = insert ?i (received_set r)"
    using idiv i b(2) by (auto simp: received_set_def stored_def Let_def received_bit_set b(1))
  have card: "card (received_set ?q) = card (received_set r) + 1" using set new by simp
  have sub: "received_set ?q \<subseteq> {..<unat (ra_fragment_count r)}"
    using frame i(1) by (simp add: set reassembly_frame_def)
  have "unat (ra_received_count r) + 1 < 2 ^ 16"
    using frame card_mono [OF _ sub] unsigned_less [of "ra_fragment_count r", where 'a = nat]
    by (simp add: card reassembly_frame_def)
  then have count: "unat (ra_received_count ?q) = card (received_set ?q)"
    using frame unat_add_lem [of "ra_received_count r" 1]
    by (simp add: card reassembly_frame_def One_nat_def) (simp add: stored_def Let_def)
  have same: "ra_fragment_count ?q = ra_fragment_count r" "ra_total_length ?q = ra_total_length r"
    "ra_capacity ?q = ra_capacity r"
    by (simp_all add: stored_def Let_def)
  show "reassembly_frame ?q"
    using frame sub count by (simp add: reassembly_frame_def same)
  show "ra_received_count ?q = ra_fragment_count ?q \<longleftrightarrow> received_set ?q = {..<unat (ra_fragment_count r)}"
    unfolding word_unat_eq_iff count same
    using card_subset_eq [OF _ sub] by (metis card_lessThan finite_lessThan)
qed

lemma reassembly_complete_simps [simp]:
  "reassembly_buffers (q\<lparr>ra_complete := c\<rparr>) = reassembly_buffers q"
  "reassembly_frame (q\<lparr>ra_complete := c\<rparr>) = reassembly_frame q"
  "received_set (q\<lparr>ra_complete := c\<rparr>) = received_set q"
  by (simp_all add: reassembly_buffers_def reassembly_frame_def received_set_def)

lemma reassembly_store_ok:
  assumes "reassembly_buffers r" and "reassembly_frame r" and active: "ra_active r" "\<not> ra_complete r"
    and missing: "received_set r \<noteq> {..<unat (ra_fragment_count r)}"
    and "validate_fragment r fr = LS_OK" and "reassembly_matches r fr"
    and "fr_length fr \<le> length (the (fr_data fr))"
    and store: "reassembly_store r fr = (res, r')"
  shows "reassembly_ok r'"
proof (cases "received_bit (the (ra_received r)) (unat (fr_fragment_index fr))")
  case True
  then show ?thesis
    using assms reassembly_reset_ok [OF assms(1)]
    by (auto simp: reassembly_store_again reassembly_ok_def split: if_splits)
next
  case False
  then have "unat (fr_fragment_index fr) \<notin> received_set r" by (simp add: received_set_def)
  note q = stored_frame [OF assms(1,2,6,7,8) this]
  have "ra_active (stored r fr)" "\<not> ra_complete (stored r fr)"
    "ra_fragment_count (stored r fr) = ra_fragment_count r"
    using active by (simp_all add: stored_def Let_def)
  note stored = this
  have r': "r' = stored r fr \<and> received_set (stored r fr) \<noteq> {..<unat (ra_fragment_count r)} \<or>
      r' = ls_transport_reassembly_reset (stored r fr) \<or>
      r' = (stored r fr)\<lparr>ra_complete := True\<rparr> \<and> received_set (stored r fr) = {..<unat (ra_fragment_count r)} \<and>
      ls_crc32 (take (unat (ra_total_length (stored r fr))) (the (ra_data (stored r fr)))) =
        ra_envelope_crc (stored r fr)"
    using store unfolding reassembly_store_new [OF False] Let_def q(4) by (metis prod.inject)
  then show ?thesis
    using reassembly_reset_ok [OF q(1)] q(1,2) stored by (elim disjE conjE) (simp_all add: reassembly_ok_def)
qed

lemma validate_fragment_cong:
  "(ra_data r = None) = (ra_data q = None) \<Longrightarrow> (ra_received r = None) = (ra_received q = None) \<Longrightarrow>
   ra_capacity r = ra_capacity q \<Longrightarrow> ra_received_capacity r = ra_received_capacity q \<Longrightarrow>
   validate_fragment r fr = validate_fragment q fr"
  by (simp add: validate_fragment_def)

lemma reassembly_start_ok:
  assumes "reassembly_buffers r" and "validate_fragment r fr = LS_OK"
  defines "q \<equiv> reassembly_start r fr"
  shows "reassembly_buffers q" and "reassembly_frame q" and "ra_active q"
    and "received_set q = {}" and "unat (ra_fragment_count q) > 0"
    and "validate_fragment q fr = LS_OK" and "reassembly_matches q fr"
    and "ra_complete q = ra_complete r" and "ra_data q = ra_data r" and "ra_capacity q = ra_capacity r"
    and "ra_received_capacity q = ra_received_capacity r"
proof -
  show q: "reassembly_buffers q" "ra_active q" "reassembly_matches q fr" "ra_complete q = ra_complete r"
    "ra_data q = ra_data r" "ra_capacity q = ra_capacity r" "ra_received_capacity q = ra_received_capacity r"
    using assms(1)
    by (auto simp: q_def reassembly_start_def reassembly_buffers_def clear_bitmap_eq reassembly_matches_def)
  show set: "received_set q = {}"
    using assms(1) by (intro received_set_clear) (simp add: q_def reassembly_start_def clear_bitmap_eq)
  show "reassembly_frame q"
    using validate_fragment_OK(4) [OF assms(2)]
    by (simp add: reassembly_frame_def set) (simp add: q_def reassembly_start_def)
  show "unat (ra_fragment_count q) > 0"
    using validate_fragment_OK(3) [OF assms(2)]
    by (simp add: q_def reassembly_start_def word_less_nat_alt)
  show "validate_fragment q fr = LS_OK"
    using assms(2) q assms(1)
    by (subst validate_fragment_cong [of q r]) (auto simp: reassembly_buffers_def)
qed

lemma reassembly_push_ok:
  assumes "reassembly_ok r" and "fr_data fr = None \<or> fr_length fr \<le> length (the (fr_data fr))"
    and push: "ls_transport_reassembly_push r fr = (res, r')"
  shows "reassembly_ok r'"
proof (cases "validate_fragment r fr = LS_OK \<and> \<not> ra_complete r")
  case False
  then show ?thesis
    using assms by (auto simp: ls_transport_reassembly_push_def Let_def split: if_splits)
next
  case True
  have len: "fr_length fr \<le> length (the (fr_data fr))"
    using assms(2) True validate_fragment_OK(1) by blast
  have buffers: "reassembly_buffers r" using assms(1) by (simp add: reassembly_ok_def)
  note start = reassembly_start_ok [OF buffers conjunct1 [OF True]]
  show ?thesis
  proof (cases "ra_active r")
    case False
    then have "reassembly_store (reassembly_start r fr) fr = (res, r')"
      using True push by (simp add: ls_transport_reassembly_push_def)
    moreover have "received_set (reassembly_start r fr) \<noteq> {..<unat (ra_fragment_count (reassembly_start r fr))}"
      using start(4,5) by (metis lessThan_iff empty_iff)
    ultimately show ?thesis
      using reassembly_store_ok [OF start(1,2,3) _ _ start(6,7) len, of res r'] start(8) True by simp
  next
    case active: True
    show ?thesis
    proof (cases "reassembly_matches r fr")
      case True
      then have "reassembly_store r fr = (res, r')"
        using \<open>validate_fragment r fr = LS_OK \<and> \<not> ra_complete r\<close> active push
        by (simp add: ls_transport_reassembly_push_def)
      then show ?thesis
        using reassembly_store_ok [of r fr res r'] assms(1) active len True
          \<open>validate_fragment r fr = LS_OK \<and> \<not> ra_complete r\<close>
        by (simp add: reassembly_ok_def)
    next
      case False
      then show ?thesis
        using \<open>validate_fragment r fr = LS_OK \<and> \<not> ra_complete r\<close> active push assms(1)
        by (simp add: ls_transport_reassembly_push_def)
    qed
  qed
qed

text \<open>A frame length is reported only together with a complete frame.\<close>

lemma reassembly_store_length:
  "reassembly_store r fr = ((res, n), r') \<Longrightarrow> n \<noteq> 0 \<Longrightarrow>
   res = LS_OK \<and> ra_complete r' \<and> n = unat (ra_total_length r')"
  by (auto simp: reassembly_store_def Let_def split: if_splits)

lemma reassembly_push_length:
  "ls_transport_reassembly_push r fr = ((res, n), r') \<Longrightarrow> n \<noteq> 0 \<Longrightarrow>
   res = LS_OK \<and> ra_complete r' \<and> n = unat (ra_total_length r')"
  by (auto simp: ls_transport_reassembly_push_def Let_def dest: reassembly_store_length
      split: if_splits)

text \<open>C9: whatever fragments arrive, in whatever state of the reassembly: the buffers keep their
  sizes, the received count is the number of distinct fragments held, and a frame length is
  reported only when every fragment of the frame is there and the CRC-32 of the assembled
  bytes is the one the sender computed over the whole envelope.\<close>

theorem reassembly_push_invariant:
  assumes "reassembly_ok r" and "fr_data fr = None \<or> fr_length fr \<le> length (the (fr_data fr))"
    and "ls_transport_reassembly_push r fr = ((res, n), r')"
  shows "reassembly_ok r' \<and>
    (n \<noteq> 0 \<longrightarrow> res = LS_OK \<and> received_set r' = {..<unat (ra_fragment_count r')} \<and>
       ls_crc32 (take n (the (ra_data r'))) = ra_envelope_crc r')"
  using reassembly_push_ok [OF assms] reassembly_push_length [OF assms(3)]
  by (auto simp: reassembly_ok_def)

definition example_receiver :: ls_transport_reassembly where
  "example_receiver = ls_transport_reassembly_init (Some (replicate 8 0)) 8 (Some [0]) 1"

lemma example_receiver_ok: "reassembly_ok example_receiver"
  unfolding example_receiver_def ls_transport_reassembly_init_def
  by (rule reassembly_reset_ok) (simp add: reassembly_buffers_def)

theorem reassembly_push_invariant_witness:
  "reassembly_ok (snd (ls_transport_reassembly_push example_receiver (transport_fragment 7 [1, 2, 3] 2 1)))"
  using reassembly_push_invariant [OF example_receiver_ok, of "transport_fragment 7 [1, 2, 3] 2 1"]
  by (cases "ls_transport_reassembly_push example_receiver (transport_fragment 7 [1, 2, 3] 2 1)")
    (auto simp: transport_fragment_def Let_def)


section \<open>Fragments in any order give the envelope back\<close>

definition fragmentable :: "bytes \<Rightarrow> nat \<Rightarrow> bool" where
  "fragmentable d mtu \<longleftrightarrow> 0 < length d \<and> length d \<le> UINT32_MAX \<and> 0 < mtu \<and> mtu \<le> UINT32_MAX \<and>
     fragment_count (length d) mtu \<le> UINT16_MAX"

text \<open>A receiver with room for the envelope and a bit for each fragment, and no frame in progress.\<close>

definition receiver_ready :: "ls_transport_reassembly \<Rightarrow> bytes \<Rightarrow> nat \<Rightarrow> bool" where
  "receiver_ready r d mtu \<longleftrightarrow> reassembly_ok r \<and> \<not> ra_active r \<and> length d \<le> ra_capacity r \<and>
     fragment_count (length d) mtu \<le> ra_received_capacity r * 8 \<and>
     ra_received_capacity r * 8 \<le> SIZE_MAX"

lemma unat_of_nat_u32: "n \<le> UINT32_MAX \<Longrightarrow> unat (of_nat n :: u32) = n"
  by (simp add: unat_of_nat UINT32_MAX_def)

lemma unat_of_nat_u16: "n \<le> UINT16_MAX \<Longrightarrow> unat (of_nat n :: u16) = n"
  by (simp add: unat_of_nat UINT16_MAX_def)

lemma transport_fragment_fields:
  fixes event_id :: u32
  assumes "fragmentable d mtu" and "i < fragment_count (length d) mtu"
  defines "fr \<equiv> transport_fragment event_id d mtu i"
  shows "unat (fr_total_length fr) = length d" and "unat (fr_offset fr) = i * mtu"
    and "unat (fr_fragment_capacity fr) = mtu" and "unat (fr_fragment_index fr) = i"
    and "unat (fr_fragment_count fr) = fragment_count (length d) mtu"
    and "fr_data fr = Some (bslice (i * mtu) mtu d)" and "fr_length fr = min (length d - i * mtu) mtu"
    and "fr_envelope_crc fr = ls_crc32 d" and "fr_fragment_crc fr = ls_crc32 (bslice (i * mtu) mtu d)"
    and "i * mtu < length d"
proof -
  show less: "i * mtu < length d"
    using assms(1,2) by (simp add: fragmentable_def fragment_count_iff)
  have whole: "bslice (i * mtu) (if mtu < length d - i * mtu then mtu else length d - i * mtu) d =
      bslice (i * mtu) mtu d"
    by (simp add: bslice_def)
  show "unat (fr_total_length fr) = length d" "unat (fr_offset fr) = i * mtu"
    "unat (fr_fragment_capacity fr) = mtu" "unat (fr_fragment_index fr) = i"
    "unat (fr_fragment_count fr) = fragment_count (length d) mtu"
    "fr_envelope_crc fr = ls_crc32 d"
    using assms(1,2) less
    by (simp_all add: fr_def transport_fragment_def Let_def fragmentable_def unat_of_nat_u32
        unat_of_nat_u16 del: of_nat_mult)
  show "fr_data fr = Some (bslice (i * mtu) mtu d)" "fr_fragment_crc fr = ls_crc32 (bslice (i * mtu) mtu d)"
    "fr_length fr = min (length d - i * mtu) mtu"
    by (simp_all add: fr_def transport_fragment_def Let_def whole)
qed

lemma transport_fragment_valid:
  assumes frag: "fragmentable d mtu" and i: "i < fragment_count (length d) mtu"
    and "reassembly_buffers r" and "length d \<le> ra_capacity r"
    and "fragment_count (length d) mtu \<le> ra_received_capacity r * 8" and "ra_received_capacity r * 8 \<le> SIZE_MAX"
  shows "validate_fragment r (transport_fragment event_id d mtu i) = LS_OK"
proof -
  note f = transport_fragment_fields [OF frag i]
  have nonzero: "fr_total_length (transport_fragment event_id d mtu i) \<noteq> 0"
    "fr_fragment_capacity (transport_fragment event_id d mtu i) \<noteq> 0"
    "fr_fragment_count (transport_fragment event_id d mtu i) \<noteq> 0"
    using f(1,3,5) [of event_id] frag i by (auto simp: fragmentable_def)
  have "fragment_count (length d) mtu \<noteq> 0" "min (length d - i * mtu) mtu \<noteq> 0"
    "ra_data r \<noteq> None" "ra_received r \<noteq> None" "fragment_count (length d) mtu \<le> UINT16_MAX"
    using frag i f(10) assms(3) by (auto simp: fragmentable_def reassembly_buffers_def)
  moreover have "take (min (length d - i * mtu) mtu) (bslice (i * mtu) mtu d) = bslice (i * mtu) mtu d"
    by simp
  ultimately show ?thesis
    using assms(3-6) f(10) i nonzero
    by (auto simp: validate_fragment_def f(1-9) Let_def word_less_nat_alt not_less word_le_nat_alt)
qed

text \<open>The state in which exactly the fragments \<open>S\<close> of the envelope have been received.\<close>

definition frame_progress :: "u32 \<Rightarrow> bytes \<Rightarrow> nat \<Rightarrow> nat set \<Rightarrow> ls_transport_reassembly \<Rightarrow> bool" where
  "frame_progress event_id d mtu S r \<longleftrightarrow>
     reassembly_ok r \<and> \<not> ra_complete r \<and> length d \<le> ra_capacity r \<and>
     fragment_count (length d) mtu \<le> ra_received_capacity r * 8 \<and> ra_received_capacity r * 8 \<le> SIZE_MAX \<and>
     (ra_active r \<longleftrightarrow> S \<noteq> {}) \<and>
     (S \<noteq> {} \<longrightarrow> reassembly_matches r (transport_fragment event_id d mtu 0) \<and> received_set r = S \<and>
        (\<forall>i\<in>S. bslice (i * mtu) (length (bslice (i * mtu) mtu d)) (the (ra_data r)) = bslice (i * mtu) mtu d))"

lemma reassembly_matches_fragments:
  "reassembly_matches r (transport_fragment event_id d mtu i) =
   reassembly_matches r (transport_fragment event_id d mtu j)"
  by (simp add: reassembly_matches_def transport_fragment_def Let_def)

lemma chunks_cover:
  assumes "0 < mtu" and "length d \<le> length buf"
    and "\<And>i. i < fragment_count (length d) mtu \<Longrightarrow>
           bslice (i * mtu) (length (bslice (i * mtu) mtu d)) buf = bslice (i * mtu) mtu d"
  shows "take (length d) buf = d"
proof (rule nth_equalityI)
  fix j
  assume "j < length (take (length d) buf)"
  then have j: "j < length d" by simp
  let ?i = "j div mtu" and ?k = "j mod mtu"
  have jk: "?i * mtu + ?k = j" by simp
  have k: "?k < mtu" using assms(1) by simp
  have "?i * mtu < length d" using j jk by linarith
  then have "bslice (?i * mtu) (length (bslice (?i * mtu) mtu d)) buf ! ?k = bslice (?i * mtu) mtu d ! ?k"
    using assms(1) by (simp only: assms(3) fragment_count_iff)
  then show "take (length d) buf ! j = d ! j"
    using j k jk assms(2) by (simp add: bslice_def)
qed (use assms(2) in simp)


lemma reassembly_matches_simps [simp]:
  "reassembly_matches (stored r fr) g = reassembly_matches r g"
  "reassembly_matches (q\<lparr>ra_complete := c\<rparr>) g = reassembly_matches q g"
  by (simp_all add: reassembly_matches_def stored_def Let_def)

text \<open>Storing fragment \<open>i\<close> puts its bytes in place and keeps those of every other one.\<close>

lemma stored_chunks:
  assumes frag: "fragmentable d mtu" and i: "i < fragment_count (length d) mtu"
    and buf: "ra_data r = Some buf" "length d \<le> length buf"
    and j: "j < fragment_count (length d) mtu" "j = i \<or> bslice (j * mtu) (length (bslice (j * mtu) mtu d)) buf = bslice (j * mtu) mtu d"
  shows "bslice (j * mtu) (length (bslice (j * mtu) mtu d)) (the (ra_data (stored r (transport_fragment event_id d mtu i)))) =
         bslice (j * mtu) mtu d"
proof -
  note f = transport_fragment_fields [OF frag i]
  have src: "take (fr_length (transport_fragment event_id d mtu i)) (bslice (i * mtu) mtu d) = bslice (i * mtu) mtu d"
    by (simp add: f(7) min.commute)
  have data: "the (ra_data (stored r (transport_fragment event_id d mtu i))) =
      overwrite (i * mtu) (bslice (i * mtu) mtu d) buf"
    by (simp add: stored_def Let_def f(2,6) src buf(1))
  have fits: "i * mtu + length (bslice (i * mtu) mtu d) \<le> length buf"
    using f(10) buf(2) by simp
  show ?thesis
  proof (cases "j = i")
    case True
    then show ?thesis unfolding data using fits by simp
  next
    case False
    then have "Suc j \<le> i \<or> Suc i \<le> j" by auto
    then have "j * mtu + mtu \<le> i * mtu \<or> i * mtu + mtu \<le> j * mtu"
      by (elim disjE) (drule mult_le_mono1 [of _ _ mtu], simp)+
    then show ?thesis
      unfolding data using fits j(2) False
      by (subst bslice_overwrite_disjoint) auto
  qed
qed

lemma memcmp_chunk:
  assumes "bslice off (length c) buf = c" and "off + length c \<le> length buf"
  shows "ls_memcmp (drop off buf) c (length c) = 0"
  using assms by (subst ls_memcmp_eq_0) (auto simp: bslice_def)

text \<open>One push: a fragment that is already there changes nothing, a new one is added, and the
  last missing one completes the frame.\<close>

lemma frame_progress_push:
  assumes frag: "fragmentable d mtu" and i: "i < fragment_count (length d) mtu"
    and S: "S \<subseteq> {..<fragment_count (length d) mtu}" "S \<noteq> {..<fragment_count (length d) mtu}"
    and progress: "frame_progress event_id d mtu S r"
    and push: "ls_transport_reassembly_push r (transport_fragment event_id d mtu i) = (res, r')"
  shows "if insert i S = {..<fragment_count (length d) mtu}
         then res = (LS_OK, length d) \<and> ra_complete r' \<and> take (length d) (the (ra_data r')) = d
         else res = (LS_OK, 0) \<and> frame_progress event_id d mtu (insert i S) r'"
proof -
  let ?fr = "transport_fragment event_id d mtu i" and ?n = "fragment_count (length d) mtu"
  note f = transport_fragment_fields [OF frag i]
  have buffers: "reassembly_buffers r" using progress by (simp add: frame_progress_def reassembly_ok_def)
  have room: "length d \<le> ra_capacity r" "?n \<le> ra_received_capacity r * 8" "ra_received_capacity r * 8 \<le> SIZE_MAX"
    "\<not> ra_complete r"
    using progress by (simp_all add: frame_progress_def)
  have valid: "validate_fragment r ?fr = LS_OK"
    by (rule transport_fragment_valid [OF frag i buffers room(1-3)])
  define q where "q = (if ra_active r then r else reassembly_start r ?fr)"
  note start = reassembly_start_ok [OF buffers valid]
  have q: "reassembly_buffers q" "reassembly_frame q" "ra_active q" "validate_fragment q ?fr = LS_OK"
    "reassembly_matches q ?fr" "\<not> ra_complete q" "received_set q = S" "ra_data q = ra_data r"
    "ra_capacity q = ra_capacity r" "ra_received_capacity q = ra_received_capacity r"
    using progress start valid room(4) reassembly_matches_fragments [of r event_id d mtu 0 i]
    by (auto simp: q_def frame_progress_def reassembly_ok_def)
  have store: "reassembly_store q ?fr = (res, r')"
    using push valid room(4) q(5) by (auto simp: ls_transport_reassembly_push_def q_def)
  obtain buf where buf: "ra_data q = Some buf" "length d \<le> length buf"
    using q(1,9) room(1) by (auto simp: reassembly_buffers_def)
  have count: "unat (ra_fragment_count q) = ?n" "unat (ra_total_length q) = length d"
    "ra_envelope_crc q = ls_crc32 d"
    using q(5) f by (auto simp: reassembly_matches_def)
  have chunks: "bslice (j * mtu) (length (bslice (j * mtu) mtu d)) buf = bslice (j * mtu) mtu d" if "j \<in> S" for j
    using that progress buf q(8) by (auto simp: frame_progress_def)
  show ?thesis
  proof (cases "i \<in> S")
    case True
    then have set: "insert i S = S" and act: "q = r" using progress by (auto simp: q_def frame_progress_def)
    have "received_bit (the (ra_received q)) (unat (fr_fragment_index ?fr))"
      using True q(7) by (auto simp: f(4) received_set_def)
    moreover have "ls_memcmp (drop (i * mtu) buf) (bslice (i * mtu) mtu d) (length (bslice (i * mtu) mtu d)) = 0"
      by (rule memcmp_chunk [OF chunks [OF True]]) (use f(10) buf(2) in simp)
    ultimately have "(res, r') = ((LS_OK, 0), r)"
      using store act buf(1) by (simp add: reassembly_store_again f(2,6,7) min.commute)
    then show ?thesis using S(2) progress by (simp add: set)
  next
    case False
    have len: "fr_length ?fr \<le> length (the (fr_data ?fr))" by (simp add: f(6,7))
    have new: "unat (fr_fragment_index ?fr) \<notin> received_set q" using False by (simp add: q(7) f(4))
    note st = stored_frame [OF q(1,2,4,5) len new]
    have stored_chunk: "bslice (j * mtu) (length (bslice (j * mtu) mtu d)) (the (ra_data (stored q ?fr))) = bslice (j * mtu) mtu d"
      if "j \<in> insert i S" for j
      using that S(1) i chunks by (intro stored_chunks [OF frag i buf]) auto
    have same: "ra_total_length (stored q ?fr) = ra_total_length q" "ra_envelope_crc (stored q ?fr) = ra_envelope_crc q"
      "ra_capacity (stored q ?fr) = ra_capacity q" "ra_received_capacity (stored q ?fr) = ra_received_capacity q"
      "ra_active (stored q ?fr)" "\<not> ra_complete (stored q ?fr)"
      "ra_fragment_count (stored q ?fr) = ra_fragment_count q"
      using q(3,6) by (simp_all add: stored_def Let_def)
    show ?thesis
    proof (cases "insert i S = {..<?n}")
      case True
      have data: "take (length d) (the (ra_data (stored q ?fr))) = d"
      proof (rule chunks_cover)
        show "length d \<le> length (the (ra_data (stored q ?fr)))"
          using st(1) room(1) q(9) same(3) by (auto simp: reassembly_buffers_def)
      qed (use frag True stored_chunk in \<open>auto simp: fragmentable_def\<close>)
      have "ra_received_count (stored q ?fr) = ra_fragment_count (stored q ?fr)"
        unfolding st(4) using st(3) True q(7) count(1) by (simp add: f(4))
      then have "(res, r') = ((LS_OK, length d), (stored q ?fr)\<lparr>ra_complete := True\<rparr>)"
        using store data by (simp add: reassembly_store_new [OF st(5)] Let_def same count)
      then show ?thesis using True data by simp
    next
      case False
      have "ra_received_count (stored q ?fr) \<noteq> ra_fragment_count (stored q ?fr)"
        unfolding st(4) using st(3) False q(7) count(1) by (simp add: f(4))
      then have "(res, r') = ((LS_OK, 0), stored q ?fr)"
        using store by (simp add: reassembly_store_new [OF st(5)] Let_def)
      moreover have "frame_progress event_id d mtu (insert i S) (stored q ?fr)"
        using False st(1-3) stored_chunk same room q(5,7,9,10) count(1)
          reassembly_matches_fragments [of q event_id d mtu 0 i]
        by (simp add: frame_progress_def reassembly_ok_def f(4))
      ultimately show ?thesis using False by simp
    qed
  qed
qed


fun push_all :: "ls_transport_reassembly \<Rightarrow> ls_transport_fragment list \<Rightarrow> ls_transport_reassembly" where
  "push_all r [] = r"
| "push_all r (fr # frs) = push_all (snd (ls_transport_reassembly_push r fr)) frs"

lemma receiver_ready_progress: "receiver_ready r d mtu \<Longrightarrow> frame_progress event_id d mtu {} r"
  by (auto simp: receiver_ready_def frame_progress_def reassembly_ok_def)

lemma frame_progress_push_all:
  assumes frag: "fragmentable d mtu"
  shows "frame_progress event_id d mtu S r \<Longrightarrow> S \<union> set is \<subset> {..<fragment_count (length d) mtu} \<Longrightarrow>
    frame_progress event_id d mtu (S \<union> set is) (push_all r (map (transport_fragment event_id d mtu) is))"
proof (induction "is" arbitrary: S r)
  case Nil
  then show ?case by simp
next
  case (Cons i "is")
  obtain res r' where push: "ls_transport_reassembly_push r (transport_fragment event_id d mtu i) = (res, r')"
    by (metis prod.exhaust)
  have "insert i S \<noteq> {..<fragment_count (length d) mtu}" "i < fragment_count (length d) mtu"
    "S \<subseteq> {..<fragment_count (length d) mtu}" "S \<noteq> {..<fragment_count (length d) mtu}"
    using Cons.prems(2) by auto
  then have "frame_progress event_id d mtu (insert i S) r'"
    using frame_progress_push [OF frag _ _ _ Cons.prems(1) push] by simp
  then show ?case using Cons.IH [of "insert i S" r'] Cons.prems(2) push by simp
qed

lemma fragments_complete:
  assumes "fragmentable d mtu" and "receiver_ready r d mtu" and "i < fragment_count (length d) mtu"
    and "set is = {..<fragment_count (length d) mtu} - {i}"
  shows "\<exists>r'. ls_transport_reassembly_push (push_all r (map (transport_fragment event_id d mtu) is))
             (transport_fragment event_id d mtu i) = ((LS_OK, length d), r') \<and>
           ra_complete r' \<and> take (length d) (the (ra_data r')) = d"
proof -
  let ?n = "fragment_count (length d) mtu"
  let ?r = "push_all r (map (transport_fragment event_id d mtu) is)"
  have "{} \<union> set is \<subset> {..<?n}" using assms(3,4) by auto
  then have progress: "frame_progress event_id d mtu (set is) ?r"
    using frame_progress_push_all [OF assms(1) receiver_ready_progress [OF assms(2)]] by fastforce
  obtain res r' where push: "ls_transport_reassembly_push ?r (transport_fragment event_id d mtu i) = (res, r')"
    by (metis prod.exhaust)
  have "insert i (set is) = {..<?n}" "set is \<subseteq> {..<?n}" "set is \<noteq> {..<?n}"
    using assms(3,4) by auto
  then show ?thesis
    using frame_progress_push [OF assms(1,3) _ _ progress push] push by auto
qed


lemma example_receiver_ready: "receiver_ready example_receiver [1, 2, 3, 4, 5] 2"
  using example_receiver_ok
  by (simp add: receiver_ready_def example_receiver_def ls_transport_reassembly_init_def
      ls_transport_reassembly_reset_def fragment_count_def SIZE_MAX_def)

lemma example_fragmentable: "fragmentable [1, 2, 3, 4, 5] 2"
  by (simp add: fragmentable_def fragment_count_def UINT32_MAX_def UINT16_MAX_def)


section \<open>Sending end to end\<close>

text \<open>A transport whose fragment callback is the receiver's reassembly, kept in the context.\<close>

definition deliver_fragment ::
  "ls_transport_fragment \<Rightarrow> ls_transport_reassembly world \<Rightarrow> ls_result \<times> ls_transport_reassembly world" where
  "deliver_fragment fr w =
     (case ls_transport_reassembly_push (ctx w) fr of ((res, n), r) \<Rightarrow> (res, w\<lparr>ctx := r\<rparr>))"

lemma retry_loop_done:
  "step w = (res, w') \<Longrightarrow> \<not> ls_transport_result_is_retryable res \<Longrightarrow> retry_loop t step a w = (res, w')"
  by (subst retry_loop.simps) (simp add: should_retry_def)

lemma deliver_fragment_OK:
  assumes "tb_send_fragment_v2 t = Some deliver_fragment" and "no_faults w"
    and "ls_transport_reassembly_push (ctx w) fr = ((LS_OK, n), r)"
  shows "send_fragment t fr w = (LS_OK, w\<lparr>ctx := r\<rparr>)"
  unfolding send_fragment_def
  by (rule retry_loop_done)
    (simp_all add: send_fragment_step_def assms deliver_fragment_def ls_transport_result_is_retryable_def)

lemma send_fragments_deliver:
  assumes frag: "fragmentable d mtu" and t: "tb_send_fragment_v2 t = Some deliver_fragment"
  shows "no_faults w \<Longrightarrow> frame_progress event_id d mtu {..<k} (ctx w) \<Longrightarrow>
    k < fragment_count (length d) mtu \<Longrightarrow>
    \<exists>w'. send_fragments t event_id d mtu [k..<fragment_count (length d) mtu] w = (LS_OK, w') \<and>
      ra_complete (ctx w') \<and> take (length d) (the (ra_data (ctx w'))) = d"
proof (induction "fragment_count (length d) mtu - k" arbitrary: k w)
  case 0
  then show ?case by simp
next
  case (Suc m)
  let ?n = "fragment_count (length d) mtu"
  obtain res r' where push: "ls_transport_reassembly_push (ctx w) (transport_fragment event_id d mtu k) = (res, r')"
    by (metis prod.exhaust)
  have ins: "insert k {..<k} = {..<Suc k}" by (simp add: lessThan_Suc)
  note step = frame_progress_push [OF frag Suc.prems(3) _ _ Suc.prems(2) push, unfolded ins]
  have upt: "[k..<?n] = k # [Suc k..<?n]" using Suc.prems(3) by (rule upt_conv_Cons)
  show ?case
  proof (cases "Suc k = ?n")
    case True
    then have "res = (LS_OK, length d)" "ra_complete r'" "take (length d) (the (ra_data r')) = d"
      using step by auto
    then show ?thesis
      using deliver_fragment_OK [OF t Suc.prems(1), of "transport_fragment event_id d mtu k" "length d" r'] push True
      by (simp add: upt)
  next
    case False
    then have "res = (LS_OK, 0)" "frame_progress event_id d mtu {..<Suc k} r'"
      using step Suc.prems(3) by auto
    then show ?thesis
      using deliver_fragment_OK [OF t Suc.prems(1), of "transport_fragment event_id d mtu k" 0 r'] push False
        Suc.hyps(1) [of "Suc k" "w\<lparr>ctx := r'\<rparr>"] Suc.hyps(2) Suc.prems
      by (simp add: upt no_faults_def)
  qed
qed

text \<open>A transport is busy at most while its send runs: the slot that acquiring takes is the one
  that releasing frees.\<close>

lemma acquire_release:
  "acquire_transport p busy = (True, busy') \<Longrightarrow> release_transport p busy' = busy"
  by (induction busy arbitrary: busy') (auto split: if_splits prod.splits)

lemma acquire_free:
  "None \<in> set busy \<Longrightarrow> Some p \<notin> set busy \<Longrightarrow> \<exists>busy'. acquire_transport p busy = (True, busy')"
  by (induction busy) (auto split: prod.splits)

lemma acquire_failed: "acquire_transport p busy = (False, busy') \<Longrightarrow> busy' = busy"
  by (induction busy arbitrary: busy') (auto split: if_splits prod.splits)


lemma transport_send_busy:
  assumes "ls_transport_send heap tp event_id data busy w = (res, busy', w')"
  shows "busy' = busy"
  using assms
  by (auto simp: ls_transport_send_def Let_def dest: acquire_release acquire_failed
      split: option.splits prod.splits if_splits)

text \<open>C7: sending an envelope over a fragmenting transport whose far end is the reassembly
  succeeds, delivers the envelope complete and unchanged into the receiver's buffer, and leaves
  the busy table as it was.\<close>

theorem transport_send_delivers:
  assumes "fragmentable d mtu" and "receiver_ready (ctx w) d mtu" and "no_faults w"
    and "tb_send_fragment_v2 (heap p) = Some deliver_fragment"
    and "tb_capabilities (heap p) AND LS_TRANSPORT_FRAGMENT \<noteq> 0"
    and "tb_send (heap p) = None \<or> mtu < length d"
    and "transport_available (heap p) w = (True, w)"
    and "transport_mtu (heap p) (length d) w = (mtu, w)"
    and "None \<in> set busy" and "Some p \<notin> set busy"
  shows "\<exists>w'. ls_transport_send heap (Some p) event_id (Some d) busy w = (LS_OK, busy, w') \<and>
           ra_complete (ctx w') \<and> take (length d) (the (ra_data (ctx w'))) = d"
proof -
  have len: "0 < length d" "length d \<le> UINT32_MAX" "0 < mtu" "mtu \<le> UINT32_MAX"
    "fragment_count (length d) mtu \<le> UINT16_MAX"
    using assms(1) by (simp_all add: fragmentable_def)
  obtain w' where w': "send_fragments (heap p) event_id d mtu [0..<fragment_count (length d) mtu] w = (LS_OK, w')"
    "ra_complete (ctx w')" "take (length d) (the (ra_data (ctx w'))) = d"
    using send_fragments_deliver [OF assms(1,4,3), of event_id 0] receiver_ready_progress [OF assms(2)] len
    by auto
  have "transport_transmit (heap p) event_id d mtu w = (LS_OK, w')"
    using assms(6) len w'(1) by (auto simp: transport_transmit_def)
  moreover obtain busy' where "acquire_transport p busy = (True, busy')" "release_transport p busy' = busy"
    using acquire_free [OF assms(9,10)] acquire_release by blast
  ultimately have "ls_transport_send heap (Some p) event_id (Some d) busy w = (LS_OK, busy, w')"
    using assms(4,5,7,8) len by (simp add: ls_transport_send_def has_fragment_sender_def)
  with w' show ?thesis by blast
qed

definition example_transport :: "ls_transport_reassembly ls_transport_backend" where
  "example_transport =
     \<lparr>tb_priority = 1, tb_available = None, tb_send = None, tb_send_fragment = None,
      tb_max_payload = Some (\<lambda>w. (2, w)), tb_capabilities = LS_TRANSPORT_FRAGMENT,
      tb_energy_cost = 0, tb_monetary_cost = 0, tb_send_fragment_v2 = Some deliver_fragment,
      tb_retry = None, tb_retry_limit = 3\<rparr>"

theorem transport_send_delivers_witness:
  "\<exists>w'. ls_transport_send (\<lambda>_. example_transport) (Some 1) 7 (Some [1, 2, 3, 4, 5]) [Some 9, None]
        \<lparr>faults = faults_none, ctx = example_receiver\<rparr> = (LS_OK, [Some 9, None], w') \<and>
      ra_complete (ctx w') \<and> take 5 (the (ra_data (ctx w'))) = [1, 2, 3, 4, 5]"
proof -
  have len: "length [1, 2, 3, 4, 5 :: u8] = 5" by simp
  show ?thesis
    using transport_send_delivers [OF example_fragmentable, of "\<lparr>faults = faults_none, ctx = example_receiver\<rparr>"
      "\<lambda>_. example_transport" 1 "[Some 9, None]" 7] example_receiver_ready
    unfolding len
    by (simp add: no_faults_def faults_none_def example_transport_def LS_TRANSPORT_FRAGMENT_def
      transport_available_def transport_mtu_def)
qed

section \<open>Choice and retries\<close>

lemma transport_score_range:
  "INT64_MIN < transport_score priority t \<and> transport_score priority t < 2 ^ 63"
proof -
  define e m where "e = uint (tb_energy_cost t)" and "m = uint (tb_monetary_cost t)"
  have "- (2 ^ 31) \<le> sint (tb_priority t)" "sint (tb_priority t) < 2 ^ 31"
    using sint_greater_eq [of "tb_priority t"] sint_less [of "tb_priority t"] by simp_all
  moreover have "e < 2 ^ 16" "m < 2 ^ 16" "0 \<le> e" "0 \<le> m"
    unfolding e_def m_def using unsigned_less [of "tb_energy_cost t", where 'a = int]
      unsigned_less [of "tb_monetary_cost t", where 'a = int] by simp_all
  ultimately show ?thesis
    by (auto simp: transport_score_def INT64_MIN_def Let_def simp flip: e_def m_def)
qed

definition keep_best :: "('a \<Rightarrow> int) \<Rightarrow> 'a option \<times> int \<Rightarrow> 'a \<Rightarrow> 'a option \<times> int" where
  "keep_best score acc x = (if score x > snd acc then (Some x, score x) else acc)"

lemma keep_best_pair [simp]:
  "keep_best score (b, s) x = (if score x > s then (Some x, score x) else (b, s))"
  by (simp add: keep_best_def)

lemma select_loop_fold:
  assumes "\<And>p. p \<in> set ps \<Longrightarrow> snd (ls_transport_can_send (heap p) n w) = w"
  shows "select_loop heap priority n ps best best_score w =
    (fst (foldl (keep_best (\<lambda>p. transport_score priority (heap p))) (best, best_score)
        (filter (\<lambda>p. fst (ls_transport_can_send (heap p) n w)) ps)), w)"
  using assms
proof (induction ps arbitrary: best best_score)
  case Nil
  then show ?case by simp
next
  case (Cons p ps)
  obtain ok where "ls_transport_can_send (heap p) n w = (ok, w)"
    using Cons.prems [of p] by (metis list.set_intros(1) prod.collapse)
  then show ?case using Cons by (simp add: keep_best_def)
qed

lemma foldl_keep_best:
  assumes "\<And>x. x \<in> set xs \<Longrightarrow> low < score x"
  shows "case foldl (keep_best score) (None, low) xs of
      (None, s) \<Rightarrow> xs = [] \<and> s = low
    | (Some x, s) \<Rightarrow> s = score x \<and> (\<exists>i<length xs. xs ! i = x \<and>
        (\<forall>j<length xs. score (xs ! j) \<le> s \<and> (j < i \<longrightarrow> score (xs ! j) < s)))"
  using assms
proof (induction xs rule: rev_induct)
  case Nil
  then show ?case by simp
next
  case (snoc y xs)
  obtain b s where acc: "foldl (keep_best score) (None, low) xs = (b, s)" by (metis prod.exhaust)
  show ?case
  proof (cases b)
    case None
    then have "xs = []" "s = low" using snoc.IH snoc.prems acc by simp_all
    then show ?thesis using snoc.prems by simp
  next
    case (Some x)
    then obtain i where i: "s = score x" "i < length xs" "xs ! i = x"
      "\<And>j. j < length xs \<Longrightarrow> score (xs ! j) \<le> s" "\<And>j. j < i \<Longrightarrow> score (xs ! j) < s"
      using snoc acc by (auto dest: less_trans)
    show ?thesis
    proof (cases "score y > s")
      case True
      then show ?thesis
        using acc Some i(4) le_less_trans [OF i(4) True] less_imp_le [OF le_less_trans [OF i(4) True]]
        by (auto simp: nth_append less_Suc_eq intro!: exI [of _ "length xs"])
    next
      case False
      then show ?thesis
        using acc Some i
        by (auto simp: nth_append less_Suc_eq intro!: exI [of _ i])
    qed
  qed
qed

text \<open>C10: when the availability and size queries do not change the world, selection returns the
  transport with the highest score among the registered ones that can carry the event, the
  first registered of several with that score, and none exactly when none can.\<close>

theorem transport_select_best:
  fixes ts :: "tptr list" and priority :: ls_priority
  assumes "\<And>p. p \<in> set ts \<Longrightarrow> snd (ls_transport_can_send (heap p) n w) = w"
    and "length ts \<le> LS_MAX_TRANSPORTS cfg"
  defines "able \<equiv> filter (\<lambda>p. fst (ls_transport_can_send (heap p) n w)) ts"
    and "score \<equiv> (\<lambda>p. transport_score priority (heap p))"
  shows "case ls_transport_select cfg heap ts priority n w of
      (None, w') \<Rightarrow> able = [] \<and> w' = w
    | (Some p, w') \<Rightarrow> w' = w \<and> (\<exists>i<length able. able ! i = p \<and>
        (\<forall>j<length able. score (able ! j) \<le> score p \<and> (j < i \<longrightarrow> score (able ! j) < score p)))"
proof -
  have "ls_transport_select cfg heap ts priority n w =
      (fst (foldl (keep_best score) (None, INT64_MIN) able), w)"
    using assms(1,2) by (simp add: ls_transport_select_def select_loop_fold able_def score_def)
  moreover have "\<And>x. x \<in> set able \<Longrightarrow> INT64_MIN < score x"
    by (auto simp: score_def intro: conjunct1 [OF transport_score_range])
  note best = foldl_keep_best [of able INT64_MIN score, OF this]
  obtain b s where "foldl (keep_best score) (None, INT64_MIN) able = (b, s)" by (metis prod.exhaust)
  ultimately show ?thesis using best by (cases b) auto
qed

theorem transport_select_best_witness:
  "fst (ls_transport_select ls_build_config_default
      (\<lambda>p. if p = 2 then example_transport\<lparr>tb_priority := 5\<rparr> else example_transport) [1, 2, 3]
      LS_PRIORITY_ERROR 5 \<lparr>faults = faults_none, ctx = example_receiver\<rparr>) = Some 2"
proof -
  let ?heap = "\<lambda>p :: tptr. if p = 2 then example_transport\<lparr>tb_priority := 5\<rparr> else example_transport"
  let ?w = "\<lparr>faults = faults_none, ctx = example_receiver\<rparr>"
  have can: "ls_transport_can_send (?heap p) 5 ?w = (True, ?w)" for p
    by (simp add: ls_transport_can_send_def example_transport_def has_fragment_sender_def
        transport_available_def transport_mtu_def LS_TRANSPORT_FRAGMENT_def)
  have score: "transport_score LS_PRIORITY_ERROR (?heap p) = (if p = 2 then 5000 else 1000)" for p
    by (simp add: transport_score_def example_transport_def less_eq_ls_priority_def
        LS_TRANSPORT_FRAGMENT_def LS_TRANSPORT_DURABLE_ACK_def LS_TRANSPORT_ACK_def)
  obtain b w' where sel: "ls_transport_select ls_build_config_default ?heap [1, 2, 3] LS_PRIORITY_ERROR 5 ?w = (b, w')"
    by (metis prod.exhaust)
  show ?thesis
    using transport_select_best [of "[1, 2, 3]" ?heap 5 ?w ls_build_config_default LS_PRIORITY_ERROR]
    unfolding can score sel
    by (cases b) (auto simp: ls_build_config_default_def dest!: spec [of _ 1] split: if_splits)
qed


text \<open>The retry loop runs its body at most once more than the attempts that are left.\<close>

lemma retry_loop_meter:
  fixes meter :: "'s \<Rightarrow> nat"
  assumes "\<And>w. meter (ctx (snd (step w))) \<le> meter (ctx w) + 1"
    and "\<And>f a r w. tb_retry t = Some f \<Longrightarrow> meter (ctx (snd (f a r w))) = meter (ctx w)"
  shows "meter (ctx (snd (retry_loop t step attempt w))) \<le>
           meter (ctx w) + 1 + (unat (tb_retry_limit t) - unat attempt)"
  using assms
proof (induction t step attempt w rule: retry_loop.induct)
  case (1 t step attempt w)
  obtain result w1 again attempt' w2 where s: "step w = (result, w1)"
    and r: "should_retry t attempt result w1 = ((again, attempt'), w2)"
    by (metis prod.exhaust)
  have w1: "meter (ctx w1) \<le> meter (ctx w) + 1" using "1.prems"(1) [of w] s by simp
  have w2: "meter (ctx w2) = meter (ctx w1)"
    using "1.prems"(2) r
    by (auto simp: should_retry_def Let_def split: if_splits option.splits prod.splits)
      (metis snd_conv)+
  show ?case
  proof (cases again)
    case True
    then have p: "attempt < tb_retry_limit t" "unat attempt' = unat attempt + 1"
      using should_retry_progress [of t attempt result w1 attempt' w2] r by simp_all
    have "meter (ctx (snd (retry_loop t step attempt' w2))) \<le>
        meter (ctx w2) + 1 + (unat (tb_retry_limit t) - unat attempt')"
      using "1.IH" [OF s [symmetric] r [symmetric] refl True] "1.prems" by simp
    then show ?thesis
      using p w1 w2 s r True by (subst retry_loop.simps) (simp add: word_less_nat_alt)
  next
    case False
    then show ?thesis using w1 w2 s r by (subst retry_loop.simps) simp
  qed
qed

text \<open>C11: a send of a complete envelope transmits at most \<^verbatim>\<open>retry_limit + 1\<close> times, whatever the
  transport answers: for every count of transmissions that the send callback raises by one and
  the retry callback leaves alone.\<close>

theorem send_complete_bounded:
  fixes transmissions :: "'s \<Rightarrow> nat"
  assumes "\<And>d w. transmissions (ctx (snd (the (tb_send t) d w))) = transmissions (ctx w) + 1"
    and "\<And>f a r w. tb_retry t = Some f \<Longrightarrow> transmissions (ctx (snd (f a r w))) = transmissions (ctx w)"
    and "send_complete t data w = (result, w')"
  shows "transmissions (ctx w') \<le> transmissions (ctx w) + unat (tb_retry_limit t) + 1"
proof -
  have "transmissions (ctx (snd (send_complete_step t data w))) \<le> transmissions (ctx w) + 1" for w
    using assms(1) [of data "snd (fault_point ''transport.send'' w)"]
    by (simp add: send_complete_step_def and_then_def)
  then show ?thesis
    using retry_loop_meter [of transmissions "send_complete_step t data" t 0 w] assms(2,3)
    by (auto simp: send_complete_def split: if_splits)
qed

definition unreliable_transport :: "nat ls_transport_backend" where
  "unreliable_transport =
     \<lparr>tb_priority = 1, tb_available = None,
      tb_send = Some (\<lambda>d w. (LS_EAGAIN, w\<lparr>ctx := ctx w + 1\<rparr>)), tb_send_fragment = None,
      tb_max_payload = None, tb_capabilities = 0, tb_energy_cost = 0, tb_monetary_cost = 0,
      tb_send_fragment_v2 = None, tb_retry = None, tb_retry_limit = 3\<rparr>"

theorem send_complete_bounded_witness:
  "ctx (snd (send_complete unreliable_transport [1] \<lparr>faults = faults_none, ctx = 0\<rparr>)) \<le> 4"
  using send_complete_bounded [of id unreliable_transport "[1]" "\<lparr>faults = faults_none, ctx = 0\<rparr>"]
  by (cases "send_complete unreliable_transport [1] \<lparr>faults = faults_none, ctx = 0\<rparr>")
    (simp add: unreliable_transport_def)

text \<open>Whatever a send returns and on every path, the table of busy transports is afterwards
  what it was before: no slot leaks.\<close>

theorem transport_send_releases:
  assumes "ls_transport_send heap tp event_id data busy w = (res, busy', w')"
  shows "busy' = busy"
  using assms by (rule transport_send_busy)

theorem transport_send_releases_witness:
  "\<exists>res w'. ls_transport_send (\<lambda>_. unreliable_transport) (Some 1) 7 (Some [1]) [Some 2, None]
     \<lparr>faults = faults_none, ctx = 0\<rparr> = (res, [Some 2, None], w')"
  using transport_send_releases by (metis prod.exhaust)

text \<open>The table of busy transports scans for a free slot and for the transport at the same time: a
  transport that is busy in a later slot is acquired again when an earlier slot is free.\<close>

lemma busy_transport_acquired_twice:
  "acquire_transport 1 [None, None] = (True, [Some 1, None])"
  "acquire_transport 2 [Some 1, None] = (True, [Some 1, Some 2])"
  "release_transport 1 [Some 1, Some 2] = [None, Some 2]"
  "acquire_transport 2 [None, Some 2] = (True, [Some 2, Some 2])"
  by simp_all


section \<open>Transports that acknowledge durably\<close>

text \<open>
  The contract of \<^verbatim>\<open>transport.h\<close>: a successful send on a durable-ACK transport means that the
  receiver has made the envelope durable. \<open>delivered\<close> is what the receivers behind the context
  hold; no callback takes anything away from it. The transports send whole envelopes.
\<close>

locale durable_network =
  fixes heap :: "tptr \<Rightarrow> 't ls_transport_backend" and delivered :: "'t \<Rightarrow> bytes set"
  assumes whole: "\<not> has_fragment_sender (heap p)"
    and available_law: "tb_available (heap p) = Some f \<Longrightarrow> delivered (ctx w) \<subseteq> delivered (ctx (snd (f w)))"
    and max_payload_law: "tb_max_payload (heap p) = Some g \<Longrightarrow> delivered (ctx w) \<subseteq> delivered (ctx (snd (g w)))"
    and retry_law: "tb_retry (heap p) = Some h \<Longrightarrow> delivered (ctx w) \<subseteq> delivered (ctx (snd (h a r w)))"
    and send_law: "tb_send (heap p) = Some s \<Longrightarrow> s d w = (r, w') \<Longrightarrow>
      delivered (ctx w) \<subseteq> delivered (ctx w') \<and> (r = LS_OK \<longrightarrow> d \<in> delivered (ctx w'))"
begin

lemma available_mono: "transport_available (heap p) w = (b, w') \<Longrightarrow> delivered (ctx w) \<subseteq> delivered (ctx w')"
  using available_law [of p _ w] by (auto simp: transport_available_def split: option.splits)

lemma mtu_mono: "transport_mtu (heap p) n w = (k, w') \<Longrightarrow> delivered (ctx w) \<subseteq> delivered (ctx w')"
  using max_payload_law [of p _ w] by (auto simp: transport_mtu_def split: option.splits)

lemma can_send_mono:
  "ls_transport_can_send (heap p) n w = (b, w') \<Longrightarrow> delivered (ctx w) \<subseteq> delivered (ctx w')"
  by (auto simp: ls_transport_can_send_def dest!: available_mono mtu_mono split: if_splits prod.splits)

lemma select_mono:
  "ls_transport_select cfg heap ts priority n w = (b, w') \<Longrightarrow> delivered (ctx w) \<subseteq> delivered (ctx w')"
proof -
  have "delivered (ctx w) \<subseteq> delivered (ctx w')"
    if "select_loop heap priority n ps best best_score w = (b, w')" for ps best best_score
    using that
  proof (induction ps arbitrary: best best_score w)
    case Nil
    then show ?case by simp
  next
    case (Cons p ps)
    obtain ok w1 where c: "ls_transport_can_send (heap p) n w = (ok, w1)" by (metis prod.exhaust)
    have "delivered (ctx w1) \<subseteq> delivered (ctx w')"
      using Cons c by (auto simp: Let_def split: if_splits)
    then show ?case using can_send_mono [OF c] by blast
  qed
  then show "ls_transport_select cfg heap ts priority n w = (b, w') \<Longrightarrow> ?thesis"
    by (simp add: ls_transport_select_def)
qed

lemma retry_mono:
  "should_retry (heap p) a r w = (x, w') \<Longrightarrow> delivered (ctx w) \<subseteq> delivered (ctx w')"
  using retry_law [of p _ w "a + 1" r]
  by (auto simp: should_retry_def Let_def split: if_splits option.splits prod.splits)

lemma send_complete_delivers:
  assumes "send_complete (heap p) d w = (r, w')"
  shows "delivered (ctx w) \<subseteq> delivered (ctx w') \<and> (r = LS_OK \<longrightarrow> d \<in> delivered (ctx w'))"
proof (cases "tb_send (heap p)")
  case None
  then show ?thesis using assms by (auto simp: send_complete_def)
next
  case (Some s)
  have step: "delivered (ctx w0) \<subseteq> delivered (ctx w1) \<and> (r = LS_OK \<longrightarrow> d \<in> delivered (ctx w1))"
    if "send_complete_step (heap p) d w0 = (r, w1)" for w0 w1 r
  proof -
    obtain fr wf where f: "fault_point ''transport.send'' w0 = (fr, wf)" by (metis prod.exhaust)
    then have "ctx wf = ctx w0" by (rule fault_point_ctxD)
    then show ?thesis
      using that f Some send_law [OF Some, of d wf r w1]
      by (auto simp: send_complete_step_def and_then_def split: if_splits)
  qed
  have "delivered (ctx w) \<subseteq> delivered (ctx w') \<and> (r = LS_OK \<longrightarrow> d \<in> delivered (ctx w'))"
    if "retry_loop (heap p) (send_complete_step (heap p) d) a w = (r, w')" for a
    using that
  proof (induction "heap p" "send_complete_step (heap p) d" a w rule: retry_loop.induct)
    case (1 a w)
    obtain r1 w1 again a' w2 where s: "send_complete_step (heap p) d w = (r1, w1)"
      and t: "should_retry (heap p) a r1 w1 = ((again, a'), w2)"
      by (metis prod.exhaust)
    have loop: "(if again then retry_loop (heap p) (send_complete_step (heap p) d) a' w2 else (r1, w2)) = (r, w')"
      using "1.prems" s t by (subst (asm) retry_loop.simps) simp
    show ?case
    proof (cases again)
      case True
      then show ?thesis
        using "1.hyps" [OF s [symmetric] t [symmetric] refl True] loop step [OF s] retry_mono [OF t] by auto
    next
      case False
      then show ?thesis using loop step [OF s] retry_mono [OF t] by auto
    qed
  qed
  from this [of 0] show ?thesis using assms Some by (simp add: send_complete_def)
qed

lemma transport_send_law:
  assumes "ls_transport_send heap (Some p) event_id (Some d) busy w = (r, busy', w')"
  shows "delivered (ctx w) \<subseteq> delivered (ctx w') \<and> (r = LS_OK \<longrightarrow> d \<in> delivered (ctx w'))"
proof -
  obtain av w1 mtu w2 where a: "transport_available (heap p) w = (av, w1)"
    and m: "transport_mtu (heap p) (length d) w1 = (mtu, w2)"
    by (metis prod.exhaust)
  note mono = available_mono [OF a] mtu_mono [OF m]
  have "delivered (ctx w2) \<subseteq> delivered (ctx w3) \<and> (r = LS_OK \<longrightarrow> d \<in> delivered (ctx w3))"
    if "transport_transmit (heap p) event_id d mtu w2 = (r, w3)" "\<not> length d > mtu" "tb_send (heap p) \<noteq> None"
    for r w3
    using that send_complete_delivers by (simp add: transport_transmit_def)
  then show ?thesis
    using assms a m mono whole [of p]
    by (auto simp: ls_transport_send_def Let_def split: if_splits prod.splits)
qed

end

text \<open>A transport that keeps what it is given, and refuses while its store is full.\<close>

definition recording_transport :: "nat \<Rightarrow> bytes list ls_transport_backend" where
  "recording_transport room =
     \<lparr>tb_priority = 1, tb_available = Some (\<lambda>w. (length (ctx w) < room, w)),
      tb_send = Some (\<lambda>d w. if length (ctx w) < room then (LS_OK, w\<lparr>ctx := d # ctx w\<rparr>) else (LS_EBUSY, w)),
      tb_send_fragment = None, tb_max_payload = None, tb_capabilities = LS_TRANSPORT_ACK,
      tb_energy_cost = 0, tb_monetary_cost = 0, tb_send_fragment_v2 = None, tb_retry = None,
      tb_retry_limit = 1\<rparr>"

interpretation recording: durable_network "\<lambda>_. recording_transport room" "\<lambda>log. set log"
  by unfold_locales (auto simp: recording_transport_def has_fragment_sender_def split: if_splits)

end
