(* ===== verification/LS_Spool.thy ===== *)
theory LS_Spool
  imports LS_Storage_Sim LS_Envelope LS_Transport
begin

text \<open>
  \<^verbatim>\<open>src/spool/spool.c\<close>: the durable queue of envelopes. The storage holds a header and
  \<^verbatim>\<open>LS_SPOOL_MAX_RECORDS\<close> slots; a record is written in three steps (header, payload, one commit
  byte) and consumed by clearing that byte. The structures the C code hands to the storage as raw
  memory are records here, with their little-endian layout written out. The part of
  \<^verbatim>\<open>ls_runtime\<close> the spool uses is \<open>spool_rt\<close>: the fault table, the context behind the storage,
  the context behind the transports, and the counters.
\<close>

declare One_nat_def [simp del]

section \<open>Layout of the storage\<close>

definition LS_STORAGE_MAGIC :: u32 where "LS_STORAGE_MAGIC = 0x4C53534C"
definition SPOOL_VERSION :: u16 where "SPOOL_VERSION = 3"
definition SPOOL_HEADER_COMMITTED :: u8 where "SPOOL_HEADER_COMMITTED = 0xa5"
definition SPOOL_RECORD_MAGIC :: u32 where "SPOOL_RECORD_MAGIC = 0x4c535245"
definition SPOOL_RECORD_COMMITTED :: u8 where "SPOOL_RECORD_COMMITTED = 0xa5"
definition SPOOL_RECORD_ACKED :: u8 where "SPOOL_RECORD_ACKED = 0"
definition LS_EVENT_CRASH :: u8 where "LS_EVENT_CRASH = 1"
definition LS_EVENT_COREDUMP :: u8 where "LS_EVENT_COREDUMP = 8"

record spool_header =
  sh_magic :: u32
  sh_version :: u16
  sh_slots :: u16
  sh_record_size :: u32
  sh_sequence_floor :: u32
  sh_header_crc :: u32
  sh_committed :: u8
  sh_reserved :: "u8 \<times> u8 \<times> u8"

record spool_record =
  sr_magic :: u32
  sr_version :: u16
  sr_length :: u16
  sr_sequence :: u32
  sr_data_crc :: u32
  sr_priority :: u8
  sr_event_type :: u8
  sr_reserved :: u16
  sr_header_crc :: u32
  sr_state :: u8
  sr_retry_bits :: u8
  sr_reserved_after_state :: u16

definition spool_header_bytes :: "spool_header \<Rightarrow> bytes" where
  "spool_header_bytes h =
     le32 (sh_magic h) @ le16 (sh_version h) @ le16 (sh_slots h) @ le32 (sh_record_size h) @
     le32 (sh_sequence_floor h) @ le32 (sh_header_crc h) @
     [sh_committed h, fst (sh_reserved h), fst (snd (sh_reserved h)), snd (snd (sh_reserved h))]"

definition spool_header_parse :: "bytes \<Rightarrow> spool_header" where
  "spool_header_parse b =
     \<lparr>sh_magic = read_u32 b 0, sh_version = read_u16 b 4, sh_slots = read_u16 b 6,
      sh_record_size = read_u32 b 8, sh_sequence_floor = read_u32 b 12,
      sh_header_crc = read_u32 b 16, sh_committed = b ! 20, sh_reserved = (b ! 21, b ! 22, b ! 23)\<rparr>"

definition spool_record_bytes :: "spool_record \<Rightarrow> bytes" where
  "spool_record_bytes r =
     le32 (sr_magic r) @ le16 (sr_version r) @ le16 (sr_length r) @ le32 (sr_sequence r) @
     le32 (sr_data_crc r) @ [sr_priority r, sr_event_type r] @ le16 (sr_reserved r) @
     le32 (sr_header_crc r) @ [sr_state r, sr_retry_bits r] @ le16 (sr_reserved_after_state r)"

definition spool_record_parse :: "bytes \<Rightarrow> spool_record" where
  "spool_record_parse b =
     \<lparr>sr_magic = read_u32 b 0, sr_version = read_u16 b 4, sr_length = read_u16 b 6,
      sr_sequence = read_u32 b 8, sr_data_crc = read_u32 b 12, sr_priority = b ! 16,
      sr_event_type = b ! 17, sr_reserved = read_u16 b 18, sr_header_crc = read_u32 b 20,
      sr_state = b ! 24, sr_retry_bits = b ! 25, sr_reserved_after_state = read_u16 b 26\<rparr>"

text \<open>\<^verbatim>\<open>sizeof\<close> and \<^verbatim>\<open>offsetof\<close> of the two structures.\<close>

definition SPOOL_HEADER_SIZE :: nat where "SPOOL_HEADER_SIZE = 24"
definition SPOOL_RECORD_SIZE :: nat where "SPOOL_RECORD_SIZE = 28"
definition SPOOL_COMMITTED_OFFSET :: nat where "SPOOL_COMMITTED_OFFSET = 20"
definition SPOOL_STATE_OFFSET :: nat where "SPOOL_STATE_OFFSET = 24"
definition SPOOL_RETRY_OFFSET :: nat where "SPOOL_RETRY_OFFSET = 25"

lemmas spool_layout = SPOOL_HEADER_SIZE_def SPOOL_RECORD_SIZE_def SPOOL_COMMITTED_OFFSET_def
  SPOOL_STATE_OFFSET_def SPOOL_RETRY_OFFSET_def

definition spool_add_size :: "nat \<Rightarrow> nat \<Rightarrow> nat option" where
  "spool_add_size l r = (if l > SIZE_MAX - r then None else Some (l + r))"

definition record_size :: "ls_build_config \<Rightarrow> nat" where
  "record_size cfg = SPOOL_RECORD_SIZE + LS_MAX_EVENT_SIZE cfg"

definition raw_storage_size :: "ls_build_config \<Rightarrow> nat" where
  "raw_storage_size cfg =
     (if record_size cfg > SIZE_MAX div LS_SPOOL_MAX_RECORDS cfg then 0
      else case spool_add_size 0 (record_size cfg * LS_SPOOL_MAX_RECORDS cfg) of
             None \<Rightarrow> 0
           | Some records \<Rightarrow>
               (case spool_add_size SPOOL_HEADER_SIZE records of None \<Rightarrow> 0 | Some sz \<Rightarrow> sz))"

definition slot_offset :: "ls_build_config \<Rightarrow> nat \<Rightarrow> nat" where
  "slot_offset cfg index = SPOOL_HEADER_SIZE + index * record_size cfg"

definition ls_spool_storage_size :: "ls_build_config \<Rightarrow> nat" where
  "ls_spool_storage_size cfg =
     (let sz = raw_storage_size cfg
      in if sz = 0 then 0
         else let remainder = sz mod LS_STORAGE_MAX_WRITE_SIZE cfg
              in if remainder = 0 then sz
                 else if sz > SIZE_MAX - (LS_STORAGE_MAX_WRITE_SIZE cfg - remainder) then 0
                 else sz + LS_STORAGE_MAX_WRITE_SIZE cfg - remainder)"

text \<open>\<open>boot_size\<close> is \<^verbatim>\<open>sizeof(ls_persistent_boot_t)\<close>.\<close>

definition ls_storage_required_size :: "ls_build_config \<Rightarrow> nat \<Rightarrow> nat" where
  "ls_storage_required_size cfg boot_size =
     (let spool_size = ls_spool_storage_size cfg
      in if spool_size = 0 then 0
         else case spool_add_size spool_size boot_size of None \<Rightarrow> 0 | Some sz \<Rightarrow> sz)"

section \<open>Headers and records\<close>

definition spool_header_crc :: "spool_header \<Rightarrow> u32" where
  "spool_header_crc h = ls_crc32 (take 16 (spool_header_bytes h))"

definition spool_record_crc :: "spool_record \<Rightarrow> u32" where
  "spool_record_crc r = ls_crc32 (take 20 (spool_record_bytes r))"

definition spool_header_valid :: "ls_build_config \<Rightarrow> spool_header \<Rightarrow> bool" where
  "spool_header_valid cfg h \<longleftrightarrow>
     sh_magic h = LS_STORAGE_MAGIC \<and> sh_version h = SPOOL_VERSION \<and>
     unat (sh_slots h) = LS_SPOOL_MAX_RECORDS cfg \<and> unat (sh_record_size h) = record_size cfg \<and>
     sh_committed h = SPOOL_HEADER_COMMITTED \<and> sh_header_crc h = spool_header_crc h"

definition record_valid :: "ls_build_config \<Rightarrow> spool_record \<Rightarrow> bool" where
  "record_valid cfg r \<longleftrightarrow>
     sr_magic r = SPOOL_RECORD_MAGIC \<and> sr_version r = SPOOL_VERSION \<and>
     sr_length r > 0 \<and> unat (sr_length r) \<le> LS_MAX_EVENT_SIZE cfg \<and>
     unat (sr_priority r) \<le> priority_code LS_PRIORITY_DIAGNOSTIC \<and>
     LS_EVENT_CRASH \<le> sr_event_type r \<and> sr_event_type r \<le> LS_EVENT_COREDUMP \<and>
     sr_header_crc r = spool_record_crc r"

definition record_is_erased :: "spool_record \<Rightarrow> bool" where
  "record_is_erased r \<longleftrightarrow> list_all (\<lambda>b. b = 0xff) (spool_record_bytes r)"

section \<open>State\<close>

record ('s, 't) spool_rt =
  rt_faults :: ls_faults
  rt_store :: 's
  rt_net :: 't
  rt_transports :: "tptr list"
  rt_busy :: "tptr option list"
  rt_sequence :: u32
  spool_high_watermark :: nat
  spool_dropped_records :: u32
  spool_corrupt_records :: u32
  spool_transport_failures :: u32
  spool_retry_saturated :: u32

text \<open>Running an operation of the storage, or of a transport, inside the runtime.\<close>

definition on_store ::
  "('s world \<Rightarrow> 'r \<times> 's world) \<Rightarrow> ('s, 't) spool_rt \<Rightarrow> 'r \<times> ('s, 't) spool_rt" where
  "on_store f rt =
     (case f \<lparr>faults = rt_faults rt, ctx = rt_store rt\<rparr> of
        (r, w) \<Rightarrow> (r, rt\<lparr>rt_faults := faults w, rt_store := ctx w\<rparr>))"

definition on_net ::
  "('t world \<Rightarrow> 'r \<times> 't world) \<Rightarrow> ('s, 't) spool_rt \<Rightarrow> 'r \<times> ('s, 't) spool_rt" where
  "on_net f rt =
     (case f \<lparr>faults = rt_faults rt, ctx = rt_net rt\<rparr> of
        (r, w) \<Rightarrow> (r, rt\<lparr>rt_faults := faults w, rt_net := ctx w\<rparr>))"

definition spool_usable :: "ls_build_config \<Rightarrow> 's ls_storage_backend option \<Rightarrow> bool" where
  "spool_usable cfg dev \<longleftrightarrow>
     ls_spool_storage_size cfg \<noteq> 0 \<and>
     (case dev of None \<Rightarrow> False
      | Some d \<Rightarrow> be_read d \<noteq> None \<and> be_write d \<noteq> None \<and> be_capacity d \<ge> ls_spool_storage_size cfg)"

text \<open>What every entry point returns when the spool is not usable.\<close>

definition unusable_result :: "'s ls_storage_backend option \<Rightarrow> ls_result" where
  "unusable_result dev = (if dev = None then LS_OK else LS_ENOSPACE)"

definition read_header ::
  "'s ls_storage_backend \<Rightarrow> 's world \<Rightarrow> (ls_result \<times> spool_header) \<times> 's world" where
  "read_header d w =
     (case call_read d 0 SPOOL_HEADER_SIZE w of ((r, b), w1) \<Rightarrow> ((r, spool_header_parse b), w1))"

definition read_record ::
  "ls_build_config \<Rightarrow> 's ls_storage_backend \<Rightarrow> nat \<Rightarrow> 's world \<Rightarrow> (ls_result \<times> spool_record) \<times> 's world" where
  "read_record cfg d slot w =
     (case call_read d (slot_offset cfg slot) SPOOL_RECORD_SIZE w of
        ((r, b), w1) \<Rightarrow> ((r, spool_record_parse b), w1))"

section \<open>Initialisation\<close>

definition new_spool_header :: "ls_build_config \<Rightarrow> u32 \<Rightarrow> spool_header" where
  "new_spool_header cfg sequence =
     (let h = \<lparr>sh_magic = LS_STORAGE_MAGIC, sh_version = SPOOL_VERSION,
               sh_slots = of_nat (LS_SPOOL_MAX_RECORDS cfg),
               sh_record_size = of_nat (record_size cfg), sh_sequence_floor = sequence,
               sh_header_crc = - 1, sh_committed = 0xff, sh_reserved = (0xff, 0xff, 0xff)\<rparr>
      in h\<lparr>sh_header_crc := spool_header_crc h\<rparr>)"

definition spool_write_header ::
  "ls_build_config \<Rightarrow> 's ls_storage_backend \<Rightarrow> u32 \<Rightarrow> 's world \<Rightarrow> ls_result \<times> 's world" where
  "spool_write_header cfg d sequence =
     ls_seq [ls_storage_program cfg d 0 (spool_header_bytes (new_spool_header cfg sequence)),
             call_sync d,
             ls_storage_program cfg d SPOOL_COMMITTED_OFFSET [SPOOL_HEADER_COMMITTED],
             call_sync d]"

definition erase_spool ::
  "ls_build_config \<Rightarrow> 's ls_storage_backend \<Rightarrow> 's world \<Rightarrow> ls_result \<times> 's world" where
  "erase_spool cfg d w =
     (let sz = ls_spool_storage_size cfg
      in if be_erase d = None then (LS_ECORRUPT, w)
         else if be_erase_size d > 1 \<and> sz mod be_erase_size d \<noteq> 0 then (LS_ENOTSUP, w)
         else ls_seq [call_erase d 0 sz, call_sync d] w)"

fun scan_records ::
  "ls_build_config \<Rightarrow> 's ls_storage_backend \<Rightarrow> nat list \<Rightarrow> u32 \<Rightarrow> bool \<Rightarrow> 's world \<Rightarrow>
   (ls_result \<times> u32 \<times> bool) \<times> 's world" where
  "scan_records cfg d [] sequence has_record w = ((LS_OK, sequence, has_record), w)"
| "scan_records cfg d (slot # slots) sequence has_record w =
     (case read_record cfg d slot w of
        ((r, rec), w1) \<Rightarrow>
          if r \<noteq> LS_OK then ((r, sequence, has_record), w1)
          else if record_valid cfg rec
          then scan_records cfg d slots
                 (if generation_is_newer (sr_sequence rec) sequence then sr_sequence rec else sequence)
                 True w1
          else scan_records cfg d slots sequence has_record w1)"

definition ls_spool_init ::
  "ls_build_config \<Rightarrow> 's ls_storage_backend option \<Rightarrow> ('s, 't) spool_rt \<Rightarrow> ls_result \<times> ('s, 't) spool_rt" where
  "ls_spool_init cfg dev rt =
     (if \<not> spool_usable cfg dev then (unusable_result dev, rt)
      else let d = the dev in
        (case on_store (read_header d) rt of
           ((result, header), rt1) \<Rightarrow>
             if result \<noteq> LS_OK then (result, rt1)
             else let seq_floor = (if spool_header_valid cfg header then sh_sequence_floor header else 0)
                  in (case on_store (scan_records cfg d [0..<LS_SPOOL_MAX_RECORDS cfg] seq_floor False) rt1 of
                        ((result, sequence, has_record), rt2) \<Rightarrow>
                          if result \<noteq> LS_OK then (result, rt2)
                          else if spool_header_valid cfg header \<or> has_record
                          then (LS_OK, if generation_is_newer sequence (rt_sequence rt2)
                                       then rt2\<lparr>rt_sequence := sequence\<rparr> else rt2)
                          else (case on_store (ls_storage_is_erased cfg d 0 (ls_spool_storage_size cfg)) rt2 of
                                  ((result, erased), rt3) \<Rightarrow>
                                    if result \<noteq> LS_OK then (result, rt3)
                                    else and_then
                                           (if erased = Some True then (LS_OK, rt3)
                                            else on_store (erase_spool cfg d) rt3)
                                           (\<lambda>rt4. on_store (spool_write_header cfg d (rt_sequence rt4)) rt4)))))"

section \<open>Appending\<close>

definition slot_limit_for_priority :: "ls_build_config \<Rightarrow> ls_priority \<Rightarrow> nat" where
  "slot_limit_for_priority cfg priority =
     (if priority = LS_PRIORITY_EMERGENCY then LS_SPOOL_MAX_RECORDS cfg
      else if priority = LS_PRIORITY_CRITICAL
      then LS_SPOOL_MAX_RECORDS cfg - LS_SPOOL_RESERVED_EMERGENCY cfg
      else LS_SPOOL_MAX_RECORDS cfg - LS_SPOOL_RESERVED_CRITICAL cfg)"

fun find_empty_loop ::
  "ls_build_config \<Rightarrow> 's ls_storage_backend \<Rightarrow> nat list \<Rightarrow> 's world \<Rightarrow> (ls_result \<times> nat) \<times> 's world" where
  "find_empty_loop cfg d [] w = ((LS_ENOSPACE, 0), w)"
| "find_empty_loop cfg d (slot # slots) w =
     (case ls_storage_is_erased cfg d (slot_offset cfg slot) SPOOL_RECORD_SIZE w of
        ((result, erased), w1) \<Rightarrow>
          if result \<noteq> LS_OK then ((result, 0), w1)
          else if erased = Some True then ((LS_OK, slot), w1)
          else find_empty_loop cfg d slots w1)"

definition find_empty_slot ::
  "ls_build_config \<Rightarrow> 's ls_storage_backend \<Rightarrow> ls_priority \<Rightarrow> 's world \<Rightarrow> (ls_result \<times> nat) \<times> 's world" where
  "find_empty_slot cfg d priority = find_empty_loop cfg d [0..<slot_limit_for_priority cfg priority]"

definition new_spool_record :: "bytes \<Rightarrow> ls_priority \<Rightarrow> ls_envelope_info \<Rightarrow> spool_record" where
  "new_spool_record data priority info =
     (let r = \<lparr>sr_magic = SPOOL_RECORD_MAGIC, sr_version = SPOOL_VERSION,
               sr_length = of_nat (length data), sr_sequence = ei_sequence info,
               sr_data_crc = ls_crc32 data, sr_priority = of_nat (priority_code priority),
               sr_event_type = ei_type info, sr_reserved = 0xffff, sr_header_crc = - 1,
               sr_state = 0xff, sr_retry_bits = 0xff, sr_reserved_after_state = 0xffff\<rparr>
      in r\<lparr>sr_header_crc := spool_record_crc r\<rparr>)"

definition append_steps ::
  "ls_build_config \<Rightarrow> 's ls_storage_backend \<Rightarrow> nat \<Rightarrow> spool_record \<Rightarrow> bytes \<Rightarrow> 's world \<Rightarrow> ls_result \<times> 's world" where
  "append_steps cfg d offset rec data =
     ls_seq [fault_point ''spool.before_header'',
             ls_storage_program cfg d offset (spool_record_bytes rec),
             fault_point ''spool.before_payload'',
             ls_storage_program cfg d (offset + SPOOL_RECORD_SIZE) data,
             call_sync d,
             fault_point ''spool.before_commit'',
             ls_storage_program cfg d (offset + SPOOL_STATE_OFFSET) [SPOOL_RECORD_COMMITTED],
             call_sync d]"

text \<open>The count of committed records for the high watermark; a failing read ends it.\<close>

fun count_committed ::
  "ls_build_config \<Rightarrow> 's ls_storage_backend \<Rightarrow> nat list \<Rightarrow> nat \<Rightarrow> 's world \<Rightarrow> nat \<times> 's world" where
  "count_committed cfg d [] committed w = (committed, w)"
| "count_committed cfg d (scan # scans) committed w =
     (case read_record cfg d scan w of
        ((result, current), w1) \<Rightarrow>
          if result \<noteq> LS_OK then (committed, w1)
          else count_committed cfg d scans
                 (if record_valid cfg current \<and> sr_state current = SPOOL_RECORD_COMMITTED
                  then committed + 1 else committed) w1)"

definition update_watermark ::
  "ls_build_config \<Rightarrow> 's ls_storage_backend \<Rightarrow> ('s, 't) spool_rt \<Rightarrow> ('s, 't) spool_rt" where
  "update_watermark cfg d rt =
     (case on_store (count_committed cfg d [0..<LS_SPOOL_MAX_RECORDS cfg] 0) rt of
        (committed, rt1) \<Rightarrow>
          if committed > spool_high_watermark rt1 then rt1\<lparr>spool_high_watermark := committed\<rparr> else rt1)"

definition ls_spool_append ::
  "ls_build_config \<Rightarrow> 's ls_storage_backend option \<Rightarrow> bytes option \<Rightarrow> ls_priority \<Rightarrow>
   ('s, 't) spool_rt \<Rightarrow> ls_result \<times> ('s, 't) spool_rt" where
  "ls_spool_append cfg dev data priority rt =
     (case data of
        None \<Rightarrow> (LS_EINVAL, rt)
      | Some bytes \<Rightarrow>
          if length bytes = 0 \<or> length bytes > LS_MAX_EVENT_SIZE cfg then (LS_EINVAL, rt)
          else if \<not> spool_usable cfg dev then (unusable_result dev, rt)
          else (case ls_envelope_validate bytes of
                  Inl _ \<Rightarrow> (LS_ECORRUPT, rt)
                | Inr info \<Rightarrow>
                    let d = the dev in
                    (case on_store (find_empty_slot cfg d priority) rt of
                       ((result, slot), rt1) \<Rightarrow>
                         if result \<noteq> LS_OK
                         then (result, if result = LS_ENOSPACE
                                       then rt1\<lparr>spool_dropped_records := spool_dropped_records rt1 + 1\<rparr>
                                       else rt1)
                         else (case on_store (append_steps cfg d (slot_offset cfg slot)
                                                (new_spool_record bytes priority info) bytes) rt1 of
                                 (result, rt2) \<Rightarrow>
                                   (result, if result = LS_OK then update_watermark cfg d rt2 else rt2)))))"

section \<open>Draining\<close>

definition set_record_state ::
  "ls_build_config \<Rightarrow> 's ls_storage_backend \<Rightarrow> nat \<Rightarrow> u8 \<Rightarrow> 's world \<Rightarrow> ls_result \<times> 's world" where
  "set_record_state cfg d slot state =
     ls_storage_program cfg d (slot_offset cfg slot + SPOOL_STATE_OFFSET) [state]"

definition acknowledge_record ::
  "ls_build_config \<Rightarrow> 's ls_storage_backend \<Rightarrow> nat \<Rightarrow> 's world \<Rightarrow> ls_result \<times> 's world" where
  "acknowledge_record cfg d slot = ls_seq [set_record_state cfg d slot SPOOL_RECORD_ACKED, call_sync d]"

text \<open>The loop that clears the lowest set bit of the retry byte.\<close>

fun clear_lowest_bit :: "u8 \<Rightarrow> nat list \<Rightarrow> u8" where
  "clear_lowest_bit bits [] = bits"
| "clear_lowest_bit bits (b # bs) =
     (let mask = push_bit b 1
      in if bits AND mask \<noteq> 0 then bits AND NOT mask else clear_lowest_bit bits bs)"

definition increment_retries ::
  "ls_build_config \<Rightarrow> 's ls_storage_backend \<Rightarrow> nat \<Rightarrow> u8 \<Rightarrow> ('s, 't) spool_rt \<Rightarrow> ls_result \<times> ('s, 't) spool_rt" where
  "increment_retries cfg d slot retry_bits rt =
     (let updated = clear_lowest_bit retry_bits [0..<8]
      in if updated = retry_bits
         then (LS_OK, rt\<lparr>spool_retry_saturated := spool_retry_saturated rt + 1\<rparr>)
         else on_store (ls_seq [ls_storage_program cfg d (slot_offset cfg slot + SPOOL_RETRY_OFFSET) [updated],
                                call_sync d]) rt)"

text \<open>The scan of \<^verbatim>\<open>reclaim_if_drained\<close>: \<open>Some c\<close> when no committed record is left, with \<open>c\<close> whether
  a slot has been used.\<close>

fun drained_loop ::
  "ls_build_config \<Rightarrow> 's ls_storage_backend \<Rightarrow> nat list \<Rightarrow> bool \<Rightarrow> 's world \<Rightarrow>
   (ls_result \<times> bool option) \<times> 's world" where
  "drained_loop cfg d [] consumed w = ((LS_OK, Some consumed), w)"
| "drained_loop cfg d (slot # slots) consumed w =
     (case read_record cfg d slot w of
        ((result, rec), w1) \<Rightarrow>
          if result \<noteq> LS_OK then ((result, None), w1)
          else if record_valid cfg rec \<and> sr_state rec = SPOOL_RECORD_COMMITTED then ((LS_OK, None), w1)
          else drained_loop cfg d slots (consumed \<or> \<not> record_is_erased rec) w1)"

definition reclaim_if_drained ::
  "ls_build_config \<Rightarrow> 's ls_storage_backend \<Rightarrow> ('s, 't) spool_rt \<Rightarrow> ls_result \<times> ('s, 't) spool_rt" where
  "reclaim_if_drained cfg d rt =
     (case on_store (drained_loop cfg d [0..<LS_SPOOL_MAX_RECORDS cfg] False) rt of
        ((result, drained), rt1) \<Rightarrow>
          if result \<noteq> LS_OK then (result, rt1)
          else if drained \<noteq> Some True then (LS_OK, rt1)
          else on_store (ls_seq [erase_spool cfg d, spool_write_header cfg d (rt_sequence rt1)]) rt1)"

definition record_precedes :: "spool_record \<Rightarrow> spool_record \<Rightarrow> bool" where
  "record_precedes rec sel \<longleftrightarrow>
     sr_priority rec < sr_priority sel \<or>
     sr_priority rec = sr_priority sel \<and> sint (sr_sequence rec - sr_sequence sel) < 0"

fun select_record ::
  "ls_build_config \<Rightarrow> 's ls_storage_backend \<Rightarrow> nat list \<Rightarrow> (nat \<times> spool_record) option \<Rightarrow> 's world \<Rightarrow>
   (ls_result \<times> (nat \<times> spool_record) option) \<times> 's world" where
  "select_record cfg d [] selected w = ((LS_OK, selected), w)"
| "select_record cfg d (slot # slots) selected w =
     (case read_record cfg d slot w of
        ((result, rec), w1) \<Rightarrow>
          if result \<noteq> LS_OK then ((result, selected), w1)
          else if \<not> record_valid cfg rec \<or> sr_state rec \<noteq> SPOOL_RECORD_COMMITTED
          then select_record cfg d slots selected w1
          else if (case selected of None \<Rightarrow> True | Some (_, sel) \<Rightarrow> record_precedes rec sel)
          then select_record cfg d slots (Some (slot, rec)) w1
          else select_record cfg d slots selected w1)"

fun priority_of_code :: "nat \<Rightarrow> ls_priority" where
  "priority_of_code n =
     (if n = 0 then LS_PRIORITY_EMERGENCY else if n = 1 then LS_PRIORITY_CRITICAL
      else if n = 2 then LS_PRIORITY_ERROR else if n = 3 then LS_PRIORITY_WARNING
      else LS_PRIORITY_DIAGNOSTIC)"

text \<open>Sending inside the runtime: the busy table and the transports' context are part of it.\<close>

definition rt_transport_send ::
  "(tptr \<Rightarrow> 't ls_transport_backend) \<Rightarrow> tptr \<Rightarrow> u32 \<Rightarrow> bytes \<Rightarrow> ('s, 't) spool_rt \<Rightarrow> ls_result \<times> ('s, 't) spool_rt" where
  "rt_transport_send heap p event_id data rt =
     (case ls_transport_send heap (Some p) event_id (Some data) (rt_busy rt)
             \<lparr>faults = rt_faults rt, ctx = rt_net rt\<rparr> of
        (result, busy, w) \<Rightarrow> (result, rt\<lparr>rt_busy := busy, rt_faults := faults w, rt_net := ctx w\<rparr>))"

text \<open>What happens to the selected record: \<open>Inl\<close> returns from the flush, \<open>Inr\<close> continues with the
  next pass.\<close>

definition drop_corrupt ::
  "ls_build_config \<Rightarrow> 's ls_storage_backend \<Rightarrow> nat \<Rightarrow> ('s, 't) spool_rt \<Rightarrow>
   ls_result option \<times> ('s, 't) spool_rt" where
  "drop_corrupt cfg d slot rt =
     (case on_store (acknowledge_record cfg d slot)
             (rt\<lparr>spool_corrupt_records := spool_corrupt_records rt + 1\<rparr>) of
        (result, rt1) \<Rightarrow> (if result \<noteq> LS_OK then Some result else None, rt1))"

definition deliver_record ::
  "ls_build_config \<Rightarrow> 's ls_storage_backend \<Rightarrow> (tptr \<Rightarrow> 't ls_transport_backend) \<Rightarrow> nat \<Rightarrow> spool_record \<Rightarrow>
   u32 \<Rightarrow> bytes \<Rightarrow> ('s, 't) spool_rt \<Rightarrow> ls_result option \<times> ('s, 't) spool_rt" where
  "deliver_record cfg d heap slot selected event_id data rt =
     (case on_net (ls_transport_select cfg heap (rt_transports rt)
                     (priority_of_code (unat (sr_priority selected))) (unat (sr_length selected))) rt of
        (None, rt1) \<Rightarrow> (Some LS_EAGAIN, rt1)
      | (Some p, rt1) \<Rightarrow>
          (case and_then (on_net (fault_point ''spool.before_send'') rt1)
                  (rt_transport_send heap p event_id data) of
             (result, rt2) \<Rightarrow>
               if result \<noteq> LS_OK
               then (case increment_retries cfg d slot (sr_retry_bits selected)
                            (rt2\<lparr>spool_transport_failures := spool_transport_failures rt2 + 1\<rparr>) of
                       (retry_result, rt3) \<Rightarrow>
                         (Some (if retry_result = LS_OK then result else retry_result), rt3))
               else (case and_then (on_net (fault_point ''spool.before_ack'') rt2)
                            (on_store (acknowledge_record cfg d slot)) of
                       (result, rt3) \<Rightarrow> (if result \<noteq> LS_OK then Some result else None, rt3))))"

definition flush_record ::
  "ls_build_config \<Rightarrow> 's ls_storage_backend \<Rightarrow> (tptr \<Rightarrow> 't ls_transport_backend) \<Rightarrow> nat \<Rightarrow> spool_record \<Rightarrow>
   ('s, 't) spool_rt \<Rightarrow> ls_result option \<times> ('s, 't) spool_rt" where
  "flush_record cfg d heap slot selected rt =
     (case on_store (call_read d (slot_offset cfg slot + SPOOL_RECORD_SIZE) (unat (sr_length selected))) rt of
        ((result, data), rt1) \<Rightarrow>
          if result \<noteq> LS_OK \<or> sr_data_crc selected \<noteq> ls_crc32 data then drop_corrupt cfg d slot rt1
          else (case ls_envelope_validate data of
                  Inl _ \<Rightarrow> drop_corrupt cfg d slot rt1
                | Inr info \<Rightarrow> deliver_record cfg d heap slot selected (ei_event_id info) data rt1))"

fun flush_passes ::
  "ls_build_config \<Rightarrow> 's ls_storage_backend \<Rightarrow> (tptr \<Rightarrow> 't ls_transport_backend) \<Rightarrow> nat \<Rightarrow>
   ('s, 't) spool_rt \<Rightarrow> ls_result \<times> ('s, 't) spool_rt" where
  "flush_passes cfg d heap 0 rt = reclaim_if_drained cfg d rt"
| "flush_passes cfg d heap (Suc passes) rt =
     (case on_store (select_record cfg d [0..<LS_SPOOL_MAX_RECORDS cfg] None) rt of
        ((result, selected), rt1) \<Rightarrow>
          if result \<noteq> LS_OK then (result, rt1)
          else (case selected of
                  None \<Rightarrow> reclaim_if_drained cfg d rt1
                | Some (slot, rec) \<Rightarrow>
                    (case flush_record cfg d heap slot rec rt1 of
                       (Some result, rt2) \<Rightarrow> (result, rt2)
                     | (None, rt2) \<Rightarrow> flush_passes cfg d heap passes rt2)))"

definition ls_spool_flush ::
  "ls_build_config \<Rightarrow> 's ls_storage_backend option \<Rightarrow> (tptr \<Rightarrow> 't ls_transport_backend) \<Rightarrow>
   ('s, 't) spool_rt \<Rightarrow> ls_result \<times> ('s, 't) spool_rt" where
  "ls_spool_flush cfg dev heap rt =
     (if \<not> spool_usable cfg dev then (unusable_result dev, rt)
      else flush_passes cfg (the dev) heap (LS_SPOOL_MAX_RECORDS cfg) rt)"

section \<open>Statistics\<close>

record ls_spool_stats =
  st_capacity :: nat
  st_committed :: nat
  st_reserved_critical :: nat
  st_reserved_emergency :: nat
  st_high_watermark :: nat
  st_dropped_records :: u32
  st_corrupt_records :: u32
  st_transport_failures :: u32
  st_retry_saturated :: u32

fun stats_loop ::
  "ls_build_config \<Rightarrow> 's ls_storage_backend \<Rightarrow> nat list \<Rightarrow> nat \<Rightarrow> 's world \<Rightarrow> (ls_result \<times> nat) \<times> 's world" where
  "stats_loop cfg d [] committed w = ((LS_OK, committed), w)"
| "stats_loop cfg d (slot # slots) committed w =
     (case read_record cfg d slot w of
        ((result, rec), w1) \<Rightarrow>
          if result \<noteq> LS_OK then ((result, committed), w1)
          else stats_loop cfg d slots
                 (if record_valid cfg rec \<and> sr_state rec = SPOOL_RECORD_COMMITTED
                  then committed + 1 else committed) w1)"

definition ls_spool_get_stats ::
  "ls_build_config \<Rightarrow> 's ls_storage_backend option \<Rightarrow> ('s, 't) spool_rt \<Rightarrow>
   (ls_result \<times> ls_spool_stats) \<times> ('s, 't) spool_rt" where
  "ls_spool_get_stats cfg dev rt =
     (let stats = \<lparr>st_capacity = LS_SPOOL_MAX_RECORDS cfg, st_committed = 0,
                   st_reserved_critical = LS_SPOOL_RESERVED_CRITICAL cfg,
                   st_reserved_emergency = LS_SPOOL_RESERVED_EMERGENCY cfg,
                   st_high_watermark = spool_high_watermark rt,
                   st_dropped_records = spool_dropped_records rt,
                   st_corrupt_records = spool_corrupt_records rt,
                   st_transport_failures = spool_transport_failures rt,
                   st_retry_saturated = spool_retry_saturated rt\<rparr>
      in if \<not> spool_usable cfg dev then ((unusable_result dev, stats), rt)
         else (case on_store (stats_loop cfg (the dev) [0..<LS_SPOOL_MAX_RECORDS cfg] 0) rt of
                 ((result, committed), rt1) \<Rightarrow>
                   let stats1 = stats\<lparr>st_committed := committed\<rparr>
                   in if result \<noteq> LS_OK then ((result, stats1), rt1)
                      else if committed > st_high_watermark stats1
                      then ((LS_OK, stats1\<lparr>st_high_watermark := committed\<rparr>),
                            rt1\<lparr>spool_high_watermark := committed\<rparr>)
                      else ((LS_OK, stats1), rt1)))"

end
