(* ===== verification/LS_Spool_Safety.thy ===== *)
theory LS_Spool_Safety
  imports LS_Spool
begin

text \<open>
  What the spool promises, whatever fails and wherever power is lost: the queue that the storage
  holds is the map \<open>spool_view\<close> from slots to records, an append adds one record to it or leaves it
  as it is, and a flush removes only records that a transport has taken over. The proofs are
  about any \<open>storage_device\<close>; the properties are stated for the power-loss simulator.
\<close>

declare One_nat_def [simp del]

section \<open>The queue in the storage\<close>

definition slot_record :: "ls_build_config \<Rightarrow> bytes \<Rightarrow> nat \<Rightarrow> spool_record" where
  "slot_record cfg m i = spool_record_parse (bslice (slot_offset cfg i) SPOOL_RECORD_SIZE m)"

definition slot_committed :: "ls_build_config \<Rightarrow> bytes \<Rightarrow> nat \<Rightarrow> bool" where
  "slot_committed cfg m i \<longleftrightarrow>
     record_valid cfg (slot_record cfg m i) \<and> sr_state (slot_record cfg m i) = SPOOL_RECORD_COMMITTED"

definition slot_payload :: "ls_build_config \<Rightarrow> bytes \<Rightarrow> nat \<Rightarrow> bytes" where
  "slot_payload cfg m i =
     bslice (slot_offset cfg i + SPOOL_RECORD_SIZE) (unat (sr_length (slot_record cfg m i))) m"

text \<open>The committed records: priority, sequence number, checksum and payload.\<close>

definition spool_view :: "ls_build_config \<Rightarrow> bytes \<Rightarrow> nat \<Rightarrow> (u8 \<times> u32 \<times> u32 \<times> bytes) option" where
  "spool_view cfg m i =
     (if i < LS_SPOOL_MAX_RECORDS cfg \<and> slot_committed cfg m i
      then Some (sr_priority (slot_record cfg m i), sr_sequence (slot_record cfg m i),
                 sr_data_crc (slot_record cfg m i), slot_payload cfg m i)
      else None)"

section \<open>Layout\<close>

lemma length_spool_record_bytes [simp]: "length (spool_record_bytes r) = 28"
  by (simp add: spool_record_bytes_def)

lemma length_spool_header_bytes [simp]: "length (spool_header_bytes h) = 24"
  by (simp add: spool_header_bytes_def)

text \<open>The bytes of a word put together again.\<close>

lemmas u32_of_bytes = read_u32_le32_Nil [unfolded read_u32_def le32_def, simplified]
lemmas u16_of_bytes = read_u16_le16_Nil [unfolded read_u16_def le16_def, simplified]

lemma spool_record_parse_bytes [simp]: "spool_record_parse (spool_record_bytes r) = r"
  by (simp add: spool_record_parse_def spool_record_bytes_def le32_def le16_def read_u32_def
      read_u16_def u32_of_bytes u16_of_bytes)

lemma spool_header_parse_bytes [simp]: "spool_header_parse (spool_header_bytes h) = h"
  by (simp add: spool_header_parse_def spool_header_bytes_def le32_def le16_def read_u32_def
      read_u16_def u32_of_bytes u16_of_bytes)

lemma ls_spool_storage_size_ge: "ls_spool_storage_size cfg \<noteq> 0 \<Longrightarrow> raw_storage_size cfg \<le> ls_spool_storage_size cfg"
proof -
  assume nz: "ls_spool_storage_size cfg \<noteq> 0"
  define k where "k = raw_storage_size cfg mod LS_STORAGE_MAX_WRITE_SIZE cfg"
  have "k < LS_STORAGE_MAX_WRITE_SIZE cfg \<or> k = raw_storage_size cfg \<and> LS_STORAGE_MAX_WRITE_SIZE cfg = 0"
    by (cases "LS_STORAGE_MAX_WRITE_SIZE cfg = 0") (simp_all add: k_def)
  then show ?thesis
    using nz by (auto simp: ls_spool_storage_size_def Let_def simp flip: k_def split: if_splits)
qed

lemma raw_storage_size_eq:
  "raw_storage_size cfg \<noteq> 0 \<Longrightarrow>
   raw_storage_size cfg = SPOOL_HEADER_SIZE + record_size cfg * LS_SPOOL_MAX_RECORDS cfg"
  by (auto simp: raw_storage_size_def spool_add_size_def split: if_splits)

text \<open>Every slot lies inside a usable storage, and slots do not overlap.\<close>

lemma slot_fits:
  assumes "spool_usable cfg (Some d)" and "i < LS_SPOOL_MAX_RECORDS cfg"
  shows "slot_offset cfg i + record_size cfg \<le> be_capacity d"
proof -
  have sz: "ls_spool_storage_size cfg \<noteq> 0" "ls_spool_storage_size cfg \<le> be_capacity d"
    using assms(1) by (auto simp: spool_usable_def)
  then have "raw_storage_size cfg \<noteq> 0" by (auto simp: ls_spool_storage_size_def Let_def split: if_splits)
  then have raw: "raw_storage_size cfg = SPOOL_HEADER_SIZE + record_size cfg * LS_SPOOL_MAX_RECORDS cfg"
    by (rule raw_storage_size_eq)
  have "Suc i * record_size cfg \<le> LS_SPOOL_MAX_RECORDS cfg * record_size cfg"
    using assms(2) by (intro mult_le_mono1) simp
  then have "i * record_size cfg + record_size cfg \<le> record_size cfg * LS_SPOOL_MAX_RECORDS cfg"
    unfolding mult_Suc by (metis add.commute mult.commute)
  then show ?thesis
    using sz(2) ls_spool_storage_size_ge [OF sz(1)] unfolding raw slot_offset_def by linarith
qed

lemma slots_disjoint:
  assumes "i \<noteq> j"
  shows "slot_offset cfg i + record_size cfg \<le> slot_offset cfg j \<or>
         slot_offset cfg j + record_size cfg \<le> slot_offset cfg i"
proof -
  have *: "slot_offset cfg a + record_size cfg \<le> slot_offset cfg b" if "a < b" for a b
    using mult_le_mono1 [of "Suc a" b "record_size cfg"] that by (simp add: slot_offset_def)
  from assms show ?thesis using * [of i j] * [of j i] by linarith
qed

lemma record_size_ge: "SPOOL_RECORD_SIZE \<le> record_size cfg"
  by (simp add: record_size_def)

text \<open>A slot whose bytes are the same holds the same record.\<close>

lemma slot_record_cong:
  assumes "bslice (slot_offset cfg i) (record_size cfg) m' = bslice (slot_offset cfg i) (record_size cfg) m"
  shows "slot_record cfg m' i = slot_record cfg m i"
  using arg_cong [OF assms, of "bslice 0 SPOOL_RECORD_SIZE"] record_size_ge [of cfg]
  by (simp add: slot_record_def bslice_bslice)

lemma spool_view_cong:
  assumes same: "bslice (slot_offset cfg i) (record_size cfg) m' = bslice (slot_offset cfg i) (record_size cfg) m"
  shows "spool_view cfg m' i = spool_view cfg m i"
proof -
  note rec = slot_record_cong [OF same]
  have "slot_payload cfg m' i = slot_payload cfg m i" if "slot_committed cfg m i"
  proof -
    have "SPOOL_RECORD_SIZE + unat (sr_length (slot_record cfg m i)) \<le> record_size cfg"
      using that by (simp add: slot_committed_def record_valid_def record_size_def)
    then show ?thesis
      using arg_cong [OF same, of "bslice SPOOL_RECORD_SIZE (unat (sr_length (slot_record cfg m i)))"]
      by (simp add: slot_payload_def rec bslice_bslice)
  qed
  then show ?thesis by (simp add: spool_view_def slot_committed_def rec)
qed

section \<open>Appending\<close>

lemma ls_seq_cases:
  assumes "ls_seq (f # fs) w = (r, w')"
  obtains (error) "f w = (r, w')" "r \<noteq> LS_OK" | (ok) w1 where "f w = (LS_OK, w1)" "ls_seq fs w1 = (r, w')"
  using assms by (cases "f w") (auto simp: and_then_def split: if_splits)

lemma ls_seq_NilD: "ls_seq [] w = (r, w') \<Longrightarrow> r = LS_OK \<and> w' = w"
  by simp

context storage_device
begin

lemma sync_step: "call_sync dev w = (r, w') \<Longrightarrow> inv (ctx w) \<Longrightarrow> inv (ctx w') \<and> mem (ctx w') = mem (ctx w)"
  using sync_law by blast

lemma program_byte_effect:
  assumes "ls_storage_program cfg dev off [b] w = (r, w')" and "inv (ctx w)" and "off < be_capacity dev"
  shows "inv (ctx w') \<and> (mem (ctx w') = mem (ctx w) \<or> mem (ctx w') = overwrite off [b] (mem (ctx w))) \<and>
    (r = LS_OK \<longrightarrow> mem (ctx w') = overwrite off [b] (mem (ctx w)))"
  using program_effects [OF assms(1,2)] assms(3) torn_single [of "mem (ctx w)" off b "mem (ctx w')"]
    mem_length [OF assms(2)]
  by simp

text \<open>A commit byte: a fault point, one programmed byte, a sync.\<close>

lemma commit_byte_effect:
  assumes "ls_seq [fault_point name, ls_storage_program cfg dev off [b], call_sync dev] w = (r, w')"
    and "inv (ctx w)" and "off < be_capacity dev"
  shows "inv (ctx w') \<and> (mem (ctx w') = mem (ctx w) \<or> mem (ctx w') = overwrite off [b] (mem (ctx w))) \<and>
    (r = LS_OK \<longrightarrow> mem (ctx w') = overwrite off [b] (mem (ctx w)))"
  using assms(1)
proof (cases rule: ls_seq_cases)
  case error
  then show ?thesis using assms(2) by (auto dest: fault_point_ctxD)
next
  case (ok w1)
  have c: "ctx w1 = ctx w" using ok(1) by (rule fault_point_ctxD)
  from ok(2) show ?thesis
  proof (cases rule: ls_seq_cases)
    case error
    then show ?thesis using program_byte_effect [OF error(1)] assms(2,3) c by simp
  next
    case (ok w2)
    note p = program_byte_effect [OF ok(1)]
    from ok(2) show ?thesis
      using p assms(2,3) c by (cases rule: ls_seq_cases) (auto dest: sync_step)
  qed
qed

text \<open>The three stages of writing a record: what the storage may hold when it stops.\<close>

lemma append_steps_effect:
  assumes "append_steps cfg dev off rec data w = (r, w')" and "inv (ctx w)"
    and fit: "off + SPOOL_RECORD_SIZE + length data \<le> be_capacity dev"
  defines "m \<equiv> mem (ctx w)" and "m' \<equiv> mem (ctx w')"
  defines "mh \<equiv> overwrite off (spool_record_bytes rec) m"
  defines "mp \<equiv> overwrite (off + SPOOL_RECORD_SIZE) data mh"
  defines "mc \<equiv> overwrite (off + SPOOL_STATE_OFFSET) [SPOOL_RECORD_COMMITTED] mp"
  shows "inv (ctx w') \<and> (torn m mh m' \<or> torn mh mp m' \<or> m' = mc) \<and> (r = LS_OK \<longrightarrow> m' = mc)"
proof -
  have len: "length m = be_capacity dev" using mem_length [OF assms(2)] by (simp add: m_def)
  have steps: "ls_seq (fault_point ''spool.before_header'' #
      [ls_storage_program cfg dev off (spool_record_bytes rec), fault_point ''spool.before_payload'',
       ls_storage_program cfg dev (off + SPOOL_RECORD_SIZE) data, call_sync dev,
       fault_point ''spool.before_commit'',
       ls_storage_program cfg dev (off + SPOOL_STATE_OFFSET) [SPOOL_RECORD_COMMITTED], call_sync dev]) w = (r, w')"
    using assms(1) by (simp add: append_steps_def)
  have fit1: "off + length (spool_record_bytes rec) \<le> be_capacity dev" "off + SPOOL_STATE_OFFSET < be_capacity dev"
    using fit by (simp_all add: spool_layout)
  from steps show ?thesis
  proof (cases rule: ls_seq_cases)
    case error
    then show ?thesis using assms(2) by (auto dest: fault_point_ctxD simp: m'_def m_def)
  next
    case (ok w1)
    have c1: "ctx w1 = ctx w" using ok(1) by (rule fault_point_ctxD)
    from ok(2) show ?thesis
    proof (cases rule: ls_seq_cases)
      case error
      then show ?thesis using program_effects [OF error(1)] fit1 assms(2) c1 by (simp add: mh_def m_def m'_def)
    next
      case (ok w2)
      have w2: "inv (ctx w2)" "mem (ctx w2) = mh"
        using program_effects [OF ok(1)] fit1 assms(2) c1 by (simp_all add: mh_def m_def)
      from ok(2) show ?thesis
      proof (cases rule: ls_seq_cases)
        case error
        then show ?thesis using w2 by (auto dest: fault_point_ctxD simp: m'_def)
      next
        case (ok w3)
        have c3: "ctx w3 = ctx w2" using ok(1) by (rule fault_point_ctxD)
        from ok(2) show ?thesis
        proof (cases rule: ls_seq_cases)
          case error
          then show ?thesis
            using program_effects [OF error(1)] fit w2 c3 by (simp add: mp_def m'_def add.assoc)
        next
          case (ok w4)
          have w4: "inv (ctx w4)" "mem (ctx w4) = mp"
            using program_effects [OF ok(1)] fit w2 c3 by (simp_all add: mp_def add.assoc)
          have mp: "torn mh mp mp"
            using fit1 fit len by (intro torn_new) (simp add: mp_def mh_def)
          from ok(2) show ?thesis
          proof (cases rule: ls_seq_cases)
            case error
            then show ?thesis using sync_step [OF error(1) w4(1)] w4 mp by (simp add: m'_def)
          next
            case (ok w5)
            then show ?thesis
              using sync_step [OF ok(1) w4(1)] commit_byte_effect [OF ok(2)] fit1(2) w4 mp
              by (auto simp: m'_def mc_def)
          qed
        qed
      qed
    qed
  qed
qed

end

section \<open>The queue after an append\<close>

text \<open>The appended record with its commit byte.\<close>

lemma spool_record_bytes_state:
  "spool_record_bytes (rec\<lparr>sr_state := b\<rparr>) = overwrite SPOOL_STATE_OFFSET [b] (spool_record_bytes rec)"
  by (simp add: spool_record_bytes_def overwrite_def spool_layout le32_def le16_def)

lemma spool_record_crc_cong:
  "sr_magic r = sr_magic q \<Longrightarrow> sr_version r = sr_version q \<Longrightarrow> sr_length r = sr_length q \<Longrightarrow>
   sr_sequence r = sr_sequence q \<Longrightarrow> sr_data_crc r = sr_data_crc q \<Longrightarrow> sr_priority r = sr_priority q \<Longrightarrow>
   sr_event_type r = sr_event_type q \<Longrightarrow> sr_reserved r = sr_reserved q \<Longrightarrow>
   spool_record_crc r = spool_record_crc q"
  by (simp add: spool_record_crc_def spool_record_bytes_def le32_def le16_def)

lemma spool_record_crc_state [simp]: "spool_record_crc (rec\<lparr>sr_state := b\<rparr>) = spool_record_crc rec"
  by (rule spool_record_crc_cong) simp_all

lemma record_valid_state [simp]: "record_valid cfg (rec\<lparr>sr_state := b\<rparr>) = record_valid cfg rec"
  by (simp add: record_valid_def)

lemma new_spool_record_valid:
  assumes "0 < length data" and "length data \<le> LS_MAX_EVENT_SIZE cfg" and "length data \<le> UINT16_MAX"
  shows "record_valid cfg (new_spool_record data priority info) \<longleftrightarrow>
    LS_EVENT_CRASH \<le> ei_type info \<and> ei_type info \<le> LS_EVENT_COREDUMP"
proof -
  have len: "unat (of_nat (length data) :: u16) = length data"
    using assms(3) by (rule unat_of_nat_u16)
  then have "(of_nat (length data) :: u16) > 0"
    using assms(1) by (simp add: word_less_nat_alt)
  moreover have "unat (of_nat (priority_code priority) :: u8) \<le> 4"
    by (cases priority) simp_all
  moreover have "sr_header_crc (new_spool_record data priority info) =
      spool_record_crc (new_spool_record data priority info)"
    unfolding new_spool_record_def Let_def by simp (rule spool_record_crc_cong; simp)
  ultimately show ?thesis
    using assms len unfolding record_valid_def by (simp add: new_spool_record_def Let_def)
qed

lemma slot_state: "slot_offset cfg k + 28 \<le> length m \<Longrightarrow> sr_state (slot_record cfg m k) = m ! (slot_offset cfg k + 24)"
  by (simp add: slot_record_def spool_record_parse_def spool_layout)

text \<open>A slot whose state byte is not the commit value holds nothing.\<close>

lemma spool_view_uncommitted:
  assumes "slot_offset cfg k + 28 \<le> length m" and "m ! (slot_offset cfg k + 24) \<noteq> SPOOL_RECORD_COMMITTED"
  shows "spool_view cfg m k = None"
  using assms by (simp add: spool_view_def slot_committed_def slot_state)

lemma spool_view_committed:
  assumes k: "k < LS_SPOOL_MAX_RECORDS cfg" and fit: "slot_offset cfg k + 28 + length data \<le> length m"
    and valid: "record_valid cfg rec" and len: "unat (sr_length rec) = length data"
  shows "spool_view cfg
      (overwrite (slot_offset cfg k + SPOOL_STATE_OFFSET) [SPOOL_RECORD_COMMITTED]
        (overwrite (slot_offset cfg k + SPOOL_RECORD_SIZE) data
          (overwrite (slot_offset cfg k) (spool_record_bytes rec) m))) k =
    Some (sr_priority rec, sr_sequence rec, sr_data_crc rec, data)"
proof -
  let ?o = "slot_offset cfg k"
  let ?mh = "overwrite ?o (spool_record_bytes rec) m"
  let ?mp = "overwrite (?o + SPOOL_RECORD_SIZE) data ?mh"
  let ?mc = "overwrite (?o + SPOOL_STATE_OFFSET) [SPOOL_RECORD_COMMITTED] ?mp"
  have "bslice ?o SPOOL_RECORD_SIZE ?mp = spool_record_bytes rec"
    using fit by (subst bslice_overwrite_disjoint) (simp_all add: spool_layout)
  moreover have "bslice ?o SPOOL_RECORD_SIZE ?mc =
      overwrite SPOOL_STATE_OFFSET [SPOOL_RECORD_COMMITTED] (bslice ?o SPOOL_RECORD_SIZE ?mp)"
    using fit by (subst bslice_overwrite_around) (simp_all add: spool_layout)
  ultimately have rec: "slot_record cfg ?mc k = rec\<lparr>sr_state := SPOOL_RECORD_COMMITTED\<rparr>"
    unfolding slot_record_def by (simp flip: spool_record_bytes_state)
  have "bslice (?o + SPOOL_RECORD_SIZE) (length data) ?mc = data"
    using fit by (subst bslice_overwrite_disjoint) (simp_all add: spool_layout)
  then show ?thesis
    using k valid len by (simp add: spool_view_def slot_committed_def slot_payload_def rec)
qed

lemma torn_slot_frame:
  assumes "torn m (overwrite off src m) m'" and "off + length src \<le> length m"
    and "slot_offset cfg k \<le> off" and "off + length src \<le> slot_offset cfg k + record_size cfg" and "i \<noteq> k"
  shows "spool_view cfg m' i = spool_view cfg m i"
  using slots_disjoint [OF assms(5), of cfg] assms(2-4)
  by (intro spool_view_cong torn_overwrite_frame [OF assms(1)]) auto

context storage_device
begin

text \<open>An append of a record to an empty slot, whatever happens on the way, adds the record to the
  queue or leaves the queue as it is.\<close>

lemma append_steps_view:
  assumes app: "append_steps cfg dev (slot_offset cfg k) rec data w = (r, w')" and "inv (ctx w)"
    and use: "spool_usable cfg (Some dev)" and k: "k < LS_SPOOL_MAX_RECORDS cfg"
    and len: "length data \<le> LS_MAX_EVENT_SIZE cfg" "unat (sr_length rec) = length data"
    and rec: "record_valid cfg rec" "sr_state rec = 0xff"
    and erased: "\<forall>i<28. mem (ctx w) ! (slot_offset cfg k + i) = 0xff"
  defines "v \<equiv> spool_view cfg (mem (ctx w))"
  defines "v' \<equiv> v(k \<mapsto> (sr_priority rec, sr_sequence rec, sr_data_crc rec, data))"
  shows "inv (ctx w') \<and> v k = None \<and> spool_view cfg (mem (ctx w')) \<in> {v, v'} \<and>
    (r = LS_OK \<longrightarrow> spool_view cfg (mem (ctx w')) = v')"
proof -
  let ?o = "slot_offset cfg k" and ?m = "mem (ctx w)" and ?m' = "mem (ctx w')"
  let ?mh = "overwrite ?o (spool_record_bytes rec) ?m"
  let ?mp = "overwrite (?o + SPOOL_RECORD_SIZE) data ?mh"
  let ?mc = "overwrite (?o + SPOOL_STATE_OFFSET) [SPOOL_RECORD_COMMITTED] ?mp"
  have slot: "?o + record_size cfg \<le> be_capacity dev" by (rule slot_fits [OF use k])
  have mlen: "length ?m = be_capacity dev" using assms(2) by (rule mem_length)
  have fit: "?o + SPOOL_RECORD_SIZE + length data \<le> length ?m" "?o + 28 + length data \<le> length ?m"
    "?o + 28 + length data \<le> ?o + record_size cfg"
    using slot mlen len(1) by (simp_all add: record_size_def spool_layout)
  note eff = append_steps_effect [OF app assms(2) fit(1) [unfolded mlen]]
  have state_m: "?m ! (?o + 24) = 0xff" using erased by simp
  have "spool_record_bytes rec ! 24 = 0xff"
    using arg_cong [OF spool_record_parse_bytes, of sr_state rec] rec(2) by (simp add: spool_record_parse_def)
  then have state_h: "?mh ! (?o + 24) = 0xff" "?mp ! (?o + 24) = 0xff"
    using fit by (simp_all add: nth_overwrite spool_layout)
  have other: "spool_view cfg m1 i = spool_view cfg m0 i"
    if "torn m0 (overwrite off src m0) m1" "i \<noteq> k" "?o \<le> off" "off + length src \<le> ?o + 28 + length data"
      "length m0 = length ?m" for m0 m1 off src i
    using torn_slot_frame [OF that(1) _ that(3) _ that(2)] that(4,5) fit by simp
  have empty: "spool_view cfg m0 k = None" if "length m0 = length ?m" "m0 ! (?o + 24) = 0xff" for m0
    using spool_view_uncommitted [of cfg k m0] that fit by (simp add: SPOOL_RECORD_COMMITTED_def)
  have vk: "v k = None" using empty [of ?m] state_m by (simp add: v_def)
  have lens: "length ?mh = length ?m" "length ?mp = length ?m" "length ?mc = length ?m"
    using fit by (simp_all add: spool_layout)
  have h: "spool_view cfg m0 i = v i" if "torn ?m ?mh m0" for m0 i
  proof (cases "i = k")
    case True
    have "m0 ! (?o + 24) = 0xff" using torn_nth [OF that, of "?o + 24"] fit(2) state_m state_h by auto
    then show ?thesis using True empty torn_length [OF that] vk by simp
  next
    case False
    then show ?thesis using other [OF that False] by (simp add: v_def)
  qed
  have p: "spool_view cfg m0 i = v i" if "torn ?mh ?mp m0" for m0 i
  proof (cases "i = k")
    case True
    have "m0 ! (?o + 24) = 0xff" using torn_nth [OF that, of "?o + 24"] fit(2) lens state_h by auto
    then show ?thesis using True empty torn_length [OF that] lens vk by simp
  next
    case False
    then have "spool_view cfg m0 i = spool_view cfg ?mh i"
      using other [OF that False] lens by (simp add: spool_layout)
    then show ?thesis using h [OF torn_new] lens by simp
  qed
  have c: "spool_view cfg ?mc i = v' i" for i
  proof (cases "i = k")
    case True
    then show ?thesis
      using spool_view_committed [OF k fit(2) rec(1) len(2)] by (simp add: v'_def)
  next
    case False
    have "spool_view cfg ?mc i = spool_view cfg ?mp i"
      by (rule other [OF torn_new False]) (use lens in \<open>simp_all add: spool_layout\<close>)
    then show ?thesis using p [OF torn_new] lens False by (simp add: v'_def)
  qed
  show ?thesis using eff vk h p c by auto
qed

lemma find_empty_loop_effect:
  assumes "1 \<le> LS_STORAGE_MAX_WRITE_SIZE cfg"
  shows "find_empty_loop cfg dev slots w = ((r, k), w') \<Longrightarrow> inv (ctx w) \<Longrightarrow>
    inv (ctx w') \<and> mem (ctx w') = mem (ctx w) \<and>
    (r = LS_OK \<longrightarrow> k \<in> set slots \<and> (\<forall>i<28. mem (ctx w) ! (slot_offset cfg k + i) = 0xff))"
proof (induction slots arbitrary: w)
  case Nil
  then show ?case by simp
next
  case (Cons slot slots)
  obtain r1 e w1 where e: "ls_storage_is_erased cfg dev (slot_offset cfg slot) SPOOL_RECORD_SIZE w = ((r1, e), w1)"
    by (metis prod.exhaust)
  note eff = is_erased_effect [OF e Cons.prems(2) assms]
  show ?case
    using Cons.prems(1) e eff Cons.IH [of w1] by (auto simp: spool_layout split: if_splits)
qed

lemma read_record_effect:
  assumes "read_record cfg dev slot w = ((r, rec), w')" and "inv (ctx w)"
    and "spool_usable cfg (Some dev)" and "slot < LS_SPOOL_MAX_RECORDS cfg"
  shows "inv (ctx w') \<and> mem (ctx w') = mem (ctx w) \<and> (r = LS_OK \<longrightarrow> rec = slot_record cfg (mem (ctx w)) slot)"
proof -
  obtain b where b: "call_read dev (slot_offset cfg slot) SPOOL_RECORD_SIZE w = ((r, b), w')" "rec = spool_record_parse b"
    using assms(1) by (auto simp: read_record_def split: prod.splits)
  have "slot_offset cfg slot + SPOOL_RECORD_SIZE \<le> be_capacity dev"
    using slot_fits [OF assms(3,4)] record_size_ge [of cfg] by simp
  then show ?thesis using read_law [OF assms(2) _ b(1)] b(2) by (auto simp: slot_record_def)
qed

lemma count_committed_effect:
  assumes "spool_usable cfg (Some dev)"
  shows "count_committed cfg dev slots n w = (n', w') \<Longrightarrow> inv (ctx w) \<Longrightarrow>
    set slots \<subseteq> {..<LS_SPOOL_MAX_RECORDS cfg} \<Longrightarrow> inv (ctx w') \<and> mem (ctx w') = mem (ctx w)"
proof (induction slots arbitrary: n w)
  case Nil
  then show ?case by simp
next
  case (Cons slot slots)
  obtain r rec w1 where rr: "read_record cfg dev slot w = ((r, rec), w1)" by (metis prod.exhaust)
  have "inv (ctx w1) \<and> mem (ctx w1) = mem (ctx w)"
    using read_record_effect [OF rr Cons.prems(2) assms] Cons.prems(3) by simp
  then show ?case
    using Cons.prems rr Cons.IH [of "if record_valid cfg rec \<and> sr_state rec = SPOOL_RECORD_COMMITTED then n + 1 else n" w1]
    by (auto split: if_splits)
qed

end

lemma on_storeD:
  assumes "on_store f rt = (r, rt')"
  obtains w' where "f \<lparr>faults = rt_faults rt, ctx = rt_store rt\<rparr> = (r, w')"
    "rt' = rt\<lparr>rt_faults := faults w', rt_store := ctx w'\<rparr>"
  using assms by (auto simp: on_store_def split: prod.splits)

lemma slot_limit_le: "slot_limit_for_priority cfg priority \<le> LS_SPOOL_MAX_RECORDS cfg"
  by (simp add: slot_limit_for_priority_def)

context storage_device
begin

lemma update_watermark_effect:
  assumes "spool_usable cfg (Some dev)" and "inv (rt_store rt)"
  shows "inv (rt_store (update_watermark cfg dev rt)) \<and>
    mem (rt_store (update_watermark cfg dev rt)) = mem (rt_store rt)"
proof -
  obtain n rt1 where s: "on_store (count_committed cfg dev [0..<LS_SPOOL_MAX_RECORDS cfg] 0) rt = (n, rt1)"
    by (metis prod.exhaust)
  from s obtain w' where w': "count_committed cfg dev [0..<LS_SPOOL_MAX_RECORDS cfg] 0
      \<lparr>faults = rt_faults rt, ctx = rt_store rt\<rparr> = (n, w')"
    "rt1 = rt\<lparr>rt_faults := faults w', rt_store := ctx w'\<rparr>"
    by (rule on_storeD)
  show ?thesis
    using count_committed_effect [OF assms(1) w'(1)] assms(2) s w'(2) by (auto simp: update_watermark_def atLeast0LessThan)
qed

lemma spool_append_effect:
  assumes app: "ls_spool_append cfg (Some dev) (Some data) priority rt = (res, rt')"
    and "inv (rt_store rt)" and "1 \<le> LS_STORAGE_MAX_WRITE_SIZE cfg" and "length data \<le> UINT16_MAX"
    and type: "\<And>info. ls_envelope_validate data = Inr info \<Longrightarrow>
      LS_EVENT_CRASH \<le> ei_type info \<and> ei_type info \<le> LS_EVENT_COREDUMP"
  defines "v \<equiv> spool_view cfg (mem (rt_store rt))" and "v' \<equiv> spool_view cfg (mem (rt_store rt'))"
  shows "inv (rt_store rt') \<and>
    (res \<noteq> LS_OK \<and> v' = v \<or>
     spool_usable cfg (Some dev) \<and>
     (\<exists>k info. k < slot_limit_for_priority cfg priority \<and> v k = None \<and> ls_envelope_validate data = Inr info \<and>
       v' = v(k \<mapsto> (of_nat (priority_code priority), ei_sequence info, ls_crc32 data, data))))"
proof (cases "data \<noteq> [] \<and> length data \<le> LS_MAX_EVENT_SIZE cfg \<and> spool_usable cfg (Some dev) \<and>
    (\<exists>info. ls_envelope_validate data = Inr info)")
  case False
  then show ?thesis
    using app assms(2) by (auto simp: ls_spool_append_def unusable_result_def v_def v'_def split: if_splits sum.splits)
next
  case True
  then obtain info where info: "ls_envelope_validate data = Inr info" by blast
  note use = True [THEN conjunct2, THEN conjunct2, THEN conjunct1]
  obtain r1 k rt1 where f: "on_store (find_empty_slot cfg dev priority) rt = ((r1, k), rt1)" by (metis prod.exhaust)
  from f obtain w1 where w1: "find_empty_slot cfg dev priority \<lparr>faults = rt_faults rt, ctx = rt_store rt\<rparr> = ((r1, k), w1)"
    "rt1 = rt\<lparr>rt_faults := faults w1, rt_store := ctx w1\<rparr>"
    by (rule on_storeD)
  note find = find_empty_loop_effect [OF assms(3) w1(1) [unfolded find_empty_slot_def]]
  show ?thesis
  proof (cases "r1 = LS_OK")
    case False
    then show ?thesis
      using app True info f find w1(2) assms(2) by (auto simp: ls_spool_append_def v_def v'_def)
  next
    case ok: True
    then have k: "k < slot_limit_for_priority cfg priority" "\<forall>i<28. mem (ctx w1) ! (slot_offset cfg k + i) = 0xff"
      and m1: "inv (ctx w1)" "mem (ctx w1) = mem (rt_store rt)"
      using find assms(2) by auto
    let ?rec = "new_spool_record data priority info"
    obtain r2 rt2 where a: "on_store (append_steps cfg dev (slot_offset cfg k) ?rec data) rt1 = (r2, rt2)"
      by (metis prod.exhaust)
    from a obtain w2 where w2: "append_steps cfg dev (slot_offset cfg k) ?rec data \<lparr>faults = rt_faults rt1, ctx = rt_store rt1\<rparr> = (r2, w2)"
      "rt2 = rt1\<lparr>rt_faults := faults w2, rt_store := ctx w2\<rparr>"
      by (rule on_storeD)
    have valid: "record_valid cfg ?rec"
      using True assms(4) type [OF info] by (subst new_spool_record_valid) auto
    have len: "unat (sr_length ?rec) = length data"
      using assms(4) by (simp add: new_spool_record_def Let_def unat_of_nat_u16)
    note eff = append_steps_view [OF w2(1) _ use _ _ len valid]
    have res: "res = r2" "rt' = (if r2 = LS_OK then update_watermark cfg dev rt2 else rt2)"
      using app True info f ok a by (auto simp: ls_spool_append_def)
    have fields: "sr_state ?rec = 0xff" "sr_priority ?rec = of_nat (priority_code priority)"
      "sr_sequence ?rec = ei_sequence info" "sr_data_crc ?rec = ls_crc32 data"
      by (simp_all add: new_spool_record_def Let_def)
    have "inv (ctx w2) \<and> v k = None \<and> (spool_view cfg (mem (ctx w2)) = v \<and> r2 \<noteq> LS_OK \<or>
        spool_view cfg (mem (ctx w2)) = v(k \<mapsto> (of_nat (priority_code priority), ei_sequence info, ls_crc32 data, data)))"
      using eff k m1 True w1(2) fields slot_limit_le [of cfg priority] by (auto simp: v_def)
    moreover have "inv (rt_store rt') \<and> mem (rt_store rt') = mem (ctx w2)" if "inv (ctx w2)"
      using res w2(2) update_watermark_effect [OF use, of rt2] that by auto
    ultimately show ?thesis
      using res(1) k(1) info use by (auto simp: v'_def)
  qed
qed

end

section \<open>Single bytes of a slot\<close>

lemma slot_byte_other:
  assumes "c < 28" and "slot_offset cfg k + 28 \<le> length m" and "i \<noteq> k"
  shows "spool_view cfg (overwrite (slot_offset cfg k + c) [b] m) i = spool_view cfg m i"
  by (rule torn_slot_frame [OF torn_new, of _ _ _ cfg k])
    (use assms record_size_ge [of cfg] in \<open>simp_all add: spool_layout\<close>)

lemma slot_state_cleared:
  assumes "slot_offset cfg k + 28 \<le> length m"
  shows "spool_view cfg (overwrite (slot_offset cfg k + SPOOL_STATE_OFFSET) [SPOOL_RECORD_ACKED] m) =
    (spool_view cfg m)(k := None)"
proof
  fix i
  show "spool_view cfg (overwrite (slot_offset cfg k + SPOOL_STATE_OFFSET) [SPOOL_RECORD_ACKED] m) i =
      ((spool_view cfg m)(k := None)) i"
    using assms slot_byte_other [of SPOOL_STATE_OFFSET cfg k m i]
      spool_view_uncommitted [of cfg k "overwrite (slot_offset cfg k + SPOOL_STATE_OFFSET) [SPOOL_RECORD_ACKED] m"]
    by (auto simp: nth_overwrite spool_layout SPOOL_RECORD_ACKED_def SPOOL_RECORD_COMMITTED_def)
qed

text \<open>The retry byte is not part of what is protected or delivered.\<close>

lemma slot_record_retry:
  assumes "slot_offset cfg k + 28 \<le> length m"
  shows "slot_record cfg (overwrite (slot_offset cfg k + SPOOL_RETRY_OFFSET) [b] m) k =
    (slot_record cfg m k)\<lparr>sr_retry_bits := b\<rparr>"
proof -
  let ?x = "bslice (slot_offset cfg k) 28 m"
  have "bslice (slot_offset cfg k) 28 (overwrite (slot_offset cfg k + 25) [b] m) = overwrite 25 [b] ?x"
    using assms by (subst bslice_overwrite_around) simp_all
  moreover have "length ?x = 28" using assms by simp
  ultimately show ?thesis
    by (simp add: slot_record_def spool_record_parse_def spool_layout read_u32_def read_u16_def nth_overwrite)
qed

lemma slot_retry_view:
  assumes "slot_offset cfg k + 28 \<le> length m"
  shows "spool_view cfg (overwrite (slot_offset cfg k + SPOOL_RETRY_OFFSET) [b] m) = spool_view cfg m"
proof
  fix i
  let ?m' = "overwrite (slot_offset cfg k + SPOOL_RETRY_OFFSET) [b] m"
  note rec = slot_record_retry [OF assms, of b]
  have crc: "spool_record_crc ((slot_record cfg m k)\<lparr>sr_retry_bits := b\<rparr>) = spool_record_crc (slot_record cfg m k)"
    by (rule spool_record_crc_cong) simp_all
  have "slot_payload cfg ?m' k = slot_payload cfg m k"
    unfolding slot_payload_def rec using assms
    by simp (rule bslice_overwrite_disjoint; simp add: spool_layout)
  then have "spool_view cfg ?m' k = spool_view cfg m k"
    by (simp add: spool_view_def slot_committed_def rec record_valid_def crc)
  then show "spool_view cfg ?m' i = spool_view cfg m i"
    using slot_byte_other [of SPOOL_RETRY_OFFSET cfg k m i b] assms by (cases "i = k") (auto simp: spool_layout)
qed

section \<open>Draining\<close>

text \<open>A record whose payload is intact and parses, and the records a step keeps or hands over.\<close>

fun record_good :: "u8 \<times> u32 \<times> u32 \<times> bytes \<Rightarrow> bool" where
  "record_good (p, s, c, d) \<longleftrightarrow> c = ls_crc32 d \<and> (\<exists>info. ls_envelope_validate d = Inr info)"

definition retained ::
  "(nat \<Rightarrow> (u8 \<times> u32 \<times> u32 \<times> bytes) option) \<Rightarrow> (nat \<Rightarrow> (u8 \<times> u32 \<times> u32 \<times> bytes) option) \<Rightarrow> bytes set \<Rightarrow> bool" where
  "retained v v' D \<longleftrightarrow>
     (\<forall>i p s c d. v i = Some (p, s, c, d) \<and> record_good (p, s, c, d) \<longrightarrow> v' i = Some (p, s, c, d) \<or> d \<in> D)"

lemma retainedD:
  "retained v v' D \<Longrightarrow> v i = Some (p, s, c, d) \<Longrightarrow> record_good (p, s, c, d) \<Longrightarrow> v' i = Some (p, s, c, d) \<or> d \<in> D"
  unfolding retained_def by blast

lemma retained_same: "retained v v D"
  by (simp add: retained_def)

lemma retained_trans: "retained v v1 D1 \<Longrightarrow> retained v1 v2 D2 \<Longrightarrow> D1 \<subseteq> D2 \<Longrightarrow> retained v v2 D2"
  unfolding retained_def by blast

lemma retained_drop: "v k = Some (p, s, c, d) \<Longrightarrow> d \<in> D \<Longrightarrow> retained v (v(k := None)) D"
  by (auto simp: retained_def)

lemma on_netD:
  assumes "on_net f rt = (r, rt')"
  obtains w' where "f \<lparr>faults = rt_faults rt, ctx = rt_net rt\<rparr> = (r, w')"
    "rt' = rt\<lparr>rt_faults := faults w', rt_net := ctx w'\<rparr>"
  using assms by (auto simp: on_net_def split: prod.splits)

lemma on_net_fault: "on_net (fault_point name) rt = (r, rt') \<Longrightarrow> \<exists>f. rt' = rt\<lparr>rt_faults := f\<rparr>"
  by (erule on_netD) (drule fault_point_ctxD, auto)

context storage_device
begin

lemma slot_header_fits:
  assumes "spool_usable cfg (Some dev)" and "k < LS_SPOOL_MAX_RECORDS cfg" and "inv s"
  shows "slot_offset cfg k + 28 \<le> length (mem s)" and "slot_offset cfg k + 28 \<le> be_capacity dev"
  using slot_fits [OF assms(1,2)] record_size_ge [of cfg] mem_length [OF assms(3)] by (simp_all add: spool_layout)

lemma acknowledge_view:
  assumes "acknowledge_record cfg dev k w = (r, w')" and "inv (ctx w)"
    and "spool_usable cfg (Some dev)" and "k < LS_SPOOL_MAX_RECORDS cfg"
  defines "v \<equiv> spool_view cfg (mem (ctx w))"
  shows "inv (ctx w') \<and> spool_view cfg (mem (ctx w')) \<in> {v, v(k := None)} \<and>
    (r = LS_OK \<longrightarrow> spool_view cfg (mem (ctx w')) = v(k := None))"
proof -
  note fit = slot_header_fits [OF assms(3,4,2)]
  note cleared = slot_state_cleared [OF fit(1)]
  have seq: "ls_seq [set_record_state cfg dev k SPOOL_RECORD_ACKED, call_sync dev] w = (r, w')"
    using assms(1) by (simp add: acknowledge_record_def)
  from seq show ?thesis
  proof (cases rule: ls_seq_cases)
    case error
    then show ?thesis
      using program_byte_effect [of cfg "slot_offset cfg k + SPOOL_STATE_OFFSET" SPOOL_RECORD_ACKED w r w']
        assms(2) fit cleared
      by (auto simp: set_record_state_def v_def spool_layout)
  next
    case (ok w1)
    have "inv (ctx w1) \<and> mem (ctx w1) = overwrite (slot_offset cfg k + SPOOL_STATE_OFFSET) [SPOOL_RECORD_ACKED] (mem (ctx w))"
      using program_byte_effect [of cfg "slot_offset cfg k + SPOOL_STATE_OFFSET" SPOOL_RECORD_ACKED w LS_OK w1] ok(1) assms(2) fit
      by (simp add: set_record_state_def spool_layout)
    note w1 = this
    from ok(2) show ?thesis
      using w1 cleared by (cases rule: ls_seq_cases) (auto dest: sync_step simp: v_def)
  qed
qed

lemma increment_retries_view:
  assumes "increment_retries cfg dev k bits rt = (r, rt')" and "inv (rt_store rt)"
    and "spool_usable cfg (Some dev)" and "k < LS_SPOOL_MAX_RECORDS cfg"
  shows "inv (rt_store rt') \<and> spool_view cfg (mem (rt_store rt')) = spool_view cfg (mem (rt_store rt)) \<and>
    rt_net rt' = rt_net rt \<and> spool_corrupt_records rt' = spool_corrupt_records rt"
proof (cases "clear_lowest_bit bits [0..<8] = bits")
  case True
  then show ?thesis using assms by (auto simp: increment_retries_def)
next
  case False
  let ?u = "clear_lowest_bit bits [0..<8]" and ?w = "\<lparr>faults = rt_faults rt, ctx = rt_store rt\<rparr>"
  note fit = slot_header_fits [OF assms(3,4,2)]
  have "on_store (ls_seq [ls_storage_program cfg dev (slot_offset cfg k + SPOOL_RETRY_OFFSET) [?u], call_sync dev]) rt = (r, rt')"
    using assms(1) False by (simp add: increment_retries_def)
  then obtain w' where seq: "ls_seq [ls_storage_program cfg dev (slot_offset cfg k + SPOOL_RETRY_OFFSET) [?u], call_sync dev] ?w = (r, w')"
    and rt': "rt' = rt\<lparr>rt_faults := faults w', rt_store := ctx w'\<rparr>"
    by (rule on_storeD)
  have "inv (ctx w') \<and> spool_view cfg (mem (ctx w')) = spool_view cfg (mem (rt_store rt))"
    using seq
  proof (cases rule: ls_seq_cases)
    case error
    then show ?thesis
      using program_byte_effect [OF error(1)] assms(2) fit slot_retry_view [OF fit(1), of ?u] by (auto simp: spool_layout)
  next
    case (ok w1)
    have "inv (ctx w1) \<and> spool_view cfg (mem (ctx w1)) = spool_view cfg (mem (rt_store rt))"
      using program_byte_effect [OF ok(1)] assms(2) fit slot_retry_view [OF fit(1), of ?u] by (auto simp: spool_layout)
    note w1 = this
    from ok(2) show ?thesis using w1 by (cases rule: ls_seq_cases) (auto dest: sync_step)
  qed
  then show ?thesis using rt' by simp
qed

lemma drop_corrupt_effect:
  assumes "drop_corrupt cfg dev k rt = (o', rt')" and "inv (rt_store rt)"
    and "spool_usable cfg (Some dev)" and "k < LS_SPOOL_MAX_RECORDS cfg"
  shows "inv (rt_store rt') \<and> rt_net rt' = rt_net rt \<and> spool_corrupt_records rt' = spool_corrupt_records rt + 1"
proof -
  obtain r rt1 where a: "on_store (acknowledge_record cfg dev k)
      (rt\<lparr>spool_corrupt_records := spool_corrupt_records rt + 1\<rparr>) = (r, rt1)"
    by (metis prod.exhaust)
  from a obtain w' where "acknowledge_record cfg dev k \<lparr>faults = rt_faults rt, ctx = rt_store rt\<rparr> = (r, w')"
    "rt1 = rt\<lparr>spool_corrupt_records := spool_corrupt_records rt + 1, rt_faults := faults w', rt_store := ctx w'\<rparr>"
    by (rule on_storeD) simp
  then show ?thesis
    using acknowledge_view [of cfg k _ r w'] assms a by (auto simp: drop_corrupt_def)
qed

text \<open>Delivering a record: it leaves the queue only after a transport has taken its payload.\<close>

lemma deliver_record_effect:
  assumes net: "durable_network heap delivered"
    and del: "deliver_record cfg dev heap k rec event_id d rt = (o', rt')" and "inv (rt_store rt)"
    and use: "spool_usable cfg (Some dev)" "k < LS_SPOOL_MAX_RECORDS cfg"
    and entry: "spool_view cfg (mem (rt_store rt)) k = Some (p, s, c, d)"
  shows "inv (rt_store rt') \<and> delivered (rt_net rt) \<subseteq> delivered (rt_net rt') \<and>
    spool_corrupt_records rt' = spool_corrupt_records rt \<and>
    retained (spool_view cfg (mem (rt_store rt))) (spool_view cfg (mem (rt_store rt'))) (delivered (rt_net rt'))"
proof -
  obtain tp rt1 where sel: "on_net (ls_transport_select cfg heap (rt_transports rt)
      (priority_of_code (unat (sr_priority rec))) (unat (sr_length rec))) rt = (tp, rt1)"
    by (metis prod.exhaust)
  obtain w1 where w1: "ls_transport_select cfg heap (rt_transports rt)
      (priority_of_code (unat (sr_priority rec))) (unat (sr_length rec)) \<lparr>faults = rt_faults rt, ctx = rt_net rt\<rparr> = (tp, w1)"
    and rt1: "rt1 = rt\<lparr>rt_faults := faults w1, rt_net := ctx w1\<rparr>"
    using sel by (rule on_netD)
  have mono1: "delivered (rt_net rt) \<subseteq> delivered (rt_net rt1)"
    using durable_network.select_mono [OF net w1] rt1 by simp
  show ?thesis
  proof (cases tp)
    case None
    then show ?thesis using del sel rt1 mono1 assms(3) by (auto simp: deliver_record_def retained_same)
  next
    case (Some t)
    obtain r2 rt2 where send: "and_then (on_net (fault_point ''spool.before_send'') rt1)
        (rt_transport_send heap t event_id d) = (r2, rt2)"
      by (metis prod.exhaust)
    have "rt_store rt2 = rt_store rt1 \<and> spool_corrupt_records rt2 = spool_corrupt_records rt1 \<and>
        delivered (rt_net rt1) \<subseteq> delivered (rt_net rt2) \<and> (r2 = LS_OK \<longrightarrow> d \<in> delivered (rt_net rt2))"
    proof -
      obtain rf rtf where f: "on_net (fault_point ''spool.before_send'') rt1 = (rf, rtf)" by (metis prod.exhaust)
      obtain fs where rtf: "rtf = rt1\<lparr>rt_faults := fs\<rparr>" using on_net_fault [OF f] by blast
      obtain r busy w where ts: "ls_transport_send heap (Some t) event_id (Some d) (rt_busy rtf)
          \<lparr>faults = rt_faults rtf, ctx = rt_net rtf\<rparr> = (r, busy, w)"
        by (metis prod.exhaust)
      show ?thesis
        using send f rtf ts durable_network.transport_send_law [OF net ts]
        by (cases "rf = LS_OK") (auto simp: rt_transport_send_def)
    qed
    then have st2: "rt_store rt2 = rt_store rt" "spool_corrupt_records rt2 = spool_corrupt_records rt"
      "delivered (rt_net rt) \<subseteq> delivered (rt_net rt2)" "r2 = LS_OK \<Longrightarrow> d \<in> delivered (rt_net rt2)"
      using rt1 mono1 by auto
    show ?thesis
    proof (cases "r2 = LS_OK")
      case False
      obtain rr rt3 where inc: "increment_retries cfg dev k (sr_retry_bits rec)
          (rt2\<lparr>spool_transport_failures := spool_transport_failures rt2 + 1\<rparr>) = (rr, rt3)"
        by (metis prod.exhaust)
      show ?thesis
        using del sel Some send False inc increment_retries_view [OF inc _ use] st2 assms(3)
        by (auto simp: deliver_record_def retained_same)
    next
      case True
      obtain rf rtf where f: "on_net (fault_point ''spool.before_ack'') rt2 = (rf, rtf)" by (metis prod.exhaust)
      obtain fs where rtf: "rtf = rt2\<lparr>rt_faults := fs\<rparr>" using on_net_fault [OF f] by blast
      obtain ra rta where a: "on_store (acknowledge_record cfg dev k) rtf = (ra, rta)" by (metis prod.exhaust)
      obtain w' where w': "acknowledge_record cfg dev k \<lparr>faults = rt_faults rtf, ctx = rt_store rtf\<rparr> = (ra, w')"
        "rta = rtf\<lparr>rt_faults := faults w', rt_store := ctx w'\<rparr>"
        using a by (rule on_storeD)
      have "rt' = (if rf = LS_OK then rta else rtf)"
        using del sel Some send True f a by (auto simp: deliver_record_def and_then_def split: if_splits)
      then show ?thesis
        using acknowledge_view [OF w'(1) _ use] w'(2) rtf st2 True assms(3) retained_drop [of _ k p s c d]
        by (auto simp: retained_same entry)
    qed
  qed
qed

lemma flush_record_effect:
  assumes net: "durable_network heap delivered"
    and fl: "flush_record cfg dev heap k (slot_record cfg (mem (rt_store rt)) k) rt = (o', rt')"
    and "inv (rt_store rt)" and use: "spool_usable cfg (Some dev)" "k < LS_SPOOL_MAX_RECORDS cfg"
    and committed: "slot_committed cfg (mem (rt_store rt)) k"
  defines "rec \<equiv> slot_record cfg (mem (rt_store rt)) k"
  shows "inv (rt_store rt') \<and> delivered (rt_net rt) \<subseteq> delivered (rt_net rt') \<and>
    (spool_corrupt_records rt' = spool_corrupt_records rt + 1 \<or>
     spool_corrupt_records rt' = spool_corrupt_records rt \<and>
     retained (spool_view cfg (mem (rt_store rt))) (spool_view cfg (mem (rt_store rt'))) (delivered (rt_net rt')))"
proof -
  obtain r d rt1 where rd: "on_store (call_read dev (slot_offset cfg k + SPOOL_RECORD_SIZE) (unat (sr_length rec))) rt = ((r, d), rt1)"
    by (metis prod.exhaust)
  obtain w1 where w1: "call_read dev (slot_offset cfg k + SPOOL_RECORD_SIZE) (unat (sr_length rec))
      \<lparr>faults = rt_faults rt, ctx = rt_store rt\<rparr> = ((r, d), w1)" "rt1 = rt\<lparr>rt_faults := faults w1, rt_store := ctx w1\<rparr>"
    using rd by (rule on_storeD)
  have "slot_offset cfg k + SPOOL_RECORD_SIZE + unat (sr_length rec) \<le> be_capacity dev"
    using slot_fits [OF use] committed by (simp add: rec_def slot_committed_def record_valid_def record_size_def)
  then have st1: "inv (ctx w1)" "mem (ctx w1) = mem (rt_store rt)"
    "r = LS_OK \<Longrightarrow> d = slot_payload cfg (mem (rt_store rt)) k"
    using read_law [OF _ _ w1(1)] assms(3) by (auto simp: slot_payload_def rec_def)
  show ?thesis
  proof (cases "r = LS_OK \<and> sr_data_crc rec = ls_crc32 d \<and> (\<exists>info. ls_envelope_validate d = Inr info)")
    case False
    then have "drop_corrupt cfg dev k rt1 = (o', rt')"
      using fl rd by (auto simp: flush_record_def rec_def [symmetric] split: if_splits sum.splits)
    then show ?thesis
      using drop_corrupt_effect [OF _ _ use, of rt1 o' rt'] st1(1) w1(2) by simp
  next
    case True
    then obtain info where "ls_envelope_validate d = Inr info" by blast
    then have del: "deliver_record cfg dev heap k rec (ei_event_id info) d rt1 = (o', rt')"
      using fl rd True by (simp add: flush_record_def rec_def [symmetric])
    have "spool_view cfg (mem (rt_store rt1)) k = Some (sr_priority rec, sr_sequence rec, sr_data_crc rec, d)"
      using committed use(2) st1 True w1(2) by (simp add: spool_view_def rec_def)
    then show ?thesis
      using deliver_record_effect [OF net del _ use] st1(1,2) w1(2) by simp
  qed
qed

lemma select_record_effect:
  assumes "spool_usable cfg (Some dev)"
  shows "select_record cfg dev slots sel w = ((r, sel'), w') \<Longrightarrow> inv (ctx w) \<Longrightarrow>
    set slots \<subseteq> {..<LS_SPOOL_MAX_RECORDS cfg} \<Longrightarrow>
    inv (ctx w') \<and> mem (ctx w') = mem (ctx w) \<and>
    (\<forall>k rec. sel' = Some (k, rec) \<longrightarrow> sel = Some (k, rec) \<or>
       k \<in> set slots \<and> rec = slot_record cfg (mem (ctx w)) k \<and> slot_committed cfg (mem (ctx w)) k)"
proof (induction slots arbitrary: sel w)
  case Nil
  then show ?case by simp
next
  case (Cons slot slots)
  obtain r1 rec w1 where rr: "read_record cfg dev slot w = ((r1, rec), w1)" by (metis prod.exhaust)
  have eff: "inv (ctx w1)" "mem (ctx w1) = mem (ctx w)" "r1 = LS_OK \<Longrightarrow> rec = slot_record cfg (mem (ctx w)) slot"
    using read_record_effect [OF rr Cons.prems(2) assms] Cons.prems(3) by auto
  obtain sel1 where "r1 \<noteq> LS_OK \<and> sel' = sel \<and> w' = w1 \<or> r1 = LS_OK \<and> select_record cfg dev slots sel1 w1 = ((r, sel'), w')"
    and sel1: "sel1 = sel \<or> sel1 = Some (slot, rec) \<and> record_valid cfg rec \<and> sr_state rec = SPOOL_RECORD_COMMITTED"
    using Cons.prems(1) rr by (auto split: if_splits option.splits)
  then show ?case
    using Cons.IH [of sel1 w1] Cons.prems(3) eff by (auto simp: slot_committed_def)
qed

lemma drained_loop_effect:
  assumes "spool_usable cfg (Some dev)"
  shows "drained_loop cfg dev slots c w = ((r, b), w') \<Longrightarrow> inv (ctx w) \<Longrightarrow>
    set slots \<subseteq> {..<LS_SPOOL_MAX_RECORDS cfg} \<Longrightarrow>
    inv (ctx w') \<and> mem (ctx w') = mem (ctx w) \<and>
    (b \<noteq> None \<longrightarrow> (\<forall>k\<in>set slots. \<not> slot_committed cfg (mem (ctx w)) k))"
proof (induction slots arbitrary: c w)
  case Nil
  then show ?case by simp
next
  case (Cons slot slots)
  obtain r1 rec w1 where rr: "read_record cfg dev slot w = ((r1, rec), w1)" by (metis prod.exhaust)
  have eff: "inv (ctx w1)" "mem (ctx w1) = mem (ctx w)" "r1 = LS_OK \<Longrightarrow> rec = slot_record cfg (mem (ctx w)) slot"
    using read_record_effect [OF rr Cons.prems(2) assms] Cons.prems(3) by auto
  show ?case
    using Cons.prems(1,3) rr eff Cons.IH [of "c \<or> \<not> record_is_erased rec" w1]
    by (auto simp: slot_committed_def split: if_splits)
qed

end

lemma ls_seq_invariant:
  assumes "\<And>f w. f \<in> set fs \<Longrightarrow> P w \<Longrightarrow> P (snd (f w))"
  shows "P w \<Longrightarrow> P (snd (ls_seq fs w))"
  using assms
proof (induction fs arbitrary: w)
  case Nil
  then show ?case by simp
next
  case (Cons f fs)
  then show ?case by (simp add: and_then_def)
qed

context flash_device
begin

lemma program_inv:
  assumes "inv (ctx w)" and "off + length src \<le> be_capacity dev"
  shows "inv (ctx (snd (ls_storage_program cfg dev off src w)))"
  using program_effects [OF _ assms] by (metis prod.collapse)

lemma sync_inv: "inv (ctx w) \<Longrightarrow> inv (ctx (snd (call_sync dev w)))"
  using sync_law by (metis prod.collapse)

lemma spool_write_header_inv:
  assumes "24 \<le> be_capacity dev" and "inv (ctx w)"
  shows "inv (ctx (snd (spool_write_header cfg dev s w)))"
  unfolding spool_write_header_def
  by (rule ls_seq_invariant [of _ "\<lambda>w. inv (ctx w)", OF _ assms(2)])
    (use assms(1) in \<open>auto intro!: program_inv sync_inv simp: spool_layout\<close>)

lemma erase_spool_inv:
  assumes "spool_usable cfg (Some dev)" and "inv (ctx w)"
  shows "inv (ctx (snd (erase_spool cfg dev w)))"
proof -
  have "inv (ctx (snd (call_erase dev 0 (ls_spool_storage_size cfg) w)))" if "inv (ctx w)" for w
    using erase_law [OF that, of 0 "ls_spool_storage_size cfg"] assms(1)
    by (cases "call_erase dev 0 (ls_spool_storage_size cfg) w") (simp add: spool_usable_def)
  then have "inv (ctx (snd (ls_seq [call_erase dev 0 (ls_spool_storage_size cfg), call_sync dev] w)))"
    by (intro ls_seq_invariant [of _ "\<lambda>w. inv (ctx w)", OF _ assms(2)]) (auto intro: sync_inv)
  then show ?thesis using assms(2) by (simp add: erase_spool_def Let_def)
qed

lemma spool_header_fits: "spool_usable cfg (Some dev) \<Longrightarrow> 24 \<le> be_capacity dev"
  using ls_spool_storage_size_ge [of cfg] raw_storage_size_eq [of cfg]
  by (cases "raw_storage_size cfg = 0")
    (auto simp: spool_usable_def spool_layout ls_spool_storage_size_def Let_def)

text \<open>The storage is erased only when it holds no committed record.\<close>

lemma reclaim_effect:
  assumes "reclaim_if_drained cfg dev rt = (r, rt')" and "inv (rt_store rt)" and use: "spool_usable cfg (Some dev)"
  shows "inv (rt_store rt') \<and> rt_net rt' = rt_net rt \<and> spool_corrupt_records rt' = spool_corrupt_records rt \<and>
    retained (spool_view cfg (mem (rt_store rt))) (spool_view cfg (mem (rt_store rt'))) D"
proof -
  let ?slots = "[0..<LS_SPOOL_MAX_RECORDS cfg]"
  obtain r1 b rt1 where dr: "on_store (drained_loop cfg dev ?slots False) rt = ((r1, b), rt1)" by (metis prod.exhaust)
  obtain w1 where w1: "drained_loop cfg dev ?slots False \<lparr>faults = rt_faults rt, ctx = rt_store rt\<rparr> = ((r1, b), w1)"
    "rt1 = rt\<lparr>rt_faults := faults w1, rt_store := ctx w1\<rparr>"
    using dr by (rule on_storeD)
  have eff: "inv (ctx w1)" "mem (ctx w1) = mem (rt_store rt)"
    "b \<noteq> None \<Longrightarrow> \<forall>k<LS_SPOOL_MAX_RECORDS cfg. \<not> slot_committed cfg (mem (rt_store rt)) k"
    using drained_loop_effect [OF use w1(1)] assms(2) by (auto simp: atLeast0LessThan)
  show ?thesis
  proof (cases "r1 = LS_OK \<and> b = Some True")
    case False
    then show ?thesis using assms(1) dr eff w1(2) by (auto simp: reclaim_if_drained_def retained_same split: if_splits)
  next
    case True
    then have "on_store (ls_seq [erase_spool cfg dev, spool_write_header cfg dev (rt_sequence rt1)]) rt1 = (r, rt')"
      using assms(1) dr by (simp add: reclaim_if_drained_def)
    then obtain w2 where w2: "ls_seq [erase_spool cfg dev, spool_write_header cfg dev (rt_sequence rt1)]
        \<lparr>faults = rt_faults rt1, ctx = rt_store rt1\<rparr> = (r, w2)"
      "rt' = rt1\<lparr>rt_faults := faults w2, rt_store := ctx w2\<rparr>"
      by (rule on_storeD)
    have "inv (ctx (snd (ls_seq [erase_spool cfg dev, spool_write_header cfg dev (rt_sequence rt1)]
        \<lparr>faults = rt_faults rt1, ctx = rt_store rt1\<rparr>)))"
      by (rule ls_seq_invariant [of _ "\<lambda>w. inv (ctx w)"])
        (use eff(1) w1(2) use spool_header_fits in \<open>auto intro: erase_spool_inv spool_write_header_inv\<close>)
    moreover have "spool_view cfg (mem (rt_store rt)) i = None" for i
      using eff(3) True by (simp add: spool_view_def)
    ultimately show ?thesis using w1(2) w2 by (simp add: retained_def)
  qed
qed

lemma flush_passes_effect:
  assumes net: "durable_network heap delivered" and use: "spool_usable cfg (Some dev)"
  shows "flush_passes cfg dev heap n rt = (r, rt') \<Longrightarrow> inv (rt_store rt) \<Longrightarrow>
    inv (rt_store rt') \<and> delivered (rt_net rt) \<subseteq> delivered (rt_net rt') \<and>
    (\<exists>j\<le>n. spool_corrupt_records rt' = spool_corrupt_records rt + of_nat j \<and>
      (j = 0 \<longrightarrow> retained (spool_view cfg (mem (rt_store rt))) (spool_view cfg (mem (rt_store rt'))) (delivered (rt_net rt'))))"
proof (induction n arbitrary: rt)
  case 0
  then show ?case using reclaim_effect [OF _ _ use, of rt r rt' "delivered (rt_net rt')"] by auto
next
  case (Suc n)
  let ?slots = "[0..<LS_SPOOL_MAX_RECORDS cfg]"
  obtain r1 sel rt1 where s: "on_store (select_record cfg dev ?slots None) rt = ((r1, sel), rt1)" by (metis prod.exhaust)
  obtain w1 where w1: "select_record cfg dev ?slots None \<lparr>faults = rt_faults rt, ctx = rt_store rt\<rparr> = ((r1, sel), w1)"
    "rt1 = rt\<lparr>rt_faults := faults w1, rt_store := ctx w1\<rparr>"
    using s by (rule on_storeD)
  have eff: "inv (rt_store rt1)" "mem (rt_store rt1) = mem (rt_store rt)" "rt_net rt1 = rt_net rt"
    "spool_corrupt_records rt1 = spool_corrupt_records rt"
    "\<And>k rec. sel = Some (k, rec) \<Longrightarrow> k < LS_SPOOL_MAX_RECORDS cfg \<and>
       rec = slot_record cfg (mem (rt_store rt1)) k \<and> slot_committed cfg (mem (rt_store rt1)) k"
    using select_record_effect [OF use w1(1)] Suc.prems(2) w1(2) by (auto simp: atLeast0LessThan)
  consider (error) "r1 \<noteq> LS_OK" "rt' = rt1" | (none) "reclaim_if_drained cfg dev rt1 = (r, rt')"
    | (some) k rec where "r1 = LS_OK" "sel = Some (k, rec)"
    using Suc.prems(1) s by (cases "r1 = LS_OK") (auto split: option.splits)
  then show ?case
  proof cases
    case error
    then show ?thesis using eff by (auto simp: retained_same intro: exI [of _ 0])
  next
    case none
    then show ?thesis
      using reclaim_effect [OF none eff(1) use, of "delivered (rt_net rt')"] eff by (auto intro: exI [of _ 0])
  next
    case some
    note sel = eff(5) [OF some(2)]
    obtain o' rt2 where fl: "flush_record cfg dev heap k rec rt1 = (o', rt2)" by (metis prod.exhaust)
    note step = flush_record_effect [OF net fl [unfolded sel [THEN conjunct2, THEN conjunct1]] eff(1) use
        conjunct1 [OF sel] conjunct2 [OF conjunct2 [OF sel]]]
    let ?kept = "\<lambda>rta rtb. retained (spool_view cfg (mem (rt_store rta))) (spool_view cfg (mem (rt_store rtb))) (delivered (rt_net rtb))"
    have st2: "inv (rt_store rt2)" "delivered (rt_net rt) \<subseteq> delivered (rt_net rt2)"
      using step eff(3) by simp_all
    have "\<exists>i\<le>1. spool_corrupt_records rt2 = spool_corrupt_records rt + of_nat i \<and> (i = 0 \<longrightarrow> ?kept rt rt2)"
    proof (cases "?kept rt rt2")
      case True
      then show ?thesis using step eff(4) by (auto intro: exI [of _ 0] exI [of _ "1 :: nat"])
    next
      case False
      then show ?thesis using step eff(2,4) by (intro exI [of _ "1 :: nat"]) simp
    qed
    then obtain i where i: "i \<le> 1" "spool_corrupt_records rt2 = spool_corrupt_records rt + of_nat i"
      "i = 0 \<longrightarrow> ?kept rt rt2"
      by blast
    show ?thesis
    proof (cases o')
      case (Some res)
      then have "rt' = rt2" using Suc.prems(1) s some fl by simp
      then show ?thesis using i st2 by (intro conjI exI [of _ i]) auto
    next
      case None
      then have "flush_passes cfg dev heap n rt2 = (r, rt')" using Suc.prems(1) s some fl by simp
      from Suc.IH [OF this st2(1)] obtain j where j: "j \<le> n"
        "spool_corrupt_records rt' = spool_corrupt_records rt2 + of_nat j"
        "j = 0 \<longrightarrow> retained (spool_view cfg (mem (rt_store rt2))) (spool_view cfg (mem (rt_store rt'))) (delivered (rt_net rt'))"
        and st': "inv (rt_store rt')" "delivered (rt_net rt2) \<subseteq> delivered (rt_net rt')"
        by blast
      have "i + j = 0 \<longrightarrow> retained (spool_view cfg (mem (rt_store rt))) (spool_view cfg (mem (rt_store rt'))) (delivered (rt_net rt'))"
        using i(3) j(3) retained_trans st'(2) by simp blast
      then show ?thesis
        using i j st2 st' by (intro conjI exI [of _ "i + j"]) auto
    qed
  qed
qed

end

section \<open>The order of draining\<close>

text \<open>Sequence numbers within half the range of a base compare as their distances from it.\<close>

lemma sint_minus_window:
  fixes a b base :: u32
  assumes "unat (a - base) < 2 ^ 31" and "unat (b - base) < 2 ^ 31"
  shows "sint (a - b) < 0 \<longleftrightarrow> unat (a - base) < unat (b - base)"
proof -
  let ?x = "uint (a - base)" and ?y = "uint (b - base)"
  have "int (unat (a - base)) < int (2 ^ 31)" "int (unat (b - base)) < int (2 ^ 31)"
    using assms by (simp_all only: of_nat_less_iff)
  then have range: "?x < 2 ^ 31" "?y < 2 ^ 31" "0 \<le> ?x" "0 \<le> ?y" by simp_all
  have "a - b = (a - base) - (b - base)" by simp
  also have "\<dots> = word_of_int (?x - ?y)" by simp
  finally have *: "a - b = word_of_int (?x - ?y)" .
  have "sint (a - b) = signed_take_bit 31 (?x - ?y)"
    unfolding * by (simp add: signed_of_int del: of_int_diff)
  also have "\<dots> = ?x - ?y"
  proof (rule signed_take_bit_int_eq_self)
    show "- (2 ^ 31) \<le> ?x - ?y" using range by linarith
    show "?x - ?y < 2 ^ 31" using range by linarith
  qed
  finally show ?thesis by (simp flip: word_less_nat_alt add: word_less_def)
qed

definition drains_before :: "u32 \<Rightarrow> spool_record \<Rightarrow> spool_record \<Rightarrow> bool" where
  "drains_before base r q \<longleftrightarrow>
     sr_priority r < sr_priority q \<or>
     sr_priority r = sr_priority q \<and> unat (sr_sequence r - base) \<le> unat (sr_sequence q - base)"

lemma drains_before_refl [simp]: "drains_before base r r"
  by (simp add: drains_before_def)

lemma drains_before_trans: "drains_before base r q \<Longrightarrow> drains_before base q p \<Longrightarrow> drains_before base r p"
  by (auto simp: drains_before_def)

lemma record_precedes_window:
  assumes "unat (sr_sequence r - base) < 2 ^ 31" and "unat (sr_sequence q - base) < 2 ^ 31"
  shows "record_precedes r q \<Longrightarrow> drains_before base r q" and "\<not> record_precedes r q \<Longrightarrow> drains_before base q r"
  using sint_minus_window [OF assms] by (auto simp: record_precedes_def drains_before_def)

context storage_device
begin

lemma select_record_first:
  assumes "spool_usable cfg (Some dev)" and "inv (ctx w)"
    and "select_record cfg dev slots sel w = ((LS_OK, sel'), w')"
    and "set slots \<subseteq> {..<LS_SPOOL_MAX_RECORDS cfg}"
    and win: "\<And>j. j \<in> set slots \<Longrightarrow> slot_committed cfg (mem (ctx w)) j \<Longrightarrow>
      unat (sr_sequence (slot_record cfg (mem (ctx w)) j) - base) < 2 ^ 31"
    and "\<And>k rec. sel = Some (k, rec) \<Longrightarrow> unat (sr_sequence rec - base) < 2 ^ 31"
  shows "(\<forall>k rec. sel = Some (k, rec) \<longrightarrow> (\<exists>k' rec'. sel' = Some (k', rec') \<and> drains_before base rec' rec)) \<and>
    (\<forall>j\<in>set slots. slot_committed cfg (mem (ctx w)) j \<longrightarrow>
       (\<exists>k' rec'. sel' = Some (k', rec') \<and> drains_before base rec' (slot_record cfg (mem (ctx w)) j)))"
  using assms(2-6)
proof (induction slots arbitrary: sel w)
  case Nil
  then show ?case by auto
next
  case (Cons slot slots)
  obtain r1 rec w1 where rr: "read_record cfg dev slot w = ((r1, rec), w1)" by (metis prod.exhaust)
  have ok: "r1 = LS_OK" using Cons.prems(2) rr by (simp split: if_splits)
  have eff: "inv (ctx w1)" "mem (ctx w1) = mem (ctx w)" "rec = slot_record cfg (mem (ctx w)) slot"
    using read_record_effect [OF rr Cons.prems(1) assms(1)] Cons.prems(3) ok by auto
  have committed: "slot_committed cfg (mem (ctx w)) slot \<longleftrightarrow> record_valid cfg rec \<and> sr_state rec = SPOOL_RECORD_COMMITTED"
    by (simp add: slot_committed_def eff(3))
  define sel1 where "sel1 = (if slot_committed cfg (mem (ctx w)) slot \<and>
      (case sel of None \<Rightarrow> True | Some (_, q) \<Rightarrow> record_precedes rec q) then Some (slot, rec) else sel)"
  have loop: "select_record cfg dev slots sel1 w1 = ((LS_OK, sel'), w')"
    using Cons.prems(2) rr ok by (auto simp: sel1_def committed split: option.splits if_splits)
  have win1: "unat (sr_sequence q - base) < 2 ^ 31" if "sel1 = Some (k, q)" for k q
    using that Cons.prems(4) [of slot] Cons.prems(5) eff(3) by (auto simp: sel1_def split: if_splits)
  note IH = Cons.IH [OF eff(1) loop _ _ win1, unfolded eff(2)]
  have best: "\<exists>k1 q1. sel1 = Some (k1, q1) \<and> drains_before base q1 q" if "sel = Some (k, q)" for k q
    using that Cons.prems(4) [of slot] Cons.prems(5) [OF that] eff(3) record_precedes_window [of rec base q]
    by (auto simp: sel1_def)
  have here: "\<exists>k1 q1. sel1 = Some (k1, q1) \<and> drains_before base q1 rec" if "slot_committed cfg (mem (ctx w)) slot"
    using that Cons.prems(4) [of slot] Cons.prems(5) eff(3) record_precedes_window [of rec base]
    by (cases sel) (auto simp: sel1_def)
  have rest: "(\<forall>k q. sel1 = Some (k, q) \<longrightarrow> (\<exists>k' q'. sel' = Some (k', q') \<and> drains_before base q' q)) \<and>
      (\<forall>j\<in>set slots. slot_committed cfg (mem (ctx w)) j \<longrightarrow>
         (\<exists>k' q'. sel' = Some (k', q') \<and> drains_before base q' (slot_record cfg (mem (ctx w)) j)))"
    using IH Cons.prems(3,4) by simp
  have chain: "\<exists>k' q'. sel' = Some (k', q') \<and> drains_before base q' q" if "\<exists>k1 q1. sel1 = Some (k1, q1) \<and> drains_before base q1 q" for q
  proof -
    from that obtain k1 q1 where 1: "sel1 = Some (k1, q1)" "drains_before base q1 q" by blast
    then obtain k' q' where "sel' = Some (k', q')" "drains_before base q' q1" using rest by blast
    then show ?thesis using drains_before_trans [OF _ 1(2)] by blast
  qed
  show ?case
    using chain best here rest eff(3) by auto
qed

end

section \<open>Appending on a healthy device\<close>

context reliable_device
begin

lemma erased_loop_ok:
  assumes "1 \<le> chunk"
  shows "inv (ctx w) \<Longrightarrow> healthy (ctx w) \<Longrightarrow> no_faults w \<Longrightarrow> off + n \<le> be_capacity dev \<Longrightarrow>
    \<exists>e w'. erased_loop chunk dev off n w = ((LS_OK, e), w') \<and> healthy (ctx w') \<and> no_faults w'"
proof (induction n arbitrary: off w rule: less_induct)
  case (less n)
  show ?case
  proof (cases "n = 0")
    case True
    then show ?thesis using less.prems by (subst erased_loop.simps) auto
  next
    case False
    let ?k = "if n > chunk then chunk else n"
    have k: "off + ?k \<le> be_capacity dev" "?k \<le> n" "0 < ?k" using less.prems(4) False assms by simp_all
    obtain d w1 where r: "call_read dev off ?k w = ((LS_OK, d), w1)" "healthy (ctx w1)" "no_faults w1"
      using read_ok [OF less.prems(1-3) k(1)] by blast
    have inv1: "inv (ctx w1)" using read_law [OF less.prems(1) k(1) r(1)] by simp
    have "\<exists>e w'. erased_loop chunk dev (off + ?k) (n - ?k) w1 = ((LS_OK, e), w') \<and> healthy (ctx w') \<and> no_faults w'"
      using less.IH [of "n - ?k" w1 "off + ?k"] inv1 r(2,3) less.prems(4) k by simp
    then show ?thesis
      using r False assms by (subst erased_loop.simps) (auto simp: Let_def)
  qed
qed

lemma is_erased_ok:
  assumes "1 \<le> LS_STORAGE_MAX_WRITE_SIZE cfg" and "inv (ctx w)" and "healthy (ctx w)" and "no_faults w"
    and "off + n \<le> be_capacity dev"
  shows "\<exists>w'. ls_storage_is_erased cfg dev off n w = ((LS_OK, Some (\<forall>i<n. mem (ctx w) ! (off + i) = 0xff)), w') \<and>
    healthy (ctx w') \<and> no_faults w' \<and> inv (ctx w') \<and> mem (ctx w') = mem (ctx w)"
proof -
  obtain e w' where "erased_loop (LS_STORAGE_MAX_WRITE_SIZE cfg) dev off n w = ((LS_OK, e), w')"
    "healthy (ctx w')" "no_faults w'"
    using erased_loop_ok [OF assms(1-5)] by blast
  then show ?thesis
    using is_erased_effect [of cfg off n w LS_OK e w'] assms by (auto simp: ls_storage_is_erased_def bounds_eq)
qed

lemma find_empty_ok:
  assumes "1 \<le> LS_STORAGE_MAX_WRITE_SIZE cfg" and use: "spool_usable cfg (Some dev)"
  shows "inv (ctx w) \<Longrightarrow> healthy (ctx w) \<Longrightarrow> no_faults w \<Longrightarrow> set slots \<subseteq> {..<LS_SPOOL_MAX_RECORDS cfg} \<Longrightarrow>
    \<exists>k\<in>set slots. \<forall>i<28. mem (ctx w) ! (slot_offset cfg k + i) = 0xff \<Longrightarrow>
    \<exists>k w'. find_empty_loop cfg dev slots w = ((LS_OK, k), w') \<and> healthy (ctx w') \<and> no_faults w'"
proof (induction slots arbitrary: w)
  case Nil
  then show ?case by simp
next
  case (Cons slot slots)
  have "slot_offset cfg slot + 28 \<le> be_capacity dev"
    using slot_header_fits(2) [OF use _ Cons.prems(1)] Cons.prems(4) by simp
  then obtain w1 where e: "ls_storage_is_erased cfg dev (slot_offset cfg slot) 28 w =
      ((LS_OK, Some (\<forall>i<28. mem (ctx w) ! (slot_offset cfg slot + i) = 0xff)), w1)"
    and w1: "healthy (ctx w1)" "no_faults w1" "inv (ctx w1)" "mem (ctx w1) = mem (ctx w)"
    using is_erased_ok [OF assms(1) Cons.prems(1-3)] by blast
  show ?case
  proof (cases "\<forall>i<28. mem (ctx w) ! (slot_offset cfg slot + i) = 0xff")
    case True
    then show ?thesis using e w1 by (simp add: spool_layout)
  next
    case False
    then have "\<exists>k w'. find_empty_loop cfg dev slots w1 = ((LS_OK, k), w') \<and> healthy (ctx w') \<and> no_faults w'"
      using Cons.IH [OF w1(3,1,2)] Cons.prems(4,5) w1(4) by auto
    then show ?thesis using e False by (simp add: spool_layout)
  qed
qed

lemma commit_steps_ok:
  assumes "inv (ctx w)" and "healthy (ctx w)" and "no_faults w"
    and "be_write_size dev \<le> LS_STORAGE_MAX_WRITE_SIZE cfg" "1 \<le> LS_STORAGE_MAX_WRITE_SIZE cfg"
    and "be_write_size dev dvd be_capacity dev" "be_capacity dev + be_write_size dev \<le> SIZE_MAX"
    and fit: "off + SPOOL_RECORD_SIZE + length data \<le> be_capacity dev"
    and erased: "\<And>i. i < SPOOL_RECORD_SIZE + length data \<Longrightarrow> mem (ctx w) ! (off + i) = 0xff"
    and rec: "sr_state rec = 0xff"
  shows "\<exists>w'. append_steps cfg dev off rec data w = (LS_OK, w') \<and> healthy (ctx w') \<and> no_faults w'"
proof -
  let ?m = "mem (ctx w)"
  have len: "length ?m = be_capacity dev" using assms(1) by (rule mem_length)
  have fit1: "off + length (spool_record_bytes rec) \<le> be_capacity dev" using fit by (simp add: spool_layout)
  have cl1: "clears_only (?m ! (off + i)) (spool_record_bytes rec ! i)" if "i < length (spool_record_bytes rec)" for i
    using erased [of i] that by (simp add: spool_layout)
  from program_ok [OF assms(1-3) fit1 assms(4-7) cl1]
  obtain w1 where p1: "ls_storage_program cfg dev off (spool_record_bytes rec) w = (LS_OK, w1)"
    and w1: "healthy (ctx w1)" "no_faults w1" "inv (ctx w1)"
      "mem (ctx w1) = overwrite off (spool_record_bytes rec) ?m"
    by auto
  have cl2: "clears_only (mem (ctx w1) ! (off + SPOOL_RECORD_SIZE + i)) (data ! i)" if "i < length data" for i
    using erased [of "SPOOL_RECORD_SIZE + i"] that fit len by (simp add: w1(4) nth_overwrite spool_layout add.assoc)
  from program_ok [OF w1(3,1,2) fit assms(4-7) cl2]
  obtain w2 where p2: "ls_storage_program cfg dev (off + SPOOL_RECORD_SIZE) data w1 = (LS_OK, w2)"
    and w2: "healthy (ctx w2)" "no_faults w2" "inv (ctx w2)"
      "mem (ctx w2) = overwrite (off + SPOOL_RECORD_SIZE) data (mem (ctx w1))"
    by auto
  obtain w3 where p3: "call_sync dev w2 = (LS_OK, w3)" and w3: "healthy (ctx w3)" "no_faults w3"
    using sync_ok [OF w2(3,1,2)] by blast
  have m3: "inv (ctx w3)" "mem (ctx w3) = mem (ctx w2)" using sync_step [OF p3 w2(3)] by simp_all
  have "spool_record_bytes rec ! 24 = 0xff"
    using arg_cong [OF spool_record_parse_bytes, of sr_state rec] rec by (simp add: spool_record_parse_def)
  then have "mem (ctx w3) ! (off + SPOOL_STATE_OFFSET) = 0xff"
    using fit len by (simp add: m3(2) w2(4) w1(4) nth_overwrite spool_layout)
  then have cl4: "clears_only (mem (ctx w3) ! (off + SPOOL_STATE_OFFSET + i)) ([SPOOL_RECORD_COMMITTED] ! i)"
    if "i < length [SPOOL_RECORD_COMMITTED]" for i
    using that by simp
  have fit4: "off + SPOOL_STATE_OFFSET + length [SPOOL_RECORD_COMMITTED] \<le> be_capacity dev"
    using fit by (simp add: spool_layout)
  from program_ok [OF m3(1) w3 fit4 assms(4-7) cl4]
  obtain w4 where p4: "ls_storage_program cfg dev (off + SPOOL_STATE_OFFSET) [SPOOL_RECORD_COMMITTED] w3 = (LS_OK, w4)"
    and w4: "healthy (ctx w4)" "no_faults w4" "inv (ctx w4)"
    by auto
  obtain w5 where p5: "call_sync dev w4 = (LS_OK, w5)" "healthy (ctx w5)" "no_faults w5"
    using sync_ok [OF w4(3,1,2)] by blast
  show ?thesis
    using assms(3) p1 p2 p3 p4 p5 w1(2) w3(2) by (simp add: append_steps_def)
qed

lemma spool_append_ok:
  assumes "inv (rt_store rt)" and "healthy (rt_store rt)" and "\<not> fault_injection_active (rt_faults rt)"
    and "be_write_size dev \<le> LS_STORAGE_MAX_WRITE_SIZE cfg" "1 \<le> LS_STORAGE_MAX_WRITE_SIZE cfg"
    and "be_write_size dev dvd be_capacity dev" "be_capacity dev + be_write_size dev \<le> SIZE_MAX"
    and use: "spool_usable cfg (Some dev)" and data: "data \<noteq> []" "length data \<le> LS_MAX_EVENT_SIZE cfg"
    and info: "ls_envelope_validate data = Inr info"
    and free: "\<exists>k. k < slot_limit_for_priority cfg priority \<and> (\<forall>i<28. mem (rt_store rt) ! (slot_offset cfg k + i) = 0xff)"
    and clean: "\<And>k i. k < slot_limit_for_priority cfg priority \<Longrightarrow>
      (\<forall>i<28. mem (rt_store rt) ! (slot_offset cfg k + i) = 0xff) \<Longrightarrow> i < record_size cfg \<Longrightarrow>
      mem (rt_store rt) ! (slot_offset cfg k + i) = 0xff"
  shows "\<exists>rt'. ls_spool_append cfg (Some dev) (Some data) priority rt = (LS_OK, rt')"
proof -
  let ?w = "\<lparr>faults = rt_faults rt, ctx = rt_store rt\<rparr>"
  have w: "inv (ctx ?w)" "healthy (ctx ?w)" "no_faults ?w" using assms(1-3) by (simp_all add: no_faults_def)
  have slots: "set [0..<slot_limit_for_priority cfg priority] \<subseteq> {..<LS_SPOOL_MAX_RECORDS cfg}"
    using slot_limit_le [of cfg priority] by auto
  obtain k w1 where f: "find_empty_loop cfg dev [0..<slot_limit_for_priority cfg priority] ?w = ((LS_OK, k), w1)"
    and w1: "healthy (ctx w1)" "no_faults w1"
    using find_empty_ok [OF assms(5) use w slots] free by (auto simp: atLeast0LessThan)
  have k: "k < slot_limit_for_priority cfg priority" "inv (ctx w1)" "mem (ctx w1) = mem (rt_store rt)"
    "\<forall>i<28. mem (rt_store rt) ! (slot_offset cfg k + i) = 0xff"
    using find_empty_loop_effect [OF assms(5) f] w(1) by auto
  have fit: "slot_offset cfg k + SPOOL_RECORD_SIZE + length data \<le> be_capacity dev"
    using slot_fits [OF use, of k] k(1) slot_limit_le [of cfg priority] data(2) by (simp add: record_size_def)
  have erased: "mem (ctx w1) ! (slot_offset cfg k + i) = 0xff" if "i < SPOOL_RECORD_SIZE + length data" for i
    using clean [OF k(1,4)] that data(2) k(3) by (simp add: record_size_def)
  have state: "sr_state (new_spool_record data priority info) = 0xff" by (simp add: new_spool_record_def Let_def)
  obtain w2 where a: "append_steps cfg dev (slot_offset cfg k) (new_spool_record data priority info) data w1 = (LS_OK, w2)"
    using commit_steps_ok [OF k(2) w1 assms(4-7) fit erased state] by blast
  show ?thesis
    using data use info f a by (cases w1) (simp add: ls_spool_append_def on_store_def find_empty_slot_def)
qed

end

context reliable_device
begin

lemma read_record_ok:
  assumes "spool_usable cfg (Some dev)" and "inv (ctx w)" and "healthy (ctx w)" and "no_faults w"
    and "slot < LS_SPOOL_MAX_RECORDS cfg"
  shows "\<exists>w'. read_record cfg dev slot w = ((LS_OK, slot_record cfg (mem (ctx w)) slot), w') \<and>
    inv (ctx w') \<and> healthy (ctx w') \<and> no_faults w' \<and> mem (ctx w') = mem (ctx w)"
proof -
  have fit: "slot_offset cfg slot + SPOOL_RECORD_SIZE \<le> be_capacity dev"
    using slot_header_fits(2) [OF assms(1,5,2)] by (simp add: spool_layout)
  obtain d w' where r: "call_read dev (slot_offset cfg slot) SPOOL_RECORD_SIZE w = ((LS_OK, d), w')"
    "healthy (ctx w')" "no_faults w'"
    using read_ok [OF assms(2-4) fit] by blast
  have rr: "read_record cfg dev slot w = ((LS_OK, spool_record_parse d), w')"
    using r(1) by (simp add: read_record_def)
  then show ?thesis using read_record_effect [OF rr assms(2,1,5)] r by auto
qed

lemma select_record_ok:
  assumes "spool_usable cfg (Some dev)"
  shows "inv (ctx w) \<Longrightarrow> healthy (ctx w) \<Longrightarrow> no_faults w \<Longrightarrow> set slots \<subseteq> {..<LS_SPOOL_MAX_RECORDS cfg} \<Longrightarrow>
    \<exists>sel' w'. select_record cfg dev slots sel w = ((LS_OK, sel'), w')"
proof (induction slots arbitrary: sel w)
  case Nil
  then show ?case by simp
next
  case (Cons slot slots)
  obtain w1 where "read_record cfg dev slot w = ((LS_OK, slot_record cfg (mem (ctx w)) slot), w1)"
    "inv (ctx w1)" "healthy (ctx w1)" "no_faults w1"
    using read_record_ok [OF assms Cons.prems(1-3), of slot] Cons.prems(4) by auto
  then show ?case using Cons.IH [of w1] Cons.prems(4) by simp
qed

end

section \<open>Properties\<close>



text \<open>C3: a flush drains the most important record first: among the committed records, whose
  sequence numbers lie within half the 32-bit range, the one a pass selects has the smallest
  priority value, and the oldest sequence number of that priority.\<close>

theorem spool_flush_order:
  assumes "sim_ok cap (ctx w)" and "spool_usable cfg (Some (sim_backend cap erase_sz write_sz))"
    and "select_record cfg (sim_backend cap erase_sz write_sz) [0..<LS_SPOOL_MAX_RECORDS cfg] None w = ((LS_OK, sel), w')"
    and "\<forall>j<LS_SPOOL_MAX_RECORDS cfg. slot_committed cfg (sim_content (ctx w)) j \<longrightarrow>
      unat (sr_sequence (slot_record cfg (sim_content (ctx w)) j) - base) < 2 ^ 31"
    and "j < LS_SPOOL_MAX_RECORDS cfg" and "slot_committed cfg (sim_content (ctx w)) j"
  shows "\<exists>k. k < LS_SPOOL_MAX_RECORDS cfg \<and> slot_committed cfg (sim_content (ctx w)) k \<and>
    sel = Some (k, slot_record cfg (sim_content (ctx w)) k) \<and>
    drains_before base (slot_record cfg (sim_content (ctx w)) k) (slot_record cfg (sim_content (ctx w)) j)"
proof -
  have slots: "set [0..<LS_SPOOL_MAX_RECORDS cfg] \<subseteq> {..<LS_SPOOL_MAX_RECORDS cfg}" by auto
  obtain k rec where sel: "sel = Some (k, rec)" "drains_before base rec (slot_record cfg (sim_content (ctx w)) j)"
    using sim.select_record_first [OF assms(2,1,3) slots, of base] assms(4-6) by auto
  then show ?thesis
    using sim.select_record_effect [OF assms(2,3,1) slots] by auto
qed


text \<open>A read of the payload that fails, for whatever reason, is counted as corruption and the record
  is acknowledged: it is not offered again when the device has recovered.\<close>

lemma flush_record_read_failure:
  assumes "on_store (call_read d (slot_offset cfg slot + SPOOL_RECORD_SIZE) (unat (sr_length selected))) rt =
      ((LS_EBUSY, data), rt1)"
  shows "flush_record cfg d heap slot selected rt = drop_corrupt cfg d slot rt1"
  using assms by (simp add: flush_record_def)

section \<open>Witnesses\<close>

definition small_config :: ls_build_config where
  "small_config = \<lparr>LS_MAX_EVENT_SIZE = 64, LS_SPOOL_MAX_RECORDS = 2, LS_SPOOL_RESERVED_CRITICAL = 1,
     LS_SPOOL_RESERVED_EMERGENCY = 0, LS_STORAGE_MAX_WRITE_SIZE = 8, LS_MAX_TRANSPORTS = 1\<rparr>"

definition small_rt :: "ls_storage_sim \<Rightarrow> (ls_storage_sim, bytes list) spool_rt" where
  "small_rt store =
     \<lparr>rt_faults = faults_none, rt_store = store, rt_net = [], rt_transports = [1], rt_busy = [None],
      rt_sequence = 0, spool_high_watermark = 0, spool_dropped_records = 0, spool_corrupt_records = 0,
      spool_transport_failures = 0, spool_retry_saturated = 0\<rparr>"

definition small_envelope :: bytes where
  "small_envelope = plain_envelope 1 2 0 7 9 (tlvs_bytes [(3, [10, 11])])"

lemma small_envelope_facts:
  "length small_envelope = 34" "small_envelope \<noteq> []"
  "ls_envelope_validate small_envelope =
     Inr \<lparr>ei_version = LS_LEP_CURRENT_VERSION, ei_type = 1, ei_architecture = 2, ei_flags = 0,
         ei_sequence = 7, ei_event_id = 9, ei_payload_length = 6\<rparr>"
proof -
  show len: "length small_envelope = 34"
    by (simp add: small_envelope_def plain_envelope_def tlvs_bytes_def tlv_bytes_def)
  then show "small_envelope \<noteq> []" by auto
  show "ls_envelope_validate small_envelope =
     Inr \<lparr>ei_version = LS_LEP_CURRENT_VERSION, ei_type = 1, ei_architecture = 2, ei_flags = 0,
         ei_sequence = 7, ei_event_id = 9, ei_payload_length = 6\<rparr>"
    using validate_plain_envelope [of "[(3, [10, 11])]" 0 1 2 7 9]
    by (simp add: small_envelope_def tlvs_ok_def UINT32_MAX_def tlvs_bytes_def tlv_bytes_def)
qed

lemma small_spool_usable: "spool_usable small_config (Some (sim_backend 208 8 8))"
  by (simp add: spool_usable_def ls_spool_storage_size_def raw_storage_size_def record_size_def spool_add_size_def
      small_config_def sim_backend_def spool_layout SIZE_MAX_def Let_def)

lemma small_rt_simps [simp]:
  "rt_store (small_rt s) = s" "rt_faults (small_rt s) = faults_none" "rt_net (small_rt s) = []"
  "spool_corrupt_records (small_rt s) = 0"
  by (simp_all add: small_rt_def)



text \<open>A flash that holds one committed record, in the first slot.\<close>

definition small_record :: spool_record where
  "small_record = new_spool_record small_envelope LS_PRIORITY_ERROR
     \<lparr>ei_version = LS_LEP_CURRENT_VERSION, ei_type = 1, ei_architecture = 2, ei_flags = 0,
      ei_sequence = 7, ei_event_id = 9, ei_payload_length = 6\<rparr>"

definition small_memory :: bytes where
  "small_memory =
     overwrite (slot_offset small_config 0 + SPOOL_STATE_OFFSET) [SPOOL_RECORD_COMMITTED]
       (overwrite (slot_offset small_config 0 + SPOOL_RECORD_SIZE) small_envelope
         (overwrite (slot_offset small_config 0) (spool_record_bytes small_record) (replicate 208 0xff)))"

lemma length_small_memory [simp]: "length small_memory = 208"
  by (simp add: small_memory_def slot_offset_def spool_layout small_envelope_facts(1))

lemma small_memory_view:
  "spool_view small_config small_memory 0 = Some (2, 7, ls_crc32 small_envelope, small_envelope)"
proof -
  have "record_valid small_config small_record"
    unfolding small_record_def
    by (subst new_spool_record_valid)
      (simp_all add: small_envelope_facts small_config_def UINT16_MAX_def LS_EVENT_CRASH_def LS_EVENT_COREDUMP_def)
  then have "spool_view small_config small_memory 0 =
      Some (sr_priority small_record, sr_sequence small_record, sr_data_crc small_record, small_envelope)"
    unfolding small_memory_def
    by (intro spool_view_committed)
      (simp_all add: small_config_def slot_offset_def spool_layout small_envelope_facts(1) small_record_def
        new_spool_record_def Let_def)
  then show ?thesis by (simp add: small_record_def new_spool_record_def Let_def)
qed


theorem spool_flush_order_witness:
  "\<exists>sel w'. select_record small_config (sim_backend 208 8 8) [0..<2] None (example_flash small_memory) =
       ((LS_OK, Some (0, sel)), w') \<and> sr_priority sel = 2"
proof -
  let ?w = "example_flash small_memory"
  have max: "LS_SPOOL_MAX_RECORDS small_config = 2" by (simp add: small_config_def)
  obtain sel w' where s: "select_record small_config (sim_backend 208 8 8) [0..<LS_SPOOL_MAX_RECORDS small_config] None ?w = ((LS_OK, sel), w')"
    using sim.select_record_ok [OF small_spool_usable, of ?w "[0..<LS_SPOOL_MAX_RECORDS small_config]" None]
    by (auto simp: atLeast0LessThan)
  have c0: "slot_committed small_config small_memory 0" "sr_priority (slot_record small_config small_memory 0) = 2"
    "sr_sequence (slot_record small_config small_memory 0) = 7"
    using small_memory_view by (auto simp: spool_view_def split: if_splits)
  have c1: "\<not> slot_committed small_config small_memory 1"
    by (simp add: slot_committed_def slot_state slot_offset_def small_memory_def nth_overwrite spool_layout
        small_config_def record_size_def small_envelope_facts(1) SPOOL_RECORD_COMMITTED_def)
  have two: "j < 2 \<Longrightarrow> slot_committed small_config small_memory j \<Longrightarrow> j = 0" for j
    using c1 by (cases "j = 1") auto
  have "\<forall>j<LS_SPOOL_MAX_RECORDS small_config. slot_committed small_config (sim_content (ctx ?w)) j \<longrightarrow>
      unat (sr_sequence (slot_record small_config (sim_content (ctx ?w)) j) - 0) < 2 ^ 31"
    using c0(3) by (auto simp: max dest: two)
  from spool_flush_order [OF _ small_spool_usable s this, of 0] obtain k where
    k: "k < 2" "slot_committed small_config small_memory k" "sel = Some (k, slot_record small_config small_memory k)"
    using c0(1) by (auto simp: max)
  then show ?thesis using two [OF k(1,2)] s c0(2) by (auto simp: max)
qed

end
