(* ===== verification/LS_Stream.thy ===== *)
theory LS_Stream
  imports LS_Transport LS_Envelope
begin

text \<open>
  \<^verbatim>\<open>src/transport/stream.c\<close> and \<^verbatim>\<open>src/transport/network.c\<close>: the byte-stream transport with its
  framing and the resumption of an interrupted frame, the acknowledgement message, the parser of a
  frame, the HTTP and MQTT adapters and the incident beacon. The callbacks of a stream act on the
  context \<open>'c\<close> of the port; the predicate \<open>port_contract\<close> states the contract of
  \<^verbatim>\<open>stream_transport.h\<close> for them, a write consumes its whole buffer or returns an error.
\<close>

section \<open>State\<close>

record 'c ls_stream_transport =
  st_write :: "(bytes \<Rightarrow> 'c \<Rightarrow> ls_result \<times> 'c) option"
  st_wait_ack :: "(u32 \<Rightarrow> u32 \<Rightarrow> 'c \<Rightarrow> ls_result \<times> 'c) option"
  st_maximum_envelope :: nat
  st_ack_timeout_ms :: u32
  st_pending_event_id :: u32
  st_pending_crc :: u32
  st_pending_length :: nat
  st_header_offset :: nat
  st_payload_offset :: nat
  st_trailer_offset :: nat
  st_pending :: bool
  st_awaiting_ack :: bool
  st_sending :: bool
  st_state_magic :: u32

record ls_lsak =
  ak_version :: u8
  ak_status :: u8
  ak_event_id :: u32

record ls_stream_frame =
  sf_envelope :: bytes
  sf_envelope_crc :: u32

definition LS_STREAM_TRANSPORT_VERSION :: u8 where "LS_STREAM_TRANSPORT_VERSION = 1"
definition LS_STREAM_TRANSPORT_HEADER_SIZE :: nat where "LS_STREAM_TRANSPORT_HEADER_SIZE = 8"
definition LS_STREAM_TRANSPORT_TRAILER_SIZE :: nat where "LS_STREAM_TRANSPORT_TRAILER_SIZE = 4"
definition LS_STREAM_TRANSPORT_STATE_MAGIC :: u32 where "LS_STREAM_TRANSPORT_STATE_MAGIC = 0x4c535354"
definition LS_LSAK_SIZE :: nat where "LS_LSAK_SIZE = 12"
definition LS_LSAK_VERSION :: u8 where "LS_LSAK_VERSION = 1"
definition LS_LSAK_ACK_STORED :: u8 where "LS_LSAK_ACK_STORED = 1"
definition LS_LSAK_ACK_DUPLICATE :: u8 where "LS_LSAK_ACK_DUPLICATE = 2"
definition LS_LSAK_NACK_INTERNAL :: u8 where "LS_LSAK_NACK_INTERNAL = 8"

lemmas stream_sizes = LS_STREAM_TRANSPORT_HEADER_SIZE_def LS_STREAM_TRANSPORT_TRAILER_SIZE_def

section \<open>Sending\<close>

definition clear_pending :: "'c ls_stream_transport \<Rightarrow> 'c ls_stream_transport" where
  "clear_pending st =
     st\<lparr>st_pending_event_id := 0, st_pending_crc := 0, st_pending_length := 0, st_header_offset := 0,
        st_payload_offset := 0, st_trailer_offset := 0, st_pending := False, st_awaiting_ack := False\<rparr>"

definition acquire_stream ::
    "'c ls_stream_transport \<Rightarrow> ls_envelope_info \<Rightarrow> nat \<Rightarrow> u32 \<Rightarrow> ls_result \<times> 'c ls_stream_transport" where
  "acquire_stream st info len crc =
     (if st_state_magic st \<noteq> LS_STREAM_TRANSPORT_STATE_MAGIC then (LS_EINVAL, st)
      else if st_sending st then (LS_EBUSY, st)
      else if st_pending st \<and> (st_pending_event_id st \<noteq> ei_event_id info \<or>
              st_pending_length st \<noteq> len \<or> st_pending_crc st \<noteq> crc)
      then (LS_EBUSY, st)
      else
        let st = (if \<not> st_pending st
                  then st\<lparr>st_pending_event_id := ei_event_id info, st_pending_crc := crc,
                          st_pending_length := len, st_header_offset := 0, st_payload_offset := 0,
                          st_trailer_offset := 0, st_pending := True, st_awaiting_ack := False\<rparr>
                  else st)
        in (LS_OK, st\<lparr>st_sending := True\<rparr>))"

definition ls_stream_transport_init :: "'c ls_stream_transport \<Rightarrow> ls_result \<times> 'c ls_stream_transport" where
  "ls_stream_transport_init st =
     (LS_OK,
      st\<lparr>st_pending_event_id := 0, st_pending_crc := 0, st_pending_length := 0, st_header_offset := 0,
         st_payload_offset := 0, st_trailer_offset := 0, st_pending := False, st_awaiting_ack := False,
         st_sending := False, st_state_magic := LS_STREAM_TRANSPORT_STATE_MAGIC\<rparr>)"

definition release_stream :: "ls_result \<Rightarrow> 'c ls_stream_transport \<Rightarrow> 'c ls_stream_transport" where
  "release_stream result st =
     (let st = (if ls_transport_result_is_retryable result \<and> st_awaiting_ack st
                then st\<lparr>st_header_offset := 0, st_payload_offset := 0, st_trailer_offset := 0,
                        st_awaiting_ack := False\<rparr>
                else if result = LS_OK \<or> \<not> ls_transport_result_is_retryable result then clear_pending st
                else st)
      in st\<lparr>st_sending := False\<rparr>)"

definition ls_stream_transport_reset :: "'c ls_stream_transport \<Rightarrow> ls_result \<times> 'c ls_stream_transport" where
  "ls_stream_transport_reset st =
     (if st_state_magic st \<noteq> LS_STREAM_TRANSPORT_STATE_MAGIC then (LS_EINVAL, st)
      else if st_sending st then (LS_EBUSY, st)
      else (LS_OK, clear_pending st))"

definition stream_header :: "nat \<Rightarrow> bytes" where
  "stream_header len = [0x4c, 0x53, LS_STREAM_TRANSPORT_VERSION, 0] @ le32 (word_of_nat len)"

text \<open>One of the three parts of a frame: what is left of it is written, unless an acknowledgement is
  awaited; \<open>set\<close> stores the new offset.\<close>

definition write_part ::
    "('c ls_stream_transport \<Rightarrow> nat) \<Rightarrow> (nat \<Rightarrow> 'c ls_stream_transport \<Rightarrow> 'c ls_stream_transport) \<Rightarrow>
     bytes \<Rightarrow> 'c ls_stream_transport \<times> 'c \<Rightarrow> ls_result \<times> 'c ls_stream_transport \<times> 'c" where
  "write_part offset set_offset part sc =
     (case sc of (st, c) \<Rightarrow>
       if \<not> st_awaiting_ack st \<and> offset st < length part
       then (case the (st_write st) (drop (offset st) part) c of
               (result, c) \<Rightarrow> (result, if result = LS_OK then set_offset (length part) st else st, c))
       else (LS_OK, st, c))"

definition await_ack :: "u32 \<Rightarrow> 'c ls_stream_transport \<times> 'c \<Rightarrow> ls_result \<times> 'c ls_stream_transport \<times> 'c" where
  "await_ack event_id sc =
     (case sc of (st, c) \<Rightarrow>
       (case st_wait_ack st of
          None \<Rightarrow> (LS_OK, st, c)
        | Some f \<Rightarrow> (case f event_id (st_ack_timeout_ms st) c of
                       (result, c) \<Rightarrow> (result, st\<lparr>st_awaiting_ack := True\<rparr>, c))))"

definition ls_stream_transport_max_payload :: "ls_build_config \<Rightarrow> 'c ls_stream_transport option \<Rightarrow> nat" where
  "ls_stream_transport_max_payload cfg stream =
     (case stream of
        None \<Rightarrow> 0
      | Some st \<Rightarrow> if st_maximum_envelope st \<noteq> 0 then st_maximum_envelope st else LS_MAX_EVENT_SIZE cfg)"

definition ls_stream_transport_send ::
    "ls_build_config \<Rightarrow> bytes \<Rightarrow> 'c ls_stream_transport \<times> 'c \<Rightarrow> ls_result \<times> 'c ls_stream_transport \<times> 'c" where
  "ls_stream_transport_send cfg data sc =
     (case sc of (st, c) \<Rightarrow>
       if st_write st = None \<or> length data > UINT32_MAX then (LS_EINVAL, st, c)
       else if length data > (if st_maximum_envelope st \<noteq> 0 then st_maximum_envelope st
                              else LS_MAX_EVENT_SIZE cfg)
       then (LS_ENOSPACE, st, c)
       else case ls_envelope_validate data of
         Inl result \<Rightarrow> (result, st, c)
       | Inr info \<Rightarrow>
           let crc = ls_crc32 data
           in case acquire_stream st info (length data) crc of
             (result, st) \<Rightarrow>
               if result \<noteq> LS_OK then (result, st, c)
               else case ls_seq
                   [write_part st_header_offset (\<lambda>n. st_header_offset_update (\<lambda>_. n)) (stream_header (length data)),
                    write_part st_payload_offset (\<lambda>n. st_payload_offset_update (\<lambda>_. n)) data,
                    write_part st_trailer_offset (\<lambda>n. st_trailer_offset_update (\<lambda>_. n)) (le32 crc),
                    await_ack (ei_event_id info)] (st, c) of
                 (result, st, c) \<Rightarrow> (result, release_stream result st, c))"

section \<open>Receiving\<close>

definition ls_lsak_parse :: "bytes \<Rightarrow> ls_result + ls_lsak" where
  "ls_lsak_parse data =
     (if length data \<noteq> LS_LSAK_SIZE then Inl LS_EINVAL
      else if data ! 0 \<noteq> 0x4c \<or> data ! 1 \<noteq> 0x53 \<or> data ! 2 \<noteq> 0x41 \<or> data ! 3 \<noteq> 0x4b then Inl LS_ECORRUPT
      else if data ! 4 \<noteq> LS_LSAK_VERSION then Inl LS_ENOTSUP
      else if data ! 5 < LS_LSAK_ACK_STORED \<or> data ! 5 > LS_LSAK_NACK_INTERNAL \<or> data ! 6 \<noteq> 0 \<or> data ! 7 \<noteq> 0
      then Inl LS_ECORRUPT
      else Inr \<lparr>ak_version = data ! 4, ak_status = data ! 5, ak_event_id = read_u32 data 8\<rparr>)"

definition ls_lsak_is_success :: "u8 \<Rightarrow> bool" where
  "ls_lsak_is_success status \<longleftrightarrow> status = LS_LSAK_ACK_STORED \<or> status = LS_LSAK_ACK_DUPLICATE"

definition ls_stream_frame_parse ::
    "ls_build_config \<Rightarrow> bytes \<Rightarrow> nat \<Rightarrow> ls_result + ls_stream_frame" where
  "ls_stream_frame_parse cfg data maximum_envelope =
     (let overhead = LS_STREAM_TRANSPORT_HEADER_SIZE + LS_STREAM_TRANSPORT_TRAILER_SIZE
      in if length data < overhead then Inl LS_EINVAL
         else if data ! 0 \<noteq> 0x4c \<or> data ! 1 \<noteq> 0x53 then Inl LS_ECORRUPT
         else if data ! 2 \<noteq> LS_STREAM_TRANSPORT_VERSION \<or> data ! 3 \<noteq> 0 then Inl LS_ENOTSUP
         else
           let encoded_length = unat (read_u32 data 4);
               maximum = (if maximum_envelope \<noteq> 0 then maximum_envelope else LS_MAX_EVENT_SIZE cfg)
           in if encoded_length > maximum then Inl LS_ENOSPACE
              else if encoded_length \<noteq> length data - overhead then Inl LS_ECORRUPT
              else
                let envelope = bslice LS_STREAM_TRANSPORT_HEADER_SIZE encoded_length data;
                    crc = read_u32 data (LS_STREAM_TRANSPORT_HEADER_SIZE + encoded_length)
                in if crc \<noteq> ls_crc32 envelope then Inl LS_ECORRUPT
                   else case ls_envelope_validate envelope of
                          Inl result \<Rightarrow> Inl result
                        | Inr _ \<Rightarrow> Inr \<lparr>sf_envelope = envelope, sf_envelope_crc = crc\<rparr>)"

section \<open>Network adapters\<close>

text \<open>A post returns the result code and the HTTP status.\<close>

record 'c ls_http_transport =
  ht_endpoint :: "cstring option"
  ht_post :: "(cstring \<Rightarrow> cstring \<Rightarrow> bytes \<Rightarrow> 'c \<Rightarrow> (ls_result \<times> u16) \<times> 'c) option"
  ht_maximum_payload :: nat

record 'c ls_mqtt_transport =
  mq_topic :: "cstring option"
  mq_publish :: "(cstring \<Rightarrow> bytes \<Rightarrow> u8 \<Rightarrow> bool \<Rightarrow> 'c \<Rightarrow> ls_result \<times> 'c) option"
  mq_maximum_payload :: nat
  mq_qos :: u8

definition ls_http_transport_max_payload :: "ls_build_config \<Rightarrow> 'c ls_http_transport \<Rightarrow> nat" where
  "ls_http_transport_max_payload cfg http =
     (if ht_maximum_payload http \<noteq> 0 then ht_maximum_payload http else LS_MAX_EVENT_SIZE cfg)"

definition http_status_result :: "u16 \<Rightarrow> ls_result" where
  "http_status_result status =
     (if status \<ge> 200 \<and> status < 300 then LS_OK
      else if status = 408 \<or> status = 425 \<or> status = 429 \<or> status \<ge> 500 then LS_EAGAIN
      else LS_EIO)"

definition ls_http_transport_send ::
    "ls_build_config \<Rightarrow> 'c ls_http_transport \<Rightarrow> bytes \<Rightarrow> 'c \<Rightarrow> ls_result \<times> 'c" where
  "ls_http_transport_send cfg http data c =
     (if ht_post http = None \<or> ht_endpoint http = None \<or> data = [] then (LS_EINVAL, c)
      else if length data > ls_http_transport_max_payload cfg http then (LS_ENOSPACE, c)
      else case ls_envelope_validate data of
        Inl result \<Rightarrow> (result, c)
      | Inr _ \<Rightarrow>
          (case the (ht_post http) (the (ht_endpoint http)) (cstr ''application/vnd.laststate.lep'') data c of
             ((result, status), c) \<Rightarrow>
               (if result \<noteq> LS_OK then result else http_status_result status, c)))"

definition ls_mqtt_transport_max_payload :: "ls_build_config \<Rightarrow> 'c ls_mqtt_transport \<Rightarrow> nat" where
  "ls_mqtt_transport_max_payload cfg mqtt =
     (if mq_maximum_payload mqtt \<noteq> 0 then mq_maximum_payload mqtt else LS_MAX_EVENT_SIZE cfg)"

definition ls_mqtt_transport_send ::
    "ls_build_config \<Rightarrow> 'c ls_mqtt_transport \<Rightarrow> bytes \<Rightarrow> 'c \<Rightarrow> ls_result \<times> 'c" where
  "ls_mqtt_transport_send cfg mqtt data c =
     (if mq_publish mqtt = None \<or> mq_topic mqtt = None \<or> data = [] \<or> mq_qos mqtt > 2 then (LS_EINVAL, c)
      else if length data > ls_mqtt_transport_max_payload cfg mqtt then (LS_ENOSPACE, c)
      else case ls_envelope_validate data of
        Inl result \<Rightarrow> (result, c)
      | Inr _ \<Rightarrow> the (mq_publish mqtt) (the (mq_topic mqtt)) data (mq_qos mqtt) False c)"

text \<open>The last step appends the checksum of what the writer holds.\<close>

definition ls_incident_beacon_encode ::
    "bytes \<Rightarrow> cstring option \<Rightarrow> u32 \<Rightarrow> u16 \<Rightarrow> u16 \<Rightarrow> nat \<Rightarrow> ls_result + bytes" where
  "ls_incident_beacon_encode envelope build device_hash battery_mv temperature_c capacity =
     (if capacity < 32 then Inl LS_EINVAL
      else case ls_envelope_validate envelope of
        Inl result \<Rightarrow> Inl result
      | Inr info \<Rightarrow>
          (case ls_seq
              [ls_writer_u32 0x4249534c, ls_writer_u8 1, ls_writer_u8 (ei_type info),
               ls_writer_u8 (ei_architecture info), ls_writer_u8 (ei_flags info),
               ls_writer_u32 (ei_event_id info), ls_writer_u32 device_hash,
               ls_writer_u32 (ls_hash_string build), ls_writer_u16 battery_mv,
               ls_writer_u16 temperature_c, ls_writer_u32 (ei_sequence info),
               \<lambda>w. ls_writer_u32 (ls_crc32 (w_data w)) w] (writer_init capacity) of
             (result, w) \<Rightarrow> if result \<noteq> LS_OK then Inl result else Inr (w_data w)))"

section \<open>Frames\<close>

definition stream_frame :: "bytes \<Rightarrow> bytes" where
  "stream_frame data = stream_header (length data) @ data @ le32 (ls_crc32 data)"

lemma length_stream_header [simp]: "length (stream_header n) = 8"
  by (simp add: stream_header_def)

lemma length_stream_frame: "length (stream_frame data) = length data + 12"
  by (simp add: stream_frame_def)

lemma frame_parse_frame:
  assumes "ls_envelope_validate data = Inr info" and "length data \<le> UINT32_MAX"
    and "length data \<le> (if maximum_envelope \<noteq> 0 then maximum_envelope else LS_MAX_EVENT_SIZE cfg)"
  shows "ls_stream_frame_parse cfg (stream_frame data) maximum_envelope =
    Inr \<lparr>sf_envelope = data, sf_envelope_crc = ls_crc32 data\<rparr>"
proof -
  let ?f = "stream_frame data"
  have n: "unat (word_of_nat (length data) :: u32) = length data"
    using assms(2) by (simp add: unat_of_nat take_bit_nat_eq_self UINT32_MAX_def)
  have "?f = [0x4c, 0x53, 1, 0] @ le32 (word_of_nat (length data)) @ data @ le32 (ls_crc32 data)"
    by (simp add: stream_frame_def stream_header_def LS_STREAM_TRANSPORT_VERSION_def)
  moreover have "length [0x4c, 0x53, 1, 0 :: u8] + 0 = 4" by simp
  ultimately have head: "?f ! 0 = 0x4c" "?f ! 1 = 0x53" "?f ! 2 = 1" "?f ! 3 = 0"
    and len: "read_u32 ?f 4 = word_of_nat (length data)"
    using read_u32_shift [of "[0x4c, 0x53, 1, 0]" "le32 (word_of_nat (length data)) @ data @ le32 (ls_crc32 data)" 0]
    by (simp_all only: read_u32_le32) simp_all
  have body: "bslice 8 (length data) ?f = data"
    by (simp add: stream_frame_def bslice_def)
  have "read_u32 ((stream_header (length data) @ data) @ le32 (ls_crc32 data)) (length (stream_header (length data) @ data) + 0) =
      ls_crc32 data"
    unfolding read_u32_shift by simp
  then have crc: "read_u32 ?f (8 + length data) = ls_crc32 data"
    by (simp add: stream_frame_def)
  show ?thesis
    unfolding ls_stream_frame_parse_def Let_def
    using head len n body crc assms
    by (simp add: stream_sizes length_stream_frame LS_STREAM_TRANSPORT_VERSION_def)
qed

section \<open>Resumption\<close>

text \<open>
  The contract of the port in \<^verbatim>\<open>stream_transport.h\<close>: a write consumes its whole buffer or returns an
  error; \<open>wire\<close> is what went out. Waiting for an acknowledgement sends nothing.
\<close>

definition port_contract :: "('c \<Rightarrow> bytes) \<Rightarrow> 'c ls_stream_transport \<Rightarrow> bool" where
  "port_contract wire st \<longleftrightarrow>
     (\<exists>f. st_write st = Some f \<and>
        (\<forall>d c. wire (snd (f d c)) = wire c @ (if fst (f d c) = LS_OK then d else []))) \<and>
     (\<forall>g. st_wait_ack st = Some g \<longrightarrow> (\<forall>i t c. wire (snd (g i t c)) = wire c))"

text \<open>The offsets at which a frame can have been interrupted.\<close>

definition cut_at :: "bytes \<Rightarrow> nat \<Rightarrow> nat \<Rightarrow> bool" where
  "cut_at data h p \<longleftrightarrow> h = 0 \<and> p = 0 \<or> h = 8 \<and> p \<in> {0, length data}"

definition cut_bytes :: "bytes \<Rightarrow> nat \<Rightarrow> nat \<Rightarrow> bytes" where
  "cut_bytes data h p = take h (stream_header (length data)) @ take p data"

text \<open>A stream between two calls, with nothing pending or the rest of the frame of \<open>data\<close>.\<close>

definition stream_ready :: "bytes \<Rightarrow> 'c ls_stream_transport \<Rightarrow> bool" where
  "stream_ready data st \<longleftrightarrow>
     st_state_magic st = LS_STREAM_TRANSPORT_STATE_MAGIC \<and> \<not> st_sending st \<and> \<not> st_awaiting_ack st \<and>
     (st_pending st \<longrightarrow>
        (\<exists>info. ls_envelope_validate data = Inr info \<and> st_pending_event_id st = ei_event_id info) \<and>
        st_pending_length st = length data \<and> st_pending_crc st = ls_crc32 data \<and>
        cut_at data (st_header_offset st) (st_payload_offset st) \<and> st_trailer_offset st = 0)"

definition sent_bytes :: "bytes \<Rightarrow> 'c ls_stream_transport \<Rightarrow> bytes" where
  "sent_bytes data st =
     (if st_pending st then cut_bytes data (st_header_offset st) (st_payload_offset st) else [])"

lemma write_part_cases:
  assumes "port_contract wire st" and "\<not> st_awaiting_ack st"
    and "write_part offset set_offset part (st, c) = (r, st', c')"
  shows "r = LS_OK \<and> wire c' = wire c @ drop (offset st) part \<and>
      (st' = set_offset (length part) st \<or> st' = st \<and> length part \<le> offset st) \<or>
    r \<noteq> LS_OK \<and> st' = st \<and> wire c' = wire c"
proof -
  obtain f where f: "st_write st = Some f"
    "\<And>d c. wire (snd (f d c)) = wire c @ (if fst (f d c) = LS_OK then d else [])"
    using assms(1) by (auto simp: port_contract_def)
  obtain r1 c1 where w: "f (drop (offset st) part) c = (r1, c1)" by (metis prod.exhaust)
  show ?thesis
    using assms(2,3) f(1) w f(2) [of "drop (offset st) part" c]
    by (auto simp: write_part_def split: if_splits)
qed

text \<open>The three parts and the acknowledgement, from a stream that holds the rest of a frame.\<close>

definition send_parts ::
    "bytes \<Rightarrow> u32 \<Rightarrow> 'c ls_stream_transport \<times> 'c \<Rightarrow> ls_result \<times> 'c ls_stream_transport \<times> 'c" where
  "send_parts data event_id =
     ls_seq
       [write_part st_header_offset (\<lambda>n. st_header_offset_update (\<lambda>_. n)) (stream_header (length data)),
        write_part st_payload_offset (\<lambda>n. st_payload_offset_update (\<lambda>_. n)) data,
        write_part st_trailer_offset (\<lambda>n. st_trailer_offset_update (\<lambda>_. n)) (le32 (ls_crc32 data)),
        await_ack event_id]"

lemma port_contract_update [simp]:
  "port_contract wire (st\<lparr>st_header_offset := n\<rparr>) = port_contract wire st"
  "port_contract wire (st\<lparr>st_payload_offset := n\<rparr>) = port_contract wire st"
  "port_contract wire (st\<lparr>st_trailer_offset := n\<rparr>) = port_contract wire st"
  "port_contract wire (st\<lparr>st_sending := b\<rparr>) = port_contract wire st"
  "port_contract wire (st\<lparr>st_awaiting_ack := b\<rparr>) = port_contract wire st"
  "port_contract wire (clear_pending st) = port_contract wire st"
  by (simp_all add: port_contract_def clear_pending_def)

lemma await_ack_cases:
  assumes "port_contract wire st" and "\<not> st_awaiting_ack st" and "await_ack event_id (st, c) = (r, st', c')"
  shows "wire c' = wire c \<and> (\<exists>b. st' = st\<lparr>st_awaiting_ack := b\<rparr> \<and> (r = LS_OK \<or> b \<and> st_wait_ack st \<noteq> None))"
proof (cases "st_wait_ack st")
  case None
  then have "st' = st\<lparr>st_awaiting_ack := False\<rparr>" "r = LS_OK" "c' = c"
    using assms(2,3) by (simp_all add: await_ack_def)
  then show ?thesis by auto
next
  case (Some g)
  then show ?thesis
    using assms by (auto simp: await_ack_def port_contract_def split: prod.splits)
      (metis snd_conv)+
qed

lemma and_then_cases:
  assumes "and_then p f = (r, t)"
  shows "p = (r, t) \<and> r \<noteq> LS_OK \<or> (\<exists>s. p = (LS_OK, s) \<and> f s = (r, t))"
  using assms by (cases p) (auto simp: and_then_def split: if_splits)

declare ls_seq_single [simp]

lemma ls_seq_pair_cases:
  assumes "ls_seq (f # fs) s = (r, t)"
  obtains "f s = (r, t)" "r \<noteq> LS_OK" | s1 where "f s = (LS_OK, s1)" "ls_seq fs s1 = (r, t)"
  using assms and_then_cases [of "f s" "ls_seq fs" r t] by auto

text \<open>From the trailer on, from the payload on, and the whole frame.\<close>

lemma send_trailer:
  assumes pc: "port_contract wire st" and aw: "\<not> st_awaiting_ack st" and off: "st_trailer_offset st = 0"
    and run: "ls_seq [write_part st_trailer_offset (\<lambda>n. st_trailer_offset_update (\<lambda>_. n)) (le32 crc),
      await_ack event_id] (st, c) = (r, st', c')"
  shows "r \<noteq> LS_OK \<and> st' = st \<and> wire c' = wire c \<or>
    (\<exists>b. st' = st\<lparr>st_trailer_offset := 4, st_awaiting_ack := b\<rparr> \<and> wire c' = wire c @ le32 crc \<and>
       (r = LS_OK \<or> b \<and> st_wait_ack st \<noteq> None))"
  using run
proof (cases rule: ls_seq_pair_cases)
  case 1
  then show ?thesis using write_part_cases [OF pc aw 1(1)] by simp
next
  case (2 s1)
  obtain st1 c1 where s1: "s1 = (st1, c1)" by fastforce
  have st1: "st1 = st\<lparr>st_trailer_offset := 4\<rparr>" "wire c1 = wire c @ le32 crc"
    using write_part_cases [OF pc aw 2(1) [unfolded s1]] off by auto
  have ack: "await_ack event_id (st1, c1) = (r, st', c')" using 2(2) by (simp only: s1 ls_seq_single)
  show ?thesis using await_ack_cases [OF _ _ ack, of wire] pc aw st1 by auto
qed

lemma send_payload:
  assumes pc: "port_contract wire st" and aw: "\<not> st_awaiting_ack st"
    and off: "st_payload_offset st \<in> {0, length data}" "st_trailer_offset st = 0"
    and run: "ls_seq [write_part st_payload_offset (\<lambda>n. st_payload_offset_update (\<lambda>_. n)) data,
      write_part st_trailer_offset (\<lambda>n. st_trailer_offset_update (\<lambda>_. n)) (le32 crc),
      await_ack event_id] (st, c) = (r, st', c')"
  shows "\<exists>w. wire c' = wire c @ w \<and>
    ((\<exists>n \<in> {0, length data}. r \<noteq> LS_OK \<and> st' = st\<lparr>st_payload_offset := n\<rparr> \<and>
        take (st_payload_offset st) data @ w = take n data) \<or>
     (\<exists>b. st' = st\<lparr>st_payload_offset := length data, st_trailer_offset := 4, st_awaiting_ack := b\<rparr> \<and>
        take (st_payload_offset st) data @ w = data @ le32 crc \<and> (r = LS_OK \<or> b \<and> st_wait_ack st \<noteq> None)))"
  using run
proof (cases rule: ls_seq_pair_cases)
  case 1
  have "st' = st" "wire c' = wire c"
    using write_part_cases [OF pc aw 1(1)] 1(2) by auto
  then show ?thesis using off(1) 1(2) by (intro exI [of _ "[]"]) auto
next
  case (2 s1)
  obtain st1 c1 where s1: "s1 = (st1, c1)" by fastforce
  have st1: "st1 = st\<lparr>st_payload_offset := length data\<rparr>" "wire c1 = wire c @ drop (st_payload_offset st) data"
    using write_part_cases [OF pc aw 2(1) [unfolded s1]] off(1) by auto
  have rest: "wire c' = wire c1 \<and> r \<noteq> LS_OK \<and> st' = st1 \<or>
      (\<exists>b. st' = st1\<lparr>st_trailer_offset := 4, st_awaiting_ack := b\<rparr> \<and> wire c' = wire c1 @ le32 crc \<and>
        (r = LS_OK \<or> b \<and> st_wait_ack st \<noteq> None))"
    using send_trailer [OF _ _ _ 2(2) [unfolded s1], of wire] pc aw off(2) st1(1) by auto
  then show ?thesis
  proof (elim disjE exE)
    assume "wire c' = wire c1 \<and> r \<noteq> LS_OK \<and> st' = st1"
    then show ?thesis using st1 by (intro exI [of _ "drop (st_payload_offset st) data"]) auto
  next
    fix b
    assume "st' = st1\<lparr>st_trailer_offset := 4, st_awaiting_ack := b\<rparr> \<and> wire c' = wire c1 @ le32 crc \<and>
        (r = LS_OK \<or> b \<and> st_wait_ack st \<noteq> None)"
    then show ?thesis using st1 by (intro exI [of _ "drop (st_payload_offset st) data @ le32 crc"]) auto
  qed
qed

lemma send_parts_cases:
  assumes pc: "port_contract wire st" and aw: "\<not> st_awaiting_ack st"
    and off: "cut_at data (st_header_offset st) (st_payload_offset st)" "st_trailer_offset st = 0"
    and run: "send_parts data event_id (st, c) = (r, st', c')"
  shows "\<exists>w. wire c' = wire c @ w \<and>
    ((\<exists>h p. r \<noteq> LS_OK \<and> st' = st\<lparr>st_header_offset := h, st_payload_offset := p\<rparr> \<and> cut_at data h p \<and>
        cut_bytes data (st_header_offset st) (st_payload_offset st) @ w = cut_bytes data h p) \<or>
     (\<exists>b. st' = st\<lparr>st_header_offset := 8, st_payload_offset := length data, st_trailer_offset := 4,
            st_awaiting_ack := b\<rparr> \<and>
        cut_bytes data (st_header_offset st) (st_payload_offset st) @ w = stream_frame data \<and> (r = LS_OK \<or> b \<and> st_wait_ack st \<noteq> None)))"
  using run unfolding send_parts_def
proof (cases rule: ls_seq_pair_cases)
  case 1
  have "st' = st" "wire c' = wire c"
    using write_part_cases [OF pc aw 1(1)] 1(2) by auto
  then show ?thesis using off 1(2)
    by (intro exI [of _ "[]"] conjI disjI1 exI [of _ "st_header_offset st"] exI [of _ "st_payload_offset st"]) auto
next
  case (2 s1)
  obtain st1 c1 where s1: "s1 = (st1, c1)" by fastforce
  let ?h = "st_header_offset st" and ?p = "st_payload_offset st"
  have st1: "st1 = st\<lparr>st_header_offset := 8\<rparr>" "wire c1 = wire c @ drop ?h (stream_header (length data))"
    using write_part_cases [OF pc aw 2(1) [unfolded s1]] off by (auto simp: cut_at_def)
  have p: "?p \<in> {0, length data}" using off by (auto simp: cut_at_def)
  obtain w where w: "wire c' = wire c1 @ w"
    "(\<exists>n \<in> {0, length data}. r \<noteq> LS_OK \<and> st' = st1\<lparr>st_payload_offset := n\<rparr> \<and> take ?p data @ w = take n data) \<or>
     (\<exists>b. st' = st1\<lparr>st_payload_offset := length data, st_trailer_offset := 4, st_awaiting_ack := b\<rparr> \<and>
        take ?p data @ w = data @ le32 (ls_crc32 data) \<and> (r = LS_OK \<or> b \<and> st_wait_ack st \<noteq> None))"
    using send_payload [OF _ _ _ _ 2(2) [unfolded s1], of wire] pc aw off(2) p st1(1) by auto
  let ?w = "drop ?h (stream_header (length data)) @ w"
  have cut: "cut_bytes data ?h ?p @ ?w = stream_header (length data) @ take ?p data @ w"
    using off by (auto simp: cut_at_def cut_bytes_def)
  show ?thesis
    using w(2)
  proof (elim disjE bexE exE)
    fix n
    assume n: "n \<in> {0, length data}"
      and a: "r \<noteq> LS_OK \<and> st' = st1\<lparr>st_payload_offset := n\<rparr> \<and> take ?p data @ w = take n data"
    have "cut_bytes data ?h ?p @ ?w = cut_bytes data 8 n" using cut a by (simp add: cut_bytes_def)
    then show ?thesis using w(1) st1 a n
      by (intro exI [of _ ?w] conjI disjI1 exI [of _ 8] exI [of _ n]) (auto simp: cut_at_def)
  next
    fix b
    assume a: "st' = st1\<lparr>st_payload_offset := length data, st_trailer_offset := 4, st_awaiting_ack := b\<rparr> \<and>
        take ?p data @ w = data @ le32 (ls_crc32 data) \<and> (r = LS_OK \<or> b \<and> st_wait_ack st \<noteq> None)"
    then have "cut_bytes data ?h ?p @ ?w = stream_frame data" using cut by (simp add: stream_frame_def)
    then show ?thesis using w(1) st1 a
      by (intro exI [of _ ?w]) auto
  qed
qed

lemma replicate_one [simp]: "replicate 1 x = [x]"
  by (simp add: One_nat_def)

text \<open>One call: what goes out completes the frame or carries it on, so that together with what was out
  before it is a number of whole frames and the cut that the stream remembers.\<close>

lemma release_stream_cut:
  assumes "ls_transport_result_is_retryable r" and "\<not> st_awaiting_ack st"
  shows "release_stream r st = st\<lparr>st_sending := False\<rparr>"
  using assms by (auto simp: release_stream_def ls_transport_result_is_retryable_def)

lemma send_unfold:
  assumes rdy: "stream_ready data st" and val: "ls_envelope_validate data = Inr info"
    and pc: "port_contract wire st"
    and len: "length data \<le> UINT32_MAX" "length data \<le> ls_stream_transport_max_payload cfg (Some st)"
  obtains st0 where "ls_stream_transport_send cfg data (st, c) =
      (case send_parts data (ei_event_id info) (st0, c) of (r, st', c') \<Rightarrow> (r, release_stream r st', c'))"
    "port_contract wire st0" "\<not> st_awaiting_ack st0" "st_pending st0" "st_trailer_offset st0 = 0"
    "cut_at data (st_header_offset st0) (st_payload_offset st0)"
    "cut_bytes data (st_header_offset st0) (st_payload_offset st0) = sent_bytes data st"
    "stream_ready data (st0\<lparr>st_sending := False\<rparr>)"
    "st_wait_ack st0 = st_wait_ack st" "st_write st0 = st_write st"
    "st_maximum_envelope st0 = st_maximum_envelope st"
proof -
  have [simp]: "st_write st \<noteq> None" using pc by (auto simp: port_contract_def)
  define st0 where "st0 = snd (acquire_stream st info (length data) (ls_crc32 data))"
  have acq: "acquire_stream st info (length data) (ls_crc32 data) = (LS_OK, st0)"
    unfolding st0_def using rdy val by (auto simp: acquire_stream_def stream_ready_def Let_def)
  have st0: "st0 = (if st_pending st then st\<lparr>st_sending := True\<rparr>
      else st\<lparr>st_pending_event_id := ei_event_id info, st_pending_crc := ls_crc32 data,
              st_pending_length := length data, st_header_offset := 0, st_payload_offset := 0,
              st_trailer_offset := 0, st_pending := True, st_awaiting_ack := False, st_sending := True\<rparr>)"
    unfolding st0_def using rdy val by (auto simp: acquire_stream_def stream_ready_def Let_def)
  show thesis
  proof (rule that)
    show "ls_stream_transport_send cfg data (st, c) =
      (case send_parts data (ei_event_id info) (st0, c) of (r, st', c') \<Rightarrow> (r, release_stream r st', c'))"
      using len acq val
      by (simp add: ls_stream_transport_send_def ls_stream_transport_max_payload_def Let_def send_parts_def not_less)
  qed (use rdy pc val in \<open>auto simp: st0 stream_ready_def sent_bytes_def cut_bytes_def cut_at_def port_contract_def\<close>)
qed

lemma send_step:
  assumes rdy: "stream_ready data st" and val: "ls_envelope_validate data = Inr info"
    and pc: "port_contract wire st"
    and len: "length data \<le> UINT32_MAX" "length data \<le> ls_stream_transport_max_payload cfg (Some st)"
    and run: "ls_stream_transport_send cfg data (st, c) = (r, st', c')"
    and res: "r = LS_OK \<or> ls_transport_result_is_retryable r"
  shows "\<exists>w k. wire c' = wire c @ w \<and>
      sent_bytes data st @ w = concat (replicate k (stream_frame data)) @ sent_bytes data st' \<and>
      stream_ready data st' \<and> (r = LS_OK \<longrightarrow> k = 1 \<and> \<not> st_pending st') \<and>
      (r \<noteq> LS_OK \<longrightarrow> st_wait_ack st = None \<longrightarrow> k = 0) \<and>
      st_write st' = st_write st \<and> st_wait_ack st' = st_wait_ack st \<and>
      st_maximum_envelope st' = st_maximum_envelope st"
proof -
  obtain st0 where st0: "ls_stream_transport_send cfg data (st, c) =
      (case send_parts data (ei_event_id info) (st0, c) of (r, st', c') \<Rightarrow> (r, release_stream r st', c'))"
    "port_contract wire st0" "\<not> st_awaiting_ack st0" "st_pending st0" "st_trailer_offset st0 = 0"
    "cut_at data (st_header_offset st0) (st_payload_offset st0)"
    "cut_bytes data (st_header_offset st0) (st_payload_offset st0) = sent_bytes data st"
    "stream_ready data (st0\<lparr>st_sending := False\<rparr>)"
    "st_wait_ack st0 = st_wait_ack st" "st_write st0 = st_write st"
    "st_maximum_envelope st0 = st_maximum_envelope st"
    using send_unfold [OF rdy val pc len] by blast
  obtain st1 where parts: "send_parts data (ei_event_id info) (st0, c) = (r, st1, c')"
    and st': "st' = release_stream r st1"
    using run st0(1) by (auto split: prod.splits)
  obtain w where w: "wire c' = wire c @ w" and alt:
    "(\<exists>h p. r \<noteq> LS_OK \<and> st1 = st0\<lparr>st_header_offset := h, st_payload_offset := p\<rparr> \<and> cut_at data h p \<and>
        sent_bytes data st @ w = cut_bytes data h p) \<or>
     (\<exists>b. st1 = st0\<lparr>st_header_offset := 8, st_payload_offset := length data, st_trailer_offset := 4,
            st_awaiting_ack := b\<rparr> \<and>
        sent_bytes data st @ w = stream_frame data \<and> (r = LS_OK \<or> b \<and> st_wait_ack st \<noteq> None))"
    using send_parts_cases [OF st0(2,3,6,5) parts, unfolded st0(7,9)] by blast
  from alt show ?thesis
  proof (elim disjE exE conjE)
    fix h p
    assume a: "r \<noteq> LS_OK" "st1 = st0\<lparr>st_header_offset := h, st_payload_offset := p\<rparr>" "cut_at data h p"
      "sent_bytes data st @ w = cut_bytes data h p"
    have st'1: "st' = st0\<lparr>st_header_offset := h, st_payload_offset := p, st_sending := False\<rparr>"
      using release_stream_cut [of r st1] res a(1,2) st0(3) st' by simp
    have "stream_ready data st'" using st0(8) a(3) st0(4,5) by (simp add: st'1 stream_ready_def)
    then show ?thesis
      using w a st0 by (intro exI [of _ w] exI [of _ 0]) (simp add: st'1 sent_bytes_def)
  next
    fix b
    assume b: "st1 = st0\<lparr>st_header_offset := 8, st_payload_offset := length data, st_trailer_offset := 4,
            st_awaiting_ack := b\<rparr>" "sent_bytes data st @ w = stream_frame data"
      and r: "r = LS_OK"
    have "st' = clear_pending st1\<lparr>st_sending := False\<rparr>"
      using r st' by (simp add: release_stream_def ls_transport_result_is_retryable_def)
    then show ?thesis
      using w b r st0 by (intro exI [of _ w] exI [of _ 1])
        (simp add: clear_pending_def sent_bytes_def stream_ready_def)
  next
    fix b
    assume b: "st1 = st0\<lparr>st_header_offset := 8, st_payload_offset := length data, st_trailer_offset := 4,
            st_awaiting_ack := b\<rparr>" "sent_bytes data st @ w = stream_frame data" "b" "st_wait_ack st \<noteq> None"
    show ?thesis
    proof (cases "r = LS_OK")
      case True
      then have "st' = clear_pending st1\<lparr>st_sending := False\<rparr>"
        using st' by (simp add: release_stream_def ls_transport_result_is_retryable_def)
      then show ?thesis
        using w b True st0 by (intro exI [of _ w] exI [of _ 1])
          (simp add: clear_pending_def sent_bytes_def stream_ready_def)
    next
      case False
      then have st'1: "st' = st0\<lparr>st_header_offset := 0, st_payload_offset := 0, st_trailer_offset := 0,
          st_awaiting_ack := False, st_sending := False\<rparr>"
        using st' res b by (simp add: release_stream_def Let_def)
      then have "stream_ready data st'" using st0(8) by (auto simp: stream_ready_def cut_at_def)
      then show ?thesis
        using w b False st0 by (intro exI [of _ w] exI [of _ 1])
          (simp add: st'1 sent_bytes_def cut_bytes_def)
    qed
  qed
qed

text \<open>A series of calls for the same envelope, each but the last one asking for a retry.\<close>

fun send_until_ok ::
    "ls_build_config \<Rightarrow> bytes \<Rightarrow> nat \<Rightarrow> 'c ls_stream_transport \<times> 'c \<Rightarrow> ls_result \<times> 'c ls_stream_transport \<times> 'c" where
  "send_until_ok cfg data 0 sc = ls_stream_transport_send cfg data sc"
| "send_until_ok cfg data (Suc n) sc =
     (case ls_stream_transport_send cfg data sc of
        (r, sc') \<Rightarrow> if ls_transport_result_is_retryable r then send_until_ok cfg data n sc' else (r, sc'))"

lemma port_contract_fields:
  "st_write st' = st_write st \<Longrightarrow> st_wait_ack st' = st_wait_ack st \<Longrightarrow> port_contract wire st' = port_contract wire st"
  by (simp add: port_contract_def)

lemma send_step_ok:
  assumes "stream_ready data st" and "ls_envelope_validate data = Inr info" and "port_contract wire st"
    and "length data \<le> UINT32_MAX" and "length data \<le> ls_stream_transport_max_payload cfg (Some st)"
    and "ls_stream_transport_send cfg data (st, c) = (LS_OK, st', c')"
  shows "\<exists>w k. wire c' = wire c @ w \<and> sent_bytes data st @ w = concat (replicate k (stream_frame data)) \<and>
      0 < k \<and> (st_wait_ack st = None \<longrightarrow> k = 1) \<and> \<not> st_pending st' \<and> stream_ready data st'"
proof -
  obtain w k where "wire c' = wire c @ w"
    "sent_bytes data st @ w = concat (replicate k (stream_frame data)) @ sent_bytes data st'"
    "stream_ready data st'" "k = 1" "\<not> st_pending st'"
    using send_step [OF assms] by auto
  then show ?thesis by (intro exI [of _ w] exI [of _ 1]) (simp add: sent_bytes_def)
qed

lemma send_until_ok_wire:
  assumes "stream_ready data st" and "ls_envelope_validate data = Inr info" and "port_contract wire st"
    and "length data \<le> UINT32_MAX" and "length data \<le> ls_stream_transport_max_payload cfg (Some st)"
    and "send_until_ok cfg data n (st, c) = (LS_OK, st', c')"
  shows "\<exists>w k. wire c' = wire c @ w \<and> sent_bytes data st @ w = concat (replicate k (stream_frame data)) \<and>
      0 < k \<and> (st_wait_ack st = None \<longrightarrow> k = 1) \<and> \<not> st_pending st' \<and> stream_ready data st'"
  using assms
proof (induction n arbitrary: st c)
  case 0
  then show ?case by (intro send_step_ok) simp_all
next
  case (Suc n)
  obtain r st1 c1 where s: "ls_stream_transport_send cfg data (st, c) = (r, st1, c1)" by (metis prod.exhaust)
  show ?case
  proof (cases "ls_transport_result_is_retryable r")
    case False
    then have "ls_stream_transport_send cfg data (st, c) = (LS_OK, st', c')" using Suc.prems(6) s by simp
    then show ?thesis by (rule send_step_ok [OF Suc.prems(1-5)])
  next
    case True
    then have rok: "r \<noteq> LS_OK" by (auto simp: ls_transport_result_is_retryable_def)
    obtain w k where one: "wire c1 = wire c @ w"
      "sent_bytes data st @ w = concat (replicate k (stream_frame data)) @ sent_bytes data st1"
      "stream_ready data st1" "st_wait_ack st = None \<longrightarrow> k = 0"
      "st_write st1 = st_write st" "st_wait_ack st1 = st_wait_ack st"
      "st_maximum_envelope st1 = st_maximum_envelope st"
      using send_step [OF Suc.prems(1-5) s] True rok by auto
    have rest: "send_until_ok cfg data n (st1, c1) = (LS_OK, st', c')"
      using Suc.prems(6) s True by simp
    have pc1: "port_contract wire st1" using Suc.prems(3) port_contract_fields [OF one(5,6)] by blast
    have len1: "length data \<le> ls_stream_transport_max_payload cfg (Some st1)"
      using Suc.prems(5) one(7) by (simp add: ls_stream_transport_max_payload_def split: if_splits)
    obtain w' k' where two: "wire c' = wire c1 @ w'"
      "sent_bytes data st1 @ w' = concat (replicate k' (stream_frame data))" "0 < k'"
      "st_wait_ack st1 = None \<longrightarrow> k' = 1" "\<not> st_pending st'" "stream_ready data st'"
      using Suc.IH [OF one(3) Suc.prems(2) pc1 Suc.prems(4) len1 rest] by (elim exE conjE)
    have "sent_bytes data st @ w @ w' = concat (replicate (k + k') (stream_frame data))"
      using one(2) two(2) by (simp add: replicate_add append_assoc [symmetric] del: append_assoc) (simp add: two(2))
    then show ?thesis using one two by (intro exI [of _ "w @ w'"] exI [of _ "k + k'"]) auto
  qed
qed


text \<open>A port that refuses its second write and one acknowledgement: the payload is cut once, and the
  frame is repeated once.\<close>

definition flaky_stream :: "(bool list \<times> bytes) ls_stream_transport" where
  "flaky_stream =
     \<lparr>st_write = Some (\<lambda>d (ok, out). if hd (ok @ [True]) then (LS_OK, (tl ok, out @ d)) else (LS_EAGAIN, (tl ok, out))),
      st_wait_ack = Some (\<lambda>_ _ (ok, out). if hd (ok @ [True]) then (LS_OK, (tl ok, out)) else (LS_EAGAIN, (tl ok, out))),
      st_maximum_envelope = 64, st_ack_timeout_ms = 5, st_pending_event_id = 3, st_pending_crc = 0,
      st_pending_length = 9, st_header_offset = 2, st_payload_offset = 0, st_trailer_offset = 0,
      st_pending = True, st_awaiting_ack = False, st_sending = False, st_state_magic = 0\<rparr>"


end
