(* ===== verification/LS_Chacha20.thy ===== *)
theory LS_Chacha20
  imports LS_Util
begin

text \<open>
  \<^verbatim>\<open>src/security/chacha20.c\<close>: the ChaCha20 block function, the stream cipher that xors its
  blocks into a message, and HChaCha20. The lemmas relate the loop over blocks to one key stream.
\<close>

section \<open>The block function\<close>

definition rotate_left :: "u32 \<Rightarrow> nat \<Rightarrow> u32" where
  "rotate_left v count = push_bit count v OR drop_bit (32 - count) v"

definition QUARTER :: "nat \<Rightarrow> nat \<Rightarrow> nat \<Rightarrow> nat \<Rightarrow> u32 list \<Rightarrow> u32 list" where
  "QUARTER a b c d x =
     (let x = x[a := x ! a + x ! b];
          x = x[d := x ! d XOR x ! a];
          x = x[d := rotate_left (x ! d) 16];
          x = x[c := x ! c + x ! d];
          x = x[b := x ! b XOR x ! c];
          x = x[b := rotate_left (x ! b) 12];
          x = x[a := x ! a + x ! b];
          x = x[d := x ! d XOR x ! a];
          x = x[d := rotate_left (x ! d) 8];
          x = x[c := x ! c + x ! d];
          x = x[b := x ! b XOR x ! c]
      in x[b := rotate_left (x ! b) 7])"

definition double_round :: "u32 list \<Rightarrow> u32 list" where
  "double_round x =
     QUARTER 3 4 9 14 (QUARTER 2 7 8 13 (QUARTER 1 6 11 12 (QUARTER 0 5 10 15
       (QUARTER 3 7 11 15 (QUARTER 2 6 10 14 (QUARTER 1 5 9 13 (QUARTER 0 4 8 12 x)))))))"

definition chacha_rounds :: "u32 list \<Rightarrow> u32 list" where
  "chacha_rounds x = (double_round ^^ 10) x"

definition chacha_constants :: "u32 list" where
  "chacha_constants = [0x61707865, 0x3320646e, 0x79622d32, 0x6b206574]"

definition chacha_state :: "bytes \<Rightarrow> bytes \<Rightarrow> u32 \<Rightarrow> u32 list" where
  "chacha_state key nonce counter =
     chacha_constants @ map (\<lambda>i. read_u32 key (i * 4)) [0..<8] @
     [counter, read_u32 nonce 0, read_u32 nonce 4, read_u32 nonce 8]"

definition chacha_block :: "bytes \<Rightarrow> bytes \<Rightarrow> u32 \<Rightarrow> bytes" where
  "chacha_block key nonce counter =
     (let st = chacha_state key nonce counter; x = chacha_rounds st
      in concat (map (\<lambda>i. le32 (x ! i + st ! i)) [0..<16]))"

section \<open>The stream cipher\<close>

text \<open>A null \<open>input\<close> stands for zeros, \<open>n\<close> is the length.\<close>

function ls_chacha20_xor :: "bytes \<Rightarrow> bytes \<Rightarrow> u32 \<Rightarrow> bytes option \<Rightarrow> nat \<Rightarrow> bytes" where
  "ls_chacha20_xor key nonce counter input n =
     (if n = 0 then []
      else let stream = chacha_block key nonce counter;
               taken = (if n > 64 then 64 else n);
               out = map (\<lambda>i. (case input of None \<Rightarrow> 0 | Some d \<Rightarrow> d ! i) XOR stream ! i) [0..<taken]
           in out @ ls_chacha20_xor key nonce (counter + 1) (map_option (drop taken) input) (n - taken))"
  by pat_completeness auto
termination
  by (relation "measure (\<lambda>(key, nonce, counter, input, n). n)") auto

declare ls_chacha20_xor.simps [simp del]

definition ls_hchacha20 :: "bytes \<Rightarrow> bytes \<Rightarrow> bytes" where
  "ls_hchacha20 key nonce =
     (let x = chacha_rounds (chacha_constants @ map (\<lambda>i. read_u32 key (i * 4)) [0..<8] @
                map (\<lambda>i. read_u32 nonce (i * 4)) [0..<4])
      in le32 (x ! 0) @ le32 (x ! 1) @ le32 (x ! 2) @ le32 (x ! 3) @
         le32 (x ! 12) @ le32 (x ! 13) @ le32 (x ! 14) @ le32 (x ! 15))"

section \<open>The key stream\<close>

text \<open>The blocks for consecutive counters, one after the other.\<close>

definition key_stream :: "bytes \<Rightarrow> bytes \<Rightarrow> u32 \<Rightarrow> nat \<Rightarrow> bytes" where
  "key_stream key nonce counter n =
     take n (concat (map (\<lambda>j. chacha_block key nonce (counter + of_nat j)) [0..<(n + 63) div 64]))"

lemma length_chacha_block [simp]: "length (chacha_block key nonce counter) = 64"
  by (simp add: chacha_block_def Let_def length_concat comp_def sum_list_triv)

lemma length_blocks:
  "length (concat (map (\<lambda>j. chacha_block key nonce (f j)) js)) = 64 * length js"
  by (induction js) simp_all

lemma length_key_stream [simp]: "length (key_stream key nonce counter n) = n"
  by (simp add: key_stream_def length_blocks min_def) linarith

lemma key_stream_0 [simp]: "key_stream key nonce counter 0 = []"
  by (simp add: key_stream_def)

lemma key_stream_short:
  assumes "0 < n" and "n \<le> 64"
  shows "key_stream key nonce counter n = take n (chacha_block key nonce counter)"
proof -
  have "(n + 63) div 64 = 1" by (rule div_nat_eqI) (use assms in simp_all)
  then show ?thesis by (simp add: key_stream_def)
qed

lemma key_stream_long:
  assumes "64 \<le> n"
  shows "key_stream key nonce counter n =
    chacha_block key nonce counter @ key_stream key nonce (counter + 1) (n - 64)"
proof -
  have "n + 63 = (n - 64 + 63) + 64" using assms by simp
  then have "(n + 63) div 64 = Suc ((n - 64 + 63) div 64)" by simp
  moreover have "map (\<lambda>j. chacha_block key nonce (counter + of_nat j)) [1..<Suc m] =
      map (\<lambda>j. chacha_block key nonce (counter + 1 + of_nat j)) [0..<m]" for m
    by (simp add: map_Suc_upt [symmetric] comp_def add.assoc del: upt_Suc)
  ultimately show ?thesis
    using assms by (simp add: key_stream_def upt_conv_Cons [of 0] del: upt_Suc)
qed

text \<open>The loop over blocks xors the message with the key stream.\<close>

lemma chacha20_xor_key_stream:
  assumes "\<And>d. input = Some d \<Longrightarrow> length d = n"
  shows "ls_chacha20_xor key nonce counter input n =
    map2 (XOR) (case input of None \<Rightarrow> replicate n 0 | Some d \<Rightarrow> d) (key_stream key nonce counter n)"
  using assms
proof (induction n arbitrary: counter input rule: less_induct)
  case (less n)
  let ?d = "case input of None \<Rightarrow> replicate n 0 | Some d \<Rightarrow> d"
  let ?s = "chacha_block key nonce counter"
  have d: "length ?d = n" using less.prems by (auto split: option.split)
  have at: "(case input of None \<Rightarrow> 0 | Some d \<Rightarrow> d ! i) = ?d ! i" if "i < n" for i
    using that by (auto split: option.split)
  have head: "map (\<lambda>i. (case input of None \<Rightarrow> 0 | Some d \<Rightarrow> d ! i) XOR ?s ! i) [0..<k] =
      map2 (XOR) (take k ?d) (take k ?s)" if "k \<le> n" "k \<le> 64" for k
    using that d at by (intro nth_equalityI) simp_all
  consider (none) "n = 0" | (short) "0 < n" "n \<le> 64" | (long) "64 < n" by linarith
  then show ?case
  proof cases
    case none
    then show ?thesis by (simp add: ls_chacha20_xor.simps)
  next
    case short
    have "ls_chacha20_xor key nonce counter input n = map2 (XOR) (take n ?d) (take n ?s)"
      using short head [of n] by (subst ls_chacha20_xor.simps)
        (simp add: Let_def ls_chacha20_xor.simps [of _ _ _ _ 0])
    then show ?thesis using short d by (simp add: key_stream_short)
  next
    case long
    have drop: "(case map_option (drop 64) input of None \<Rightarrow> replicate (n - 64) 0 | Some d \<Rightarrow> d) = drop 64 ?d"
      by (cases input) simp_all
    have "ls_chacha20_xor key nonce (counter + 1) (map_option (drop 64) input) (n - 64) =
        map2 (XOR) (drop 64 ?d) (key_stream key nonce (counter + 1) (n - 64))"
      unfolding drop [symmetric]
      by (rule less.IH) (use long less.prems in \<open>auto simp: map_option_case split: option.splits\<close>)
    then have "ls_chacha20_xor key nonce counter input n =
        map2 (XOR) (take 64 ?d) ?s @ map2 (XOR) (drop 64 ?d) (key_stream key nonce (counter + 1) (n - 64))"
      using long head [of 64] by (subst ls_chacha20_xor.simps) (simp add: Let_def)
    also have "\<dots> = map2 (XOR) (take 64 ?d @ drop 64 ?d)
        (?s @ key_stream key nonce (counter + 1) (n - 64))"
      using long d by (simp only: zip_append map_append length_take length_chacha_block)
    finally show ?thesis using long by (simp add: key_stream_long)
  qed
qed

lemma chacha20_xor_Some:
  "n = length d \<Longrightarrow> ls_chacha20_xor key nonce counter (Some d) n = map2 (XOR) d (key_stream key nonce counter n)"
  by (subst chacha20_xor_key_stream) simp_all

lemma length_chacha20_xor [simp]:
  "n = length d \<Longrightarrow> length (ls_chacha20_xor key nonce counter (Some d) n) = n"
  by (simp add: chacha20_xor_Some)

text \<open>Applying the cipher twice gives the message back.\<close>

lemma chacha20_xor_involution:
  "n = length d \<Longrightarrow>
   ls_chacha20_xor key nonce counter (Some (ls_chacha20_xor key nonce counter (Some d) n)) n = d"
  by (intro nth_equalityI) (simp_all add: chacha20_xor_Some xor.assoc)

end
