(* ===== verification/LS_Sha256.thy ===== *)
theory LS_Sha256
  imports LS_Util
begin

text \<open>
  The hash part of \<^verbatim>\<open>src/security/sha256.c\<close>: the compression function, the buffering of
  \<open>update\<close> and \<open>finish\<close>, SHA-256, HMAC and HKDF. The reference definitions state the standards on
  whole messages (padding and blocks as in FIPS 180-4, HMAC as in RFC 2104, HKDF as in RFC 5869);
  the theorems show that the streaming code computes them.
\<close>

section \<open>The compression function\<close>

definition rotr :: "u32 \<Rightarrow> nat \<Rightarrow> u32" where
  "rotr v k = drop_bit k v OR push_bit (32 - k) v"

definition read_be32 :: "bytes \<Rightarrow> nat \<Rightarrow> u32" where
  "read_be32 p off =
     push_bit 24 (ucast (p ! off)) OR push_bit 16 (ucast (p ! (off + 1))) OR
     push_bit 8 (ucast (p ! (off + 2))) OR ucast (p ! (off + 3))"

definition sha256_constants :: "u32 list" where
  "sha256_constants =
    concat
     [[0x428a2f98, 0x71374491, 0xb5c0fbcf, 0xe9b5dba5, 0x3956c25b, 0x59f111f1, 0x923f82a4],
      [0xab1c5ed5, 0xd807aa98, 0x12835b01, 0x243185be, 0x550c7dc3, 0x72be5d74, 0x80deb1fe],
      [0x9bdc06a7, 0xc19bf174, 0xe49b69c1, 0xefbe4786, 0x0fc19dc6, 0x240ca1cc, 0x2de92c6f],
      [0x4a7484aa, 0x5cb0a9dc, 0x76f988da, 0x983e5152, 0xa831c66d, 0xb00327c8, 0xbf597fc7],
      [0xc6e00bf3, 0xd5a79147, 0x06ca6351, 0x14292967, 0x27b70a85, 0x2e1b2138, 0x4d2c6dfc],
      [0x53380d13, 0x650a7354, 0x766a0abb, 0x81c2c92e, 0x92722c85, 0xa2bfe8a1, 0xa81a664b],
      [0xc24b8b70, 0xc76c51a3, 0xd192e819, 0xd6990624, 0xf40e3585, 0x106aa070, 0x19a4c116],
      [0x1e376c08, 0x2748774c, 0x34b0bcb5, 0x391c0cb3, 0x4ed8aa4a, 0x5b9cca4f, 0x682e6ff3],
      [0x748f82ee, 0x78a5636f, 0x84c87814, 0x8cc70208, 0x90befffa, 0xa4506ceb, 0xbef9a3f7],
      [0xc67178f2]]"

text \<open>The message schedule: the first loop reads the sixteen words of the block, the second one
  extends them, one word per turn.\<close>

definition schedule_word :: "u32 list \<Rightarrow> nat \<Rightarrow> u32" where
  "schedule_word ws i =
     (let s0 = rotr (ws ! (i - 15)) 7 XOR rotr (ws ! (i - 15)) 18 XOR drop_bit 3 (ws ! (i - 15));
          s1 = rotr (ws ! (i - 2)) 17 XOR rotr (ws ! (i - 2)) 19 XOR drop_bit 10 (ws ! (i - 2))
      in ws ! (i - 16) + s0 + ws ! (i - 7) + s1)"

definition message_words :: "bytes \<Rightarrow> u32 list" where
  "message_words blk =
     foldl (\<lambda>ws i. ws @ [schedule_word ws i]) (map (\<lambda>i. read_be32 blk (i * 4)) [0..<16]) [16..<64]"

text \<open>One round on the working variables \<open>a\<close> to \<open>h\<close>.\<close>

fun sha256_round :: "u32 \<Rightarrow> u32 \<Rightarrow> u32 list \<Rightarrow> u32 list" where
  "sha256_round k wd [a, b, c, d, e, f, g, h] =
     (let s1 = rotr e 6 XOR rotr e 11 XOR rotr e 25;
          choice = (e AND f) XOR (NOT e AND g);
          temp1 = h + s1 + choice + k + wd;
          s0 = rotr a 2 XOR rotr a 13 XOR rotr a 22;
          majority = (a AND b) XOR (a AND c) XOR (b AND c);
          temp2 = s0 + majority
      in [temp1 + temp2, a, b, c, d + temp1, e, f, g])"
| "sha256_round k wd s = s"

definition sha256_rounds :: "u32 list \<Rightarrow> u32 list \<Rightarrow> u32 list" where
  "sha256_rounds ws s = foldl (\<lambda>s i. sha256_round (sha256_constants ! i) (ws ! i) s) s [0..<64]"

text \<open>\<^verbatim>\<open>transform\<close>, on the chaining value of the context.\<close>

definition sha256_transform :: "u32 list \<Rightarrow> bytes \<Rightarrow> u32 list" where
  "sha256_transform s blk = map2 (+) s (sha256_rounds (message_words blk) s)"

section \<open>The streaming interface\<close>

record sha256_context =
  sc_state :: "u32 list"
  sc_bits :: u64
  sc_block :: bytes
  sc_used :: nat

definition sha256_initial :: "u32 list" where
  "sha256_initial =
    [0x6a09e667, 0xbb67ae85, 0x3c6ef372, 0xa54ff53a, 0x510e527f, 0x9b05688c, 0x1f83d9ab, 0x5be0cd19]"

text \<open>\<open>init\<close> leaves the block as it is; \<open>blk\<close> is what the uninitialised array holds.\<close>

definition sha256_init :: "bytes \<Rightarrow> sha256_context" where
  "sha256_init blk = \<lparr>sc_state = sha256_initial, sc_bits = 0, sc_block = blk, sc_used = 0\<rparr>"

text \<open>The loop of \<open>update\<close>. The test \<open>sc_used c < 64\<close> holds in every context the code builds
  (\<open>sha256_ok\<close> below); without it a turn would make no progress.\<close>

function sha256_update_loop :: "sha256_context \<Rightarrow> bytes \<Rightarrow> sha256_context" where
  "sha256_update_loop c data =
     (if data = [] \<or> \<not> sc_used c < 64 then c
      else let taken = min (64 - sc_used c) (length data);
               c1 = c\<lparr>sc_block := overwrite (sc_used c) (take taken data) (sc_block c),
                      sc_used := sc_used c + taken\<rparr>;
               c2 = (if sc_used c1 = 64
                     then c1\<lparr>sc_state := sha256_transform (sc_state c1) (sc_block c1), sc_used := 0\<rparr>
                     else c1)
           in sha256_update_loop c2 (drop taken data))"
  by pat_completeness auto
termination
  by (relation "measure (\<lambda>(c, data). length data)") auto

declare sha256_update_loop.simps [simp del]

definition sha256_update :: "sha256_context \<Rightarrow> bytes \<Rightarrow> sha256_context" where
  "sha256_update c data =
     sha256_update_loop (c\<lparr>sc_bits := sc_bits c + of_nat (length data) * 8\<rparr>) data"

text \<open>The loops that fill the block with zeros up to a position.\<close>

definition fill_zeros :: "nat \<Rightarrow> sha256_context \<Rightarrow> sha256_context" where
  "fill_zeros stop c =
     c\<lparr>sc_block := overwrite (sc_used c) (replicate (stop - sc_used c) 0) (sc_block c),
       sc_used := max stop (sc_used c)\<rparr>"

definition be64 :: "u64 \<Rightarrow> bytes" where
  "be64 v = map (\<lambda>i. ucast (drop_bit (56 - i * 8) v)) [0..<8]"

definition be32 :: "u32 \<Rightarrow> bytes" where
  "be32 v = [ucast (drop_bit 24 v), ucast (drop_bit 16 v), ucast (drop_bit 8 v), ucast v]"

definition sha256_finish :: "sha256_context \<Rightarrow> bytes" where
  "sha256_finish c =
     (let c1 = c\<lparr>sc_block := (sc_block c)[sc_used c := 0x80], sc_used := sc_used c + 1\<rparr>;
          c2 = (if sc_used c1 > 56
                then (let c' = fill_zeros 64 c1
                      in c'\<lparr>sc_state := sha256_transform (sc_state c') (sc_block c'), sc_used := 0\<rparr>)
                else c1);
          c3 = fill_zeros 56 c2;
          blk = overwrite 56 (be64 (sc_bits c3)) (sc_block c3)
      in concat (map be32 (sha256_transform (sc_state c3) blk)))"

text \<open>The functions of the interface; the stack array of a fresh context holds zeros here, and
  \<open>sha256_finish_init\<close> below shows that its content does not matter.\<close>

definition ls_sha256 :: "bytes \<Rightarrow> bytes" where
  "ls_sha256 data =
     (let c = sha256_init (replicate 64 0)
      in sha256_finish (if data \<noteq> [] then sha256_update c data else c))"

definition ls_hmac_sha256 :: "bytes \<Rightarrow> bytes \<Rightarrow> bytes" where
  "ls_hmac_sha256 key data =
     (let zero_ctx = sha256_init (replicate 64 0);
          normalized =
            (if length key > 64 then overwrite 0 (sha256_finish (sha256_update zero_ctx key)) (replicate 64 0)
             else overwrite 0 key (replicate 64 0));
          inner_pad = map (\<lambda>b. b XOR 0x36) normalized;
          outer_pad = map (\<lambda>b. b XOR 0x5c) normalized;
          inner_hash = sha256_finish (sha256_update (sha256_update zero_ctx inner_pad) data)
      in sha256_finish (sha256_update (sha256_update zero_ctx outer_pad) inner_hash))"

definition LS_HKDF_MAX_INFO_SIZE :: nat where "LS_HKDF_MAX_INFO_SIZE = 128"

text \<open>The expansion loop; \<open>previous\<close> is empty in the first turn (\<^verbatim>\<open>previous_length\<close> is 0).\<close>

function hkdf_loop :: "bytes \<Rightarrow> bytes \<Rightarrow> nat \<Rightarrow> bytes \<Rightarrow> u8 \<Rightarrow> nat \<Rightarrow> bytes \<Rightarrow> bytes" where
  "hkdf_loop prk info output_length previous counter produced output =
     (if produced < output_length
      then let message = previous @ info @ [counter];
               previous' = ls_hmac_sha256 prk message;
               taken = min (output_length - produced) 32
           in hkdf_loop prk info output_length previous' (counter + 1) (produced + taken)
                (output @ take taken previous')
      else output)"
  by pat_completeness auto
termination
  by (relation "measure (\<lambda>(prk, info, output_length, previous, counter, produced, output).
        output_length - produced)") auto

declare hkdf_loop.simps [simp del]

definition ls_hkdf_sha256 :: "bytes \<Rightarrow> bytes \<Rightarrow> bytes \<Rightarrow> nat \<Rightarrow> ls_result + bytes" where
  "ls_hkdf_sha256 salt ikm info output_length =
     (if length info > LS_HKDF_MAX_INFO_SIZE \<or> output_length > 255 * 32 then Inl LS_EINVAL
      else let prk = ls_hmac_sha256 (if salt \<noteq> [] then salt else replicate 32 0) ikm
           in Inr (hkdf_loop prk info output_length [] 1 0 []))"

text \<open>\<^verbatim>\<open>ls_constant_time_equal\<close>: the loop folds every difference into one byte.\<close>

definition ls_constant_time_equal :: "bytes \<Rightarrow> bytes \<Rightarrow> bool" where
  "ls_constant_time_equal left right =
     (foldl (\<lambda>difference i. difference OR (left ! i XOR right ! i)) 0 [0..<length left] = 0)"

section \<open>Reference definitions\<close>

text \<open>FIPS 180-4: the message schedule by recursion, the blocks of a message, the padding.\<close>

function schedule_ref :: "bytes \<Rightarrow> nat \<Rightarrow> u32" where
  "schedule_ref blk t =
     (if t < 16 then read_be32 blk (t * 4)
      else (rotr (schedule_ref blk (t - 2)) 17 XOR rotr (schedule_ref blk (t - 2)) 19 XOR
              drop_bit 10 (schedule_ref blk (t - 2))) +
           schedule_ref blk (t - 7) +
           (rotr (schedule_ref blk (t - 15)) 7 XOR rotr (schedule_ref blk (t - 15)) 18 XOR
              drop_bit 3 (schedule_ref blk (t - 15))) +
           schedule_ref blk (t - 16))"
  by pat_completeness auto
termination
  by (relation "measure (\<lambda>(blk, t). t)") auto

declare schedule_ref.simps [simp del]

definition compress_ref :: "u32 list \<Rightarrow> bytes \<Rightarrow> u32 list" where
  "compress_ref s blk =
     map2 (+) s (fold (\<lambda>t. sha256_round (sha256_constants ! t) (schedule_ref blk t)) [0..<64] s)"

function blocks_ref :: "u32 list \<Rightarrow> bytes \<Rightarrow> u32 list" where
  "blocks_ref s m =
     (if length m < 64 then s else blocks_ref (compress_ref s (take 64 m)) (drop 64 m))"
  by pat_completeness auto
termination
  by (relation "measure (\<lambda>(s, m). length m)") auto

declare blocks_ref.simps [simp del]

definition sha256_pad :: "bytes \<Rightarrow> bytes" where
  "sha256_pad m =
     m @ [0x80] @ replicate ((119 - length m mod 64) mod 64) 0 @ be64 (of_nat (8 * length m))"

definition sha256_ref :: "bytes \<Rightarrow> bytes" where
  "sha256_ref m = concat (map be32 (blocks_ref sha256_initial (sha256_pad m)))"

text \<open>RFC 2104 and RFC 5869, over that hash.\<close>

definition hmac_ref :: "bytes \<Rightarrow> bytes \<Rightarrow> bytes" where
  "hmac_ref key data =
     (let k = (if length key > 64 then sha256_ref key else key);
          k0 = k @ replicate (64 - length k) 0
      in sha256_ref (map (\<lambda>b. b XOR 0x5c) k0 @ sha256_ref (map (\<lambda>b. b XOR 0x36) k0 @ data)))"

fun hkdf_block_ref :: "bytes \<Rightarrow> bytes \<Rightarrow> nat \<Rightarrow> bytes" where
  "hkdf_block_ref prk info 0 = []"
| "hkdf_block_ref prk info (Suc n) =
     hmac_ref prk (hkdf_block_ref prk info n @ info @ [of_nat (Suc n)])"

definition hkdf_ref :: "bytes \<Rightarrow> bytes \<Rightarrow> bytes \<Rightarrow> nat \<Rightarrow> bytes" where
  "hkdf_ref salt ikm info l =
     take l (concat (map (hkdf_block_ref (hmac_ref (if salt = [] then replicate 32 0 else salt) ikm) info)
       [1..<Suc ((l + 31) div 32)]))"

section \<open>Streaming interfaces\<close>

text \<open>
  What a client of a hash or of a message authentication code relies on: a context represents the
  bytes it has been fed, and finishing it gives the value of the specification on them, however
  the bytes were cut into calls.
\<close>

locale streaming_digest =
  fixes repr :: "'c \<Rightarrow> bytes \<Rightarrow> bool"
    and update :: "'c \<Rightarrow> bytes \<Rightarrow> 'c"
    and finish :: "'c \<Rightarrow> bytes"
    and spec :: "bytes \<Rightarrow> bytes"
  assumes repr_update: "repr c m \<Longrightarrow> repr (update c d) (m @ d)"
    and finish_spec: "repr c m \<Longrightarrow> finish c = spec m"
begin

lemma repr_updates: "repr c m \<Longrightarrow> repr (foldl update c ds) (m @ concat ds)"
proof (induction ds arbitrary: c m)
  case (Cons d ds)
  then show ?case using repr_update [of c m d] by fastforce
qed simp

lemma finish_updates: "repr c m \<Longrightarrow> finish (foldl update c ds) = spec (m @ concat ds)"
  by (simp add: finish_spec repr_updates)

end

section \<open>The compression function is the standard's\<close>

lemma length_sha256_round [simp]: "length (sha256_round k w s) = length s"
  by (induction k w s rule: sha256_round.induct) (simp_all add: Let_def)

lemma length_fold_rounds [simp]:
  "length (fold (\<lambda>t. sha256_round (f t) (g t)) ts s) = length s"
  by (induction ts arbitrary: s) simp_all

lemma length_compress_ref [simp]: "length (compress_ref s blk) = length s"
  by (simp add: compress_ref_def)

lemma length_blocks_ref [simp]: "length (blocks_ref s m) = length s"
  by (induction s m rule: blocks_ref.induct) (subst blocks_ref.simps, simp)

lemma schedule_fold:
  "16 \<le> n \<Longrightarrow> foldl (\<lambda>ws i. ws @ [schedule_word ws i]) (map (\<lambda>i. read_be32 blk (i * 4)) [0..<16])
     [16..<n] = map (schedule_ref blk) [0..<n]"
proof (induction n rule: nat_induct_at_least)
  case base
  then show ?case by (auto intro!: map_cong simp: schedule_ref.simps)
next
  case (Suc n)
  have "schedule_word (map (schedule_ref blk) [0..<n]) n = schedule_ref blk n"
    using Suc.hyps by (subst schedule_ref.simps) (simp add: schedule_word_def Let_def add.commute add.left_commute)
  then show ?case using Suc by simp
qed

lemma sha256_transform_ref: "sha256_transform s blk = compress_ref s blk"
proof -
  have words: "message_words blk = map (schedule_ref blk) [0..<64]"
    unfolding message_words_def by (rule schedule_fold) simp
  have "sha256_rounds (message_words blk) s =
      fold (\<lambda>t. sha256_round (sha256_constants ! t) (schedule_ref blk t)) [0..<64] s"
    unfolding sha256_rounds_def foldl_conv_fold words by (rule fold_cong) auto
  then show ?thesis by (simp add: sha256_transform_def compress_ref_def)
qed

section \<open>The streaming code computes the standard's hash\<close>

lemma blocks_ref_append:
  assumes "64 dvd length a"
  shows "blocks_ref s (a @ b) = blocks_ref (blocks_ref s a) b"
  using assms
proof (induction s a rule: blocks_ref.induct)
  case (1 s m)
  show ?case
  proof (cases "length m < 64")
    case True
    then have "m = []" using 1(2) by (auto dest: dvd_imp_le)
    then show ?thesis by (simp add: blocks_ref.simps [of s "[]"])
  next
    case False
    then have "64 dvd length (drop 64 m)" using 1(2) by (simp add: dvd_diff_nat)
    moreover have "blocks_ref s (m @ b) = blocks_ref (compress_ref s (take 64 m)) (drop 64 m @ b)"
      using False by (subst blocks_ref.simps) simp
    moreover have "blocks_ref s m = blocks_ref (compress_ref s (take 64 m)) (drop 64 m)"
      using False by (subst blocks_ref.simps) simp
    ultimately show ?thesis using 1(1) False by simp
  qed
qed

lemma blocks_ref_one: "length b = 64 \<Longrightarrow> blocks_ref s b = compress_ref s b"
  by (subst blocks_ref.simps) (simp add: blocks_ref.simps [of _ "[]"])

lemma blocks_ref_short: "length b < 64 \<Longrightarrow> blocks_ref s b = s"
  by (subst blocks_ref.simps) simp

text \<open>A context that has absorbed \<open>m\<close>: whole blocks \<open>a\<close> are in the chaining value, the rest \<open>t\<close>
  is at the start of the block.\<close>

definition sha256_buffered :: "sha256_context \<Rightarrow> bytes \<Rightarrow> bool" where
  "sha256_buffered c m \<longleftrightarrow>
     length (sc_block c) = 64 \<and> sc_used c < 64 \<and>
     (\<exists>a. 64 dvd length a \<and> m = a @ take (sc_used c) (sc_block c) \<and>
          sc_state c = blocks_ref sha256_initial a)"

definition sha256_repr :: "sha256_context \<Rightarrow> bytes \<Rightarrow> bool" where
  "sha256_repr c m \<longleftrightarrow> sha256_buffered c m \<and> sc_bits c = of_nat (8 * length m)"

lemma sha256_repr_init: "length blk = 64 \<Longrightarrow> sha256_repr (sha256_init blk) []"
  by (auto simp: sha256_repr_def sha256_buffered_def sha256_init_def blocks_ref_short)

lemma take_overwrite_end:
  "u \<le> length b \<Longrightarrow> take (u + length d) (overwrite u d b) = take u b @ d"
  by (simp add: overwrite_def)

lemma sha256_buffered_step:
  assumes "sha256_buffered c m" and "sc_used c + length d \<le> 64"
  defines "c1 \<equiv> c\<lparr>sc_block := overwrite (sc_used c) d (sc_block c), sc_used := sc_used c + length d\<rparr>"
  shows "sha256_buffered (if sc_used c1 = 64
      then c1\<lparr>sc_state := sha256_transform (sc_state c1) (sc_block c1), sc_used := 0\<rparr> else c1) (m @ d)"
proof -
  let ?u = "sc_used c" and ?b = "sc_block c"
  obtain a where a: "64 dvd length a" "m = a @ take ?u ?b" "sc_state c = blocks_ref sha256_initial a"
    and b: "length ?b = 64" "?u < 64"
    using assms(1) by (auto simp: sha256_buffered_def)
  have t: "take (?u + length d) (overwrite ?u d ?b) = take ?u ?b @ d"
    using b by (intro take_overwrite_end) simp
  have len: "length (overwrite ?u d ?b) = 64" using b assms(2) by simp
  show ?thesis
  proof (cases "?u + length d = 64")
    case True
    then have full: "overwrite ?u d ?b = take ?u ?b @ d" using t len by simp
    have "blocks_ref sha256_initial (a @ overwrite ?u d ?b) =
        sha256_transform (sc_state c) (overwrite ?u d ?b)"
      using a len by (simp add: blocks_ref_append blocks_ref_one sha256_transform_ref)
    moreover have "64 dvd length (a @ overwrite ?u d ?b)" using a(1) len by simp
    ultimately show ?thesis
      using True a len full by (auto simp: c1_def sha256_buffered_def)
  next
    case False
    then show ?thesis
      using assms(2) a b t len by (auto simp: c1_def sha256_buffered_def)
  qed
qed

lemma sha256_buffered_update_loop:
  "sha256_buffered c m \<Longrightarrow> sha256_buffered (sha256_update_loop c d) (m @ d) \<and>
     sc_bits (sha256_update_loop c d) = sc_bits c"
proof (induction c d arbitrary: m rule: sha256_update_loop.induct)
  case (1 c d)
  have used: "sc_used c < 64" using 1(2) by (simp add: sha256_buffered_def)
  show ?case
  proof (cases "d = []")
    case True
    then show ?thesis using 1(2) by (simp add: sha256_update_loop.simps)
  next
    case False
    define k where "k = min (64 - sc_used c) (length d)"
    define c1 where "c1 = c\<lparr>sc_block := overwrite (sc_used c) (take k d) (sc_block c),
      sc_used := sc_used c + k\<rparr>"
    define c2 where "c2 = (if sc_used c1 = 64
      then c1\<lparr>sc_state := sha256_transform (sc_state c1) (sc_block c1), sc_used := 0\<rparr> else c1)"
    have len: "length (take k d) = k" by (simp add: k_def)
    have le: "sc_used c + length (take k d) \<le> 64" using used by (simp add: k_def)
    have "sha256_buffered c2 (m @ take k d)"
      using sha256_buffered_step [OF 1(2) le] unfolding len c1_def c2_def by simp
    then have "sha256_buffered (sha256_update_loop c2 (drop k d)) ((m @ take k d) @ drop k d) \<and>
        sc_bits (sha256_update_loop c2 (drop k d)) = sc_bits c2"
      using 1(1) False used k_def c1_def c2_def by blast
    moreover have "sha256_update_loop c d = sha256_update_loop c2 (drop k d)"
      using False used by (subst sha256_update_loop.simps) (simp add: Let_def k_def c1_def c2_def)
    moreover have "sc_bits c2 = sc_bits c" by (simp add: c1_def c2_def)
    ultimately show ?thesis by simp
  qed
qed

lemma sha256_repr_update: "sha256_repr c m \<Longrightarrow> sha256_repr (sha256_update c d) (m @ d)"
  using sha256_buffered_update_loop [of "c\<lparr>sc_bits := sc_bits c + of_nat (length d) * 8\<rparr>" m d]
  by (auto simp: sha256_repr_def sha256_update_def sha256_buffered_def algebra_simps)

lemma overwrite_to_end:
  "u + length xs = length b \<Longrightarrow> overwrite u xs b = take u b @ xs"
  by (simp add: overwrite_def)

lemma fill_zeros_fields [simp]:
  "sc_state (fill_zeros n c) = sc_state c" "sc_bits (fill_zeros n c) = sc_bits c"
  "sc_used (fill_zeros n c) = max n (sc_used c)"
  by (simp_all add: fill_zeros_def)

lemma length_be64 [simp]: "length (be64 v) = 8"
  by (simp add: be64_def)

lemma length_be32 [simp]: "length (be32 v) = 4"
  by (simp add: be32_def)

text \<open>The block that closes a message: the bytes so far, zeros up to 56, and the length.\<close>

lemma closing_block:
  assumes "u \<le> 56" and "length b = 64" and "take u b = t"
  shows "overwrite 56 (be64 v) (overwrite u (replicate (56 - u) 0) b) = t @ replicate (56 - u) 0 @ be64 v"
proof -
  have "overwrite (u + length (replicate (56 - u) (0 :: u8))) (be64 v) (overwrite u (replicate (56 - u) 0) b) =
      overwrite u (replicate (56 - u) 0 @ be64 v) b"
    by (rule overwrite_append_adjacent) (use assms in simp)
  then show ?thesis using assms by (simp add: overwrite_to_end)
qed

lemma sha256_finish_repr:
  assumes "sha256_repr c m"
  shows "sha256_finish c = sha256_ref m"
proof -
  let ?u = "sc_used c" and ?b = "sc_block c"
  let ?bits = "be64 (of_nat (8 * length m))"
  obtain a where a: "64 dvd length a" "m = a @ take ?u ?b" "sc_state c = blocks_ref sha256_initial a"
    and b: "length ?b = 64" "?u < 64" and bits: "sc_bits c = of_nat (8 * length m)"
    using assms by (auto simp: sha256_repr_def sha256_buffered_def)
  have mod: "length m mod 64 = ?u" using a b by (auto elim!: dvdE)
  have t: "take (Suc ?u) (?b[?u := 0x80]) = take ?u ?b @ [0x80]"
    using b by (simp add: take_Suc_conv_app_nth)
  show ?thesis
  proof (cases "?u \<le> 55")
    case True
    let ?last = "take ?u ?b @ [0x80] @ replicate (55 - ?u) 0 @ ?bits"
    have "119 - ?u = (55 - ?u) + 64" using True by simp
    then have "(119 - ?u) mod 64 = 55 - ?u" by (simp only: mod_add_self2) simp
    then have pad: "sha256_pad m = a @ ?last" unfolding sha256_pad_def mod using a(2) by simp
    have blk: "overwrite 56 ?bits (overwrite (Suc ?u) (replicate (55 - ?u) 0) (?b[?u := 0x80])) = ?last"
      using closing_block [of "Suc ?u" "?b[?u := 0x80]", OF _ _ t] True b by simp
    have "sha256_finish c = concat (map be32 (sha256_transform (sc_state c) ?last))"
      using True blk by (simp add: sha256_finish_def Let_def bits fill_zeros_def)
    moreover have "length ?last = 64" using True b by simp
    ultimately show ?thesis
      using a(1,3)
      by (simp only: sha256_ref_def pad blocks_ref_append blocks_ref_one sha256_transform_ref)
  next
    case False
    let ?first = "take ?u ?b @ [0x80] @ replicate (63 - ?u) 0" and ?last = "replicate 56 0 @ ?bits"
    have k: "(119 - ?u) mod 64 = (63 - ?u) + 56"
    proof -
      have "119 - ?u < 64" using False by simp
      then show ?thesis using False b by simp
    qed
    have zeros: "replicate ((119 - ?u) mod 64) (0 :: u8) = replicate (63 - ?u) 0 @ replicate 56 0"
      unfolding k by (rule replicate_add)
    have pad: "sha256_pad m = (a @ ?first) @ ?last"
      unfolding sha256_pad_def mod zeros using a(2) by simp
    have first: "overwrite (Suc ?u) (replicate (63 - ?u) 0) (?b[?u := 0x80]) = ?first"
      using b t by (subst overwrite_to_end) simp_all
    have len: "length ?first = 64" "length ?last = 64" using b by simp_all
    have "sha256_finish c = concat (map be32 (sha256_transform (sha256_transform (sc_state c) ?first) ?last))"
      using False b first closing_block [of 0 ?first "[]"] len
      by (simp add: sha256_finish_def Let_def bits fill_zeros_def)
    moreover have "64 dvd length (a @ ?first)" using a(1) len(1) by simp
    moreover have "blocks_ref sha256_initial (a @ ?first) = sha256_transform (sc_state c) ?first"
      using a len(1) by (simp only: blocks_ref_append blocks_ref_one sha256_transform_ref)
    ultimately show ?thesis
      using len(2) by (simp only: sha256_ref_def pad blocks_ref_append blocks_ref_one sha256_transform_ref)
  qed
qed

interpretation sha: streaming_digest sha256_repr sha256_update sha256_finish sha256_ref
  by unfold_locales (simp_all add: sha256_repr_update sha256_finish_repr)

text \<open>What the uninitialised block of a fresh context holds has no influence.\<close>

lemma sha256_finish_init:
  "length blk = 64 \<Longrightarrow> sha256_finish (foldl sha256_update (sha256_init blk) ds) = sha256_ref (concat ds)"
  using sha.finish_updates [OF sha256_repr_init] by simp

lemma length_sha256_ref [simp]: "length (sha256_ref m) = 32"
proof -
  have "length (concat (map be32 ws)) = 4 * length ws" for ws by (induction ws) simp_all
  then show ?thesis by (simp add: sha256_ref_def sha256_initial_def)
qed

lemma ls_sha256_ref: "ls_sha256 data = sha256_ref data"
  using sha256_finish_init [of "replicate 64 0" "[]"] sha256_finish_init [of "replicate 64 0" "[data]"]
  by (cases "data = []") (simp_all add: ls_sha256_def Let_def)

lemma ls_hmac_ref: "ls_hmac_sha256 key data = hmac_ref key data"
proof -
  let ?c = "sha256_init (replicate 64 0)"
  have two: "sha256_finish (sha256_update (sha256_update ?c x) y) = sha256_ref (x @ y)" for x y
    using sha256_finish_init [of "replicate 64 0" "[x, y]"] by simp
  have one: "sha256_finish (sha256_update ?c x) = sha256_ref x" for x
    using sha256_finish_init [of "replicate 64 0" "[x]"] by simp
  have pad: "overwrite 0 x (replicate 64 0) = x @ replicate (64 - length x) 0" for x :: bytes
    by (simp add: overwrite_def)
  show ?thesis by (simp add: ls_hmac_sha256_def hmac_ref_def Let_def one two pad if_distrib)
qed

lemma length_hmac_ref [simp]: "length (hmac_ref key data) = 32"
  by (simp add: hmac_ref_def Let_def)

lemma length_hkdf_block_ref [simp]: "length (hkdf_block_ref prk info (Suc n)) = 32"
  by simp

text \<open>After \<open>n\<close> turns the loop has produced the first \<open>n\<close> blocks, as many bytes as wanted.\<close>

lemma length_concat_hkdf: "length (concat (map (hkdf_block_ref prk info) [1..<Suc n])) = 32 * n"
  by (induction n) simp_all

lemma hkdf_loop_ref:
  assumes "32 * n \<le> l"
  shows "hkdf_loop prk info l (hkdf_block_ref prk info n) (of_nat (Suc n)) (32 * n)
      (concat (map (hkdf_block_ref prk info) [1..<Suc n])) =
    take l (concat (map (hkdf_block_ref prk info) [1..<Suc ((l + 31) div 32)]))"
  using assms
proof (induction "l - 32 * n" arbitrary: n rule: less_induct)
  case less
  let ?T = "hkdf_block_ref prk info"
  let ?out = "concat (map ?T [1..<Suc n])"
  have step: "[Suc 0..<Suc (Suc n)] = [Suc 0..<Suc n] @ [Suc n]" by simp
  consider (full) "l = 32 * n" | (last) "32 * n < l" "l \<le> 32 * Suc n" | (more) "32 * Suc n < l"
    using less.prems by linarith
  then show ?case
  proof cases
    case full
    then have "(l + 31) div 32 = n" by simp
    then show ?thesis
      using full length_concat_hkdf [of prk info n] by (simp add: hkdf_loop.simps)
  next
    case last
    then have "(l + 31) div 32 = Suc n" by (intro div_nat_eqI) simp_all
    then show ?thesis
      using last le_diff_conv [of l "32 * n" 32] length_concat_hkdf [of prk info n]
      by (subst hkdf_loop.simps, subst hkdf_loop.simps)
        (simp add: Let_def ls_hmac_ref step min_def del: upt_Suc)
  next
    case more
    have "hkdf_loop prk info l (?T n) (of_nat (Suc n)) (32 * n) ?out =
        hkdf_loop prk info l (?T (Suc n)) (of_nat (Suc (Suc n))) (32 * Suc n)
          (concat (map ?T [1..<Suc (Suc n)]))"
      using more min_absorb2 [of 32 "l - 32 * n"]
      by (subst hkdf_loop.simps) (simp add: Let_def ls_hmac_ref step add.commute del: upt_Suc)
    also have "\<dots> = take l (concat (map ?T [1..<Suc ((l + 31) div 32)]))"
      by (rule less.hyps) (use more in simp_all)
    finally show ?thesis .
  qed
qed

text \<open>C29: SHA-256 as the code computes it, block by block through a 64-byte buffer, is the hash of
  the standard on the padded message, for every message; HMAC and HKDF, which feed the buffer in
  pieces, are the functions of RFC 2104 and RFC 5869, and HKDF refuses exactly the requests that
  are too long.\<close>

theorem sha256_hmac_hkdf_standard:
  "ls_sha256 data = sha256_ref data \<and>
   ls_hmac_sha256 key data = hmac_ref key data \<and>
   ls_hkdf_sha256 salt ikm info l =
     (if length info > LS_HKDF_MAX_INFO_SIZE \<or> l > 8160 then Inl LS_EINVAL
      else Inr (hkdf_ref salt ikm info l))"
proof -
  have "hkdf_loop prk info l [] 1 0 [] =
      take l (concat (map (hkdf_block_ref prk info) [1..<Suc ((l + 31) div 32)]))" for prk
    using hkdf_loop_ref [of 0 l prk info] by simp
  then show ?thesis
    by (simp add: ls_sha256_ref ls_hmac_ref ls_hkdf_sha256_def hkdf_ref_def Let_def del: upt_Suc)
qed

section \<open>Comparison in constant time\<close>

lemma xor_zero_iff: "a XOR b = 0 \<longleftrightarrow> a = b" for a b :: u8
proof
  assume "a XOR b = 0"
  moreover have "(a XOR b) XOR b = a" by (simp add: xor.assoc)
  ultimately show "a = b" by simp
qed simp

lemma foldl_or_zero:
  "foldl (\<lambda>d i. d OR f i) (d :: u8) xs = 0 \<longleftrightarrow> d = 0 \<and> (\<forall>i\<in>set xs. f i = 0)"
  by (induction xs arbitrary: d) (simp_all add: or_eq_0_iff)

lemma constant_time_equal_iff:
  "length left = length right \<Longrightarrow> ls_constant_time_equal left right \<longleftrightarrow> left = right"
  unfolding ls_constant_time_equal_def foldl_or_zero xor_zero_iff list_eq_iff_nth_eq by auto

end
