(* ===== verification/LS_Poly1305.thy ===== *)
theory LS_Poly1305
  imports LS_Sha256
begin

text \<open>
  \<^verbatim>\<open>src/security/poly1305.c\<close>: the one-time authenticator, computed on five limbs of 26 bits in
  32-bit words with 64-bit products. The reference definition is the arithmetic of RFC 8439 modulo
  \<open>2\<^sup>1\<^sup>3\<^sup>0 - 5\<close> on natural numbers; the theorems show that no product, sum or carry of the code
  overflows and that the tag is the one of the reference, however the message is cut into calls.
\<close>

section \<open>The code\<close>

text \<open>The arrays \<^verbatim>\<open>r[5]\<close> and \<^verbatim>\<open>h[5]\<close> are quintuples of words, \<^verbatim>\<open>pad[4]\<close> a quadruple.\<close>

type_synonym limbs = "u32 \<times> u32 \<times> u32 \<times> u32 \<times> u32"

record ls_poly1305_context =
  pc_r :: limbs
  pc_h :: limbs
  pc_pad :: "u32 \<times> u32 \<times> u32 \<times> u32"
  pc_buffer :: bytes
  pc_leftover :: nat
  pc_final :: bool

text \<open>The carry chain that ends a turn of the loop.\<close>

definition poly_carry :: "u64 \<Rightarrow> u64 \<Rightarrow> u64 \<Rightarrow> u64 \<Rightarrow> u64 \<Rightarrow> limbs" where
  "poly_carry d0 d1 d2 d3 d4 =
     (let carry = (ucast (drop_bit 26 d0) :: u32);
          h0 = (ucast d0 :: u32) AND 0x3ffffff;
          d1 = d1 + ucast carry;
          carry = (ucast (drop_bit 26 d1) :: u32);
          h1 = (ucast d1 :: u32) AND 0x3ffffff;
          d2 = d2 + ucast carry;
          carry = (ucast (drop_bit 26 d2) :: u32);
          h2 = (ucast d2 :: u32) AND 0x3ffffff;
          d3 = d3 + ucast carry;
          carry = (ucast (drop_bit 26 d3) :: u32);
          h3 = (ucast d3 :: u32) AND 0x3ffffff;
          d4 = d4 + ucast carry;
          carry = (ucast (drop_bit 26 d4) :: u32);
          h4 = (ucast d4 :: u32) AND 0x3ffffff;
          h0 = h0 + carry * 5;
          carry = drop_bit 26 h0;
          h0 = h0 AND 0x3ffffff;
          h1 = h1 + carry
      in (h0, h1, h2, h3, h4))"

text \<open>The products of a turn, and the turn on the sixteen bytes of \<open>m\<close> at \<open>off\<close>.\<close>

fun poly_multiply :: "limbs \<Rightarrow> limbs \<Rightarrow> limbs" where
  "poly_multiply (r0, r1, r2, r3, r4) (h0, h1, h2, h3, h4) =
     (let s1 = r1 * 5; s2 = r2 * 5; s3 = r3 * 5; s4 = r4 * 5;
          mul = (\<lambda>x y. (ucast (x :: u32) :: u64) * ucast (y :: u32))
      in poly_carry
           (mul h0 r0 + mul h1 s4 + mul h2 s3 + mul h3 s2 + mul h4 s1)
           (mul h0 r1 + mul h1 r0 + mul h2 s4 + mul h3 s3 + mul h4 s2)
           (mul h0 r2 + mul h1 r1 + mul h2 r0 + mul h3 s4 + mul h4 s3)
           (mul h0 r3 + mul h1 r2 + mul h2 r1 + mul h3 r0 + mul h4 s4)
           (mul h0 r4 + mul h1 r3 + mul h2 r2 + mul h3 r1 + mul h4 r0))"

fun poly_add_block :: "u32 \<Rightarrow> bytes \<Rightarrow> limbs \<Rightarrow> limbs" where
  "poly_add_block hibit m (h0, h1, h2, h3, h4) =
     (h0 + (read_u32 m 0 AND 0x3ffffff),
      h1 + (drop_bit 2 (read_u32 m 3) AND 0x3ffffff),
      h2 + (drop_bit 4 (read_u32 m 6) AND 0x3ffffff),
      h3 + (drop_bit 6 (read_u32 m 9) AND 0x3ffffff),
      h4 + (drop_bit 8 (read_u32 m 12) OR hibit))"

function poly_blocks_loop :: "limbs \<Rightarrow> u32 \<Rightarrow> bytes \<Rightarrow> limbs \<Rightarrow> limbs" where
  "poly_blocks_loop r hibit m h =
     (if length m \<ge> 16
      then poly_blocks_loop r hibit (drop 16 m) (poly_multiply r (poly_add_block hibit m h))
      else h)"
  by pat_completeness auto
termination
  by (relation "measure (\<lambda>(r, hibit, m, h). length m)") auto

declare poly_blocks_loop.simps [simp del]

definition poly_blocks :: "ls_poly1305_context \<Rightarrow> bytes \<Rightarrow> ls_poly1305_context" where
  "poly_blocks c m =
     c\<lparr>pc_h := poly_blocks_loop (pc_r c) (if pc_final c then 0 else push_bit 24 1) m (pc_h c)\<rparr>"

text \<open>\<open>buf\<close> is what the uninitialised buffer of the context holds.\<close>

definition ls_poly1305_init :: "bytes \<Rightarrow> bytes \<Rightarrow> ls_poly1305_context" where
  "ls_poly1305_init buf key =
     \<lparr>pc_r = (read_u32 key 0 AND 0x3ffffff, drop_bit 2 (read_u32 key 3) AND 0x3ffff03,
              drop_bit 4 (read_u32 key 6) AND 0x3ffc0ff, drop_bit 6 (read_u32 key 9) AND 0x3f03fff,
              drop_bit 8 (read_u32 key 12) AND 0x00fffff),
      pc_h = (0, 0, 0, 0, 0),
      pc_pad = (read_u32 key 16, read_u32 key 20, read_u32 key 24, read_u32 key 28),
      pc_buffer = buf, pc_leftover = 0, pc_final = False\<rparr>"

text \<open>The whole blocks of a message and the bytes kept for the next call.\<close>

definition poly_absorb :: "ls_poly1305_context \<Rightarrow> bytes \<Rightarrow> ls_poly1305_context" where
  "poly_absorb c m =
     (let want = length m - length m mod 16;
          c1 = (if length m \<ge> 16 then poly_blocks c (take want m) else c);
          rest = (if length m \<ge> 16 then drop want m else m)
      in if rest \<noteq> [] then c1\<lparr>pc_buffer := overwrite 0 rest (pc_buffer c1), pc_leftover := length rest\<rparr>
         else c1)"

definition ls_poly1305_update :: "ls_poly1305_context \<Rightarrow> bytes \<Rightarrow> ls_poly1305_context" where
  "ls_poly1305_update c m =
     (if m = [] then c
      else if pc_leftover c \<noteq> 0
      then let want = min (16 - pc_leftover c) (length m);
               c1 = c\<lparr>pc_buffer := overwrite (pc_leftover c) (take want m) (pc_buffer c),
                      pc_leftover := pc_leftover c + want\<rparr>
           in if pc_leftover c1 < 16 then c1
              else poly_absorb ((poly_blocks c1 (pc_buffer c1))\<lparr>pc_leftover := 0\<rparr>) (drop want m)
      else poly_absorb c m)"

text \<open>The end of \<open>ls_poly1305_finish\<close>: full carries, the conditional subtraction of the modulus,
  and the addition of the pad.\<close>

fun poly_freeze :: "limbs \<Rightarrow> limbs" where
  "poly_freeze (h0, h1, h2, h3, h4) =
     (let carry = drop_bit 26 h1; h1 = h1 AND 0x3ffffff; h2 = h2 + carry;
          carry = drop_bit 26 h2; h2 = h2 AND 0x3ffffff; h3 = h3 + carry;
          carry = drop_bit 26 h3; h3 = h3 AND 0x3ffffff; h4 = h4 + carry;
          carry = drop_bit 26 h4; h4 = h4 AND 0x3ffffff; h0 = h0 + carry * 5;
          carry = drop_bit 26 h0; h0 = h0 AND 0x3ffffff; h1 = h1 + carry
      in (h0, h1, h2, h3, h4))"

definition poly_select :: "limbs \<Rightarrow> limbs" where
  "poly_select h =
     (case h of (h0, h1, h2, h3, h4) \<Rightarrow>
      let g0 = h0 + 5; carry = drop_bit 26 g0; g0 = g0 AND 0x3ffffff;
          g1 = h1 + carry; carry = drop_bit 26 g1; g1 = g1 AND 0x3ffffff;
          g2 = h2 + carry; carry = drop_bit 26 g2; g2 = g2 AND 0x3ffffff;
          g3 = h3 + carry; carry = drop_bit 26 g3; g3 = g3 AND 0x3ffffff;
          g4 = h4 + carry - push_bit 26 1;
          msk = drop_bit 31 g4 - 1;
          g0 = g0 AND msk; g1 = g1 AND msk; g2 = g2 AND msk; g3 = g3 AND msk; g4 = g4 AND msk;
          msk = NOT msk
      in ((h0 AND msk) OR g0, (h1 AND msk) OR g1, (h2 AND msk) OR g2, (h3 AND msk) OR g3,
          (h4 AND msk) OR g4))"

fun poly_output :: "limbs \<Rightarrow> u32 \<times> u32 \<times> u32 \<times> u32 \<Rightarrow> bytes" where
  "poly_output (h0, h1, h2, h3, h4) (p0, p1, p2, p3) =
     (let f0 = (ucast (h0 OR push_bit 26 h1) :: u64) + ucast p0;
          f1 = (ucast (drop_bit 6 h1 OR push_bit 20 h2) :: u64) + ucast p1 + drop_bit 32 f0;
          f2 = (ucast (drop_bit 12 h2 OR push_bit 14 h3) :: u64) + ucast p2 + drop_bit 32 f1;
          f3 = (ucast (drop_bit 18 h3 OR push_bit 8 h4) :: u64) + ucast p3 + drop_bit 32 f2
      in le32 (ucast f0) @ le32 (ucast f1) @ le32 (ucast f2) @ le32 (ucast f3))"

definition ls_poly1305_finish :: "ls_poly1305_context \<Rightarrow> bytes" where
  "ls_poly1305_finish c =
     (let c1 = (if pc_leftover c \<noteq> 0
                then let b = overwrite (pc_leftover c)
                           (1 # replicate (16 - (pc_leftover c + 1)) 0) (pc_buffer c)
                     in poly_blocks (c\<lparr>pc_buffer := b, pc_leftover := 16, pc_final := True\<rparr>) b
                else c)
      in poly_output (poly_select (poly_freeze (pc_h c1))) (pc_pad c1))"

definition ls_poly1305_auth :: "bytes \<Rightarrow> bytes \<Rightarrow> bytes" where
  "ls_poly1305_auth key m =
     (let c = ls_poly1305_init (replicate 16 0) key
      in ls_poly1305_finish (if m \<noteq> [] then ls_poly1305_update c m else c))"

section \<open>Reference\<close>

primrec le_nat :: "bytes \<Rightarrow> nat" where
  "le_nat [] = 0"
| "le_nat (b # bs) = unat b + 256 * le_nat bs"

fun nat_le :: "nat \<Rightarrow> nat \<Rightarrow> bytes" where
  "nat_le 0 v = []"
| "nat_le (Suc n) v = of_nat v # nat_le n (v div 256)"

definition poly_p :: nat where "poly_p = 2 ^ 130 - 5"

definition clamp_ref :: "bytes \<Rightarrow> nat" where
  "clamp_ref key = le_nat (take 16 key) AND 0x0ffffffc0ffffffc0ffffffc0fffffff"

function acc_ref :: "nat \<Rightarrow> bytes \<Rightarrow> nat \<Rightarrow> nat" where
  "acc_ref r m acc =
     (if m = [] then acc
      else acc_ref r (drop 16 m)
             ((acc + le_nat (take 16 m) + 2 ^ (8 * length (take 16 m))) * r mod poly_p))"
  by pat_completeness auto
termination
  by (relation "measure (\<lambda>(r, m, acc). length m)") auto

declare acc_ref.simps [simp del]

definition poly1305_ref :: "bytes \<Rightarrow> bytes \<Rightarrow> bytes" where
  "poly1305_ref key m =
     nat_le 16 ((acc_ref (clamp_ref key) m 0 + le_nat (bslice 16 16 key)) mod 2 ^ 128)"

section \<open>Numbers of bytes and words\<close>

lemma le_nat_append: "le_nat (xs @ ys) = le_nat xs + 256 ^ length xs * le_nat ys"
  by (induction xs) (simp_all add: algebra_simps)

lemma le_nat_less: "le_nat xs < 256 ^ length xs"
proof (induction xs)
  case (Cons b bs)
  have "unat b < 256" using unsigned_less [of b, where ?'a = nat] by simp
  then show ?case using Cons by simp
qed simp

lemma le_nat_replicate_0 [simp]: "le_nat (replicate n 0) = 0"
  by (induction n) simp_all

lemma le_nat_split:
  assumes "k \<le> length xs"
  shows "le_nat xs = le_nat (take k xs) + 256 ^ k * le_nat (drop k xs)" and "le_nat (take k xs) < 256 ^ k"
  using le_nat_append [of "take k xs" "drop k xs"] le_nat_less [of "take k xs"] assms by simp_all

lemma le_nat_drop: "k \<le> length xs \<Longrightarrow> le_nat (drop k xs) = le_nat xs div 256 ^ k"
  using le_nat_split [of k xs] by (simp only: div_mult_self2 div_less)
    (simp add: div_mult_self2 [of "256 ^ k"] del: power_numeral)

lemma le_nat_take: "k \<le> length xs \<Longrightarrow> le_nat (take k xs) = le_nat xs mod 256 ^ k"
  using le_nat_split [of k xs] by (metis mod_less mod_mult_self2)

lemma le_nat_bslice:
  "k + n \<le> length xs \<Longrightarrow> le_nat (bslice k n xs) = le_nat xs div 256 ^ k mod 256 ^ n"
  by (simp add: bslice_def le_nat_take le_nat_drop)

lemma unat_drop_bit: "unat (drop_bit k w) = unat w div 2 ^ k" for w :: "'a::len word"
  unfolding unat_drop_bit_eq by (rule drop_bit_eq_div)

lemma le_nat_le32: "le_nat (le32 v) = unat v"
proof -
  have byte: "unat (ucast w :: u8) = unat w mod 256" for w :: u32
    by (simp add: unsigned_ucast_eq take_bit_eq_mod)
  have "unat v < 2 ^ 32" using unsigned_less [of v, where ?'a = nat] by simp
  moreover have "n mod 256 + 256 * (n div 2 ^ 8 mod 256 + 256 * (n div 2 ^ 16 mod 256 +
      256 * (n div 2 ^ 24 mod 256))) = n" if "n < 2 ^ 32" for n :: nat
  proof -
    have "n div 2 ^ 16 = n div 256 div 256" "n div 2 ^ 24 = n div 256 div 256 div 256"
      by (simp_all add: div_mult2_eq [symmetric])
    moreover have "n div 256 div 256 div 256 < 256"
      using that by (intro less_mult_imp_div_less) simp
    ultimately show ?thesis
      using mod_mult_div_eq [of n 256] mod_mult_div_eq [of "n div 256" 256]
        mod_mult_div_eq [of "n div 256 div 256" 256]
      by simp
  qed
  ultimately show ?thesis by (simp add: le32_def byte unat_drop_bit)
qed

lemma unat_read_u32:
  "k + 4 \<le> length m \<Longrightarrow> unat (read_u32 m k) = le_nat m div 256 ^ k mod 2 ^ 32"
  using le_nat_le32 [of "read_u32 m k"] by (simp add: le32_read_u32 le_nat_bslice)

lemma unat_and_mask: "unat (w AND 0x3ffffff) = unat w mod 2 ^ 26" for w :: u32
proof -
  have "w AND 0x3ffffff = take_bit 26 w" by (simp add: take_bit_eq_mask mask_eq_exp_minus_1)
  then show ?thesis by (simp only: unsigned_take_bit_eq take_bit_eq_mod [where ?'a = nat])
qed

text \<open>A sum that is small as a number is that number as a word.\<close>

lemma unat_add_small: "unat a + unat b < 2 ^ LENGTH('a) \<Longrightarrow> unat (a + b) = unat a + unat b"
  for a b :: "'a::len word"
  by (simp add: unat_add_lem)

lemma unat_mult_small: "unat a * unat b < 2 ^ LENGTH('a) \<Longrightarrow> unat (a * b) = unat a * unat b"
  for a b :: "'a::len word"
  by (simp add: unat_mult_lem)

lemma unat_ucast_u64 [simp]: "unat (ucast (x :: u32) :: u64) = unat x"
  using unsigned_less [of x, where ?'a = nat]
  by (simp add: unsigned_ucast_eq take_bit_eq_mod)

lemma unat_ucast_u32: "unat (ucast (x :: u64) :: u32) = unat x mod 2 ^ 32"
  by (simp add: unsigned_ucast_eq take_bit_eq_mod)

section \<open>The carry chain\<close>

fun limbs_val :: "limbs \<Rightarrow> nat" where
  "limbs_val (h0, h1, h2, h3, h4) =
     unat h0 + 2 ^ 26 * unat h1 + 2 ^ 52 * unat h2 + 2 ^ 78 * unat h3 + 2 ^ 104 * unat h4"

text \<open>The bounds between two turns: the second limb may exceed 26 bits by the last carry.\<close>

fun limbs_ok :: "limbs \<Rightarrow> bool" where
  "limbs_ok (h0, h1, h2, h3, h4) \<longleftrightarrow>
     unat h0 < 2 ^ 26 \<and> unat h1 < 2 ^ 26 + 64 \<and> unat h2 < 2 ^ 26 \<and> unat h3 < 2 ^ 26 \<and> unat h4 < 2 ^ 26"

text \<open>One link: the low 26 bits stay, the rest is added to the next sum.\<close>

lemma carry_low:
  fixes d :: u64
  assumes "unat d < 2 ^ 58"
  shows "unat ((ucast d :: u32) AND 0x3ffffff) = unat d mod 2 ^ 26"
    and "unat (ucast (drop_bit 26 d) :: u32) = unat d div 2 ^ 26"
    and "unat d div 2 ^ 26 < 2 ^ 32"
proof -
  show lt: "unat d div 2 ^ 26 < 2 ^ 32" using assms by (intro less_mult_imp_div_less) simp
  show "unat ((ucast d :: u32) AND 0x3ffffff) = unat d mod 2 ^ 26"
    by (simp add: unat_and_mask unat_ucast_u32 mod_mod_cancel)
  show "unat (ucast (drop_bit 26 d) :: u32) = unat d div 2 ^ 26"
    using lt by (simp add: unat_ucast_u32 unat_drop_bit)
qed

lemma carry_link:
  fixes d e :: u64
  assumes "unat d < 2 ^ 58" and "unat e < 2 ^ 58 - 2 ^ 32"
  shows "unat (e + ucast (ucast (drop_bit 26 d) :: u32)) = unat e + unat d div 2 ^ 26"
    and "unat (e + ucast (ucast (drop_bit 26 d) :: u32)) < 2 ^ 58"
proof -
  note lt = carry_low(2,3) [OF assms(1)]
  show sum: "unat (e + ucast (ucast (drop_bit 26 d) :: u32)) = unat e + unat d div 2 ^ 26"
    using lt assms(2) by (subst unat_add_small) simp_all
  show "unat (e + ucast (ucast (drop_bit 26 d) :: u32)) < 2 ^ 58"
    unfolding sum using lt assms(2) by simp
qed

text \<open>The chain keeps the number modulo \<open>poly_p\<close>: what leaves the top limb comes back times five.\<close>

lemma limb_sum:
  fixes d0 d1 d2 d3 d4 :: nat
  assumes "d0 = m0 + 2 ^ 26 * q0" "d1 + q0 = m1 + 2 ^ 26 * q1" "d2 + q1 = m2 + 2 ^ 26 * q2"
    "d3 + q2 = m3 + 2 ^ 26 * q3" "d4 + q3 = m4 + 2 ^ 26 * q4" "m0 + 5 * q4 = m + 2 ^ 26 * q"
  shows "d0 + 2 ^ 26 * d1 + 2 ^ 52 * d2 + 2 ^ 78 * d3 + 2 ^ 104 * d4 =
    (m + 2 ^ 26 * (m1 + q) + 2 ^ 52 * m2 + 2 ^ 78 * m3 + 2 ^ 104 * m4) + poly_p * q4"
  using assms unfolding poly_p_def by simp

lemma limb_chain:
  fixes d0 d1 d2 d3 d4 :: nat
  defines "e1 \<equiv> d1 + d0 div 2 ^ 26"
  defines "e2 \<equiv> d2 + e1 div 2 ^ 26"
  defines "e3 \<equiv> d3 + e2 div 2 ^ 26"
  defines "e4 \<equiv> d4 + e3 div 2 ^ 26"
  defines "x \<equiv> d0 mod 2 ^ 26 + 5 * (e4 div 2 ^ 26)"
  shows "(x mod 2 ^ 26 + 2 ^ 26 * (e1 mod 2 ^ 26 + x div 2 ^ 26) + 2 ^ 52 * (e2 mod 2 ^ 26) +
      2 ^ 78 * (e3 mod 2 ^ 26) + 2 ^ 104 * (e4 mod 2 ^ 26)) mod poly_p =
    (d0 + 2 ^ 26 * d1 + 2 ^ 52 * d2 + 2 ^ 78 * d3 + 2 ^ 104 * d4) mod poly_p"
proof -
  have split: "n = n mod 2 ^ 26 + 2 ^ 26 * (n div 2 ^ 26)" for n :: nat
    by (rule mod_mult_div_eq [symmetric])
  have "d1 + d0 div 2 ^ 26 = e1 mod 2 ^ 26 + 2 ^ 26 * (e1 div 2 ^ 26)"
    "d2 + e1 div 2 ^ 26 = e2 mod 2 ^ 26 + 2 ^ 26 * (e2 div 2 ^ 26)"
    "d3 + e2 div 2 ^ 26 = e3 mod 2 ^ 26 + 2 ^ 26 * (e3 div 2 ^ 26)"
    "d4 + e3 div 2 ^ 26 = e4 mod 2 ^ 26 + 2 ^ 26 * (e4 div 2 ^ 26)"
    "d0 mod 2 ^ 26 + 5 * (e4 div 2 ^ 26) = x mod 2 ^ 26 + 2 ^ 26 * (x div 2 ^ 26)"
    unfolding e1_def e2_def e3_def e4_def x_def by (rule split)+
  from limb_sum [OF split [of d0] this] show ?thesis by simp
qed

lemma poly_carry_val:
  assumes "unat d0 < 2 ^ 58 - 2 ^ 32" "unat d1 < 2 ^ 58 - 2 ^ 32" "unat d2 < 2 ^ 58 - 2 ^ 32"
    "unat d3 < 2 ^ 58 - 2 ^ 32" "unat d4 < 5 * 2 ^ 53 + 2 ^ 36"
  shows "limbs_ok (poly_carry d0 d1 d2 d3 d4)"
    and "limbs_val (poly_carry d0 d1 d2 d3 d4) mod poly_p =
      (unat d0 + 2 ^ 26 * unat d1 + 2 ^ 52 * unat d2 + 2 ^ 78 * unat d3 + 2 ^ 104 * unat d4) mod poly_p"
proof -
  define c where "c d = (ucast (drop_bit 26 d) :: u32)" for d :: u64
  define lo where "lo d = (ucast d :: u32) AND 0x3ffffff" for d :: u64
  define e1 where "e1 = d1 + ucast (c d0)"
  define e2 where "e2 = d2 + ucast (c e1)"
  define e3 where "e3 = d3 + ucast (c e2)"
  define e4 where "e4 = d4 + ucast (c e3)"
  define x where "x = lo d0 + c e4 * 5"
  have e0: "unat d0 < 2 ^ 58" using assms(1) by simp
  note l1 = carry_link [OF e0 assms(2), folded c_def, folded e1_def]
  note l2 = carry_link [OF l1(2) assms(3), folded c_def, folded e2_def]
  note l3 = carry_link [OF l2(2) assms(4), folded c_def, folded e3_def]
  have d4: "unat d4 < 2 ^ 58 - 2 ^ 32" using assms(5) by simp
  note l4 = carry_link [OF l3(2) d4, folded c_def, folded e4_def]
  note low = carry_low(1) [folded lo_def] and top4 = carry_low(2) [OF l4(2), folded c_def]
  have "unat e3 div 2 ^ 26 < 2 ^ 32" using l3(2) by (rule carry_low(3))
  then have "unat e4 < (671089740) * 2 ^ 26" using l4(1) assms(5) by simp
  then have top: "unat (c e4) < 671089740"
    unfolding top4 by (rule less_mult_imp_div_less)
  have "unat (c e4 * 5) = unat (c e4) * 5" using top by (subst unat_mult_small) simp_all
  moreover have lo0: "unat (lo d0) = unat d0 mod 2 ^ 26" "unat (lo d0) < 2 ^ 26"
    using low [OF e0] by simp_all
  ultimately have x: "unat x = unat d0 mod 2 ^ 26 + 5 * (unat e4 div 2 ^ 26)"
    using top top4 unfolding x_def by (subst unat_add_small) (simp_all)
  then have "unat x < 64 * 2 ^ 26" using top lo0 top4 by simp
  then have xc: "unat x div 2 ^ 26 < 64" by (rule less_mult_imp_div_less)
  have h1: "unat (lo e1 + drop_bit 26 x) = unat e1 mod 2 ^ 26 + unat x div 2 ^ 26"
    using xc low [OF l1(2)] mod_less_divisor [of "2 ^ 26" "unat e1"]
    by (subst unat_add_small) (simp_all add: unat_drop_bit)
  have res: "poly_carry d0 d1 d2 d3 d4 =
      (x AND 0x3ffffff, lo e1 + drop_bit 26 x, lo e2, lo e3, lo e4)"
    by (simp add: poly_carry_def Let_def c_def lo_def e1_def e2_def e3_def e4_def x_def)
  note lows = low [OF l1(2)] low [OF l2(2)] low [OF l3(2)] low [OF l4(2)]
  show "limbs_ok (poly_carry d0 d1 d2 d3 d4)"
    unfolding res limbs_ok.simps h1 lows unat_and_mask
    using xc mod_less_divisor [of "2 ^ 26" "unat e1"] by simp
  show "limbs_val (poly_carry d0 d1 d2 d3 d4) mod poly_p =
      (unat d0 + 2 ^ 26 * unat d1 + 2 ^ 52 * unat d2 + 2 ^ 78 * unat d3 + 2 ^ 104 * unat d4) mod poly_p"
    unfolding res limbs_val.simps h1 lows unat_and_mask x
    unfolding l4(1) l3(1) l2(1) l1(1)
    by (rule limb_chain)
qed

section \<open>The products\<close>

lemma unat_mul_u64: "unat ((ucast (x :: u32) :: u64) * ucast (y :: u32)) = unat x * unat y"
proof -
  have "unat x < 2 ^ 32" "unat y < 2 ^ 32"
    using unsigned_less [of x, where ?'a = nat] unsigned_less [of y, where ?'a = nat] by simp_all
  then have "unat x * unat y < 2 ^ 32 * 2 ^ 32" by (intro mult_strict_mono) simp_all
  then show ?thesis by (subst unat_mult_small) simp_all
qed

lemma unat_sum5:
  fixes a b c d e :: u64
  assumes "unat a + unat b + unat c + unat d + unat e < 2 ^ 64"
  shows "unat (a + b + c + d + e) = unat a + unat b + unat c + unat d + unat e"
  using assms by (simp add: unat_add_small)

text \<open>Schoolbook multiplication in base \<open>B\<close>, reduced with \<open>B\<^sup>5 = p + 5\<close>.\<close>

lemma schoolbook:
  fixes h0 h1 h2 h3 h4 r0 r1 r2 r3 r4 B p :: nat
  assumes "B ^ 5 = p + 5"
  shows "(h0 + B * h1 + B ^ 2 * h2 + B ^ 3 * h3 + B ^ 4 * h4) *
      (r0 + B * r1 + B ^ 2 * r2 + B ^ 3 * r3 + B ^ 4 * r4) =
    (h0 * r0 + h1 * (5 * r4) + h2 * (5 * r3) + h3 * (5 * r2) + h4 * (5 * r1)) +
    B * (h0 * r1 + h1 * r0 + h2 * (5 * r4) + h3 * (5 * r3) + h4 * (5 * r2)) +
    B ^ 2 * (h0 * r2 + h1 * r1 + h2 * r0 + h3 * (5 * r4) + h4 * (5 * r3)) +
    B ^ 3 * (h0 * r3 + h1 * r2 + h2 * r1 + h3 * r0 + h4 * (5 * r4)) +
    B ^ 4 * (h0 * r4 + h1 * r3 + h2 * r2 + h3 * r1 + h4 * r0) +
    p * (h1 * r4 + h2 * r3 + h3 * r2 + h4 * r1 + B * (h2 * r4 + h3 * r3 + h4 * r2) +
         B ^ 2 * (h3 * r4 + h4 * r3) + B ^ 3 * (h4 * r4))"
    (is "?l = ?d + p * ?q")
proof -
  have "?l + 5 * ?q = ?d + B ^ 5 * ?q"
    by (simp add: algebra_simps power_numeral_reduce)
  then show ?thesis unfolding assms by (simp add: algebra_simps)
qed

fun limbs_below :: "nat \<Rightarrow> limbs \<Rightarrow> bool" where
  "limbs_below n (h0, h1, h2, h3, h4) \<longleftrightarrow> unat h0 < n \<and> unat h1 < n \<and> unat h2 < n \<and> unat h3 < n \<and> unat h4 < n"

lemma limb_product:
  fixes h r :: u32
  assumes "unat h < 2 ^ 27 + 64" and "unat r < 2 ^ 26"
  shows "unat h * unat r \<le> (2 ^ 27 + 64) * 2 ^ 26" and "unat (r * 5) = 5 * unat r"
    and "unat h * (5 * unat r) \<le> 5 * ((2 ^ 27 + 64) * 2 ^ 26)"
proof -
  show bound: "unat h * unat r \<le> (2 ^ 27 + 64) * 2 ^ 26"
    using assms by (intro mult_le_mono) simp_all
  show "unat (r * 5) = 5 * unat r" using assms(2) by (subst unat_mult_small) simp_all
  show "unat h * (5 * unat r) \<le> 5 * ((2 ^ 27 + 64) * 2 ^ 26)" using bound by simp
qed

lemma poly_multiply_val:
  assumes "limbs_below (2 ^ 26) r" and "limbs_below (2 ^ 27 + 64) h"
  shows "limbs_ok (poly_multiply r h)"
    and "limbs_val (poly_multiply r h) mod poly_p = limbs_val h * limbs_val r mod poly_p"
proof -
  obtain r0 r1 r2 r3 r4 where r: "r = (r0, r1, r2, r3, r4)" by (metis prod.exhaust)
  obtain h0 h1 h2 h3 h4 where h: "h = (h0, h1, h2, h3, h4)" by (metis prod.exhaust)
  define m :: "u32 \<Rightarrow> u32 \<Rightarrow> u64" where "m x y = ucast x * ucast y" for x y
  have um: "unat (m x y) = unat x * unat y" for x y by (simp add: m_def unat_mul_u64)
  define d0 where "d0 = m h0 r0 + m h1 (r4 * 5) + m h2 (r3 * 5) + m h3 (r2 * 5) + m h4 (r1 * 5)"
  define d1 where "d1 = m h0 r1 + m h1 r0 + m h2 (r4 * 5) + m h3 (r3 * 5) + m h4 (r2 * 5)"
  define d2 where "d2 = m h0 r2 + m h1 r1 + m h2 r0 + m h3 (r4 * 5) + m h4 (r3 * 5)"
  define d3 where "d3 = m h0 r3 + m h1 r2 + m h2 r1 + m h3 r0 + m h4 (r4 * 5)"
  define d4 where "d4 = m h0 r4 + m h1 r3 + m h2 r2 + m h3 r1 + m h4 r0"
  have res: "poly_multiply r h = poly_carry d0 d1 d2 d3 d4"
    by (simp add: r h Let_def d0_def d1_def d2_def d3_def d4_def m_def)
  have H: "unat h0 < 2 ^ 27 + 64" "unat h1 < 2 ^ 27 + 64" "unat h2 < 2 ^ 27 + 64"
    "unat h3 < 2 ^ 27 + 64" "unat h4 < 2 ^ 27 + 64" using assms(2) by (simp_all add: h)
  have R: "unat r0 < 2 ^ 26" "unat r1 < 2 ^ 26" "unat r2 < 2 ^ 26" "unat r3 < 2 ^ 26" "unat r4 < 2 ^ 26"
    using assms(1) by (simp_all add: r)
  note five = R(2-5) [THEN limb_product(2) [OF H(1)]]
  note p = limb_product(1) and q = limb_product(3)
  have D0: "unat d0 = unat h0 * unat r0 + unat h1 * (5 * unat r4) + unat h2 * (5 * unat r3) +
      unat h3 * (5 * unat r2) + unat h4 * (5 * unat r1)" "unat d0 < 2 ^ 58 - 2 ^ 32"
    using p [OF H(1) R(1)] q [OF H(2) R(5)] q [OF H(3) R(4)] q [OF H(4) R(3)] q [OF H(5) R(2)]
    unfolding d0_def by (subst unat_sum5; simp add: um five)+
  have D1: "unat d1 = unat h0 * unat r1 + unat h1 * unat r0 + unat h2 * (5 * unat r4) +
      unat h3 * (5 * unat r3) + unat h4 * (5 * unat r2)" "unat d1 < 2 ^ 58 - 2 ^ 32"
    using p [OF H(1) R(2)] p [OF H(2) R(1)] q [OF H(3) R(5)] q [OF H(4) R(4)] q [OF H(5) R(3)]
    unfolding d1_def by (subst unat_sum5; simp add: um five)+
  have D2: "unat d2 = unat h0 * unat r2 + unat h1 * unat r1 + unat h2 * unat r0 +
      unat h3 * (5 * unat r4) + unat h4 * (5 * unat r3)" "unat d2 < 2 ^ 58 - 2 ^ 32"
    using p [OF H(1) R(3)] p [OF H(2) R(2)] p [OF H(3) R(1)] q [OF H(4) R(5)] q [OF H(5) R(4)]
    unfolding d2_def by (subst unat_sum5; simp add: um five)+
  have D3: "unat d3 = unat h0 * unat r3 + unat h1 * unat r2 + unat h2 * unat r1 +
      unat h3 * unat r0 + unat h4 * (5 * unat r4)" "unat d3 < 2 ^ 58 - 2 ^ 32"
    using p [OF H(1) R(4)] p [OF H(2) R(3)] p [OF H(3) R(2)] p [OF H(4) R(1)] q [OF H(5) R(5)]
    unfolding d3_def by (subst unat_sum5; simp add: um five)+
  have D4: "unat d4 = unat h0 * unat r4 + unat h1 * unat r3 + unat h2 * unat r2 +
      unat h3 * unat r1 + unat h4 * unat r0" "unat d4 < 5 * 2 ^ 53 + 2 ^ 36"
    using p [OF H(1) R(5)] p [OF H(2) R(4)] p [OF H(3) R(3)] p [OF H(4) R(2)] p [OF H(5) R(1)]
    unfolding d4_def by (subst unat_sum5; simp add: um)+
  note carry = poly_carry_val [OF D0(2) D1(2) D2(2) D3(2) D4(2)]
  show "limbs_ok (poly_multiply r h)" unfolding res by (rule carry(1))
  have B: "((2 :: nat) ^ 26) ^ 5 = poly_p + 5" by (simp add: poly_p_def)
  have "limbs_val h * limbs_val r mod poly_p =
      (unat d0 + 2 ^ 26 * unat d1 + 2 ^ 52 * unat d2 + 2 ^ 78 * unat d3 + 2 ^ 104 * unat d4) mod poly_p"
    using schoolbook [OF B, of "unat h0" "unat h1" "unat h2" "unat h3" "unat h4"
        "unat r0" "unat r1" "unat r2" "unat r3" "unat r4"]
    unfolding r h limbs_val.simps D0(1) D1(1) D2(1) D3(1) D4(1) power_mult [symmetric] by simp
  then show "limbs_val (poly_multiply r h) mod poly_p = limbs_val h * limbs_val r mod poly_p"
    unfolding res carry(2) by simp
qed

section \<open>The limbs of a block and of the key\<close>

text \<open>Cutting a number below \<open>2\<^sup>1\<^sup>2\<^sup>8\<close> into limbs of 26 bits, and a field of a field.\<close>

lemma limb_sum4:
  fixes n :: nat
  assumes "m0 + 2 ^ 26 * q1 = n" "m1 + 2 ^ 26 * q2 = q1" "m2 + 2 ^ 26 * q3 = q2" "m3 + 2 ^ 26 * q4 = q3"
  shows "m0 + 2 ^ 26 * m1 + 2 ^ 52 * m2 + 2 ^ 78 * m3 + 2 ^ 104 * q4 = n"
  unfolding assms [symmetric] by simp

lemma limb_split:
  fixes n :: nat
  shows "n mod 2 ^ 26 + 2 ^ 26 * (n div 2 ^ 26 mod 2 ^ 26) + 2 ^ 52 * (n div 2 ^ 52 mod 2 ^ 26) +
    2 ^ 78 * (n div 2 ^ 78 mod 2 ^ 26) + 2 ^ 104 * (n div 2 ^ 104) = n"
proof -
  have q: "n div 2 ^ 52 = n div 2 ^ 26 div 2 ^ 26" "n div 2 ^ 78 = n div 2 ^ 26 div 2 ^ 26 div 2 ^ 26"
    "n div 2 ^ 104 = n div 2 ^ 26 div 2 ^ 26 div 2 ^ 26 div 2 ^ 26"
    by (simp_all add: div_mult2_eq [symmetric])
  define q1 q2 q3 q4 where "q1 = n div 2 ^ 26" and "q2 = q1 div 2 ^ 26" and "q3 = q2 div 2 ^ 26"
    and "q4 = q3 div 2 ^ 26"
  have "n mod 2 ^ 26 + 2 ^ 26 * q1 = n" "q1 mod 2 ^ 26 + 2 ^ 26 * q2 = q1"
    "q2 mod 2 ^ 26 + 2 ^ 26 * q3 = q2" "q3 mod 2 ^ 26 + 2 ^ 26 * q4 = q3"
    unfolding q4_def q3_def q2_def q1_def by (rule mod_mult_div_eq)+
  from limb_sum4 [OF this] show ?thesis
    unfolding q q1_def [symmetric] q2_def [symmetric] q3_def [symmetric] q4_def [symmetric] .
qed

lemma field_of_field:
  fixes n :: nat
  assumes "c + d \<le> b"
  shows "n div 2 ^ a mod 2 ^ b div 2 ^ c mod 2 ^ d = n div 2 ^ (a + c) mod 2 ^ d"
  unfolding drop_bit_eq_div [symmetric] take_bit_eq_mod [symmetric]
  by (rule bit_eqI) (use assms in \<open>auto simp: bit_simps add.commute add.left_commute\<close>)

lemma word_field:
  assumes "length m = 16" and "k + 4 \<le> 16" and "c + 26 \<le> 32"
  shows "unat (drop_bit c (read_u32 m k)) mod 2 ^ 26 = le_nat m div 2 ^ (8 * k + c) mod 2 ^ 26"
proof -
  have "(256 :: nat) ^ k = 2 ^ (8 * k)" by (simp add: power_mult)
  then show ?thesis
    using assms field_of_field [of c 26 32 "le_nat m" "8 * k"]
    by (simp only: unat_drop_bit unat_read_u32)
qed

lemma top_field:
  assumes "length m = 16"
  shows "unat (drop_bit 8 (read_u32 m 12)) = le_nat m div 2 ^ 104" and "le_nat m div 2 ^ 104 < 2 ^ 24"
proof -
  have lt: "le_nat m < 2 ^ 128" using le_nat_less [of m] assms by simp
  then have "le_nat m div 2 ^ 96 < 2 ^ 32" by (intro less_mult_imp_div_less) simp
  then show "unat (drop_bit 8 (read_u32 m 12)) = le_nat m div 2 ^ 104"
    using assms by (simp add: unat_drop_bit unat_read_u32 div_mult2_eq [symmetric])
  show "le_nat m div 2 ^ 104 < 2 ^ 24" using lt by (intro less_mult_imp_div_less) simp
qed

lemma unat_or_bit24:
  fixes w :: u32
  assumes "unat w < 2 ^ 24"
  shows "unat (w OR push_bit 24 1) = unat w + 2 ^ 24"
proof -
  have "take_bit 24 w = w"
    using assms by (simp only: word_unat_eq_iff unsigned_take_bit_eq take_bit_nat_eq_self)
  then have "\<not> bit w 24" by (metis bit_take_bit_iff less_irrefl)
  then have "w AND push_bit 24 1 = 0" by (intro bit_word_eqI) (auto simp: bit_simps simp del: push_bit_of_1)
  then have "w OR push_bit 24 1 = w + push_bit 24 1" by (simp add: disjunctive_add_eq_or)
  then show ?thesis using assms by (simp add: unat_add_small)
qed

lemma limb_split_top:
  fixes n :: nat
  shows "n mod 2 ^ 26 + 2 ^ 26 * (n div 2 ^ 26 mod 2 ^ 26) + 2 ^ 52 * (n div 2 ^ 52 mod 2 ^ 26) +
    2 ^ 78 * (n div 2 ^ 78 mod 2 ^ 26) + 2 ^ 104 * (n div 2 ^ 104 + (if fin then 0 else 2 ^ 24)) =
    n + (if fin then 0 else 2 ^ 128)"
proof -
  have "x + 2 ^ 104 * (q + (if fin then 0 else 2 ^ 24)) = n + (if fin then 0 else 2 ^ 128)"
    if "x + 2 ^ 104 * q = n" for x q
    using that by (auto simp: distrib_left)
  from this [OF limb_split] show ?thesis .
qed

text \<open>\<open>fin\<close> is \<^verbatim>\<open>context->final\<close>: the padded last block has its own top bit.\<close>

definition hibit_of :: "bool \<Rightarrow> u32" where
  "hibit_of fin = (if fin then 0 else push_bit 24 1)"

lemma add_block_val:
  assumes "limbs_ok h" and "length m = 16"
  shows "limbs_below (2 ^ 27 + 64) (poly_add_block (hibit_of fin) m h)"
    and "limbs_val (poly_add_block (hibit_of fin) m h) =
      limbs_val h + le_nat m + (if fin then 0 else 2 ^ 128)"
proof -
  obtain h0 h1 h2 h3 h4 where h: "h = (h0, h1, h2, h3, h4)" by (metis prod.exhaust)
  let ?n = "le_nat m"
  define m0 where "m0 = read_u32 m 0 AND 0x3ffffff"
  define m1 where "m1 = drop_bit 2 (read_u32 m 3) AND 0x3ffffff"
  define m2 where "m2 = drop_bit 4 (read_u32 m 6) AND 0x3ffffff"
  define m3 where "m3 = drop_bit 6 (read_u32 m 9) AND 0x3ffffff"
  define m4 where "m4 = drop_bit 8 (read_u32 m 12) OR hibit_of fin"
  have u0: "unat m0 = ?n mod 2 ^ 26"
    using word_field [OF assms(2), of 0 0] unfolding m0_def unat_and_mask by simp
  have u1: "unat m1 = ?n div 2 ^ 26 mod 2 ^ 26"
    using word_field [OF assms(2), of 3 2] unfolding m1_def unat_and_mask by simp
  have u2: "unat m2 = ?n div 2 ^ 52 mod 2 ^ 26"
    using word_field [OF assms(2), of 6 4] unfolding m2_def unat_and_mask by simp
  have u3: "unat m3 = ?n div 2 ^ 78 mod 2 ^ 26"
    using word_field [OF assms(2), of 9 6] unfolding m3_def unat_and_mask by simp
  have u4: "unat m4 = ?n div 2 ^ 104 + (if fin then 0 else 2 ^ 24)"
    using top_field [OF assms(2)] by (simp add: m4_def hibit_of_def unat_or_bit24 del: push_bit_of_1)
  have lt: "unat m0 < 2 ^ 26" "unat m1 < 2 ^ 26" "unat m2 < 2 ^ 26" "unat m3 < 2 ^ 26" "unat m4 < 2 ^ 26"
    using top_field(2) [OF assms(2)] unfolding u0 u1 u2 u3 u4 by simp_all
  have add: "unat (a + b) = unat a + unat b" if "unat a < 2 ^ 26 + 64" "unat b < 2 ^ 26" for a b :: u32
    using that by (subst unat_add_small) simp_all
  have H: "unat h0 < 2 ^ 26 + 64" "unat h1 < 2 ^ 26 + 64" "unat h2 < 2 ^ 26 + 64"
    "unat h3 < 2 ^ 26 + 64" "unat h4 < 2 ^ 26 + 64" using assms(1) by (simp_all add: h)
  have res: "poly_add_block (hibit_of fin) m h = (h0 + m0, h1 + m1, h2 + m2, h3 + m3, h4 + m4)"
    by (simp add: h m0_def m1_def m2_def m3_def m4_def)
  note sums = add [OF H(1) lt(1)] add [OF H(2) lt(2)] add [OF H(3) lt(3)] add [OF H(4) lt(4)]
    add [OF H(5) lt(5)]
  show "limbs_below (2 ^ 27 + 64) (poly_add_block (hibit_of fin) m h)"
    unfolding res limbs_below.simps sums using H lt by simp
  have "unat m0 + 2 ^ 26 * unat m1 + 2 ^ 52 * unat m2 + 2 ^ 78 * unat m3 + 2 ^ 104 * unat m4 =
      ?n + (if fin then 0 else 2 ^ 128)"
    unfolding u0 u1 u2 u3 u4 by (rule limb_split_top)
  then show "limbs_val (poly_add_block (hibit_of fin) m h) =
      limbs_val h + ?n + (if fin then 0 else 2 ^ 128)"
    unfolding res limbs_val.simps sums by (simp add: h algebra_simps)
qed

lemma poly_add_block_take:
  "16 \<le> length m \<Longrightarrow> poly_add_block hibit m h = poly_add_block hibit (take 16 m) h"
  using read_u32_bslice [of _ 16 0 m] by (cases h) (simp add: bslice_def)

section \<open>Whole blocks\<close>

lemma acc_ref_append:
  assumes "16 dvd length a"
  shows "acc_ref r (a @ b) acc = acc_ref r b (acc_ref r a acc)"
  using assms
proof (induction r a acc rule: acc_ref.induct)
  case (1 r m acc)
  show ?case
  proof (cases "m = []")
    case True
    then show ?thesis by (simp add: acc_ref.simps [of r "[]"])
  next
    case False
    then have ge: "16 \<le> length m" using 1(2) by (auto dest: dvd_imp_le)
    then have "16 dvd length (drop 16 m)" using 1(2) by (simp add: dvd_diff_nat)
    then show ?thesis
      using False ge 1(1) by (subst acc_ref.simps, subst (2) acc_ref.simps) simp
  qed
qed

lemma acc_step:
  fixes v :: nat
  assumes "acc = v mod poly_p"
  shows "(v + n + k) * r mod poly_p = (acc + n + k) * r mod poly_p"
  unfolding assms by (metis (no_types) group_cancel.add1 mod_add_left_eq mod_mult_left_eq)

lemma poly_turn_val:
  assumes "limbs_below (2 ^ 26) r" and "limbs_ok h" and "16 \<le> length m"
  shows "limbs_ok (poly_multiply r (poly_add_block (hibit_of fin) m h))"
    and "limbs_val (poly_multiply r (poly_add_block (hibit_of fin) m h)) mod poly_p =
      (limbs_val h mod poly_p + le_nat (take 16 m) + (if fin then 0 else 2 ^ 128)) * limbs_val r mod poly_p"
proof -
  have len: "length (take 16 m) = 16" using assms(3) by simp
  note b = add_block_val [OF assms(2) len, of fin, folded poly_add_block_take [OF assms(3)]]
  show "limbs_ok (poly_multiply r (poly_add_block (hibit_of fin) m h))"
    using assms(1) b(1) by (rule poly_multiply_val)
  show "limbs_val (poly_multiply r (poly_add_block (hibit_of fin) m h)) mod poly_p =
      (limbs_val h mod poly_p + le_nat (take 16 m) + (if fin then 0 else 2 ^ 128)) * limbs_val r mod poly_p"
    unfolding poly_multiply_val(2) [OF assms(1) b(1)] b(2) by (rule acc_step) simp
qed

lemma poly_blocks_loop_val:
  assumes "limbs_below (2 ^ 26) r" and "limbs_ok h" and "16 dvd length m"
  shows "limbs_ok (poly_blocks_loop r (hibit_of False) m h) \<and>
    limbs_val (poly_blocks_loop r (hibit_of False) m h) mod poly_p =
      acc_ref (limbs_val r) m (limbs_val h mod poly_p)"
  using assms(2,3)
proof (induction "length m" arbitrary: m h rule: less_induct)
  case less
  show ?case
  proof (cases "m = []")
    case True
    then show ?thesis
      using less.prems by (simp add: poly_blocks_loop.simps [of _ _ "[]"] acc_ref.simps [of _ "[]"])
  next
    case False
    then have ge: "16 \<le> length m" using less.prems(2) by (auto dest: dvd_imp_le)
    let ?h = "poly_multiply r (poly_add_block (hibit_of False) m h)"
    note turn = poly_turn_val [OF assms(1) less.prems(1) ge, of False]
    have "16 dvd length (drop 16 m)" using less.prems(2) ge by (simp add: dvd_diff_nat)
    then have "limbs_ok (poly_blocks_loop r (hibit_of False) (drop 16 m) ?h) \<and>
        limbs_val (poly_blocks_loop r (hibit_of False) (drop 16 m) ?h) mod poly_p =
          acc_ref (limbs_val r) (drop 16 m) (limbs_val ?h mod poly_p)"
      using less.hyps turn(1) ge by simp
    moreover have "acc_ref (limbs_val r) m (limbs_val h mod poly_p) =
        acc_ref (limbs_val r) (drop 16 m) (limbs_val ?h mod poly_p)"
      using False ge unfolding turn(2) by (subst acc_ref.simps) simp
    moreover have "poly_blocks_loop r (hibit_of False) m h =
        poly_blocks_loop r (hibit_of False) (drop 16 m) ?h"
      using ge by (subst poly_blocks_loop.simps) simp
    ultimately show ?thesis by simp
  qed
qed

section \<open>The key\<close>

lemma and_take_bit: "a AND take_bit n b = take_bit n (a AND b)" for a b :: nat
  by (rule bit_eqI) (auto simp: bit_simps)

lemma clamp_limb:
  fixes n k msk a x :: nat
  assumes "msk = take_bit 26 (drop_bit a k)" and "x mod 2 ^ 26 = n div 2 ^ a mod 2 ^ 26"
  shows "x AND msk = (n AND k) div 2 ^ a mod 2 ^ 26"
proof -
  have "x AND msk = take_bit 26 x AND msk"
    unfolding assms(1) by (rule bit_eqI) (auto simp: bit_simps)
  also have "take_bit 26 x = take_bit 26 (drop_bit a n)"
    using assms(2) by (simp add: take_bit_eq_mod drop_bit_eq_div)
  also have "\<dots> AND msk = take_bit 26 (drop_bit a (n AND k))"
    unfolding assms(1) by (rule bit_eqI) (auto simp: bit_simps)
  finally show ?thesis by (simp add: take_bit_eq_mod drop_bit_eq_div)
qed

lemma unat_and: "unat (a AND b) = unat a AND unat b"
  by (rule unsigned_and_eq)

lemma key_limbs:
  assumes "length key = 32"
  shows "limbs_below (2 ^ 26) (pc_r (ls_poly1305_init buf key))"
    and "limbs_val (pc_r (ls_poly1305_init buf key)) = clamp_ref key"
proof -
  let ?k = "take 16 key" and ?n = "le_nat (take 16 key)"
  let ?c = "0x0ffffffc0ffffffc0ffffffc0fffffff :: nat"
  let ?x = "?n AND ?c"
  have len: "length ?k = 16" using assms by simp
  have read: "read_u32 key k = read_u32 ?k k" if "k + 4 \<le> 16" for k
    using read_u32_bslice [of k 16 0 key] that assms by (simp add: bslice_def)
  have u0: "unat (read_u32 key 0 AND 0x3ffffff) = ?x mod 2 ^ 26"
    using clamp_limb [of "0x3ffffff" 0 ?c "unat (read_u32 ?k 0)" ?n] word_field [OF len, of 0 0]
    by (simp add: read unat_and)
  have u1: "unat (drop_bit 2 (read_u32 key 3) AND 0x3ffff03) = ?x div 2 ^ 26 mod 2 ^ 26"
    using clamp_limb [of "0x3ffff03" 26 ?c "unat (drop_bit 2 (read_u32 ?k 3))" ?n] word_field [OF len, of 3 2]
    by (simp add: read unat_and)
  have u2: "unat (drop_bit 4 (read_u32 key 6) AND 0x3ffc0ff) = ?x div 2 ^ 52 mod 2 ^ 26"
    using clamp_limb [of "0x3ffc0ff" 52 ?c "unat (drop_bit 4 (read_u32 ?k 6))" ?n] word_field [OF len, of 6 4]
    by (simp add: read unat_and)
  have u3: "unat (drop_bit 6 (read_u32 key 9) AND 0x3f03fff) = ?x div 2 ^ 78 mod 2 ^ 26"
    using clamp_limb [of "0x3f03fff" 78 ?c "unat (drop_bit 6 (read_u32 ?k 9))" ?n] word_field [OF len, of 9 6]
    by (simp add: read unat_and)
  have u4: "unat (drop_bit 8 (read_u32 key 12) AND 0x00fffff) = ?x div 2 ^ 104 mod 2 ^ 26"
    using clamp_limb [of "0x00fffff" 104 ?c "unat (drop_bit 8 (read_u32 ?k 12))" ?n] top_field(1) [OF len]
    by (simp add: read unat_and)
  show "limbs_below (2 ^ 26) (pc_r (ls_poly1305_init buf key))"
    by (simp only: ls_poly1305_init_def ls_poly1305_context.simps limbs_below.simps u0 u1 u2 u3 u4) simp
  have "?n < 2 ^ 128" using le_nat_less [of ?k] len by simp
  then have "take_bit 128 ?x = ?x" by (simp only: take_bit_and take_bit_nat_eq_self) simp
  then have "?x < 2 ^ 128" using take_bit_nat_less_exp [of 128 ?x] by simp
  then have "?x div 2 ^ 104 < 2 ^ 26" by (intro less_mult_imp_div_less) simp
  then show "limbs_val (pc_r (ls_poly1305_init buf key)) = clamp_ref key"
    using limb_split [of ?x]
    by (simp only: ls_poly1305_init_def ls_poly1305_context.simps limbs_val.simps u0 u1 u2 u3 u4 clamp_ref_def
        mod_less)
qed

section \<open>The final reduction\<close>

lemma unat_next_limb:
  assumes "unat (a :: u32) < 2 ^ 26" and "unat (x :: u32) < 2 ^ 26 + 64"
  shows "unat (a + drop_bit 26 x) = unat a + unat x div 2 ^ 26" and "unat x div 2 ^ 26 \<le> 1"
    and "unat (a + drop_bit 26 x) < 2 ^ 26 + 64"
proof -
  have "unat x div 2 ^ 26 < 2" using assms(2) by (intro less_mult_imp_div_less) simp
  then show le: "unat x div 2 ^ 26 \<le> 1" by simp
  show sum: "unat (a + drop_bit 26 x) = unat a + unat x div 2 ^ 26"
    using le assms by (subst unat_add_small) (simp_all add: unat_drop_bit)
  show "unat (a + drop_bit 26 x) < 2 ^ 26 + 64" unfolding sum using le assms by simp
qed

lemma poly_freeze_val:
  assumes "limbs_ok h"
  shows "limbs_below (2 ^ 26) (poly_freeze h)"
    and "limbs_val (poly_freeze h) mod poly_p = limbs_val h mod poly_p"
proof -
  obtain h0 h1 h2 h3 h4 where h: "h = (h0, h1, h2, h3, h4)" by (metis prod.exhaust)
  have H: "unat h0 < 2 ^ 26" "unat h1 < 2 ^ 26 + 64" "unat h2 < 2 ^ 26" "unat h3 < 2 ^ 26" "unat h4 < 2 ^ 26"
    using assms by (simp_all add: h)
  define e2 where "e2 = h2 + drop_bit 26 h1"
  define e3 where "e3 = h3 + drop_bit 26 e2"
  define e4 where "e4 = h4 + drop_bit 26 e3"
  define x where "x = h0 + drop_bit 26 e4 * 5"
  note l2 = unat_next_limb [OF H(3) H(2), folded e2_def]
  note l3 = unat_next_limb [OF H(4) l2(3), folded e3_def]
  note l4 = unat_next_limb [OF H(5) l3(3), folded e4_def]
  have c4: "unat e4 div 2 ^ 26 \<le> 1" using unat_next_limb(2) [OF H(1) l4(3)] .
  have "unat (drop_bit 26 e4 * 5) = unat e4 div 2 ^ 26 * 5"
    using c4 by (subst unat_mult_small) (simp_all add: unat_drop_bit)
  then have x: "unat x = unat h0 + 5 * (unat e4 div 2 ^ 26)" "unat x < 2 ^ 26 + 64"
    unfolding x_def using c4 H(1) by (subst unat_add_small; simp)+
  have cx: "unat x div 2 ^ 26 \<le> 1" using unat_next_limb(2) [OF H(1) x(2)] .
  text \<open>A carry that comes round leaves the second limb small.\<close>
  have small: "unat h1 mod 2 ^ 26 + unat x div 2 ^ 26 < 2 ^ 26"
  proof (cases "unat h1 < 2 ^ 26")
    case True
    then have "unat x = unat h0" using x(1) l4(1) l3(1) l2(1) H by simp
    then show ?thesis using True H(1) by simp
  next
    case False
    then have "unat h1 mod 2 ^ 26 < 64" using H(2) by (simp add: le_mod_geq)
    then show ?thesis using cx by simp
  qed
  have h1: "unat ((h1 AND 0x3ffffff) + drop_bit 26 x) = unat h1 mod 2 ^ 26 + unat x div 2 ^ 26"
    using small by (subst unat_add_small) (simp_all add: unat_and_mask unat_drop_bit)
  have res: "poly_freeze h = (x AND 0x3ffffff, (h1 AND 0x3ffffff) + drop_bit 26 x, e2 AND 0x3ffffff,
      e3 AND 0x3ffffff, e4 AND 0x3ffffff)"
    by (simp add: h Let_def e2_def e3_def e4_def x_def)
  show "limbs_below (2 ^ 26) (poly_freeze h)"
    unfolding res limbs_below.simps h1 unat_and_mask using small by simp
  have zero: "unat h0 = unat h0 + 2 ^ 26 * 0" "unat h1 + 0 = unat h1 mod 2 ^ 26 + 2 ^ 26 * (unat h1 div 2 ^ 26)"
    by (simp_all only: mod_mult_div_eq)
  have split: "n = n mod 2 ^ 26 + 2 ^ 26 * (n div 2 ^ 26)" for n :: nat
    by (rule mod_mult_div_eq [symmetric])
  from limb_sum [OF zero trans [OF l2(1) [symmetric] split] trans [OF l3(1) [symmetric] split]
      trans [OF l4(1) [symmetric] split] trans [OF x(1) [symmetric] split]]
  show "limbs_val (poly_freeze h) mod poly_p = limbs_val h mod poly_p"
    unfolding res limbs_val.simps h1 unat_and_mask unfolding h limbs_val.simps by simp
qed

lemma poly_p_bounds: "5 < poly_p" "2 ^ 130 = poly_p + 5"
  by (simp_all add: poly_p_def)

lemma mod_poly_p:
  assumes "v < 2 ^ 130"
  shows "v mod poly_p = (if v + 5 < 2 ^ 130 then v else v + 5 - 2 ^ 130)"
proof (cases "v + 5 < 2 ^ 130")
  case True
  then show ?thesis unfolding poly_p_bounds(2) by simp
next
  case False
  then have "poly_p \<le> v" "v - poly_p < poly_p"
    using assms poly_p_bounds(1) unfolding poly_p_bounds(2) by simp_all
  then show ?thesis using False unfolding poly_p_bounds(2) by (simp add: le_mod_geq)
qed

lemma limbs_val_less:
  assumes "limbs_below (2 ^ 26) h" shows "limbs_val h < 2 ^ 130"
  using assms by (cases h) auto

lemma limb_sum_five:
  fixes h0 h1 h2 h3 h4 :: nat
  assumes "h0 + 5 = m0 + 2 ^ 26 * q0" "h1 + q0 = m1 + 2 ^ 26 * q1" "h2 + q1 = m2 + 2 ^ 26 * q2"
    "h3 + q2 = m3 + 2 ^ 26 * q3" "h4 + q3 = m4"
  shows "h0 + 2 ^ 26 * h1 + 2 ^ 52 * h2 + 2 ^ 78 * h3 + 2 ^ 104 * h4 + 5 =
    m0 + 2 ^ 26 * m1 + 2 ^ 52 * m2 + 2 ^ 78 * m3 + 2 ^ 104 * m4"
  using assms by simp

text \<open>The sign of the difference selects one of the two numbers.\<close>

lemma select_mask:
  fixes g :: u32
  assumes "unat g \<le> 2 ^ 26"
  shows "unat g < 2 ^ 26 \<Longrightarrow> drop_bit 31 (g - push_bit 26 1) - 1 = 0"
    and "\<not> unat g < 2 ^ 26 \<Longrightarrow> g - push_bit 26 1 = 0"
proof -
  assume lt: "unat g < 2 ^ 26"
  have "unat (g - 0x4000000) = 2 ^ 32 - 2 ^ 26 + unat g"
    using lt by (simp add: unat_sub_if_size word_size)
  then have "unat (drop_bit 31 (g - 0x4000000)) = unat (1 :: u32)"
    using lt by (simp only: unat_drop_bit) (auto intro!: div_nat_eqI)
  then have "drop_bit 31 (g - 0x4000000) = 1" by (simp only: word_unat_eq_iff)
  then show "drop_bit 31 (g - push_bit 26 1) - 1 = 0" by simp
next
  assume "\<not> unat g < 2 ^ 26"
  then have "unat g = unat (0x4000000 :: u32)" using assms by simp
  then have "g = 0x4000000" by (simp only: word_unat_eq_iff)
  then show "g - push_bit 26 1 = 0" by simp
qed

lemma poly_select_val:
  assumes "limbs_below (2 ^ 26) h"
  shows "limbs_below (2 ^ 26) (poly_select h) \<and> limbs_val (poly_select h) = limbs_val h mod poly_p"
proof -
  obtain h0 h1 h2 h3 h4 where h: "h = (h0, h1, h2, h3, h4)" by (metis prod.exhaust)
  have H: "unat h0 < 2 ^ 26" "unat h1 < 2 ^ 26" "unat h2 < 2 ^ 26" "unat h3 < 2 ^ 26" "unat h4 < 2 ^ 26"
    using assms by (simp_all add: h)
  define g0 where "g0 = h0 + 5"
  define g1 where "g1 = h1 + drop_bit 26 g0"
  define g2 where "g2 = h2 + drop_bit 26 g1"
  define g3 where "g3 = h3 + drop_bit 26 g2"
  define g4 where "g4 = h4 + drop_bit 26 g3"
  have g0: "unat g0 = unat h0 + 5" "unat g0 < 2 ^ 26 + 64"
    unfolding g0_def using H(1) by (subst unat_add_small; simp)+
  note l1 = unat_next_limb [OF H(2) g0(2), folded g1_def]
  note l2 = unat_next_limb [OF H(3) l1(3), folded g2_def]
  note l3 = unat_next_limb [OF H(4) l2(3), folded g3_def]
  note l4 = unat_next_limb [OF H(5) l3(3), folded g4_def]
  have split: "n = n mod 2 ^ 26 + 2 ^ 26 * (n div 2 ^ 26)" for n :: nat
    by (rule mod_mult_div_eq [symmetric])
  have sum: "limbs_val h + 5 = unat g0 mod 2 ^ 26 + 2 ^ 26 * (unat g1 mod 2 ^ 26) +
      2 ^ 52 * (unat g2 mod 2 ^ 26) + 2 ^ 78 * (unat g3 mod 2 ^ 26) + 2 ^ 104 * unat g4"
    unfolding h limbs_val.simps
    by (rule limb_sum_five [OF trans [OF g0(1) [symmetric] split] trans [OF l1(1) [symmetric] split]
        trans [OF l2(1) [symmetric] split] trans [OF l3(1) [symmetric] split] l4(1) [symmetric]])
  have res: "poly_select h =
      (let msk = drop_bit 31 (g4 - push_bit 26 1) - 1
       in ((h0 AND NOT msk) OR ((g0 AND 0x3ffffff) AND msk), (h1 AND NOT msk) OR ((g1 AND 0x3ffffff) AND msk),
           (h2 AND NOT msk) OR ((g2 AND 0x3ffffff) AND msk), (h3 AND NOT msk) OR ((g3 AND 0x3ffffff) AND msk),
           (h4 AND NOT msk) OR ((g4 - push_bit 26 1) AND msk)))"
    by (simp add: poly_select_def h Let_def g0_def g1_def g2_def g3_def g4_def)
  have g4: "unat g4 \<le> 2 ^ 26" using l4(1,2) H(5) by simp
  note reduced = mod_poly_p [OF limbs_val_less [OF assms]]
  show ?thesis
  proof (cases "unat g4 < 2 ^ 26")
    case True
    then have "poly_select h = h"
      unfolding res select_mask(1) [OF g4 True] by (simp add: h)
    moreover have "limbs_val h + 5 < 2 ^ 130"
      unfolding sum using True
        mod_less_divisor [of "2 ^ 26" "unat g0"] mod_less_divisor [of "2 ^ 26" "unat g1"]
        mod_less_divisor [of "2 ^ 26" "unat g2"] mod_less_divisor [of "2 ^ 26" "unat g3"]
      by simp
    ultimately show ?thesis using assms reduced by simp
  next
    case False
    then have "poly_select h = (g0 AND 0x3ffffff, g1 AND 0x3ffffff, g2 AND 0x3ffffff, g3 AND 0x3ffffff, 0)"
      unfolding res select_mask(2) [OF g4 False] by simp
    moreover have "unat g4 = 2 ^ 26" using False g4 by simp
    ultimately show ?thesis
      using sum reduced by (simp add: unat_and_mask)
  qed
qed

section \<open>The tag\<close>

lemma unat_or_push_bit:
  fixes a b :: u32
  assumes "unat a < 2 ^ k"
  shows "unat (a OR push_bit k b) = (unat a + 2 ^ k * unat b) mod 2 ^ 32"
proof -
  have "take_bit k a = a"
    using assms by (simp only: word_unat_eq_iff unsigned_take_bit_eq take_bit_nat_eq_self)
  then have "\<not> bit a n" if "k \<le> n" for n using that by (metis bit_take_bit_iff not_le)
  then have "a AND push_bit k b = 0" by (intro bit_word_eqI) (auto simp: bit_simps)
  then have "a OR push_bit k b = a + push_bit k b" by (simp add: disjunctive_add_eq_or)
  also have "\<dots> = of_nat (unat a + 2 ^ k * unat b)" by (simp add: push_bit_eq_mult mult.commute)
  finally show ?thesis by (simp only: unat_of_nat) simp
qed

text \<open>The 32-bit words of the number in the limbs.\<close>

lemma word_of_limbs:
  fixes a b c q w :: nat
  assumes "a < 2 ^ k" and "w = (a + 2 ^ k * b) mod 2 ^ 32" and "k + j = 32"
  shows "a + 2 ^ k * b = w + 2 ^ 32 * (b div 2 ^ j)"
proof -
  have "(a + 2 ^ k * b) div 2 ^ 32 = (a + 2 ^ k * b) div 2 ^ k div 2 ^ j"
    unfolding assms(3) [symmetric] power_add by (rule div_mult2_eq)
  also have "\<dots> = b div 2 ^ j" using assms(1) by simp
  finally show ?thesis
    using mod_mult_div_eq [of "a + 2 ^ k * b" "2 ^ 32"] assms(2) by simp
qed

lemma words_of_limbs:
  assumes "limbs_below (2 ^ 26) (h0, h1, h2, h3, h4)"
  shows "limbs_val (h0, h1, h2, h3, h4) = unat (h0 OR push_bit 26 h1) +
    2 ^ 32 * unat (drop_bit 6 h1 OR push_bit 20 h2) + 2 ^ 64 * unat (drop_bit 12 h2 OR push_bit 14 h3) +
    2 ^ 96 * unat (drop_bit 18 h3 OR push_bit 8 h4) + 2 ^ 128 * (unat h4 div 2 ^ 24)"
proof -
  have lt: "unat h0 < 2 ^ 26" "unat (drop_bit 6 h1) < 2 ^ 20" "unat (drop_bit 12 h2) < 2 ^ 14"
    "unat (drop_bit 18 h3) < 2 ^ 8"
    using assms by (auto simp: unat_drop_bit intro!: less_mult_imp_div_less)
  show ?thesis
    using word_of_limbs [OF lt(1) unat_or_push_bit [OF lt(1), of h1], of 6]
      word_of_limbs [OF lt(2) unat_or_push_bit [OF lt(2), of h2], of 12]
      word_of_limbs [OF lt(3) unat_or_push_bit [OF lt(3), of h3], of 18]
      word_of_limbs [OF lt(4) unat_or_push_bit [OF lt(4), of h4], of 24]
    by (simp add: unat_drop_bit)
qed

text \<open>Adding the pad word by word, the carry in the upper half of the sum.\<close>

lemma add_words:
  fixes w p :: u32 and c :: u64
  assumes "unat c < 2 ^ 32"
  shows "unat (ucast w + ucast p + c) = unat w + unat p + unat c"
    and "unat (drop_bit 32 (ucast w + ucast p + c)) < 2 ^ 32"
proof -
  have "unat w < 2 ^ 32" "unat p < 2 ^ 32"
    using unsigned_less [of w, where ?'a = nat] unsigned_less [of p, where ?'a = nat] by simp_all
  then show sum: "unat (ucast w + ucast p + c) = unat w + unat p + unat c"
    using assms by (subst unat_add_small; subst unat_add_small; simp)
  show "unat (drop_bit 32 (ucast w + ucast p + c)) < 2 ^ 32"
    unfolding unat_drop_bit using unsigned_less [of "ucast w + ucast p + c", where ?'a = nat]
    by (intro less_mult_imp_div_less) simp
qed

lemma word_sum:
  fixes s0 s1 s2 s3 :: nat
  assumes "m0 + 2 ^ 32 * q0 = s0" "m1 + 2 ^ 32 * q1 = s1 + q0" "m2 + 2 ^ 32 * q2 = s2 + q1"
    "m3 + 2 ^ 32 * q3 = s3 + q2"
  shows "s0 + 2 ^ 32 * s1 + 2 ^ 64 * s2 + 2 ^ 96 * s3 =
    (m0 + 2 ^ 32 * m1 + 2 ^ 64 * m2 + 2 ^ 96 * m3) + 2 ^ 128 * q3"
  using assms by simp

lemma carry_words:
  fixes s0 s1 s2 s3 t1 t2 t3 :: nat
  assumes "t1 = s1 + s0 div 2 ^ 32" "t2 = s2 + t1 div 2 ^ 32" "t3 = s3 + t2 div 2 ^ 32"
  shows "s0 mod 2 ^ 32 + 2 ^ 32 * (t1 mod 2 ^ 32) + 2 ^ 64 * (t2 mod 2 ^ 32) + 2 ^ 96 * (t3 mod 2 ^ 32) =
    (s0 + 2 ^ 32 * s1 + 2 ^ 64 * s2 + 2 ^ 96 * s3) mod 2 ^ 128" (is "?l = ?r mod _")
proof -
  note split = mod_mult_div_eq [of _ "2 ^ 32 :: nat"]
  have "?r = ?l + 2 ^ 128 * (t3 div 2 ^ 32)"
    by (rule word_sum [OF split trans [OF split assms(1)] trans [OF split assms(2)]
        trans [OF split assms(3)]])
  moreover have "?l < 2 ^ 128"
    using mod_less_divisor [of "2 ^ 32" s0] mod_less_divisor [of "2 ^ 32" t1]
      mod_less_divisor [of "2 ^ 32" t2] mod_less_divisor [of "2 ^ 32" t3]
    by simp
  ultimately show ?thesis by simp
qed

lemma length_nat_le [simp]: "length (nat_le n v) = n"
  by (induction n arbitrary: v) simp_all

lemma nat_le_le_nat: "nat_le (length bs) (le_nat bs) = bs"
proof (induction bs)
  case (Cons b bs)
  have "unat b < 256" using unsigned_less [of b, where ?'a = nat] by simp
  then have "(unat b + 256 * le_nat bs) div 256 = le_nat bs" by simp
  moreover have "(of_nat (unat b + 256 * le_nat bs) :: u8) = b"
    using \<open>unat b < 256\<close> by (simp only: word_unat_eq_iff unat_of_nat) simp
  ultimately show ?case using Cons by simp
qed simp

lemma poly_output_val:
  assumes "limbs_below (2 ^ 26) h"
  shows "poly_output h (p0, p1, p2, p3) =
    nat_le 16 ((limbs_val h + (unat p0 + 2 ^ 32 * unat p1 + 2 ^ 64 * unat p2 + 2 ^ 96 * unat p3)) mod 2 ^ 128)"
proof -
  obtain h0 h1 h2 h3 h4 where h: "h = (h0, h1, h2, h3, h4)" by (metis prod.exhaust)
  define w0 where "w0 = h0 OR push_bit 26 h1"
  define w1 where "w1 = drop_bit 6 h1 OR push_bit 20 h2"
  define w2 where "w2 = drop_bit 12 h2 OR push_bit 14 h3"
  define w3 where "w3 = drop_bit 18 h3 OR push_bit 8 h4"
  define f0 where "f0 = (ucast w0 :: u64) + ucast p0"
  define f1 where "f1 = (ucast w1 :: u64) + ucast p1 + drop_bit 32 f0"
  define f2 where "f2 = (ucast w2 :: u64) + ucast p2 + drop_bit 32 f1"
  define f3 where "f3 = (ucast w3 :: u64) + ucast p3 + drop_bit 32 f2"
  have a0: "unat f0 = unat w0 + unat p0" "unat (drop_bit 32 f0) < 2 ^ 32"
    using add_words [of 0 w0 p0] by (simp_all add: f0_def)
  note a1 = add_words [OF a0(2), of w1 p1, folded f1_def]
  note a2 = add_words [OF a1(2), of w2 p2, folded f2_def]
  note a3 = add_words [OF a2(2), of w3 p3, folded f3_def]
  let ?out = "le32 (ucast f0) @ le32 (ucast f1) @ le32 (ucast f2) @ le32 (ucast f3)"
  have "le_nat ?out = unat f0 mod 2 ^ 32 + 2 ^ 32 * (unat f1 mod 2 ^ 32) + 2 ^ 64 * (unat f2 mod 2 ^ 32) +
      2 ^ 96 * (unat f3 mod 2 ^ 32)"
    by (simp add: le_nat_append le_nat_le32 unat_ucast_u32)
  also have "\<dots> = (unat f0 + 2 ^ 32 * (unat w1 + unat p1) + 2 ^ 64 * (unat w2 + unat p2) +
      2 ^ 96 * (unat w3 + unat p3)) mod 2 ^ 128"
    by (rule carry_words) (simp_all only: a1(1) a2(1) a3(1) unat_drop_bit)
  also have "\<dots> = (limbs_val h + (unat p0 + 2 ^ 32 * unat p1 + 2 ^ 64 * unat p2 + 2 ^ 96 * unat p3)) mod 2 ^ 128"
  proof -
    have "limbs_val h = unat w0 + 2 ^ 32 * unat w1 + 2 ^ 64 * unat w2 + 2 ^ 96 * unat w3 +
        2 ^ 128 * (unat h4 div 2 ^ 24)"
      using words_of_limbs [of h0 h1 h2 h3 h4] assms unfolding h w0_def w1_def w2_def w3_def by simp
    then have "limbs_val h + (unat p0 + 2 ^ 32 * unat p1 + 2 ^ 64 * unat p2 + 2 ^ 96 * unat p3) =
        (unat f0 + 2 ^ 32 * (unat w1 + unat p1) + 2 ^ 64 * (unat w2 + unat p2) +
          2 ^ 96 * (unat w3 + unat p3)) + 2 ^ 128 * (unat h4 div 2 ^ 24)"
      unfolding a0(1) by (simp add: algebra_simps)
    then show ?thesis by (simp only: mod_mult_self2)
  qed
  finally have val: "le_nat ?out = \<dots>" .
  have "poly_output h (p0, p1, p2, p3) = ?out"
    by (simp add: h Let_def f0_def f1_def f2_def f3_def w0_def w1_def w2_def w3_def)
  then show ?thesis using nat_le_le_nat [of ?out] unfolding val by simp
qed

section \<open>The streaming code computes the tag of the standard\<close>

definition poly_repr :: "bytes \<Rightarrow> ls_poly1305_context \<Rightarrow> bytes \<Rightarrow> bool" where
  "poly_repr key c m \<longleftrightarrow>
     pc_r c = pc_r (ls_poly1305_init [] key) \<and> pc_pad c = pc_pad (ls_poly1305_init [] key) \<and>
     \<not> pc_final c \<and> length (pc_buffer c) = 16 \<and> pc_leftover c < 16 \<and> limbs_ok (pc_h c) \<and>
     (\<exists>a. 16 dvd length a \<and> m = a @ take (pc_leftover c) (pc_buffer c) \<and>
          limbs_val (pc_h c) mod poly_p = acc_ref (clamp_ref key) a 0)"

lemma poly_repr_init: "length buf = 16 \<Longrightarrow> poly_repr key (ls_poly1305_init buf key) []"
  by (auto simp: poly_repr_def ls_poly1305_init_def acc_ref.simps [of _ "[]"])

lemma pc_r_init: "pc_r (ls_poly1305_init buf key) = pc_r (ls_poly1305_init [] key)"
  by (simp add: ls_poly1305_init_def)

text \<open>Whole blocks, given to a context with an empty buffer.\<close>

lemma poly_repr_blocks:
  assumes "poly_repr key c m" and "length key = 32" and "pc_leftover c = 0" and "16 dvd length d"
  shows "poly_repr key (poly_blocks c d) (m @ d)" and "pc_leftover (poly_blocks c d) = 0"
proof -
  have hib: "(if pc_final c then 0 else push_bit 24 1) = hibit_of False"
    using assms(1) by (simp add: poly_repr_def hibit_of_def)
  have below: "limbs_below (2 ^ 26) (pc_r c)" and r: "limbs_val (pc_r c) = clamp_ref key"
    using key_limbs [OF assms(2), of "[]"] assms(1) by (simp_all add: poly_repr_def)
  have m: "16 dvd length m" "limbs_val (pc_h c) mod poly_p = acc_ref (clamp_ref key) m 0" "limbs_ok (pc_h c)"
    using assms(1,3) by (auto simp: poly_repr_def)
  note val = poly_blocks_loop_val [OF below m(3) assms(4), unfolded r m(2)]
  have "acc_ref (clamp_ref key) (m @ d) 0 = acc_ref (clamp_ref key) d (acc_ref (clamp_ref key) m 0)"
    using m(1) by (rule acc_ref_append)
  then show "poly_repr key (poly_blocks c d) (m @ d)"
    using assms val m(1) unfolding poly_repr_def poly_blocks_def hib by auto
  show "pc_leftover (poly_blocks c d) = 0" using assms(3) by (simp add: poly_blocks_def)
qed

lemma poly_repr_absorb:
  assumes "poly_repr key c m" and "length key = 32" and "pc_leftover c = 0"
  shows "poly_repr key (poly_absorb c d) (m @ d)"
proof -
  let ?want = "length d - length d mod 16"
  define c1 where "c1 = (if length d \<ge> 16 then poly_blocks c (take ?want d) else c)"
  define rest where "rest = (if length d \<ge> 16 then drop ?want d else d)"
  define a where "a = (if length d \<ge> 16 then take ?want d else [])"
  have d: "d = a @ rest" by (simp add: a_def rest_def)
  have rest: "length rest < 16" by (simp add: rest_def)
  have "16 dvd length a" by (simp add: a_def min_absorb2 dvd_minus_mod)
  then have c1: "poly_repr key c1 (m @ a)" "pc_leftover c1 = 0"
    using poly_repr_blocks [OF assms] assms by (auto simp: c1_def a_def)
  have "poly_absorb c d = (if rest \<noteq> [] then c1\<lparr>pc_buffer := overwrite 0 rest (pc_buffer c1),
      pc_leftover := length rest\<rparr> else c1)"
    by (simp add: poly_absorb_def Let_def c1_def rest_def)
  then show ?thesis
    using c1 rest take_overwrite_end [of 0 "pc_buffer c1" rest]
    by (auto simp: poly_repr_def d)
qed

lemma poly_blocks_leftover:
  "(poly_blocks (c\<lparr>pc_leftover := n\<rparr>) b)\<lparr>pc_leftover := k\<rparr> = poly_blocks (c\<lparr>pc_leftover := k\<rparr>) b"
  by (cases c) (simp add: poly_blocks_def)

lemma poly_repr_update:
  assumes "poly_repr key c m" and "length key = 32"
  shows "poly_repr key (ls_poly1305_update c d) (m @ d)"
proof -
  let ?l = "pc_leftover c" and ?b = "pc_buffer c"
  let ?want = "min (16 - ?l) (length d)"
  let ?b' = "overwrite ?l (take ?want d) ?b"
  obtain a where a: "16 dvd length a" "m = a @ take ?l ?b"
    "limbs_val (pc_h c) mod poly_p = acc_ref (clamp_ref key) a 0"
    and b: "length ?b = 16" "?l < 16" using assms(1) by (auto simp: poly_repr_def)
  have tk: "take (?l + ?want) ?b' = take ?l ?b @ take ?want d"
    using take_overwrite_end [of ?l ?b "take ?want d"] b by simp
  have len: "length ?b' = 16" using b by simp
  consider (empty) "d = []" | (fresh) "d \<noteq> []" "?l = 0" | (kept) "d \<noteq> []" "?l \<noteq> 0" "?l + ?want < 16"
    | (full) "d \<noteq> []" "?l \<noteq> 0" "?l + ?want = 16"
    using b(2) by (cases "16 - ?l \<le> length d") fastforce+
  then show ?thesis
  proof cases
    case empty
    then show ?thesis using assms by (simp add: ls_poly1305_update_def)
  next
    case fresh
    then show ?thesis using poly_repr_absorb [OF assms] by (simp add: ls_poly1305_update_def)
  next
    case kept
    then have "take ?want d = d" by simp
    then show ?thesis
      using kept assms(1) a tk len by (auto simp: ls_poly1305_update_def Let_def poly_repr_def)
  next
    case full
    let ?c0 = "c\<lparr>pc_buffer := ?b', pc_leftover := 0\<rparr>"
    have c0: "poly_repr key ?c0 a" using assms(1) a len by (auto simp: poly_repr_def)
    note blocks = poly_repr_blocks [OF c0 assms(2), of ?b']
    have upd: "ls_poly1305_update c d = poly_absorb (poly_blocks ?c0 ?b') (drop ?want d)"
      using full poly_blocks_leftover [where c = "c\<lparr>pc_buffer := ?b'\<rparr>" and n = 16 and k = 0]
      by (simp add: ls_poly1305_update_def Let_def)
    have "poly_repr key (poly_absorb (poly_blocks ?c0 ?b') (drop ?want d)) ((a @ ?b') @ drop ?want d)"
      by (rule poly_repr_absorb) (use blocks len assms(2) in simp_all)
    moreover have "(a @ ?b') @ drop ?want d = m @ d" using tk len full(3) a(2) by simp
    ultimately show ?thesis unfolding upd by (simp only:)
  qed
qed

lemma acc_ref_less: "acc < poly_p \<Longrightarrow> acc_ref r m acc < poly_p"
proof (induction r m acc rule: acc_ref.induct)
  case (1 r m acc)
  then show ?case using poly_p_bounds(1) by (subst acc_ref.simps) simp
qed

lemma poly_tag:
  assumes "limbs_ok h" and "limbs_val h mod poly_p = acc"
  shows "poly_output (poly_select (poly_freeze h)) (p0, p1, p2, p3) =
    nat_le 16 ((acc + (unat p0 + 2 ^ 32 * unat p1 + 2 ^ 64 * unat p2 + 2 ^ 96 * unat p3)) mod 2 ^ 128)"
  using poly_freeze_val [OF assms(1)] poly_select_val [of "poly_freeze h"] assms(2)
  by (simp add: poly_output_val)

lemma pad_value:
  assumes "length key = 32"
  shows "unat (read_u32 key 16) + 2 ^ 32 * unat (read_u32 key 20) + 2 ^ 64 * unat (read_u32 key 24) +
    2 ^ 96 * unat (read_u32 key 28) = le_nat (bslice 16 16 key)"
proof -
  have "bslice 16 16 key = bslice 16 4 key @ bslice 20 4 key @ bslice 24 4 key @ bslice 28 4 key"
    using bslice_split [of 16 4 12 key] bslice_split [of 20 4 8 key] bslice_split [of 24 4 4 key] by simp
  also have "\<dots> = le32 (read_u32 key 16) @ le32 (read_u32 key 20) @ le32 (read_u32 key 24) @
      le32 (read_u32 key 28)"
    using assms by (simp add: le32_read_u32)
  finally show ?thesis by (simp add: le_nat_append le_nat_le32)
qed

lemma poly_finish_repr:
  assumes "poly_repr key c m" and "length key = 32"
  shows "ls_poly1305_finish c = poly1305_ref key m"
proof -
  let ?l = "pc_leftover c" and ?t = "take (pc_leftover c) (pc_buffer c)" and ?r = "clamp_ref key"
  obtain a where a: "16 dvd length a" "m = a @ ?t" "limbs_val (pc_h c) mod poly_p = acc_ref ?r a 0"
    and b: "length (pc_buffer c) = 16" "?l < 16" "limbs_ok (pc_h c)"
    using assms(1) by (auto simp: poly_repr_def)
  have pad: "pc_pad c = (read_u32 key 16, read_u32 key 20, read_u32 key 24, read_u32 key 28)"
    and pcr: "pc_r c = pc_r (ls_poly1305_init [] key)"
    using assms(1) by (simp_all add: poly_repr_def ls_poly1305_init_def)
  have goal: ?thesis
    if "ls_poly1305_finish c = poly_output (poly_select (poly_freeze h)) (pc_pad c)" "limbs_ok h"
      "limbs_val h mod poly_p = acc_ref ?r m 0" for h
    using that poly_tag [OF that(2,3)] pad_value [OF assms(2)] by (simp add: pad poly1305_ref_def)
  show ?thesis
  proof (cases "?l = 0")
    case True
    then show ?thesis using a b by (intro goal [of "pc_h c"]) (simp_all add: ls_poly1305_finish_def)
  next
    case False
    let ?b = "?t @ 1 # replicate (15 - ?l) 0"
    let ?h = "poly_multiply (pc_r c) (poly_add_block (hibit_of True) ?b (pc_h c))"
    have len: "length ?t = ?l" "length ?b = 16" using b by simp_all
    have buf: "overwrite ?l (1 # replicate (16 - (?l + 1)) 0) (pc_buffer c) = ?b"
      using b by (subst overwrite_to_end) simp_all
    have "poly_blocks_loop (pc_r c) 0 ?b (pc_h c) = ?h"
      using len(2) by (subst poly_blocks_loop.simps) (simp add: poly_blocks_loop.simps [of _ _ "[]"] hibit_of_def)
    then have fin: "ls_poly1305_finish c = poly_output (poly_select (poly_freeze ?h)) (pc_pad c)"
      using False buf by (simp add: ls_poly1305_finish_def poly_blocks_def Let_def)
    note key = key_limbs [OF assms(2), of "[]", folded pcr]
    have "16 \<le> length ?b" using len by simp
    note turn = poly_turn_val [OF key(1) b(3) this, of True]
    have "le_nat ?b = le_nat ?t + 2 ^ (8 * ?l)"
      using len(1) by (simp add: le_nat_append power_mult)
    then have "limbs_val ?h mod poly_p = (acc_ref ?r a 0 + le_nat ?t + 2 ^ (8 * ?l)) * ?r mod poly_p"
      using turn(2) len(2) b(2) by (simp add: key(2) a(3) add.assoc min_absorb2)
    also have "\<dots> = acc_ref ?r ?t (acc_ref ?r a 0)"
      using False len(1) b
      by (auto simp: acc_ref.simps [of _ ?t] acc_ref.simps [of _ "[]"] simp flip: length_0_conv)
    also have "\<dots> = acc_ref ?r m 0" using a by (simp add: acc_ref_append)
    finally show ?thesis using fin turn(1) by (intro goal)
  qed
qed

interpretation poly: streaming_digest "\<lambda>c m. length key = 32 \<and> poly_repr key c m"
    ls_poly1305_update ls_poly1305_finish "poly1305_ref key"
  for key
  by unfold_locales (auto simp: poly_repr_update poly_finish_repr)

lemma poly_updates:
  "length key = 32 \<Longrightarrow> length buf = 16 \<Longrightarrow>
   ls_poly1305_finish (foldl ls_poly1305_update (ls_poly1305_init buf key) ds) = poly1305_ref key (concat ds)"
  using poly.finish_updates [of key "ls_poly1305_init buf key" "[]" ds] by (simp add: poly_repr_init)

text \<open>C28: the limb arithmetic of Poly1305 is exact. For every 32-byte key and every list of pieces
  of a message, feeding the pieces one after the other and finishing gives the tag of RFC 8439 on
  the whole message: the clamped key, the sum of the blocks modulo \<open>2\<^sup>1\<^sup>3\<^sup>0 - 5\<close>, and the addition of
  the second half of the key modulo \<open>2\<^sup>1\<^sup>2\<^sup>8\<close>. What the buffer holds at the start does not matter.\<close>

theorem poly1305_standard:
  assumes "length key = 32" and "length buf = 16"
  shows "ls_poly1305_finish (foldl ls_poly1305_update (ls_poly1305_init buf key) ds) =
      poly1305_ref key (concat ds) \<and>
    ls_poly1305_auth key (concat ds) = poly1305_ref key (concat ds)"
proof -
  have "ls_poly1305_auth key m = poly1305_ref key m" for m
    using poly_updates [OF assms(1), of "replicate 16 0" "[]"]
      poly_updates [OF assms(1), of "replicate 16 0" "[m]"]
    by (cases "m = []") (simp_all add: ls_poly1305_auth_def Let_def)
  then show ?thesis using poly_updates [OF assms] by simp
qed

theorem poly1305_standard_witness:
  "ls_poly1305_finish (foldl ls_poly1305_update (ls_poly1305_init (replicate 16 7) (replicate 32 1))
     [[1, 2, 3], replicate 20 5, []]) =
   poly1305_ref (replicate 32 1) ([1, 2, 3] @ replicate 20 5)"
  using poly1305_standard [of "replicate 32 1" "replicate 16 7" "[[1, 2, 3], replicate 20 5, []]"]
  by simp

end
