(* ===== verification/LS_Aead.thy ===== *)
theory LS_Aead
  imports LS_Chacha20 LS_Poly1305
begin

text \<open>
  \<^verbatim>\<open>src/security/aead.c\<close>: ChaCha20-Poly1305 and XChaCha20-Poly1305. Null pointers other than the
  optional plaintext buffer are refused by the code and have no counterpart here; the length check
  is that of a 64-bit \<^verbatim>\<open>size_t\<close>. The reference is the construction of RFC 8439 over the
  reference definitions of the two primitives.
\<close>

section \<open>The code\<close>

definition poly_pad16 :: "ls_poly1305_context \<Rightarrow> nat \<Rightarrow> ls_poly1305_context" where
  "poly_pad16 c n =
     (let remainder = n mod 16
      in if remainder \<noteq> 0 then ls_poly1305_update c (replicate (16 - remainder) 0) else c)"

definition chacha20_length_overflows :: "nat \<Rightarrow> bool" where
  "chacha20_length_overflows n \<longleftrightarrow> n > 0xffffffff * 64"

definition calculate_tag :: "bytes \<Rightarrow> bytes \<Rightarrow> bytes \<Rightarrow> bytes \<Rightarrow> bytes" where
  "calculate_tag key nonce aad ciphertext =
     (let first_block = ls_chacha20_xor key nonce 0 None 64;
          poly = ls_poly1305_init (replicate 16 0) (take 32 first_block);
          poly = (if aad \<noteq> [] then ls_poly1305_update poly aad else poly);
          poly = poly_pad16 poly (length aad);
          poly = (if ciphertext \<noteq> [] then ls_poly1305_update poly ciphertext else poly);
          poly = poly_pad16 poly (length ciphertext);
          lengths = le64 (of_nat (length aad)) @ le64 (of_nat (length ciphertext))
      in ls_poly1305_finish (ls_poly1305_update poly lengths))"

definition ls_chacha20_poly1305_encrypt ::
  "bytes \<Rightarrow> bytes \<Rightarrow> bytes \<Rightarrow> bytes \<Rightarrow> ls_result + bytes \<times> bytes" where
  "ls_chacha20_poly1305_encrypt key nonce aad plaintext =
     (if chacha20_length_overflows (length plaintext) then Inl LS_EOVERFLOW
      else let ciphertext = (if plaintext \<noteq> [] then ls_chacha20_xor key nonce 1 (Some plaintext) (length plaintext)
                             else [])
           in Inr (ciphertext, calculate_tag key nonce aad ciphertext))"

text \<open>\<open>wanted\<close> says that the caller gave a plaintext buffer; without one only the tag is checked.\<close>

definition ls_chacha20_poly1305_decrypt ::
  "bytes \<Rightarrow> bytes \<Rightarrow> bytes \<Rightarrow> bytes \<Rightarrow> bytes \<Rightarrow> bool \<Rightarrow> ls_result + bytes" where
  "ls_chacha20_poly1305_decrypt key nonce aad ciphertext tag wanted =
     (if chacha20_length_overflows (length ciphertext) then Inl LS_EOVERFLOW
      else if \<not> ls_constant_time_equal (calculate_tag key nonce aad ciphertext) tag then Inl LS_EAUTH
      else Inr (if wanted \<and> ciphertext \<noteq> []
                then ls_chacha20_xor key nonce 1 (Some ciphertext) (length ciphertext) else []))"

definition xchacha_material :: "bytes \<Rightarrow> bytes \<Rightarrow> bytes \<times> bytes" where
  "xchacha_material key nonce =
     (ls_hchacha20 key nonce, replicate 4 0 @ bslice 16 8 nonce)"

definition ls_xchacha20_poly1305_encrypt ::
  "bytes \<Rightarrow> bytes \<Rightarrow> bytes \<Rightarrow> bytes \<Rightarrow> ls_result + bytes \<times> bytes" where
  "ls_xchacha20_poly1305_encrypt key nonce aad plaintext =
     (case xchacha_material key nonce of (subkey, subnonce) \<Rightarrow>
        ls_chacha20_poly1305_encrypt subkey subnonce aad plaintext)"

definition ls_xchacha20_poly1305_decrypt ::
  "bytes \<Rightarrow> bytes \<Rightarrow> bytes \<Rightarrow> bytes \<Rightarrow> bytes \<Rightarrow> bool \<Rightarrow> ls_result + bytes" where
  "ls_xchacha20_poly1305_decrypt key nonce aad ciphertext tag wanted =
     (case xchacha_material key nonce of (subkey, subnonce) \<Rightarrow>
        ls_chacha20_poly1305_decrypt subkey subnonce aad ciphertext tag wanted)"

section \<open>Reference\<close>

definition pad16 :: "bytes \<Rightarrow> bytes" where
  "pad16 x = replicate ((16 - length x mod 16) mod 16) 0"

definition mac_data :: "bytes \<Rightarrow> bytes \<Rightarrow> bytes" where
  "mac_data aad ct =
     aad @ pad16 aad @ ct @ pad16 ct @ le64 (of_nat (length aad)) @ le64 (of_nat (length ct))"

definition aead_tag_ref :: "bytes \<Rightarrow> bytes \<Rightarrow> bytes \<Rightarrow> bytes \<Rightarrow> bytes" where
  "aead_tag_ref key nonce aad ct = poly1305_ref (key_stream key nonce 0 32) (mac_data aad ct)"

definition aead_ref :: "bytes \<Rightarrow> bytes \<Rightarrow> bytes \<Rightarrow> bytes \<Rightarrow> bytes \<times> bytes" where
  "aead_ref key nonce aad plaintext =
     (let ct = map2 (XOR) plaintext (key_stream key nonce 1 (length plaintext))
      in (ct, aead_tag_ref key nonce aad ct))"

section \<open>The tag\<close>

lemma pad16_update:
  "poly_pad16 c (length x) = (if pad16 x \<noteq> [] then ls_poly1305_update c (pad16 x) else c)"
proof -
  have "(16 - length x mod 16) mod 16 = (if length x mod 16 = 0 then 0 else 16 - length x mod 16)"
    by (cases "length x mod 16 = 0") simp_all
  then show ?thesis by (simp add: poly_pad16_def pad16_def Let_def)
qed

lemma update_Nil [simp]: "ls_poly1305_update c [] = c"
  by (simp add: ls_poly1305_update_def)

lemma update_if: "(if x \<noteq> [] then ls_poly1305_update c x else c) = ls_poly1305_update c x"
  by simp

lemma poly_key: "take 32 (ls_chacha20_xor key nonce 0 None 64) = key_stream key nonce 0 32"
proof -
  have "ls_chacha20_xor key nonce 0 None 64 = chacha_block key nonce 0"
    by (subst chacha20_xor_key_stream) (auto simp: key_stream_short intro!: nth_equalityI)
  then show ?thesis by (simp add: key_stream_short)
qed

lemma calculate_tag_ref: "calculate_tag key nonce aad ct = aead_tag_ref key nonce aad ct"
proof -
  let ?c = "ls_poly1305_init (replicate 16 0) (key_stream key nonce 0 32)"
  have "calculate_tag key nonce aad ct = ls_poly1305_finish (foldl ls_poly1305_update ?c
      [aad, pad16 aad, ct, pad16 ct, le64 (of_nat (length aad)) @ le64 (of_nat (length ct))])"
    by (simp add: calculate_tag_def Let_def poly_key pad16_update update_if)
  then show ?thesis by (simp only: poly_updates length_key_stream length_replicate)
    (simp add: aead_tag_ref_def mac_data_def)
qed

lemma length_calculate_tag [simp]: "length (calculate_tag key nonce aad ct) = 16"
  by (simp add: calculate_tag_ref aead_tag_ref_def poly1305_ref_def)

section \<open>Properties\<close>

text \<open>C30: authenticated encryption is the construction of RFC 8439: the ciphertext is the plaintext
  xored with the key stream from counter 1, and the tag is Poly1305, under the first 32 bytes of
  the key stream of counter 0, of the padded associated data and ciphertext and their lengths. The
  only refusal is that of a message too long for the 32-bit block counter.\<close>

theorem aead_encrypt_standard:
  "ls_chacha20_poly1305_encrypt key nonce aad plaintext =
     (if length plaintext > 274877906880 then Inl LS_EOVERFLOW
      else Inr (aead_ref key nonce aad plaintext))"
  by (cases "plaintext = []")
    (simp_all add: ls_chacha20_poly1305_encrypt_def chacha20_length_overflows_def aead_ref_def Let_def
      calculate_tag_ref chacha20_xor_Some)

text \<open>The shape of a successful encryption.\<close>

lemma encrypt_InrD:
  assumes "ls_chacha20_poly1305_encrypt key nonce aad plaintext = Inr (ct, tag)"
  shows "\<not> chacha20_length_overflows (length plaintext)" and "length ct = length plaintext"
    and "tag = calculate_tag key nonce aad ct"
    and "ct \<noteq> [] \<Longrightarrow> ls_chacha20_xor key nonce 1 (Some ct) (length ct) = plaintext"
    and "ct = [] \<Longrightarrow> plaintext = []"
proof -
  let ?x = "ls_chacha20_xor key nonce 1 (Some plaintext) (length plaintext)"
  have *: "\<not> chacha20_length_overflows (length plaintext) \<and> ct = (if plaintext \<noteq> [] then ?x else []) \<and>
      tag = calculate_tag key nonce aad ct"
    using assms by (auto simp: ls_chacha20_poly1305_encrypt_def Let_def split: if_splits)
  then show "\<not> chacha20_length_overflows (length plaintext)" "tag = calculate_tag key nonce aad ct"
    by simp_all
  show len: "length ct = length plaintext" using * by simp
  show "ct \<noteq> [] \<Longrightarrow> ls_chacha20_xor key nonce 1 (Some ct) (length ct) = plaintext"
    using * len chacha20_xor_involution [OF refl, of key nonce 1 plaintext] by (auto split: if_splits)
  show "ct = [] \<Longrightarrow> plaintext = []" using len by simp
qed

lemma chacha20_poly1305_roundtrip:
  assumes "ls_chacha20_poly1305_encrypt key nonce aad plaintext = Inr (ct, tag)" and "length tag' = 16"
  shows "ls_chacha20_poly1305_decrypt key nonce aad ct tag' True =
      (if tag' = tag then Inr plaintext else Inl LS_EAUTH)"
proof -
  note e = encrypt_InrD [OF assms(1)]
  have "ls_constant_time_equal (calculate_tag key nonce aad ct) tag' \<longleftrightarrow> tag' = tag"
    using assms(2) e(3) by (auto simp: constant_time_equal_iff)
  then show ?thesis
    using e(1,2,4,5) by (cases "ct = []") (simp_all add: ls_chacha20_poly1305_decrypt_def)
qed

text \<open>C31: what XChaCha20-Poly1305 encrypts it decrypts to the same plaintext, with the tag it
  produced; with any other 16-byte tag decryption returns \<open>LS_EAUTH\<close> and no byte of plaintext.\<close>

theorem xchacha20_poly1305_roundtrip:
  assumes "ls_xchacha20_poly1305_encrypt key nonce aad plaintext = Inr (ct, tag)" and "length tag' = 16"
  shows "ls_xchacha20_poly1305_decrypt key nonce aad ct tag' True =
      (if tag' = tag then Inr plaintext else Inl LS_EAUTH)"
  using assms chacha20_poly1305_roundtrip
  by (auto simp: ls_xchacha20_poly1305_encrypt_def ls_xchacha20_poly1305_decrypt_def xchacha_material_def)

text \<open>The sealed form of one byte, for the witness.\<close>

definition sealed_example :: "bytes \<times> bytes" where
  "sealed_example =
     aead_ref (ls_hchacha20 (replicate 32 0) (replicate 24 0)) (replicate 4 0 @ replicate 8 0) [] [7]"

theorem xchacha20_poly1305_roundtrip_witness:
  "ls_xchacha20_poly1305_decrypt (replicate 32 0) (replicate 24 0) [] (fst sealed_example)
     (snd sealed_example) True = Inr [7]"
proof -
  have enc: "ls_xchacha20_poly1305_encrypt (replicate 32 0) (replicate 24 0) [] [7] =
      Inr (fst sealed_example, snd sealed_example)"
    by (simp add: ls_xchacha20_poly1305_encrypt_def xchacha_material_def sealed_example_def
        ls_chacha20_poly1305_encrypt_def chacha20_length_overflows_def aead_ref_def Let_def
        calculate_tag_ref chacha20_xor_Some bslice_def)
  have "length (snd sealed_example) = 16"
    by (simp add: sealed_example_def aead_ref_def aead_tag_ref_def poly1305_ref_def Let_def)
  then show ?thesis using xchacha20_poly1305_roundtrip [OF enc] by simp
qed

text \<open>A message the length check lets through never uses a key-stream block twice: the counters
  of its blocks are pairwise different, and none is 0, the counter whose block is the Poly1305 key.
  One byte more and the counter would wrap to 0.\<close>

theorem chacha20_counters_distinct:
  "\<not> chacha20_length_overflows n \<longleftrightarrow>
     distinct (map (\<lambda>j. of_nat j :: u32) [0..<Suc ((n + 63) div 64)])"
proof -
  have inj: "distinct (map (\<lambda>j. of_nat j :: u32) [0..<m]) \<longleftrightarrow> m \<le> 2 ^ 32" for m
  proof
    assume "distinct (map (\<lambda>j. of_nat j :: u32) [0..<m])"
    then have "m = card (set (map (\<lambda>j. of_nat j :: u32) [0..<m]))"
      by (metis diff_zero distinct_card length_map length_upt)
    also have "\<dots> \<le> card (UNIV :: u32 set)" by (intro card_mono) simp_all
    finally show "m \<le> 2 ^ 32" by (simp add: card_word)
  next
    assume "m \<le> 2 ^ 32"
    then show "distinct (map (\<lambda>j. of_nat j :: u32) [0..<m])"
      by (auto simp: distinct_map inj_on_def word_unat_eq_iff unat_of_nat)
  qed
  show ?thesis unfolding inj chacha20_length_overflows_def by simp linarith
qed

end
