(* ===== verification/LS_Security.thy ===== *)
theory LS_Security
  imports LS_Aead LS_Envelope
begin

text \<open>
  The security state of the runtime and the secured envelopes: \<^verbatim>\<open>src/security/provider.c\<close>, the
  second half of \<^verbatim>\<open>src/security/sha256.c\<close> (keys, policy, randomness, replay, verification) and the
  parts of \<^verbatim>\<open>src/envelope/lep.c\<close> that seal, open and visit envelopes. The random source and an
  external crypto provider are code of the port: function pointers that act on a port state of
  their own. The build options \<^verbatim>\<open>LS_REQUIRE_EXTERNAL_CRYPTO_PROVIDER\<close> and
  \<^verbatim>\<open>LS_MIN_CRYPTO_ASSURANCE\<close> are a parameter. Critical sections have no effect in this sequential
  model, and the wiping of local buffers leaves no trace in it.
\<close>

section \<open>State\<close>

datatype ls_crypto_assurance =
    LS_CRYPTO_ASSURANCE_UNSPECIFIED | LS_CRYPTO_ASSURANCE_TEST_ONLY
  | LS_CRYPTO_ASSURANCE_EXTERNAL_REVIEWED | LS_CRYPTO_ASSURANCE_EXTERNAL_AUDITED

fun assurance_code :: "ls_crypto_assurance \<Rightarrow> nat" where
  "assurance_code LS_CRYPTO_ASSURANCE_UNSPECIFIED = 0"
| "assurance_code LS_CRYPTO_ASSURANCE_TEST_ONLY = 1"
| "assurance_code LS_CRYPTO_ASSURANCE_EXTERNAL_REVIEWED = 2"
| "assurance_code LS_CRYPTO_ASSURANCE_EXTERNAL_AUDITED = 3"

record crypto_build =
  LS_REQUIRE_EXTERNAL_CRYPTO_PROVIDER :: bool
  LS_MIN_CRYPTO_ASSURANCE :: ls_crypto_assurance

text \<open>A call of the port returns a result code, the bytes it stored and the new port state. A
  decryption is told whether a plaintext buffer was given.\<close>

record 'p ls_crypto_provider =
  cp_name :: "cstring option"
  cp_version :: "cstring option"
  cp_audit_reference :: "cstring option"
  cp_assurance :: ls_crypto_assurance
  cp_hkdf_sha256 :: "(bytes \<Rightarrow> bytes \<Rightarrow> bytes \<Rightarrow> nat \<Rightarrow> 'p \<Rightarrow> (ls_result \<times> bytes) \<times> 'p) option"
  cp_encrypt :: "(bytes \<Rightarrow> bytes \<Rightarrow> bytes \<Rightarrow> bytes \<Rightarrow> 'p \<Rightarrow> (ls_result \<times> bytes \<times> bytes) \<times> 'p) option"
  cp_decrypt :: "(bytes \<Rightarrow> bytes \<Rightarrow> bytes \<Rightarrow> bytes \<Rightarrow> bytes \<Rightarrow> bool \<Rightarrow> 'p \<Rightarrow> (ls_result \<times> bytes) \<times> 'p) option"

datatype ls_security_algorithm = LS_SECURITY_HMAC_SHA256 | LS_SECURITY_XCHACHA20_POLY1305

record ls_security_policy =
  sp_algorithm :: ls_security_algorithm
  sp_key_id :: u32
  sp_reject_plaintext :: bool
  sp_allow_legacy_hmac :: bool

text \<open>The fields of \<^verbatim>\<open>ls_runtime\<close> used here; \<open>crypto_provider\<close> is \<open>None\<close> without
  \<^verbatim>\<open>has_crypto_provider\<close>, \<open>last_sequence\<close> is the field of the persistent boot record, and
  \<open>port\<close> is the state behind the context pointers of the port.\<close>

record 'p ls_security =
  security_key :: bytes
  security_key_length :: nat
  security_policy :: ls_security_policy
  crypto_random :: "(nat \<Rightarrow> 'p \<Rightarrow> (ls_result \<times> bytes) \<times> 'p) option"
  crypto_provider :: "'p ls_crypto_provider option"
  last_envelope_nonce :: bytes
  has_last_envelope_nonce :: bool
  replay_highest :: u32
  replay_bitmap :: u64
  last_sequence :: u32
  port :: 'p

definition LS_SECURITY_KEY_SIZE :: nat where "LS_SECURITY_KEY_SIZE = 32"
definition LS_XCHACHA20_NONCE_SIZE :: nat where "LS_XCHACHA20_NONCE_SIZE = 24"

section \<open>The crypto provider\<close>

definition assurance_meets_policy :: "crypto_build \<Rightarrow> ls_crypto_assurance \<Rightarrow> bool" where
  "assurance_meets_policy b assurance \<longleftrightarrow>
     (if LS_REQUIRE_EXTERNAL_CRYPTO_PROVIDER b
      then assurance_code assurance \<ge> assurance_code (LS_MIN_CRYPTO_ASSURANCE b) else True)"

definition bytes_equal :: "bytes \<Rightarrow> bytes \<Rightarrow> nat \<Rightarrow> bool" where
  "bytes_equal a b n \<longleftrightarrow> foldl (\<lambda>diff i. diff OR (a ! i XOR b ! i)) 0 [0..<n] = 0"

definition kat_hkdf_expected :: bytes where
  "kat_hkdf_expected =
    [0x3a, 0x86, 0xcb, 0x5c, 0x29, 0xf9, 0x3d, 0x75, 0xc0, 0x47, 0x72, 0x15, 0x44, 0x3d,
     0x0f, 0x87, 0x50, 0x4b, 0x49, 0x3c, 0x92, 0x6f, 0xa3, 0x7c, 0xb0, 0xa3, 0x16, 0x7c,
     0xee, 0xbf, 0x28, 0xef, 0x0a, 0xe4, 0x39, 0x67, 0x1b, 0xc2, 0xe0, 0xe2, 0x4b, 0xa2]"

definition kat_ciphertext_expected :: bytes where
  "kat_ciphertext_expected =
    [0xfd, 0xad, 0x62, 0x12, 0xf5, 0xa0, 0xee, 0xc7, 0x52, 0x28, 0x0b, 0xaf, 0xbe, 0x24]"

definition kat_tag_expected :: bytes where
  "kat_tag_expected =
    [0x1a, 0x9c, 0x63, 0xdf, 0xbc, 0xbe, 0xea, 0x1e, 0x45, 0x8a, 0x47, 0x90, 0xd7, 0xb5, 0x9d, 0xf1]"

text \<open>\<^verbatim>\<open>"Latch provider KAT"\<close>, \<^verbatim>\<open>"commercial-auv"\<close>, \<^verbatim>\<open>"Latch HKDF KAT"\<close> and the label of the
  envelope keys, as bytes.\<close>

definition text_bytes :: "string \<Rightarrow> bytes" where
  "text_bytes t = map (\<lambda>c. of_nat (of_char c)) t"

definition count_from :: "nat \<Rightarrow> nat \<Rightarrow> bytes" where
  "count_from start n = map (\<lambda>i. of_nat (i + start)) [0..<n]"

definition provider_known_answer_test :: "'p ls_crypto_provider \<Rightarrow> 'p \<Rightarrow> ls_result \<times> 'p" where
  "provider_known_answer_test provider p =
     (let aad = text_bytes ''Latch provider KAT''; plaintext = text_bytes ''commercial-auv'';
          key = count_from 0 32; nonce = count_from 0 24
      in case the (cp_hkdf_sha256 provider) (count_from 0 13) (count_from 32 32)
                (text_bytes ''Latch HKDF KAT'') 42 p of
           ((r, hkdf), p) \<Rightarrow>
             if r \<noteq> LS_OK \<or> \<not> bytes_equal hkdf kat_hkdf_expected 42 then (LS_EAUTH, p)
             else case the (cp_encrypt provider) key nonce aad plaintext p of
                    ((r, ciphertext, tag), p) \<Rightarrow>
                      if r \<noteq> LS_OK \<or> \<not> bytes_equal ciphertext kat_ciphertext_expected 14 \<or>
                         \<not> bytes_equal tag kat_tag_expected 16
                      then (LS_EAUTH, p)
                      else case the (cp_decrypt provider) key nonce aad ciphertext tag True p of
                             ((r, recovered), p) \<Rightarrow>
                               if r \<noteq> LS_OK \<or> \<not> bytes_equal recovered plaintext 14 then (LS_EAUTH, p)
                               else case the (cp_decrypt provider) key nonce aad ciphertext
                                           (tag[0 := tag ! 0 XOR 1]) True p of
                                      ((r, recovered), p) \<Rightarrow>
                                        (if r = LS_EAUTH then LS_OK else LS_EAUTH, p))"

definition empty_text :: "cstring option \<Rightarrow> bool" where
  "empty_text t \<longleftrightarrow> t = None \<or> t = Some []"

definition ls_security_set_crypto_provider ::
  "crypto_build \<Rightarrow> 'p ls_crypto_provider option \<Rightarrow> 'p ls_security \<Rightarrow> ls_result \<times> 'p ls_security" where
  "ls_security_set_crypto_provider b provider s =
     (case provider of None \<Rightarrow> (LS_EINVAL, s)
      | Some pr \<Rightarrow>
          if empty_text (cp_name pr) \<or> empty_text (cp_version pr) \<or> empty_text (cp_audit_reference pr) \<or>
             cp_hkdf_sha256 pr = None \<or> cp_encrypt pr = None \<or> cp_decrypt pr = None
          then (LS_EINVAL, s)
          else if \<not> assurance_meets_policy b (cp_assurance pr) then (LS_EAUTH, s)
          else case provider_known_answer_test pr (port s) of
                 (kat, p) \<Rightarrow>
                   if kat \<noteq> LS_OK then (kat, s\<lparr>port := p\<rparr>)
                   else (LS_OK, s\<lparr>port := p, crypto_provider := Some pr\<rparr>))"

definition ls_security_clear_crypto_provider :: "'p ls_security \<Rightarrow> 'p ls_security" where
  "ls_security_clear_crypto_provider s = s\<lparr>crypto_provider := None\<rparr>"

definition ls_security_crypto_provider_assurance :: "'p ls_security \<Rightarrow> ls_crypto_assurance" where
  "ls_security_crypto_provider_assurance s =
     (case crypto_provider s of None \<Rightarrow> LS_CRYPTO_ASSURANCE_TEST_ONLY | Some pr \<Rightarrow> cp_assurance pr)"

definition ls_security_crypto_provider_ready :: "crypto_build \<Rightarrow> 'p ls_security \<Rightarrow> bool" where
  "ls_security_crypto_provider_ready b s \<longleftrightarrow>
     (if LS_REQUIRE_EXTERNAL_CRYPTO_PROVIDER b
      then (case crypto_provider s of None \<Rightarrow> False | Some pr \<Rightarrow> assurance_meets_policy b (cp_assurance pr))
      else True)"

definition require_provider_if_configured :: "crypto_build \<Rightarrow> 'p ls_security \<Rightarrow> ls_result" where
  "require_provider_if_configured b s =
     (if ls_security_crypto_provider_ready b s then LS_OK else LS_EAUTH)"

definition ls_crypto_hkdf_sha256 ::
  "crypto_build \<Rightarrow> bytes \<Rightarrow> bytes \<Rightarrow> bytes \<Rightarrow> nat \<Rightarrow> 'p ls_security \<Rightarrow>
     (ls_result + bytes) \<times> 'p ls_security" where
  "ls_crypto_hkdf_sha256 b salt ikm info n s =
     (let gate = require_provider_if_configured b s
      in if gate \<noteq> LS_OK then (Inl gate, s)
         else case crypto_provider s of
                Some pr \<Rightarrow> (case the (cp_hkdf_sha256 pr) salt ikm info n (port s) of
                              ((r, out), p) \<Rightarrow> (if r = LS_OK then Inr out else Inl r, s\<lparr>port := p\<rparr>))
              | None \<Rightarrow> (ls_hkdf_sha256 salt ikm info n, s))"

definition ls_crypto_xchacha20_poly1305_encrypt ::
  "crypto_build \<Rightarrow> bytes \<Rightarrow> bytes \<Rightarrow> bytes \<Rightarrow> bytes \<Rightarrow> 'p ls_security \<Rightarrow>
     (ls_result + bytes \<times> bytes) \<times> 'p ls_security" where
  "ls_crypto_xchacha20_poly1305_encrypt b key nonce aad plaintext s =
     (let gate = require_provider_if_configured b s
      in if gate \<noteq> LS_OK then (Inl gate, s)
         else case crypto_provider s of
                Some pr \<Rightarrow> (case the (cp_encrypt pr) key nonce aad plaintext (port s) of
                              ((r, out), p) \<Rightarrow> (if r = LS_OK then Inr out else Inl r, s\<lparr>port := p\<rparr>))
              | None \<Rightarrow> (ls_xchacha20_poly1305_encrypt key nonce aad plaintext, s))"

definition ls_crypto_xchacha20_poly1305_decrypt ::
  "crypto_build \<Rightarrow> bytes \<Rightarrow> bytes \<Rightarrow> bytes \<Rightarrow> bytes \<Rightarrow> bytes \<Rightarrow> bool \<Rightarrow> 'p ls_security \<Rightarrow>
     (ls_result + bytes) \<times> 'p ls_security" where
  "ls_crypto_xchacha20_poly1305_decrypt b key nonce aad ciphertext tag wanted s =
     (let gate = require_provider_if_configured b s
      in if gate \<noteq> LS_OK then (Inl gate, s)
         else case crypto_provider s of
                Some pr \<Rightarrow> (case the (cp_decrypt pr) key nonce aad ciphertext tag wanted (port s) of
                              ((r, out), p) \<Rightarrow> (if r = LS_OK then Inr out else Inl r, s\<lparr>port := p\<rparr>))
              | None \<Rightarrow> (ls_xchacha20_poly1305_decrypt key nonce aad ciphertext tag wanted, s))"

section \<open>Keys, policy, randomness, replay\<close>

text \<open>A null key is \<open>None\<close>.\<close>

definition ls_security_set_key :: "bytes option \<Rightarrow> 'p ls_security \<Rightarrow> ls_result \<times> 'p ls_security" where
  "ls_security_set_key key s =
     (case key of None \<Rightarrow> (LS_EINVAL, s)
      | Some k \<Rightarrow>
          if length k \<noteq> LS_SECURITY_KEY_SIZE then (LS_EINVAL, s)
          else (LS_OK, s\<lparr>security_key := overwrite 0 k (replicate LS_SECURITY_KEY_SIZE 0),
                         security_key_length := length k,
                         last_envelope_nonce := replicate LS_XCHACHA20_NONCE_SIZE 0,
                         has_last_envelope_nonce := False\<rparr>))"

definition ls_security_clear_key :: "'p ls_security \<Rightarrow> 'p ls_security" where
  "ls_security_clear_key s =
     s\<lparr>security_key := replicate LS_SECURITY_KEY_SIZE 0, security_key_length := 0,
       last_envelope_nonce := replicate LS_XCHACHA20_NONCE_SIZE 0, has_last_envelope_nonce := False\<rparr>"

definition ls_security_enabled :: "'p ls_security \<Rightarrow> bool" where
  "ls_security_enabled s \<longleftrightarrow> security_key_length s \<noteq> 0"

definition ls_security_set_policy ::
  "crypto_build \<Rightarrow> ls_security_policy option \<Rightarrow> 'p ls_security \<Rightarrow> ls_result \<times> 'p ls_security" where
  "ls_security_set_policy b policy s =
     (case policy of None \<Rightarrow> (LS_EINVAL, s)
      | Some pl \<Rightarrow>
          if LS_REQUIRE_EXTERNAL_CRYPTO_PROVIDER b \<and> sp_algorithm pl = LS_SECURITY_HMAC_SHA256
          then (LS_ENOTSUP, s)
          else if sp_key_id pl = 0 \<or>
                  (sp_algorithm pl = LS_SECURITY_HMAC_SHA256 \<and> \<not> sp_allow_legacy_hmac pl)
          then (LS_EINVAL, s)
          else (LS_OK, s\<lparr>security_policy := pl\<rparr>))"

definition ls_security_set_random_provider ::
  "(nat \<Rightarrow> 'p \<Rightarrow> (ls_result \<times> bytes) \<times> 'p) option \<Rightarrow> 'p ls_security \<Rightarrow> 'p ls_security" where
  "ls_security_set_random_provider random s = s\<lparr>crypto_random := random\<rparr>"

definition ls_security_random :: "nat \<Rightarrow> 'p ls_security \<Rightarrow> (ls_result + bytes) \<times> 'p ls_security" where
  "ls_security_random n s =
     (case crypto_random s of None \<Rightarrow> (Inl LS_ENOTSUP, s)
      | Some random \<Rightarrow>
          (case random n (port s) of
             ((r, out), p) \<Rightarrow> (if r = LS_OK then Inr out else Inl r, s\<lparr>port := p\<rparr>)))"

definition ls_replay_accept :: "u32 \<Rightarrow> 'p ls_security \<Rightarrow> bool \<times> 'p ls_security" where
  "ls_replay_accept sequence s =
     (let replay = \<lparr>highest_sequence = replay_highest s, seen_sequences = replay_bitmap s,
                    replay_initialized = (replay_bitmap s \<noteq> 0)\<rparr>
      in case ls_envelope_replay_accept replay sequence of
           (accepted, r) \<Rightarrow>
             (accepted, s\<lparr>replay_highest := highest_sequence r, replay_bitmap := seen_sequences r\<rparr>))"

section \<open>Sealing an envelope\<close>

definition envelope_label :: bytes where
  "envelope_label = text_bytes ''laststate/latch/envelope/v1''"

definition envelope_salt :: "u32 \<Rightarrow> u32 \<Rightarrow> u32 \<Rightarrow> bytes" where
  "envelope_salt key_id sequence event_id = le32 key_id @ le32 sequence @ le32 event_id"

text \<open>The branch for authenticated encryption: \<open>header\<close> is in the output buffer, \<open>payload\<close> is the
  plaintext.\<close>

definition seal_aead ::
  "crypto_build \<Rightarrow> bytes \<Rightarrow> u32 \<Rightarrow> u32 \<Rightarrow> bytes \<Rightarrow> 'p ls_security \<Rightarrow> (ls_result + bytes) \<times> 'p ls_security" where
  "seal_aead b header sequence event_id payload s =
     (case ls_security_random LS_XCHACHA20_NONCE_SIZE s of
        (Inl r, s1) \<Rightarrow> (Inl r, s1)
      | (Inr nonce, s1) \<Rightarrow>
          if has_last_envelope_nonce s1 \<and> ls_constant_time_equal nonce (last_envelope_nonce s1)
          then (Inl LS_EAUTH, s1)
          else let key_id = sp_key_id (security_policy s1);
                   metadata = nonce @ le32 key_id
               in case ls_crypto_hkdf_sha256 b (envelope_salt key_id sequence event_id)
                         (take (security_key_length s1) (security_key s1)) envelope_label 32 s1 of
                    (Inl r, s2) \<Rightarrow> (Inl r, s2)
                  | (Inr derived, s2) \<Rightarrow>
                      (case ls_crypto_xchacha20_poly1305_encrypt b derived nonce (header @ metadata)
                              payload s2 of
                         (Inl r, s3) \<Rightarrow> (Inl r, s3)
                       | (Inr (ciphertext, tag), s3) \<Rightarrow>
                           (Inr (header @ metadata @ ciphertext @
                                 le32 (ls_crc32 (metadata @ ciphertext)) @ tag),
                            s3\<lparr>last_envelope_nonce := nonce, has_last_envelope_nonce := True\<rparr>)))"

text \<open>\<open>put_payload\<close> is the encoder of the payload (identity, event, context and details): given the
  room for it, it returns a result code, the bytes written and whether something was left out.
  \<open>build\<close> is the build identifier, \<open>type\<close> and \<open>architecture\<close> are bytes of the event.\<close>

definition ls_envelope_encode ::
  "crypto_build \<Rightarrow> (nat \<Rightarrow> ls_result \<times> bytes \<times> bool) \<Rightarrow> cstring option \<Rightarrow> u8 \<Rightarrow> u8 \<Rightarrow> nat \<Rightarrow> u32 \<Rightarrow>
     'p ls_security \<Rightarrow> (ls_result + bytes) \<times> 'p ls_security" where
  "ls_envelope_encode b put_payload build type architecture capacity sequence s =
     (let secured = security_key_length s \<noteq> 0;
          aead = (secured \<and> sp_algorithm (security_policy s) = LS_SECURITY_XCHACHA20_POLY1305);
          metadata_size = (if aead then LS_ENVELOPE_SECURITY_METADATA_SIZE else 0);
          authentication_size = (if secured then if aead then LS_AEAD_TAG_SIZE else LS_HMAC_SHA256_SIZE else 0)
      in if capacity < LS_LEP_HEADER_SIZE + metadata_size + 4 + authentication_size then (Inl LS_EINVAL, s)
         else case put_payload (capacity - LS_LEP_HEADER_SIZE - metadata_size - 4 - authentication_size) of
                (result, payload, truncated) \<Rightarrow>
                  if result \<noteq> LS_OK then (Inl result, s)
                  else if length payload > UINT32_MAX then (Inl LS_EOVERFLOW, s)
                  else let event_id = ls_crc32 payload XOR sequence XOR ls_hash_string build;
                           flags = (if secured then LS_ENVELOPE_AUTHENTICATED else 0);
                           flags = (if aead then flags OR (LS_ENVELOPE_ENCRYPTED OR LS_ENVELOPE_AEAD) else flags);
                           flags = (if truncated then flags OR LS_ENVELOPE_TRUNCATED else flags);
                           header = lep_write_header type architecture flags sequence event_id
                                      (of_nat (length payload))
                       in case (if aead then seal_aead b header sequence event_id payload s
                                else let body = header @ payload @ le32 (ls_crc32 payload)
                                     in (Inr (if authentication_size \<noteq> 0
                                              then body @ ls_hmac_sha256 (take (security_key_length s) (security_key s)) body
                                              else body), s)) of
                            (Inl r, s1) \<Rightarrow> (Inl r, s1)
                          | (Inr out, s1) \<Rightarrow> (Inr out, s1\<lparr>last_sequence := sequence\<rparr>))"

section \<open>Opening and visiting\<close>

text \<open>\<open>wanted\<close> says that a plaintext buffer of \<open>capacity\<close> bytes was given. The result is the
  plaintext length and what was stored in the buffer.\<close>

definition ls_envelope_decrypt_payload ::
  "crypto_build \<Rightarrow> bytes \<Rightarrow> bool \<Rightarrow> nat \<Rightarrow> 'p ls_security \<Rightarrow> (ls_result + nat \<times> bytes) \<times> 'p ls_security" where
  "ls_envelope_decrypt_payload b data wanted capacity s =
     (case ls_envelope_validate data of
        Inl r \<Rightarrow> (Inl r, s)
      | Inr info \<Rightarrow>
          if ei_flags info AND LS_ENVELOPE_ENCRYPTED = 0 \<or> ei_flags info AND LS_ENVELOPE_AEAD = 0 \<or>
             security_key_length s = 0
          then (Inl LS_EAUTH, s)
          else if wanted \<and> capacity < unat (ei_payload_length info) then (Inl LS_ENOSPACE, s)
          else if \<not> wanted \<and> capacity \<noteq> 0 then (Inl LS_EINVAL, s)
          else let payload_length = unat (ei_payload_length info);
                   nonce = bslice LS_LEP_HEADER_SIZE 24 data;
                   key_id = read_u32 data (LS_LEP_HEADER_SIZE + 24)
               in if key_id \<noteq> sp_key_id (security_policy s) then (Inl LS_EAUTH, s)
                  else case ls_crypto_hkdf_sha256 b (envelope_salt key_id (ei_sequence info) (ei_event_id info))
                              (take (security_key_length s) (security_key s)) envelope_label 32 s of
                         (Inl r, s1) \<Rightarrow> (Inl r, s1)
                       | (Inr derived, s1) \<Rightarrow>
                           let start = LS_LEP_HEADER_SIZE + LS_ENVELOPE_SECURITY_METADATA_SIZE
                           in case ls_crypto_xchacha20_poly1305_decrypt b derived nonce (bslice 0 start data)
                                     (bslice start payload_length data)
                                     (bslice (start + payload_length + 4) LS_AEAD_TAG_SIZE data) wanted s1 of
                                (Inl r, s2) \<Rightarrow> (Inl r, s2)
                              | (Inr plaintext, s2) \<Rightarrow> (Inr (payload_length, plaintext), s2))"

definition ls_envelope_verify_auth :: "crypto_build \<Rightarrow> bytes \<Rightarrow> 'p ls_security \<Rightarrow> ls_result \<times> 'p ls_security" where
  "ls_envelope_verify_auth b data s =
     (case ls_envelope_validate data of
        Inl r \<Rightarrow> (r, s)
      | Inr info \<Rightarrow>
          if ei_flags info AND LS_ENVELOPE_AUTHENTICATED = 0 \<or> security_key_length s = 0 then (LS_EAUTH, s)
          else if ei_flags info AND LS_ENVELOPE_AEAD \<noteq> 0
          then (case ls_envelope_decrypt_payload b data False 0 s of
                  (Inl r, s1) \<Rightarrow> (r, s1) | (Inr _, s1) \<Rightarrow> (LS_OK, s1))
          else if \<not> sp_allow_legacy_hmac (security_policy s) then (LS_EAUTH, s)
          else let n = length data - LS_HMAC_SHA256_SIZE;
                   expected = ls_hmac_sha256 (take (security_key_length s) (security_key s)) (take n data)
               in (if ls_constant_time_equal expected (drop n data) then LS_OK else LS_EAUTH, s))"

text \<open>The visitors. The workspace is a buffer of \<open>workspace_size\<close> bytes (not null); the visitor acts
  on a context of its own.\<close>

definition ls_envelope_visit_secure ::
  "crypto_build \<Rightarrow> bytes \<Rightarrow> nat \<Rightarrow> ('c \<Rightarrow> u16 \<Rightarrow> bytes \<Rightarrow> ls_result \<times> 'c) option \<Rightarrow> 'c \<Rightarrow>
     'p ls_security \<Rightarrow> (ls_result \<times> 'c) \<times> 'p ls_security" where
  "ls_envelope_visit_secure b data workspace_size visitor context s =
     (case ls_envelope_validate data of
        Inl r \<Rightarrow> ((r, context), s)
      | Inr info \<Rightarrow>
          if ei_flags info AND LS_ENVELOPE_ENCRYPTED = 0
          then let payload = bslice LS_LEP_HEADER_SIZE (unat (ei_payload_length info)) data
               in if ei_flags info AND LS_ENVELOPE_AUTHENTICATED \<noteq> 0
                  then (case ls_envelope_verify_auth b data s of
                          (r, s1) \<Rightarrow> if r \<noteq> LS_OK then ((r, context), s1)
                                     else (visit_payload payload visitor context, s1))
                  else if ls_security_enabled s \<and> sp_reject_plaintext (security_policy s)
                  then ((LS_EAUTH, context), s)
                  else (visit_payload payload visitor context, s)
          else case ls_envelope_decrypt_payload b data True workspace_size s of
                 (Inl r, s1) \<Rightarrow> ((r, context), s1)
               | (Inr (_, plaintext), s1) \<Rightarrow> (visit_payload plaintext visitor context, s1))"

definition ls_envelope_visit_secure_replay ::
  "crypto_build \<Rightarrow> bytes \<Rightarrow> nat \<Rightarrow> ('c \<Rightarrow> u16 \<Rightarrow> bytes \<Rightarrow> ls_result \<times> 'c) option \<Rightarrow> 'c \<Rightarrow>
     ls_envelope_replay \<Rightarrow> 'p ls_security \<Rightarrow> (ls_result \<times> 'c) \<times> ls_envelope_replay \<times> 'p ls_security" where
  "ls_envelope_visit_secure_replay b data workspace_size visitor context replay s =
     (case ls_envelope_validate data of
        Inl r \<Rightarrow> ((r, context), replay, s)
      | Inr info \<Rightarrow>
          if ei_flags info AND LS_ENVELOPE_ENCRYPTED = 0
          then let payload = bslice LS_LEP_HEADER_SIZE (unat (ei_payload_length info)) data
               in if ei_flags info AND LS_ENVELOPE_AUTHENTICATED \<noteq> 0
                  then (case ls_envelope_verify_auth b data s of
                          (r, s1) \<Rightarrow>
                            if r \<noteq> LS_OK then ((r, context), replay, s1)
                            else case ls_envelope_replay_accept replay (ei_sequence info) of
                                   (accepted, replay1) \<Rightarrow>
                                     if \<not> accepted then ((LS_EAUTH, context), replay1, s1)
                                     else (visit_payload payload visitor context, replay1, s1))
                  else if ls_security_enabled s \<and> sp_reject_plaintext (security_policy s)
                  then ((LS_EAUTH, context), replay, s)
                  else (visit_payload payload visitor context, replay, s)
          else case ls_envelope_decrypt_payload b data True workspace_size s of
                 (Inl r, s1) \<Rightarrow> ((r, context), replay, s1)
               | (Inr (_, plaintext), s1) \<Rightarrow>
                   if validate_payload plaintext \<noteq> LS_OK
                   then ((validate_payload plaintext, context), replay, s1)
                   else case ls_envelope_replay_accept replay (ei_sequence info) of
                          (accepted, replay1) \<Rightarrow>
                            if \<not> accepted then ((LS_EAUTH, context), replay1, s1)
                            else (visit_payload plaintext visitor context, replay1, s1))"

section \<open>Well-formed security state\<close>

text \<open>The arrays have their sizes, a key is absent (and then wiped) or complete, and the policy is
  one that \<open>ls_security_set_policy\<close> lets through.\<close>

definition policy_ok :: "ls_security_policy \<Rightarrow> bool" where
  "policy_ok pl \<longleftrightarrow> sp_key_id pl \<noteq> 0 \<and> (sp_algorithm pl = LS_SECURITY_HMAC_SHA256 \<longrightarrow> sp_allow_legacy_hmac pl)"

text \<open>What the port promises of a random source: a successful call fills the buffer.\<close>

definition random_fills :: "(nat \<Rightarrow> 'p \<Rightarrow> (ls_result \<times> bytes) \<times> 'p) \<Rightarrow> bool" where
  "random_fills random \<longleftrightarrow> (\<forall>n p out p'. random n p = ((LS_OK, out), p') \<longrightarrow> length out = n)"

definition security_ok :: "'p ls_security \<Rightarrow> bool" where
  "security_ok s \<longleftrightarrow>
     length (security_key s) = 32 \<and> length (last_envelope_nonce s) = 24 \<and>
     (security_key_length s = 32 \<or> security_key_length s = 0 \<and> security_key s = replicate 32 0) \<and>
     policy_ok (security_policy s) \<and> pred_option random_fills (crypto_random s) \<and>
     pred_option (\<lambda>pr. cp_hkdf_sha256 pr \<noteq> None \<and> cp_encrypt pr \<noteq> None \<and> cp_decrypt pr \<noteq> None)
       (crypto_provider s)"

lemmas security_sizes = LS_SECURITY_KEY_SIZE_def LS_XCHACHA20_NONCE_SIZE_def

lemma security_ok_port [simp]: "security_ok (s\<lparr>port := p\<rparr>) = security_ok s"
  by (simp add: security_ok_def)

lemma security_ok_last_sequence [simp]: "security_ok (s\<lparr>last_sequence := q\<rparr>) = security_ok s"
  by (simp add: security_ok_def)

text \<open>Steps that change nothing but the state of the port.\<close>

definition port_only :: "'p ls_security \<Rightarrow> 'p ls_security \<Rightarrow> bool" where
  "port_only s s' \<longleftrightarrow> s' = s\<lparr>port := port s'\<rparr>"

lemma port_only_refl [simp]: "port_only s s"
  by (simp add: port_only_def)

lemma port_only_update [simp]: "port_only s (s\<lparr>port := p\<rparr>)"
  by (simp add: port_only_def)

lemma port_only_trans: "port_only s t \<Longrightarrow> port_only t u \<Longrightarrow> port_only s u"
  unfolding port_only_def by (metis ls_security.surjective ls_security.update_convs(11))

lemma port_only_fields:
  assumes "port_only s s'"
  shows "security_key s' = security_key s" "security_key_length s' = security_key_length s"
    "security_policy s' = security_policy s" "crypto_random s' = crypto_random s"
    "crypto_provider s' = crypto_provider s" "last_envelope_nonce s' = last_envelope_nonce s"
    "has_last_envelope_nonce s' = has_last_envelope_nonce s" "security_ok s' = security_ok s"
  using assms unfolding port_only_def
  by (metis ls_security.ext_inject ls_security.surjective ls_security.update_convs(11) security_ok_port)+

lemma random_frame: "ls_security_random n s = (r, s') \<Longrightarrow> port_only s s'"
  by (auto simp: ls_security_random_def split: option.splits prod.splits if_splits)

lemma random_length:
  "security_ok s \<Longrightarrow> ls_security_random n s = (Inr out, s') \<Longrightarrow> length out = n"
  by (auto simp: ls_security_random_def security_ok_def random_fills_def
      split: option.splits prod.splits if_splits)

lemma hkdf_frame: "ls_crypto_hkdf_sha256 b salt ikm info n s = (r, s') \<Longrightarrow> port_only s s'"
  by (auto simp: ls_crypto_hkdf_sha256_def Let_def split: option.splits prod.splits if_splits)

lemma encrypt_frame:
  "ls_crypto_xchacha20_poly1305_encrypt b key nonce aad pt s = (r, s') \<Longrightarrow> port_only s s'"
  by (auto simp: ls_crypto_xchacha20_poly1305_encrypt_def Let_def split: option.splits prod.splits if_splits)

lemma decrypt_frame:
  "ls_crypto_xchacha20_poly1305_decrypt b key nonce aad ct tag wanted s = (r, s') \<Longrightarrow> port_only s s'"
  by (auto simp: ls_crypto_xchacha20_poly1305_decrypt_def Let_def split: option.splits prod.splits if_splits)

lemma decrypt_payload_frame:
  "ls_envelope_decrypt_payload b data wanted capacity s = (r, s') \<Longrightarrow> port_only s s'"
  by (auto simp: ls_envelope_decrypt_payload_def Let_def split: prod.splits sum.splits if_splits
      dest!: hkdf_frame decrypt_frame intro: port_only_trans)

text \<open>A successful seal, step by step.\<close>

lemma seal_aeadE:
  assumes "seal_aead b header sequence event_id payload s = (Inr out, s')"
  obtains nonce s1 derived s2 ciphertext tag s3 where
    "ls_security_random LS_XCHACHA20_NONCE_SIZE s = (Inr nonce, s1)"
    "\<not> (has_last_envelope_nonce s1 \<and> ls_constant_time_equal nonce (last_envelope_nonce s1))"
    "ls_crypto_hkdf_sha256 b (envelope_salt (sp_key_id (security_policy s1)) sequence event_id)
       (take (security_key_length s1) (security_key s1)) envelope_label 32 s1 = (Inr derived, s2)"
    "ls_crypto_xchacha20_poly1305_encrypt b derived nonce
       (header @ nonce @ le32 (sp_key_id (security_policy s1))) payload s2 = (Inr (ciphertext, tag), s3)"
    "out = header @ nonce @ le32 (sp_key_id (security_policy s1)) @ ciphertext @
       le32 (ls_crc32 (nonce @ le32 (sp_key_id (security_policy s1)) @ ciphertext)) @ tag"
    "s' = s3\<lparr>last_envelope_nonce := nonce, has_last_envelope_nonce := True\<rparr>"
  using assms
  by (auto simp: seal_aead_def Let_def split: prod.splits sum.splits if_splits)

text \<open>No branch of a seal changes more than the port state and the remembered nonce.\<close>

lemma seal_aead_ok:
  assumes "seal_aead b header sequence event_id payload s = (r, s')" and "security_ok s"
  shows "security_ok s'"
proof (cases r)
  case (Inl e)
  then have "port_only s s'"
    using assms(1)
    by (auto simp: seal_aead_def Let_def split: prod.splits sum.splits if_splits
        dest!: random_frame hkdf_frame encrypt_frame intro: port_only_trans)
  then show ?thesis using assms(2) by (simp add: port_only_fields)
next
  case (Inr out)
  obtain nonce s1 derived s2 ct tag s3 where
    rnd: "ls_security_random LS_XCHACHA20_NONCE_SIZE s = (Inr nonce, s1)"
    and hk: "ls_crypto_hkdf_sha256 b (envelope_salt (sp_key_id (security_policy s1)) sequence event_id)
       (take (security_key_length s1) (security_key s1)) envelope_label 32 s1 = (Inr derived, s2)"
    and en: "ls_crypto_xchacha20_poly1305_encrypt b derived nonce
       (header @ nonce @ le32 (sp_key_id (security_policy s1))) payload s2 = (Inr (ct, tag), s3)"
    and s': "s' = s3\<lparr>last_envelope_nonce := nonce, has_last_envelope_nonce := True\<rparr>"
    using assms(1) Inr by (blast elim: seal_aeadE)
  have "port_only s s3"
    using random_frame [OF rnd] hkdf_frame [OF hk] encrypt_frame [OF en] by (blast intro: port_only_trans)
  moreover have "length nonce = 24" using random_length [OF assms(2) rnd] by (simp add: security_sizes)
  ultimately show ?thesis
    using assms(2) port_only_fields(8) [of s s3] by (simp add: s' security_ok_def)
qed

lemma encode_ok:
  assumes "ls_envelope_encode b put build type arch capacity sequence s = (r, s')" and "security_ok s"
  shows "security_ok s'"
  using assms seal_aead_ok
  by (auto simp: ls_envelope_encode_def Let_def split: prod.splits sum.splits if_splits)

section \<open>Reachable states\<close>

text \<open>The state \<open>ls_init\<close> leaves, and every operation that changes it. An installed random source
  keeps the promise above.\<close>

definition security_init :: "'p \<Rightarrow> 'p ls_security" where
  "security_init p =
     \<lparr>security_key = replicate 32 0, security_key_length = 0,
      security_policy = \<lparr>sp_algorithm = LS_SECURITY_XCHACHA20_POLY1305, sp_key_id = 1,
        sp_reject_plaintext = True, sp_allow_legacy_hmac = False\<rparr>,
      crypto_random = None, crypto_provider = None, last_envelope_nonce = replicate 24 0,
      has_last_envelope_nonce = False, replay_highest = 0, replay_bitmap = 0, last_sequence = 0, port = p\<rparr>"

inductive security_reachable :: "crypto_build \<Rightarrow> 'p ls_security \<Rightarrow> bool" for b where
  init: "security_reachable b (security_init p)"
| set_key: "security_reachable b s \<Longrightarrow> ls_security_set_key key s = (r, s') \<Longrightarrow> security_reachable b s'"
| clear_key: "security_reachable b s \<Longrightarrow> security_reachable b (ls_security_clear_key s)"
| set_policy: "security_reachable b s \<Longrightarrow> ls_security_set_policy b policy s = (r, s') \<Longrightarrow>
    security_reachable b s'"
| set_random: "security_reachable b s \<Longrightarrow> pred_option random_fills random \<Longrightarrow>
    security_reachable b (ls_security_set_random_provider random s)"
| random: "security_reachable b s \<Longrightarrow> ls_security_random n s = (out, s') \<Longrightarrow> security_reachable b s'"
| set_provider: "security_reachable b s \<Longrightarrow> ls_security_set_crypto_provider b provider s = (r, s') \<Longrightarrow>
    security_reachable b s'"
| clear_provider: "security_reachable b s \<Longrightarrow> security_reachable b (ls_security_clear_crypto_provider s)"
| replay: "security_reachable b s \<Longrightarrow> ls_replay_accept sequence s = (a, s') \<Longrightarrow> security_reachable b s'"
| encode: "security_reachable b s \<Longrightarrow>
    ls_envelope_encode b put build type arch capacity sequence s = (out, s') \<Longrightarrow> security_reachable b s'"
| decrypt: "security_reachable b s \<Longrightarrow> ls_envelope_decrypt_payload b data wanted capacity s = (res, s') \<Longrightarrow>
    security_reachable b s'"

text \<open>Every operation keeps the state well-formed.\<close>

lemma set_key_ok: "ls_security_set_key key s = (r, s') \<Longrightarrow> security_ok s \<Longrightarrow> security_ok s'"
  by (auto simp: ls_security_set_key_def security_ok_def security_sizes split: option.splits if_splits)

lemma clear_key_ok: "security_ok s \<Longrightarrow> security_ok (ls_security_clear_key s)"
  by (simp add: ls_security_clear_key_def security_ok_def security_sizes)

lemma set_policy_ok: "ls_security_set_policy b policy s = (r, s') \<Longrightarrow> security_ok s \<Longrightarrow> security_ok s'"
  by (auto simp: ls_security_set_policy_def security_ok_def policy_ok_def split: option.splits if_splits)

lemma set_random_ok:
  "pred_option random_fills random \<Longrightarrow> security_ok s \<Longrightarrow> security_ok (ls_security_set_random_provider random s)"
  by (simp add: ls_security_set_random_provider_def security_ok_def)

lemma set_provider_ok:
  "ls_security_set_crypto_provider b provider s = (r, s') \<Longrightarrow> security_ok s \<Longrightarrow> security_ok s'"
  by (auto simp: ls_security_set_crypto_provider_def security_ok_def
      split: option.splits prod.splits if_splits)

lemma clear_provider_ok: "security_ok s \<Longrightarrow> security_ok (ls_security_clear_crypto_provider s)"
  by (simp add: ls_security_clear_crypto_provider_def security_ok_def)

lemma replay_ok: "ls_replay_accept sequence s = (a, s') \<Longrightarrow> security_ok s \<Longrightarrow> security_ok s'"
  by (auto simp: ls_replay_accept_def Let_def security_ok_def split: prod.splits)

lemma security_init_ok: "security_ok (security_init p)"
  by (simp add: security_init_def security_ok_def policy_ok_def)

lemmas security_ops_ok = set_key_ok clear_key_ok set_policy_ok set_random_ok set_provider_ok
  clear_provider_ok replay_ok security_init_ok encode_ok

lemma security_reachable_ok: "security_reachable b s \<Longrightarrow> security_ok s"
  by (induction rule: security_reachable.induct)
    (auto intro: security_ops_ok dest: random_frame decrypt_payload_frame simp: port_only_fields(8))


text \<open>A build without an external provider, and a device that was given a key.\<close>

definition plain_build :: crypto_build where
  "plain_build = \<lparr>LS_REQUIRE_EXTERNAL_CRYPTO_PROVIDER = False,
     LS_MIN_CRYPTO_ASSURANCE = LS_CRYPTO_ASSURANCE_EXTERNAL_AUDITED\<rparr>"

definition keyed_state :: "nat ls_security" where
  "keyed_state = snd (ls_security_set_key (Some (replicate 32 5)) (security_init 0))"


section \<open>Sealed envelopes open\<close>

lemma bslice_at: "length a = k \<Longrightarrow> length x = n \<Longrightarrow> bslice k n (a @ x @ ys) = x"
  by (simp add: bslice_def)

lemma aead_flags:
  assumes "flags = LS_ENVELOPE_AUTHENTICATED OR (LS_ENVELOPE_ENCRYPTED OR LS_ENVELOPE_AEAD) \<or>
    flags = (LS_ENVELOPE_AUTHENTICATED OR (LS_ENVELOPE_ENCRYPTED OR LS_ENVELOPE_AEAD)) OR LS_ENVELOPE_TRUNCATED"
  shows "flags_valid flags" and "flags AND LS_ENVELOPE_ENCRYPTED \<noteq> 0" and "flags AND LS_ENVELOPE_AEAD \<noteq> 0"
    and "envelope_metadata_size flags = 28" and "envelope_authentication_size flags = 16"
  using assms
  by (auto simp: flags_valid_def envelope_metadata_size_def envelope_authentication_size_def
      envelope_flag_defs envelope_sizes Let_def)

lemma validate_aead_envelope:
  assumes "h = lep_write_header type arch flags sequence event_id (of_nat (length ct))"
    and "flags_valid flags" "flags AND LS_ENVELOPE_ENCRYPTED \<noteq> 0" "envelope_metadata_size flags = 28"
    "envelope_authentication_size flags = 16"
    and "length meta = 28" and "length tag = 16" and "length ct \<le> UINT32_MAX"
  shows "ls_envelope_validate (h @ meta @ ct @ le32 (ls_crc32 (meta @ ct)) @ tag) =
    Inr \<lparr>ei_version = LS_LEP_CURRENT_VERSION, ei_type = type, ei_architecture = arch,
         ei_flags = flags, ei_sequence = sequence, ei_event_id = event_id,
         ei_payload_length = of_nat (length ct)\<rparr>"
proof -
  define xs where "xs = meta @ ct @ le32 (ls_crc32 (meta @ ct)) @ tag"
  note f = lep_header_fields [OF assms(1), of xs]
  have lenh: "length h = 24" by (simp add: assms(1))
  have n: "unat (of_nat (length ct) :: u32) = length ct"
    using assms(8) by (simp add: unat_of_nat UINT32_MAX_def)
  have covered: "bslice 24 (28 + length ct) (h @ xs) = meta @ ct"
    using bslice_at [of h 24 "meta @ ct" "28 + length ct"] lenh assms(6) by (simp add: xs_def)
  have "read_u32 ((h @ meta @ ct) @ le32 (ls_crc32 (meta @ ct)) @ tag) (length (h @ meta @ ct) + 0) =
      ls_crc32 (meta @ ct)"
    unfolding read_u32_shift by simp
  then have crc: "read_u32 (h @ xs) (52 + length ct) = ls_crc32 (meta @ ct)"
    by (simp add: xs_def lenh assms(6))
  have lenx: "length xs = 48 + length ct" by (simp add: xs_def assms(6,7))
  show ?thesis
    unfolding xs_def [symmetric] ls_envelope_validate_def
    by (simp add: f assms(2-5) n covered crc lenh lenx Let_def LS_LEP_HEADER_SIZE_def
        LS_LEP_MIN_SUPPORTED_VERSION_def LS_LEP_MAX_SUPPORTED_VERSION_def LS_LEP_CURRENT_VERSION_def)
qed

lemma sealed_opens:
  fixes t :: "'q ls_security"
  assumes h: "h = lep_write_header type arch flags sequence event_id (of_nat (length payload))"
    and flags: "flags_valid flags" "flags AND LS_ENVELOPE_ENCRYPTED \<noteq> 0" "flags AND LS_ENVELOPE_AEAD \<noteq> 0"
    "envelope_metadata_size flags = 28" "envelope_authentication_size flags = 16"
    and nonce: "length nonce = 24" and len: "length payload \<le> UINT32_MAX" "length payload \<le> cap"
    and t: "crypto_provider t = None" "\<not> LS_REQUIRE_EXTERNAL_CRYPTO_PROVIDER b" "security_key_length t \<noteq> 0"
    and derived: "ls_hkdf_sha256 (envelope_salt (sp_key_id (security_policy t)) sequence event_id)
      (take (security_key_length t) (security_key t)) envelope_label 32 = Inr derived"
    and enc: "ls_xchacha20_poly1305_encrypt derived nonce (h @ nonce @ le32 (sp_key_id (security_policy t)))
      payload = Inr (ct, tag)"
    and tag': "length tag' = 16"
  defines "meta \<equiv> nonce @ le32 (sp_key_id (security_policy t))"
  shows "ls_envelope_decrypt_payload b (h @ meta @ ct @ le32 (ls_crc32 (meta @ ct)) @ tag') True cap t =
      (if tag' = tag then Inr (length payload, payload) else Inl LS_EAUTH, t)"
    and "length tag = 16"
proof -
  let ?data = "h @ meta @ ct @ le32 (ls_crc32 (meta @ ct)) @ tag'"
  have e: "length ct = length payload" "length tag = 16"
  proof -
    obtain k n where "ls_chacha20_poly1305_encrypt k n (h @ nonce @ le32 (sp_key_id (security_policy t)))
        payload = Inr (ct, tag)"
      using enc unfolding ls_xchacha20_poly1305_encrypt_def by (auto split: prod.splits)
    then show "length ct = length payload" "length tag = 16"
      using encrypt_InrD(2,3) by (blast, metis length_calculate_tag)
  qed
  show "length tag = 16" by (rule e(2))
  have lens: "length h = 24" "length meta = 28" using nonce by (simp_all add: h meta_def)
  have valid: "ls_envelope_validate ?data = Inr \<lparr>ei_version = LS_LEP_CURRENT_VERSION, ei_type = type,
      ei_architecture = arch, ei_flags = flags, ei_sequence = sequence, ei_event_id = event_id,
      ei_payload_length = of_nat (length ct)\<rparr>"
    by (rule validate_aead_envelope) (use h e flags lens tag' len in simp_all)
  have n: "unat (of_nat (length payload) :: u32) = length payload"
    using len(1) by (simp add: unat_of_nat UINT32_MAX_def)
  have slices: "bslice 24 24 ?data = nonce" "bslice 0 52 ?data = h @ meta"
    "bslice 52 (length payload) ?data = ct" "bslice (56 + length payload) 16 ?data = tag'"
    using bslice_at [of h 24 nonce 24] bslice_at [of "[]" 0 "h @ meta" 52]
      bslice_at [of "h @ meta" 52 ct "length payload"]
      bslice_at [of "h @ meta @ ct @ le32 (ls_crc32 (meta @ ct))" "56 + length payload" tag' 16 "[]"]
      lens nonce e tag' by (simp_all add: meta_def)
  have "read_u32 ((h @ nonce) @ le32 (sp_key_id (security_policy t)) @ ct @ le32 (ls_crc32 (meta @ ct)) @ tag')
      (length (h @ nonce) + 0) = sp_key_id (security_policy t)"
    unfolding read_u32_shift by simp
  then have key_id: "read_u32 ?data 48 = sp_key_id (security_policy t)"
    using lens nonce by (simp add: meta_def)
  have "ls_xchacha20_poly1305_decrypt derived nonce (h @ meta) ct tag' True =
      (if tag' = tag then Inr payload else Inl LS_EAUTH)"
    using enc tag' chacha20_poly1305_roundtrip
    by (auto simp: meta_def ls_xchacha20_poly1305_encrypt_def ls_xchacha20_poly1305_decrypt_def
        xchacha_material_def)
  then show "ls_envelope_decrypt_payload b ?data True cap t =
      (if tag' = tag then Inr (length payload, payload) else Inl LS_EAUTH, t)"
    using flags t len(2) derived e(1)
    by (simp add: ls_envelope_decrypt_payload_def valid n slices key_id Let_def envelope_sizes
        ls_crypto_hkdf_sha256_def ls_crypto_xchacha20_poly1305_decrypt_def require_provider_if_configured_def
        ls_security_crypto_provider_ready_def)
qed

text \<open>What a successful encoding with authenticated encryption has done.\<close>

lemma encode_aeadE:
  assumes "ls_envelope_encode b put build type arch capacity sequence s = (Inr data, s')"
    and "security_key_length s \<noteq> 0" "sp_algorithm (security_policy s) = LS_SECURITY_XCHACHA20_POLY1305"
    and "put (capacity - 72) = (LS_OK, payload, truncated)"
  obtains flags event_id s1 where "length payload \<le> UINT32_MAX"
    "flags_valid flags" "flags AND LS_ENVELOPE_ENCRYPTED \<noteq> 0" "flags AND LS_ENVELOPE_AEAD \<noteq> 0"
    "envelope_metadata_size flags = 28" "envelope_authentication_size flags = 16"
    "seal_aead b (lep_write_header type arch flags sequence event_id (of_nat (length payload)))
       sequence event_id payload s = (Inr data, s1)" "s' = s1\<lparr>last_sequence := sequence\<rparr>"
proof -
  define flags where "flags =
    (if truncated then (LS_ENVELOPE_AUTHENTICATED OR (LS_ENVELOPE_ENCRYPTED OR LS_ENVELOPE_AEAD)) OR LS_ENVELOPE_TRUNCATED
     else LS_ENVELOPE_AUTHENTICATED OR (LS_ENVELOPE_ENCRYPTED OR LS_ENVELOPE_AEAD))"
  let ?id = "ls_crc32 payload XOR sequence XOR ls_hash_string build"
  let ?h = "lep_write_header type arch flags sequence ?id (of_nat (length payload))"
  have cap: "capacity - 24 - 28 - 4 - 16 = capacity - 72" by simp
  have "length payload \<le> UINT32_MAX \<and> (\<exists>s1. seal_aead b ?h sequence ?id payload s = (Inr data, s1) \<and>
      s' = s1\<lparr>last_sequence := sequence\<rparr>)"
    using assms
    by (simp add: ls_envelope_encode_def Let_def envelope_sizes cap flags_def split: if_splits prod.splits sum.splits)
  moreover have "flags = LS_ENVELOPE_AUTHENTICATED OR (LS_ENVELOPE_ENCRYPTED OR LS_ENVELOPE_AEAD) \<or>
      flags = (LS_ENVELOPE_AUTHENTICATED OR (LS_ENVELOPE_ENCRYPTED OR LS_ENVELOPE_AEAD)) OR LS_ENVELOPE_TRUNCATED"
    by (simp add: flags_def)
  ultimately show ?thesis using that aead_flags [of flags] by blast
qed

lemma encode_aead_length:
  assumes "ls_envelope_encode b put build type arch capacity sequence s = (Inr data, s')"
    and "security_key_length s \<noteq> 0" "sp_algorithm (security_policy s) = LS_SECURITY_XCHACHA20_POLY1305"
    and "put (capacity - 72) = (LS_OK, payload, truncated)"
  shows "24 \<le> length data"
proof -
  obtain flags event_id s1 where
    "seal_aead b (lep_write_header type arch flags sequence event_id (of_nat (length payload)))
       sequence event_id payload s = (Inr data, s1)"
    using encode_aeadE [OF assms] by metis
  then show ?thesis by (rule seal_aeadE) simp
qed

text \<open>C26: an envelope encoded with authenticated encryption is opened by any receiver that has the
  key and the key identifier: decryption returns the payload that was encoded. With any other
  16-byte tag in its place, and everything else as sent, it returns \<open>LS_EAUTH\<close>. (Both sides use the
  built-in primitives.)\<close>

theorem sealed_envelope_opens:
  assumes "security_ok s" and "security_key_length s \<noteq> 0"
    and "sp_algorithm (security_policy s) = LS_SECURITY_XCHACHA20_POLY1305"
    and "put (capacity - 72) = (LS_OK, payload, truncated)"
    and "ls_envelope_encode b put build type arch capacity sequence s = (Inr data, s')"
    and "\<not> LS_REQUIRE_EXTERNAL_CRYPTO_PROVIDER b" "crypto_provider s = None" "crypto_provider t = None"
    and "security_key t = security_key s" "security_key_length t = security_key_length s"
    and "sp_key_id (security_policy t) = sp_key_id (security_policy s)"
    and "length payload \<le> cap" and "length tag' = 16"
  shows "ls_envelope_decrypt_payload b (take (length data - 16) data @ tag') True cap t =
    (if tag' = drop (length data - 16) data then Inr (length payload, payload) else Inl LS_EAUTH, t)"
proof -
  obtain flags event_id s1 where len: "length payload \<le> UINT32_MAX"
    and flags: "flags_valid flags" "flags AND LS_ENVELOPE_ENCRYPTED \<noteq> 0" "flags AND LS_ENVELOPE_AEAD \<noteq> 0"
      "envelope_metadata_size flags = 28" "envelope_authentication_size flags = 16"
    and seal: "seal_aead b (lep_write_header type arch flags sequence event_id (of_nat (length payload)))
       sequence event_id payload s = (Inr data, s1)"
    using encode_aeadE [OF assms(5,2-4)] by metis
  let ?h = "lep_write_header type arch flags sequence event_id (of_nat (length payload))"
  let ?k = "sp_key_id (security_policy s)"
  from seal_aeadE [OF seal] obtain nonce u1 derived u2 ct tag u3 where
    rnd: "ls_security_random LS_XCHACHA20_NONCE_SIZE s = (Inr nonce, u1)"
    and hk: "ls_crypto_hkdf_sha256 b (envelope_salt (sp_key_id (security_policy u1)) sequence event_id)
       (take (security_key_length u1) (security_key u1)) envelope_label 32 u1 = (Inr derived, u2)"
    and en: "ls_crypto_xchacha20_poly1305_encrypt b derived nonce
       (?h @ nonce @ le32 (sp_key_id (security_policy u1))) payload u2 = (Inr (ct, tag), u3)"
    and out: "data = ?h @ nonce @ le32 (sp_key_id (security_policy u1)) @ ct @
       le32 (ls_crc32 (nonce @ le32 (sp_key_id (security_policy u1)) @ ct)) @ tag" .
  note f1 = port_only_fields [OF random_frame [OF rnd]] and f2 = port_only_fields [OF hkdf_frame [OF hk]]
  have nonce: "length nonce = 24" using random_length [OF assms(1) rnd] by (simp add: security_sizes)
  have hk': "ls_hkdf_sha256 (envelope_salt (sp_key_id (security_policy t)) sequence event_id)
      (take (security_key_length t) (security_key t)) envelope_label 32 = Inr derived"
    using hk assms(6-11) f1
    by (simp add: ls_crypto_hkdf_sha256_def require_provider_if_configured_def
        ls_security_crypto_provider_ready_def)
  have en': "ls_xchacha20_poly1305_encrypt derived nonce (?h @ nonce @ le32 (sp_key_id (security_policy t)))
      payload = Inr (ct, tag)"
    using en assms(6-11) f1 f2
    by (simp add: ls_crypto_xchacha20_poly1305_encrypt_def require_provider_if_configured_def
        ls_security_crypto_provider_ready_def)
  have t: "security_key_length t \<noteq> 0" using assms(2,10) by simp
  note opens = sealed_opens [OF refl flags nonce len assms(12,8,6) t hk' en' assms(13)]
  have "take (length data - 16) data = ?h @ (nonce @ le32 ?k) @ ct @ le32 (ls_crc32 ((nonce @ le32 ?k) @ ct))"
    and "drop (length data - 16) data = tag"
    using opens(2) by (simp_all add: out f1)
  then show ?thesis using opens(1) assms(11) by simp
qed

text \<open>A random source for the examples: the port state is a counter.\<close>

definition counting_random :: "nat \<Rightarrow> nat \<Rightarrow> (ls_result \<times> bytes) \<times> nat" where
  "counting_random n p = ((LS_OK, replicate n (of_nat p)), p + 1)"

definition sender :: "nat ls_security" where
  "sender = ls_security_set_random_provider (Some counting_random) keyed_state"

definition small_payload :: "nat \<Rightarrow> ls_result \<times> bytes \<times> bool" where
  "small_payload room = (LS_OK, [1, 0, 0, 0], False)"

lemma sender_ok: "security_ok sender"
proof -
  have "security_ok keyed_state"
    unfolding keyed_state_def by (rule set_key_ok [OF prod.collapse [symmetric] security_init_ok])
  then show ?thesis
    unfolding sender_def by (rule set_random_ok [rotated]) (auto simp: random_fills_def counting_random_def)
qed

lemma sender_fields [simp]:
  "security_key_length sender = 32" "crypto_provider sender = None" "port sender = 0"
  "sp_algorithm (security_policy sender) = LS_SECURITY_XCHACHA20_POLY1305"
  "crypto_random sender = Some counting_random" "has_last_envelope_nonce sender = False"
  by (simp_all add: sender_def keyed_state_def ls_security_set_random_provider_def ls_security_set_key_def
      security_init_def security_sizes)

lemma hkdf_envelope: "\<exists>d. ls_hkdf_sha256 salt ikm envelope_label 32 = Inr d"
  by (simp add: ls_hkdf_sha256_def envelope_label_def text_bytes_def LS_HKDF_MAX_INFO_SIZE_def Let_def)

lemma xchacha_small:
  "length pt \<le> 100 \<Longrightarrow> \<exists>ct tag. ls_xchacha20_poly1305_encrypt key nonce aad pt = Inr (ct, tag)"
  by (auto simp: ls_xchacha20_poly1305_encrypt_def ls_chacha20_poly1305_encrypt_def
      chacha20_length_overflows_def Let_def split: prod.splits)

text \<open>With the built-in primitives and a random source that answers with a fresh nonce, a short
  payload is encoded.\<close>

lemma encode_succeeds:
  assumes "crypto_provider s = None" "security_key_length s \<noteq> 0" "crypto_random s = Some random"
    "sp_algorithm (security_policy s) = LS_SECURITY_XCHACHA20_POLY1305"
    and "random 24 (port s) = ((LS_OK, nonce), p')"
    and "has_last_envelope_nonce s \<Longrightarrow> \<not> ls_constant_time_equal nonce (last_envelope_nonce s)"
  shows "\<exists>data. ls_envelope_encode plain_build small_payload build type arch 128 sequence s =
    (Inr data, s\<lparr>port := p', last_envelope_nonce := nonce, has_last_envelope_nonce := True,
                 last_sequence := sequence\<rparr>)"
proof -
  have gate: "require_provider_if_configured plain_build u = LS_OK" for u :: "'a ls_security"
    by (simp add: require_provider_if_configured_def ls_security_crypto_provider_ready_def plain_build_def)
  have "\<exists>out. seal_aead plain_build h sequence i [1, 0, 0, 0] s =
      (Inr out, s\<lparr>port := p', last_envelope_nonce := nonce, has_last_envelope_nonce := True\<rparr>)" for h i
  proof -
    let ?k = "sp_key_id (security_policy s)"
    obtain d where d: "ls_hkdf_sha256 (envelope_salt ?k sequence i)
        (take (security_key_length s) (security_key s)) envelope_label 32 = Inr d"
      using hkdf_envelope by blast
    obtain ct tag where e: "ls_xchacha20_poly1305_encrypt d nonce (h @ nonce @ le32 ?k) [1, 0, 0, 0] =
        Inr (ct, tag)"
      using xchacha_small [of "[1, 0, 0, 0]" d nonce "h @ nonce @ le32 ?k"] by auto
    show ?thesis
      using assms d e
      by (auto simp: seal_aead_def ls_security_random_def security_sizes ls_crypto_hkdf_sha256_def gate
          ls_crypto_xchacha20_poly1305_encrypt_def Let_def)
  qed
  then obtain out where "seal_aead plain_build h sequence i [1, 0, 0, 0] s =
      (Inr (out h i), s\<lparr>port := p', last_envelope_nonce := nonce, has_last_envelope_nonce := True\<rparr>)" for h i
    by metis
  then show ?thesis
    using assms(2,4) by (simp add: ls_envelope_encode_def small_payload_def envelope_sizes Let_def
        UINT32_MAX_def)
qed

theorem sealed_envelope_opens_witness:
  "\<exists>data s'. ls_envelope_encode plain_build small_payload (Some []) 1 2 128 9 sender = (Inr data, s') \<and>
     ls_envelope_decrypt_payload plain_build
       (take (length data - 16) data @ drop (length data - 16) data) True 64 sender =
     (if length data \<ge> 16 then Inr (4, [1, 0, 0, 0]) else Inl LS_EAUTH, sender)"
proof -
  obtain data s' where enc: "ls_envelope_encode plain_build small_payload (Some []) 1 2 128 9 sender = (Inr data, s')"
    using encode_succeeds [of sender counting_random "replicate 24 0" 1 "Some []" 1 2 9]
    by (auto simp: counting_random_def)
  have put: "small_payload (128 - 72) = (LS_OK, [1, 0, 0, 0], False)" by (simp add: small_payload_def)
  have len: "length (drop (length data - 16) data) = 16"
    using encode_aead_length [OF enc _ _ put] by simp
  have "\<not> LS_REQUIRE_EXTERNAL_CRYPTO_PROVIDER plain_build" by (simp add: plain_build_def)
  from sealed_envelope_opens [OF sender_ok _ _ put enc this, of sender 64, OF _ _ _ _ refl refl refl _ len]
  show ?thesis using enc len by auto
qed

end
