(* ===== verification/LS_Blackbox.thy ===== *)
theory LS_Blackbox
  imports LS_Util
begin

text \<open>
  The flight recorder of \<^verbatim>\<open>src/core/blackbox.c\<close>: a ring of checksummed records in memory that
  survives a reset, with metadata stored beside their inverses. The retained structure has no
  padding, so every content of the memory is a value of \<open>ls_blackbox_retained\<close>; the array has
  \<^verbatim>\<open>LS_BLACKBOX_CAPACITY\<close> elements, which is the length of the list. The file variable
  \<^verbatim>\<open>previous_profile\<close> is not retained and extends the record. The argument \<open>now\<close> is the value
  of \<^verbatim>\<open>ls_runtime.initialized ? ls_uptime_ms() : 0u\<close> when the operation runs.

  The second half relates the ring to what it is for: the log of the most recent records. It holds
  for every ring whose sequence numbers have not wrapped past \<^verbatim>\<open>UINT32_MAX\<close>, and the interface
  \<open>flight_recorder\<close> carries it to sequences of records.
\<close>

section \<open>State\<close>

text \<open>\<^verbatim>\<open>ls_blackbox_record_t\<close>; the four values are the words of the \<^verbatim>\<open>int32_t\<close> array.\<close>

record ls_blackbox_record_t =
  bb_timestamp_ms :: u32
  bb_kind :: u16
  bb_source_id :: u16
  bb_flags :: u16
  bb_reserved :: u16
  bb_value :: "u32 list"

record ls_blackbox_retained_record =
  rr_sequence :: u32
  rr_record :: ls_blackbox_record_t
  rr_crc :: u32

text \<open>A metadata field and its inverse, adjacent in the structure.\<close>

type_synonym 'w guarded = "'w \<times> 'w"

record ls_blackbox_retained =
  bb_magic :: u32
  bb_version :: u16
  bb_retained_reserved :: u16
  bb_next_sequence :: "u32 guarded"
  bb_total_records :: "u32 guarded"
  bb_overwritten_records :: "u32 guarded"
  bb_anomaly_until_ms :: "u32 guarded"
  bb_frozen :: "u8 guarded"
  bb_profile :: "u8 guarded"
  bb_records :: "ls_blackbox_retained_record list"

record ls_blackbox = ls_blackbox_retained +
  previous_profile :: u8

record ls_blackbox_stats =
  bs_capacity :: nat
  bs_count :: nat
  bs_total_records :: u32
  bs_overwritten_records :: u32
  bs_frozen :: bool
  bs_profile :: u8
  bs_anomaly_until_ms :: u32

definition LS_BLACKBOX_MAGIC :: u32 where "LS_BLACKBOX_MAGIC = 0x5842424c"
definition LS_BLACKBOX_VERSION :: u16 where "LS_BLACKBOX_VERSION = 1"

text \<open>The kinds, profiles and flags the code tests.\<close>

definition LS_BLACKBOX_STATE :: u16 where "LS_BLACKBOX_STATE = 1"
definition LS_BLACKBOX_WATCHDOG :: u16 where "LS_BLACKBOX_WATCHDOG = 4"
definition LS_BLACKBOX_POWER :: u16 where "LS_BLACKBOX_POWER = 5"
definition LS_BLACKBOX_USER :: u16 where "LS_BLACKBOX_USER = 10"
definition LS_BLACKBOX_PROFILE_QUIET :: u8 where "LS_BLACKBOX_PROFILE_QUIET = 0"
definition LS_BLACKBOX_PROFILE_NORMAL :: u8 where "LS_BLACKBOX_PROFILE_NORMAL = 1"
definition LS_BLACKBOX_PROFILE_ANOMALY :: u8 where "LS_BLACKBOX_PROFILE_ANOMALY = 2"
definition LS_BLACKBOX_IMPORTANT :: u16 where "LS_BLACKBOX_IMPORTANT = 1"
definition LS_BLACKBOX_ERROR :: u16 where "LS_BLACKBOX_ERROR = 2"

lemmas blackbox_constants =
  LS_BLACKBOX_STATE_def LS_BLACKBOX_WATCHDOG_def LS_BLACKBOX_POWER_def LS_BLACKBOX_USER_def
  LS_BLACKBOX_PROFILE_QUIET_def LS_BLACKBOX_PROFILE_NORMAL_def LS_BLACKBOX_PROFILE_ANOMALY_def
  LS_BLACKBOX_IMPORTANT_def LS_BLACKBOX_ERROR_def

section \<open>Sequence numbers and checksums\<close>

definition sequence_is_newer :: "u32 \<Rightarrow> u32 \<Rightarrow> bool" where
  "sequence_is_newer candidate reference \<longleftrightarrow> 0 < sint (candidate - reference)"

fun sequence_before :: "u32 \<Rightarrow> nat \<Rightarrow> u32" where
  "sequence_before s 0 = s"
| "sequence_before s (Suc count) = sequence_before (if s = 1 then - 1 else s - 1) count"

definition sequence_after :: "u32 \<Rightarrow> u32" where
  "sequence_after s = (if s = - 1 then 1 else s + 1)"

definition blackbox_record_bytes :: "ls_blackbox_record_t \<Rightarrow> bytes" where
  "blackbox_record_bytes r =
     le32 (bb_timestamp_ms r) @ le16 (bb_kind r) @ le16 (bb_source_id r) @ le16 (bb_flags r) @
     le16 (bb_reserved r) @ concat (map le32 (bb_value r))"

definition blackbox_record_crc :: "ls_blackbox_retained_record \<Rightarrow> u32" where
  "blackbox_record_crc rr = ls_crc32 (le32 (rr_sequence rr) @ blackbox_record_bytes (rr_record rr))"

definition blackbox_record_valid :: "ls_blackbox_retained_record \<Rightarrow> bool" where
  "blackbox_record_valid rr \<longleftrightarrow> rr_sequence rr \<noteq> 0 \<and> rr_crc rr = blackbox_record_crc rr"

definition metadata_store :: "'a::len word \<Rightarrow> 'a word guarded" where
  "metadata_store updated = (updated, NOT updated)"

definition metadata_valid :: "'a::len word guarded \<Rightarrow> bool" where
  "metadata_valid p \<longleftrightarrow> snd p = NOT (fst p)"

section \<open>Operations\<close>

definition zero_retained_record :: ls_blackbox_retained_record where
  "zero_retained_record =
     \<lparr>rr_sequence = 0,
      rr_record = \<lparr>bb_timestamp_ms = 0, bb_kind = 0, bb_source_id = 0, bb_flags = 0,
                   bb_reserved = 0, bb_value = replicate 4 0\<rparr>,
      rr_crc = 0\<rparr>"

definition blackbox_reset :: "ls_blackbox \<Rightarrow> ls_blackbox" where
  "blackbox_reset s =
     \<lparr>bb_magic = LS_BLACKBOX_MAGIC, bb_version = LS_BLACKBOX_VERSION, bb_retained_reserved = 0,
      bb_next_sequence = metadata_store 1, bb_total_records = metadata_store 0,
      bb_overwritten_records = metadata_store 0, bb_anomaly_until_ms = metadata_store 0,
      bb_frozen = metadata_store 0, bb_profile = metadata_store LS_BLACKBOX_PROFILE_NORMAL,
      bb_records = replicate (length (bb_records s)) zero_retained_record,
      previous_profile = LS_BLACKBOX_PROFILE_NORMAL\<rparr>"

text \<open>The scan for the newest sequence number and the number of valid records.\<close>

fun newest_loop :: "ls_blackbox_retained_record list \<Rightarrow> u32 \<Rightarrow> nat \<Rightarrow> u32 \<times> nat" where
  "newest_loop [] highest valid = (highest, valid)"
| "newest_loop (rr # rrs) highest valid =
     (if \<not> blackbox_record_valid rr then newest_loop rrs highest valid
      else newest_loop rrs
        (if highest = 0 \<or> sequence_is_newer (rr_sequence rr) highest then rr_sequence rr else highest)
        (valid + 1))"

text \<open>Each metadata field is stored again when it fails its test.\<close>

definition repair :: "bool \<Rightarrow> 'a::len word \<Rightarrow> 'a word guarded \<Rightarrow> 'a word guarded" where
  "repair damaged updated p = (if damaged then metadata_store updated else p)"

definition ls_blackbox_init :: "ls_blackbox \<Rightarrow> ls_blackbox" where
  "ls_blackbox_init s =
     (if bb_magic s \<noteq> LS_BLACKBOX_MAGIC \<or> bb_version s \<noteq> LS_BLACKBOX_VERSION then blackbox_reset s
      else
       (let (highest, valid) = newest_loop (bb_records s) 0 0;
            s = s\<lparr>bb_next_sequence :=
                   repair (\<not> metadata_valid (bb_next_sequence s) \<or> fst (bb_next_sequence s) = 0)
                     (if highest + 1 \<noteq> 0 then highest + 1 else 1) (bb_next_sequence s)\<rparr>;
            s = s\<lparr>bb_total_records :=
                   repair (\<not> metadata_valid (bb_total_records s))
                     (if highest > word_of_nat valid then highest else word_of_nat valid)
                     (bb_total_records s)\<rparr>;
            s = s\<lparr>bb_overwritten_records :=
                   repair (\<not> metadata_valid (bb_overwritten_records s))
                     (if unat (fst (bb_total_records s)) > length (bb_records s)
                      then fst (bb_total_records s) - word_of_nat (length (bb_records s)) else 0)
                     (bb_overwritten_records s)\<rparr>;
            s = s\<lparr>bb_anomaly_until_ms :=
                   repair (\<not> metadata_valid (bb_anomaly_until_ms s)) 0 (bb_anomaly_until_ms s)\<rparr>;
            s = s\<lparr>bb_frozen := repair (\<not> metadata_valid (bb_frozen s)) 0 (bb_frozen s)\<rparr>;
            s = s\<lparr>bb_profile :=
                   repair (\<not> metadata_valid (bb_profile s) \<or>
                           fst (bb_profile s) > LS_BLACKBOX_PROFILE_ANOMALY)
                     LS_BLACKBOX_PROFILE_NORMAL (bb_profile s)\<rparr>
        in s\<lparr>previous_profile := fst (bb_profile s)\<rparr>))"

text \<open>The guard in front of the other operations.\<close>

definition ensure_initialised :: "ls_blackbox \<Rightarrow> ls_blackbox" where
  "ensure_initialised s = (if bb_magic s \<noteq> LS_BLACKBOX_MAGIC then ls_blackbox_init s else s)"

definition profile_accepts :: "ls_blackbox_record_t \<Rightarrow> ls_blackbox \<Rightarrow> bool" where
  "profile_accepts r s \<longleftrightarrow>
     fst (bb_profile s) \<noteq> LS_BLACKBOX_PROFILE_QUIET \<or>
     bb_flags r AND (LS_BLACKBOX_IMPORTANT OR LS_BLACKBOX_ERROR) \<noteq> 0 \<or>
     bb_kind r = LS_BLACKBOX_WATCHDOG \<or> bb_kind r = LS_BLACKBOX_POWER"

text \<open>The record as it is stored: its sequence number, the time if it has none, the checksum.\<close>

definition stamped :: "u32 \<Rightarrow> ls_blackbox_record_t \<Rightarrow> ls_blackbox_record_t" where
  "stamped now r = (if bb_timestamp_ms r = 0 then r\<lparr>bb_timestamp_ms := now\<rparr> else r)"

definition retained_record :: "u32 \<Rightarrow> u32 \<Rightarrow> ls_blackbox_record_t \<Rightarrow> ls_blackbox_retained_record" where
  "retained_record now sequence r =
     (let stored = \<lparr>rr_sequence = sequence, rr_record = stamped now r, rr_crc = 0\<rparr>
      in stored\<lparr>rr_crc := blackbox_record_crc stored\<rparr>)"

definition ls_blackbox_record ::
    "u32 \<Rightarrow> ls_blackbox_record_t option \<Rightarrow> ls_blackbox \<Rightarrow> ls_result \<times> ls_blackbox" where
  "ls_blackbox_record now record s =
     (case record of
        None \<Rightarrow> (LS_EINVAL, s)
      | Some r \<Rightarrow>
          if bb_kind r < LS_BLACKBOX_STATE \<or> bb_kind r > LS_BLACKBOX_USER then (LS_EINVAL, s)
          else
            let s = ensure_initialised s
            in if fst (bb_frozen s) \<noteq> 0 then (LS_EBUSY, s)
               else if \<not> profile_accepts r s then (LS_OK, s)
               else
                 let sequence = (if fst (bb_next_sequence s) = 0 then 1 else fst (bb_next_sequence s));
                     slot = unat (sequence - 1) mod length (bb_records s);
                     s = s\<lparr>bb_records := (bb_records s)[slot := retained_record now sequence r]\<rparr>;
                     total' = (if fst (bb_total_records s) \<noteq> - 1
                               then fst (bb_total_records s) + 1 else fst (bb_total_records s));
                     s = s\<lparr>bb_total_records := metadata_store total'\<rparr>;
                     s = (if unat total' > length (bb_records s)
                          then s\<lparr>bb_overwritten_records :=
                            metadata_store
                              (if fst (bb_overwritten_records s) \<noteq> - 1
                               then fst (bb_overwritten_records s) + 1
                               else fst (bb_overwritten_records s))\<rparr>
                          else s)
                 in (LS_OK, s\<lparr>bb_next_sequence := metadata_store (sequence_after sequence)\<rparr>))"

definition ls_blackbox_record_values ::
    "u32 \<Rightarrow> u16 \<Rightarrow> u16 \<Rightarrow> u16 \<Rightarrow> u32 \<Rightarrow> u32 \<Rightarrow> u32 \<Rightarrow> u32 \<Rightarrow> ls_blackbox \<Rightarrow> ls_result \<times> ls_blackbox"
  where
  "ls_blackbox_record_values now kind source_id flags v0 v1 v2 v3 s =
     ls_blackbox_record now
       (Some \<lparr>bb_timestamp_ms = now, bb_kind = kind, bb_source_id = source_id, bb_flags = flags,
              bb_reserved = 0, bb_value = [v0, v1, v2, v3]\<rparr>) s"

definition ls_blackbox_freeze :: "ls_blackbox \<Rightarrow> ls_blackbox" where
  "ls_blackbox_freeze s =
     (if bb_magic s = LS_BLACKBOX_MAGIC then s\<lparr>bb_frozen := metadata_store 1\<rparr> else s)"

definition ls_blackbox_thaw :: "ls_blackbox \<Rightarrow> ls_blackbox" where
  "ls_blackbox_thaw s = (ensure_initialised s)\<lparr>bb_frozen := metadata_store 0\<rparr>"

definition ls_blackbox_clear :: "ls_blackbox \<Rightarrow> ls_blackbox" where
  "ls_blackbox_clear s = blackbox_reset s"

definition ls_blackbox_set_profile :: "u8 \<Rightarrow> ls_blackbox \<Rightarrow> ls_blackbox" where
  "ls_blackbox_set_profile profile s =
     (if profile > LS_BLACKBOX_PROFILE_ANOMALY then s
      else
        let s = (ensure_initialised s)\<lparr>previous_profile := profile\<rparr>;
            s = s\<lparr>bb_profile := metadata_store profile\<rparr>
        in if profile \<noteq> LS_BLACKBOX_PROFILE_ANOMALY
           then s\<lparr>bb_anomaly_until_ms := metadata_store 0\<rparr> else s)"

definition ls_blackbox_anomaly_begin :: "u32 \<Rightarrow> u32 \<Rightarrow> ls_blackbox \<Rightarrow> ls_blackbox" where
  "ls_blackbox_anomaly_begin now duration_ms s =
     (if duration_ms = 0 then s
      else
        let s = ensure_initialised s;
            s = (if fst (bb_profile s) \<noteq> LS_BLACKBOX_PROFILE_ANOMALY
                 then s\<lparr>previous_profile := fst (bb_profile s)\<rparr> else s)
        in s\<lparr>bb_profile := metadata_store LS_BLACKBOX_PROFILE_ANOMALY,
             bb_anomaly_until_ms := metadata_store (now + duration_ms)\<rparr>)"

text \<open>The poll reads the clock only when the runtime is initialised.\<close>

definition ls_blackbox_poll :: "bool \<Rightarrow> u32 \<Rightarrow> ls_blackbox \<Rightarrow> ls_blackbox" where
  "ls_blackbox_poll initialized uptime s =
     (if bb_magic s \<noteq> LS_BLACKBOX_MAGIC \<or> fst (bb_profile s) \<noteq> LS_BLACKBOX_PROFILE_ANOMALY \<or>
         fst (bb_anomaly_until_ms s) = 0 \<or> \<not> initialized
      then s
      else if 0 \<le> sint (uptime - fst (bb_anomaly_until_ms s))
      then s\<lparr>bb_profile := metadata_store (previous_profile s),
             bb_anomaly_until_ms := metadata_store 0\<rparr>
      else s)"

text \<open>The search of a sequence number over the slots.\<close>

fun find_sequence :: "u32 \<Rightarrow> ls_blackbox_retained_record list \<Rightarrow> ls_blackbox_record_t option" where
  "find_sequence sequence [] = None"
| "find_sequence sequence (rr # rrs) =
     (if blackbox_record_valid rr \<and> rr_sequence rr = sequence then Some (rr_record rr)
      else find_sequence sequence rrs)"

text \<open>The loop of the copy stops at the newest record; not returning is \<open>None\<close>.\<close>

partial_function (option) copy_loop ::
    "ls_blackbox_retained_record list \<Rightarrow> nat \<Rightarrow> u32 \<Rightarrow> u32 \<Rightarrow> ls_blackbox_record_t list \<Rightarrow>
     ls_blackbox_record_t list option" where
  "copy_loop rrs wanted newest sequence out =
     (if length out < wanted then
        (let out = (case find_sequence sequence rrs of None \<Rightarrow> out | Some r \<Rightarrow> out @ [r])
         in if sequence = newest then Some out
            else copy_loop rrs wanted newest (sequence_after sequence) out)
      else Some out)"

definition ls_blackbox_copy ::
    "nat \<Rightarrow> ls_blackbox \<Rightarrow> ((ls_result \<times> ls_blackbox_record_t list) \<times> ls_blackbox) option" where
  "ls_blackbox_copy capacity s =
     (let s = ensure_initialised s;
          (newest, valid) = newest_loop (bb_records s) 0 0;
          wanted = (if valid < capacity then valid else capacity)
      in if wanted = 0 then Some ((LS_OK, []), s)
         else case copy_loop (bb_records s) wanted newest (sequence_before newest (wanted - 1)) [] of
                None \<Rightarrow> None
              | Some out \<Rightarrow> Some ((LS_OK, out), s))"

fun step_back :: "u32 \<Rightarrow> nat \<Rightarrow> u32" where
  "step_back target 0 = target"
| "step_back target (Suc age) = step_back (sequence_before target 1) age"

definition ls_blackbox_get_recent ::
    "nat \<Rightarrow> ls_blackbox \<Rightarrow> (ls_result \<times> ls_blackbox_record_t option) \<times> ls_blackbox" where
  "ls_blackbox_get_recent age s =
     (let s = ensure_initialised s;
          (newest, valid) = newest_loop (bb_records s) 0 0
      in if age \<ge> valid \<or> newest = 0 then ((LS_EAGAIN, None), s)
         else case find_sequence (step_back newest age) (bb_records s) of
                Some r \<Rightarrow> ((LS_OK, Some r), s)
              | None \<Rightarrow> ((LS_EAGAIN, None), s))"

definition ls_blackbox_get_stats :: "ls_blackbox \<Rightarrow> ls_blackbox_stats \<times> ls_blackbox" where
  "ls_blackbox_get_stats s =
     (let s = ensure_initialised s
      in (\<lparr>bs_capacity = length (bb_records s),
           bs_count = length (filter blackbox_record_valid (bb_records s)),
           bs_total_records = fst (bb_total_records s),
           bs_overwritten_records = fst (bb_overwritten_records s),
           bs_frozen = (fst (bb_frozen s) \<noteq> 0), bs_profile = fst (bb_profile s),
           bs_anomaly_until_ms = fst (bb_anomaly_until_ms s)\<rparr>, s))"

section \<open>Facts about sequence numbers\<close>

lemma sequence_is_newer_iff:
  assumes "a < 2 ^ 32" and "b < 2 ^ 32" and "a < b + 2 ^ 31" and "b < a + 2 ^ 31"
  shows "sequence_is_newer (word_of_nat a) (word_of_nat b) \<longleftrightarrow> b < a"
proof (cases "b \<le> a")
  case True
  then have "(word_of_nat a - word_of_nat b :: u32) = word_of_nat (a - b)" by simp
  moreover have "sint (word_of_nat (a - b) :: u32) = int (a - b)"
    using assms True by (simp add: signed_of_nat signed_take_bit_int_eq_self del: of_nat_diff)
  ultimately show ?thesis using True by (simp add: sequence_is_newer_def)
next
  case False
  then have "(word_of_nat a - word_of_nat b :: u32) = word_of_int (int a - int b)"
    by simp
  moreover have "sint (word_of_int (int a - int b) :: u32) = int a - int b"
    using assms False by (simp add: signed_of_int signed_take_bit_int_eq_self del: of_int_diff)
  ultimately show ?thesis using False by (simp add: sequence_is_newer_def)
qed

lemma sequence_before_of_nat:
  "j < a \<Longrightarrow> a < 2 ^ 32 \<Longrightarrow> sequence_before (word_of_nat a) j = word_of_nat (a - j)"
proof (induction j arbitrary: a)
  case (Suc j)
  then have "(word_of_nat a :: u32) \<noteq> 1"
    by (simp add: word_unat_eq_iff unat_of_nat take_bit_nat_eq_self)
  moreover have "(word_of_nat a - 1 :: u32) = word_of_nat (a - 1)" using Suc.prems by simp
  ultimately show ?case using Suc.IH [of "a - 1"] Suc.prems by (simp del: of_nat_diff)
qed simp

lemma step_back_sequence_before: "step_back s j = sequence_before s j"
  by (induction j arbitrary: s) (simp_all add: numeral_eq_Suc)

lemma sequence_after_of_nat:
  assumes "a < 2 ^ 32 - 1"
  shows "sequence_after (word_of_nat a) = word_of_nat (Suc a)"
proof -
  have "unat (word_of_nat a :: u32) = a"
    using assms by (simp add: unat_of_nat take_bit_nat_eq_self)
  moreover have "unat (- 1 :: u32) = 2 ^ 32 - 1"
    by (simp add: unsigned_minus_1_eq_mask mask_eq_exp_minus_1)
  ultimately have "(word_of_nat a :: u32) \<noteq> - 1" using assms by auto
  then show ?thesis by (simp add: sequence_after_def add.commute)
qed

section \<open>The log of recent records\<close>

text \<open>
  \<open>bb_ok\<close> holds of a recorder whose numbers have not wrapped: the metadata agree with their
  inverses and with one another, and the valid slots are exactly the window of the last
  \<open>log_size\<close> numbers, each in its slot. \<open>bb_log\<close> lists the window, the oldest record first.
\<close>

definition log_end :: "ls_blackbox \<Rightarrow> nat" where
  "log_end s = unat (fst (bb_next_sequence s))"

definition log_size :: "ls_blackbox \<Rightarrow> nat" where
  "log_size s = min (length (bb_records s)) (log_end s - 1)"

definition log_slot :: "ls_blackbox \<Rightarrow> nat \<Rightarrow> ls_blackbox_retained_record" where
  "log_slot s q = bb_records s ! ((q - 1) mod length (bb_records s))"

definition bb_log :: "ls_blackbox \<Rightarrow> ls_blackbox_record_t list" where
  "bb_log s = map (\<lambda>q. rr_record (log_slot s q)) [log_end s - log_size s..<log_end s]"

definition bb_window :: "ls_blackbox \<Rightarrow> bool" where
  "bb_window s \<longleftrightarrow>
     (\<forall>q \<in> {log_end s - log_size s..<log_end s}.
        blackbox_record_valid (log_slot s q) \<and> unat (rr_sequence (log_slot s q)) = q) \<and>
     (\<forall>i < length (bb_records s). blackbox_record_valid (bb_records s ! i) \<longrightarrow>
        unat (rr_sequence (bb_records s ! i)) \<in> {log_end s - log_size s..<log_end s} \<and>
        i = (unat (rr_sequence (bb_records s ! i)) - 1) mod length (bb_records s))"

definition bb_counters :: "ls_blackbox \<Rightarrow> bool" where
  "bb_counters s \<longleftrightarrow>
     metadata_valid (bb_next_sequence s) \<and> 0 < log_end s \<and>
     metadata_valid (bb_total_records s) \<and> unat (fst (bb_total_records s)) = log_end s - 1 \<and>
     metadata_valid (bb_overwritten_records s) \<and>
     unat (fst (bb_overwritten_records s)) = log_end s - 1 - length (bb_records s)"

definition bb_ok :: "ls_blackbox \<Rightarrow> bool" where
  "bb_ok s \<longleftrightarrow>
     bb_magic s = LS_BLACKBOX_MAGIC \<and> bb_version s = LS_BLACKBOX_VERSION \<and>
     0 < length (bb_records s) \<and> length (bb_records s) < 2 ^ 31 \<and>
     bb_counters s \<and> bb_window s \<and>
     metadata_valid (bb_anomaly_until_ms s) \<and> metadata_valid (bb_frozen s) \<and>
     metadata_valid (bb_profile s) \<and> fst (bb_profile s) \<le> LS_BLACKBOX_PROFILE_ANOMALY \<and>
     previous_profile s \<le> LS_BLACKBOX_PROFILE_ANOMALY"

lemma metadata_store_valid [simp]: "metadata_valid (metadata_store v)"
  by (simp add: metadata_valid_def metadata_store_def)

lemma fst_metadata_store [simp]: "fst (metadata_store v) = v"
  by (simp add: metadata_store_def)

lemma metadata_valid_store: "metadata_valid p \<longleftrightarrow> p = metadata_store (fst p)"
  by (cases p) (auto simp: metadata_valid_def metadata_store_def)

lemma log_end_bound: "log_end s < 2 ^ 32"
  using unsigned_less [of "fst (bb_next_sequence s)", where ?'a = nat] by (simp add: log_end_def)

lemma length_bb_log [simp]: "length (bb_log s) = log_size s"
  by (simp add: bb_log_def log_size_def)

lemma ensure_initialised_ok [simp]: "bb_ok s \<Longrightarrow> ensure_initialised s = s"
  by (simp add: ensure_initialised_def bb_ok_def)

text \<open>Numbers less than the capacity apart have different slots.\<close>

lemma mod_neq_near: "a < b \<Longrightarrow> b < a + m \<Longrightarrow> a mod m \<noteq> b mod m" for a b m :: nat
  by (metis (no_types, lifting) add_diff_inverse_nat dvd_imp_le le_less_trans less_imp_le
      linorder_not_less mod_eq_dvd_iff_nat nat_add_left_cancel_less zero_less_diff)

text \<open>The scan finds the largest number, when all are within half of the range.\<close>

lemma newest_loop_max:
  assumes "\<forall>rr \<in> set rrs. blackbox_record_valid rr \<longrightarrow> lo \<le> unat (rr_sequence rr) \<and> unat (rr_sequence rr) < lo + 2 ^ 31"
    and "h = 0 \<or> lo \<le> unat h \<and> unat h < lo + 2 ^ 31" and "0 < lo"
  shows "newest_loop rrs h v =
    (word_of_nat (fold (\<lambda>rr. max (unat (rr_sequence rr))) (filter blackbox_record_valid rrs) (unat h)),
     v + length (filter blackbox_record_valid rrs))"
  using assms(1,2)
proof (induction rrs arbitrary: h v)
  case (Cons rr rrs)
  show ?case
  proof (cases "blackbox_record_valid rr")
    case True
    define h' where "h' = (if h = 0 \<or> sequence_is_newer (rr_sequence rr) h then rr_sequence rr else h)"
    have r: "lo \<le> unat (rr_sequence rr)" "unat (rr_sequence rr) < lo + 2 ^ 31"
      using Cons.prems(1) True by simp_all
    have "h \<noteq> 0 \<Longrightarrow> sequence_is_newer (rr_sequence rr) h \<longleftrightarrow> unat h < unat (rr_sequence rr)"
      using sequence_is_newer_iff [of "unat (rr_sequence rr)" "unat h"] Cons.prems(2) r
        unsigned_less [of "rr_sequence rr", where ?'a = nat] unsigned_less [of h, where ?'a = nat]
      by simp
    then have h': "unat h' = max (unat (rr_sequence rr)) (unat h)"
      by (cases "h = 0") (auto simp: h'_def max_def)
    then have "h' = 0 \<or> lo \<le> unat h' \<and> unat h' < lo + 2 ^ 31"
      using Cons.prems(2) r by (auto simp: max_def)
    then have "newest_loop rrs h' (v + 1) =
      (word_of_nat (fold (\<lambda>rr. max (unat (rr_sequence rr))) (filter blackbox_record_valid rrs) (unat h')),
       v + 1 + length (filter blackbox_record_valid rrs))"
      using Cons.IH [of h' "v + 1"] Cons.prems(1) by simp
    then show ?thesis using True by (simp add: h'_def [symmetric] h')
  next
    case False
    then show ?thesis using Cons.IH [of h v] Cons.prems by simp
  qed
qed simp

lemma fold_max_eqI:
  assumes "\<forall>x \<in> set xs. f x \<le> (n :: nat)" and "\<exists>x \<in> set xs. f x = n" and "z \<le> n"
  shows "fold (\<lambda>x. max (f x)) xs z = n"
proof -
  have "fold (\<lambda>x. max (f x)) ys z = (if ys = [] then z else max z (Max (f ` set ys)))" for ys
    by (induction ys arbitrary: z) (auto simp: max.assoc max.commute max.left_commute)
  moreover have "xs \<noteq> []" using assms(2) by auto
  moreover have "Max (f ` set xs) = n" using assms(1,2) by (intro Max_eqI) auto
  ultimately show ?thesis using assms(3) by simp
qed

lemma bb_window_slot:
  assumes "bb_ok s" and "q \<in> {log_end s - log_size s..<log_end s}"
  shows "blackbox_record_valid (log_slot s q)" and "unat (rr_sequence (log_slot s q)) = q"
  using assms by (auto simp: bb_ok_def bb_window_def)

lemma bb_window_valid:
  assumes "bb_ok s" and "i < length (bb_records s)" and "blackbox_record_valid (bb_records s ! i)"
  shows "unat (rr_sequence (bb_records s ! i)) \<in> {log_end s - log_size s..<log_end s}"
    and "i = (unat (rr_sequence (bb_records s ! i)) - 1) mod length (bb_records s)"
  using assms by (auto simp: bb_ok_def bb_window_def)

lemma log_bounds:
  assumes "bb_ok s"
  shows "0 < length (bb_records s)" and "length (bb_records s) < 2 ^ 31"
    and "0 < log_end s - log_size s" and "log_end s - log_size s \<le> log_end s"
    and "log_size s \<le> length (bb_records s)"
  using assms by (auto simp: bb_ok_def bb_counters_def log_size_def)

lemma find_unique:
  assumes "x \<in> set xs" and "P x" and unique: "\<And>y. y \<in> set xs \<Longrightarrow> P y \<Longrightarrow> y = x"
  shows "find P xs = Some x"
proof (cases "find P xs")
  case None
  then show ?thesis using assms(1,2) by (simp only: find_None_iff) blast
next
  case (Some y)
  then have "y \<in> set xs" and "P y" by (auto simp only: find_Some_iff nth_mem)
  then show ?thesis using unique Some by blast
qed

lemma find_sequence_window:
  assumes "bb_ok s" and "q \<in> {log_end s - log_size s..<log_end s}"
  shows "find_sequence (word_of_nat q) (bb_records s) = Some (rr_record (log_slot s q))"
proof -
  let ?hit = "\<lambda>rr. blackbox_record_valid rr \<and> rr_sequence rr = word_of_nat q"
  have find: "find_sequence w rrs =
      map_option rr_record (find (\<lambda>rr. blackbox_record_valid rr \<and> rr_sequence rr = w) rrs)" for w rrs
    by (induction rrs) auto
  have q: "unat (word_of_nat q :: u32) = q"
    using assms(2) log_end_bound [of s] by (simp add: unat_of_nat take_bit_nat_eq_self)
  have "?hit (log_slot s q)"
    using bb_window_slot [OF assms] by (simp add: word_unat_eq_iff q)
  moreover have "log_slot s q \<in> set (bb_records s)"
    using log_bounds(1) [OF assms(1)] by (simp add: log_slot_def)
  moreover have "rr = log_slot s q" if rr: "rr \<in> set (bb_records s)" and hit: "?hit rr" for rr
  proof -
    obtain i where "i < length (bb_records s)" and "rr = bb_records s ! i"
      using rr by (auto simp: in_set_conv_nth)
    then show ?thesis
      using bb_window_valid(2) [OF assms(1), of i] hit by (simp add: log_slot_def q)
  qed
  ultimately have "find ?hit (bb_records s) = Some (log_slot s q)"
    by (intro find_unique)
  then show ?thesis by (simp add: find)
qed

lemma count_valid:
  assumes "bb_ok s"
  shows "length (filter blackbox_record_valid (bb_records s)) = log_size s"
proof -
  let ?m = "length (bb_records s)" and ?W = "{log_end s - log_size s..<log_end s}"
  let ?f = "\<lambda>q. (q - 1) mod ?m"
  have "inj_on ?f ?W"
  proof (rule linorder_inj_onI')
    fix a b assume "a \<in> ?W" "b \<in> ?W" "a < b"
    then have "a - 1 < b - 1" and "b - 1 < a - 1 + ?m"
      using log_bounds [OF assms] by auto
    then show "?f a \<noteq> ?f b" by (rule mod_neq_near)
  qed
  moreover have "{i. i < ?m \<and> blackbox_record_valid (bb_records s ! i)} = ?f ` ?W"
    using bb_window_slot(1) [OF assms] bb_window_valid [OF assms] log_bounds(1) [OF assms]
    by (fastforce simp: log_slot_def)
  ultimately show ?thesis
    by (simp add: length_filter_conv_card card_image) (simp add: log_size_def)
qed

lemma newest_loop_ok:
  assumes "bb_ok s"
  shows "newest_loop (bb_records s) 0 0 = (word_of_nat (if log_size s = 0 then 0 else log_end s - 1), log_size s)"
proof -
  let ?rs = "filter blackbox_record_valid (bb_records s)"
  have range: "\<forall>rr \<in> set ?rs. unat (rr_sequence rr) \<in> {log_end s - log_size s..<log_end s}"
    using bb_window_valid(1) [OF assms] by (auto simp: in_set_conv_nth)
  have loop: "newest_loop (bb_records s) 0 0 =
      (word_of_nat (fold (\<lambda>rr. max (unat (rr_sequence rr))) ?rs 0), length ?rs)"
    using newest_loop_max [of "bb_records s" "log_end s - log_size s" 0 0] range log_bounds [OF assms]
    by fastforce
  show ?thesis
  proof (cases "log_size s = 0")
    case True
    then show ?thesis using loop count_valid [OF assms] by simp
  next
    case False
    have "fold (\<lambda>rr. max (unat (rr_sequence rr))) ?rs 0 = log_end s - 1"
    proof (rule fold_max_eqI)
      show "\<forall>rr \<in> set ?rs. unat (rr_sequence rr) \<le> log_end s - 1" using range by auto
      have "log_slot s (log_end s - 1) \<in> set ?rs"
        using bb_window_slot(1) [OF assms, of "log_end s - 1"] log_bounds [OF assms] False
        by (auto simp: log_slot_def)
      then show "\<exists>rr \<in> set ?rs. unat (rr_sequence rr) = log_end s - 1"
        using bb_window_slot(2) [OF assms, of "log_end s - 1"] log_bounds [OF assms] False by auto
    qed simp
    then show ?thesis using loop count_valid [OF assms] False by simp
  qed
qed

section \<open>Recording\<close>

definition last_n :: "nat \<Rightarrow> 'a list \<Rightarrow> 'a list" where
  "last_n n xs = drop (length xs - n) xs"

definition kind_ok :: "ls_blackbox_record_t \<Rightarrow> bool" where
  "kind_ok r \<longleftrightarrow> LS_BLACKBOX_STATE \<le> bb_kind r \<and> bb_kind r \<le> LS_BLACKBOX_USER"

text \<open>The recorder after a record was accepted.\<close>

definition recorded :: "u32 \<Rightarrow> ls_blackbox_record_t \<Rightarrow> ls_blackbox \<Rightarrow> ls_blackbox" where
  "recorded now r s =
     s\<lparr>bb_records := (bb_records s)[(log_end s - 1) mod length (bb_records s) :=
         retained_record now (fst (bb_next_sequence s)) r],
       bb_total_records := metadata_store (word_of_nat (log_end s)),
       bb_overwritten_records := metadata_store (word_of_nat (log_end s - length (bb_records s))),
       bb_next_sequence := metadata_store (word_of_nat (Suc (log_end s)))\<rparr>"

lemma retained_record_fields [simp]:
  "rr_sequence (retained_record now q r) = q"
  "rr_record (retained_record now q r) = stamped now r"
  "blackbox_record_valid (retained_record now q r) \<longleftrightarrow> q \<noteq> 0"
  by (simp_all add: retained_record_def blackbox_record_valid_def blackbox_record_crc_def Let_def)

lemma next_sequence_of_nat: "fst (bb_next_sequence s) = word_of_nat (log_end s)"
  by (simp add: log_end_def)

lemma unat_word_of_nat32: "n < 2 ^ 32 \<Longrightarrow> unat (word_of_nat n :: u32) = n"
  by (simp add: unat_of_nat take_bit_nat_eq_self)

lemma word_of_nat_eqI: "unat x = n \<Longrightarrow> x = word_of_nat n"
  by auto

lemma ls_blackbox_record_accepted:
  assumes ok: "bb_ok s" and room: "log_end s < 2 ^ 32 - 1"
    and r: "kind_ok r" "fst (bb_frozen s) = 0" "profile_accepts r s"
  shows "ls_blackbox_record now (Some r) s = (LS_OK, recorded now r s)"
proof -
  let ?m = "length (bb_records s)"
  have pos: "0 < log_end s" and total: "unat (fst (bb_total_records s)) = log_end s - 1"
    and over: "unat (fst (bb_overwritten_records s)) = log_end s - 1 - ?m"
    and ov: "metadata_valid (bb_overwritten_records s)"
    using ok by (auto simp: bb_ok_def bb_counters_def)
  have inc: "fst p \<noteq> - 1 \<and> fst p + 1 = (word_of_nat (Suc n) :: u32)"
    if "unat (fst p) = n" and "n < 2 ^ 32 - 1" for p :: "u32 guarded" and n
  proof -
    have "unat (- 1 :: u32) = 2 ^ 32 - 1"
      by (simp add: unsigned_minus_1_eq_mask mask_eq_exp_minus_1)
    then have "fst p \<noteq> - 1" using that by auto
    moreover have "fst p = word_of_nat n" using that(1) by auto
    ultimately show ?thesis by (simp add: add.commute)
  qed
  have nonzero: "fst (bb_next_sequence s) \<noteq> 0" using pos by (auto simp: log_end_def)
  have slot: "unat (word_of_nat (log_end s) - 1 :: u32) = log_end s - 1"
    using nonzero by (simp add: log_end_def unat_minus_one)
  have t: "fst (bb_total_records s) \<noteq> - 1" "fst (bb_total_records s) + 1 = word_of_nat (log_end s)"
    using inc [OF total] pos room by auto
  have "log_end s > ?m \<Longrightarrow>
      fst (bb_overwritten_records s) \<noteq> - 1 \<and>
      fst (bb_overwritten_records s) + 1 = word_of_nat (log_end s - ?m)"
    using inc [OF over] room by (auto simp: Suc_diff_le)
  moreover have "bb_overwritten_records s = metadata_store (word_of_nat (log_end s - ?m))"
    if "\<not> log_end s > ?m"
  proof -
    have "fst (bb_overwritten_records s) = word_of_nat (log_end s - ?m)"
      using over that by (simp add: unat_eq_zero)
    then show ?thesis using ov by (simp only: metadata_valid_store)
  qed
  ultimately have over': "?m < log_end s \<Longrightarrow> fst (bb_overwritten_records s) \<noteq> - 1 \<and>
      fst (bb_overwritten_records s) + 1 = word_of_nat (log_end s - ?m)"
    and same: "\<not> ?m < log_end s \<Longrightarrow>
      bb_overwritten_records s = metadata_store (word_of_nat (log_end s - ?m))" by auto
  note step = ls_blackbox_record_def recorded_def kind_ok_def Let_def slot not_less
    unat_word_of_nat32 next_sequence_of_nat sequence_after_of_nat
  show ?thesis
  proof (cases "?m < log_end s")
    case True
    then show ?thesis
      using over' ok r nonzero t room by (simp add: step del: of_nat_Suc)
  next
    case False
    then have "recorded now r s = s\<lparr>bb_records := bb_records (recorded now r s),
        bb_total_records := metadata_store (word_of_nat (log_end s)),
        bb_next_sequence := metadata_store (word_of_nat (Suc (log_end s)))\<rparr>"
      using same by (simp add: recorded_def)
    then show ?thesis
      using False ok r nonzero t room by (simp add: step del: of_nat_Suc)
  qed
qed

lemma recorded_fields [simp]:
  "length (bb_records (recorded now r s)) = length (bb_records s)"
  "bb_magic (recorded now r s) = bb_magic s" "bb_version (recorded now r s) = bb_version s"
  "bb_frozen (recorded now r s) = bb_frozen s" "bb_profile (recorded now r s) = bb_profile s"
  "bb_anomaly_until_ms (recorded now r s) = bb_anomaly_until_ms s"
  "previous_profile (recorded now r s) = previous_profile s"
  by (simp_all add: recorded_def)

lemma log_end_recorded: "log_end s < 2 ^ 32 - 1 \<Longrightarrow> log_end (recorded now r s) = Suc (log_end s)"
  by (simp add: recorded_def log_end_def [of "_\<lparr>bb_next_sequence := _\<rparr>"] unat_word_of_nat32 del: of_nat_Suc)

lemma log_slot_recorded:
  assumes "bb_ok s" and "log_end s < 2 ^ 32 - 1" and "0 < q"
    and "log_end s < q + length (bb_records s)" and "q \<le> log_end s"
  shows "log_slot (recorded now r s) q =
    (if q = log_end s then retained_record now (fst (bb_next_sequence s)) r else log_slot s q)"
proof (cases "q = log_end s")
  case True
  then show ?thesis using log_bounds(1) [OF assms(1)] by (simp add: log_slot_def recorded_def)
next
  case False
  then have "(q - 1) mod length (bb_records s) \<noteq> (log_end s - 1) mod length (bb_records s)"
    using assms(3-5) by (intro mod_neq_near) auto
  then show ?thesis using False by (simp add: log_slot_def recorded_def)
qed

lemma window_start: "0 < m \<Longrightarrow> 0 < e \<Longrightarrow> Suc e - min m e \<le> e" for m e :: nat
  by auto

lemma window_next:
  "e - min m (e - 1) \<le> q \<Longrightarrow> q < e \<Longrightarrow> (m < e \<Longrightarrow> q \<noteq> e - m) \<Longrightarrow> 0 < q \<Longrightarrow> Suc e - min m e \<le> q"
  for m e q :: nat
  by (cases "m < e"; cases "m \<le> e - 1") (auto simp: min_def)

lemma bb_window_recorded:
  assumes ok: "bb_ok s" and room: "log_end s < 2 ^ 32 - 1"
  shows "bb_window (recorded now r s)"
proof -
  let ?m = "length (bb_records s)" and ?t = "recorded now r s"
  note b = log_bounds [OF ok]
  have e: "log_end ?t = Suc (log_end s)" and n: "log_size ?t = min ?m (log_end s)"
    using log_end_recorded [OF room] by (simp_all add: log_size_def)
  have "blackbox_record_valid (log_slot ?t q) \<and> unat (rr_sequence (log_slot ?t q)) = q"
    if "q \<in> {log_end ?t - log_size ?t..<log_end ?t}" for q
  proof -
    have q: "0 < q" "log_end s < q + ?m" "q \<le> log_end s" using that e n b by auto
    moreover have "q \<in> {log_end s - log_size s..<log_end s}" if "q \<noteq> log_end s"
      using q that by (auto simp: log_size_def)
    ultimately show ?thesis
      using log_slot_recorded [OF ok room q] bb_window_slot [OF ok, of q]
      by (auto simp: log_end_def)
  qed
  moreover have "unat (rr_sequence (bb_records ?t ! i)) \<in> {log_end ?t - log_size ?t..<log_end ?t} \<and>
      i = (unat (rr_sequence (bb_records ?t ! i)) - 1) mod ?m"
    if i: "i < ?m" and v: "blackbox_record_valid (bb_records ?t ! i)" for i
  proof (cases "i = (log_end s - 1) mod ?m")
    case True
    then have "bb_records ?t ! i = retained_record now (fst (bb_next_sequence s)) r"
      using i by (simp add: recorded_def)
    moreover have "Suc (log_end s) - min ?m (log_end s) \<le> log_end s"
      using b by (intro window_start) auto
    ultimately show ?thesis using True e n by (simp add: log_end_def)
  next
    case False
    then have same: "bb_records ?t ! i = bb_records s ! i" by (simp add: recorded_def)
    let ?q = "unat (rr_sequence (bb_records s ! i))"
    have q: "?q \<in> {log_end s - log_size s..<log_end s}" and slot: "i = (?q - 1) mod ?m"
      using bb_window_valid [OF ok i] v by (simp_all add: same)
    have "?q \<noteq> log_end s - ?m" if "?m < log_end s"
    proof
      assume "?q = log_end s - ?m"
      then have "?q - 1 + ?m = log_end s - 1" using that q b by auto
      then show False using False slot by (metis mod_add_self2)
    qed
    then have "Suc (log_end s) - min ?m (log_end s) \<le> ?q"
      using q b by (intro window_next) (auto simp: log_size_def)
    then show ?thesis using same slot q e n by simp
  qed
  ultimately show ?thesis by (auto simp: bb_window_def)
qed

lemma bb_ok_recorded:
  assumes "bb_ok s" and "log_end s < 2 ^ 32 - 1"
  shows "bb_ok (recorded now r s)"
proof -
  have "bb_counters (recorded now r s)"
    using log_end_recorded [OF assms(2)] assms(2)
    by (simp add: bb_counters_def) (simp add: recorded_def unat_word_of_nat32)
  then show ?thesis
    using bb_window_recorded [OF assms] assms(1) by (simp add: bb_ok_def)
qed

lemma bb_log_recorded:
  assumes ok: "bb_ok s" and room: "log_end s < 2 ^ 32 - 1"
  shows "bb_log (recorded now r s) = last_n (length (bb_records s)) (bb_log s @ [stamped now r])"
proof -
  let ?m = "length (bb_records s)" and ?t = "recorded now r s" and ?e = "log_end s"
  note b = log_bounds [OF ok]
  define lo where "lo = Suc ?e - min ?m ?e"
  have "lo \<le> ?e" unfolding lo_def using b by (intro window_start) auto
  then have lo: "lo = (if log_size s = ?m then Suc (?e - log_size s) else ?e - log_size s)" "lo \<le> ?e"
    by (auto simp: lo_def log_size_def)
  have "bb_log ?t = map (\<lambda>q. rr_record (log_slot ?t q)) [lo..<Suc ?e]"
    using log_end_recorded [OF room] by (simp add: bb_log_def log_size_def lo_def)
  also have "\<dots> = map (\<lambda>q. rr_record (log_slot s q)) [lo..<?e] @ [stamped now r]"
    using log_slot_recorded [OF ok room] lo(2) b by (auto simp: lo_def)
  also have "map (\<lambda>q. rr_record (log_slot s q)) [lo..<?e] =
      drop (lo - (?e - log_size s)) (bb_log s)"
    using lo by (auto simp: bb_log_def drop_map)
  also have "\<dots> @ [stamped now r] = last_n ?m (bb_log s @ [stamped now r])"
    using lo b by (auto simp: last_n_def)
  finally show ?thesis .
qed

section \<open>Reading\<close>

lemma nth_bb_log:
  "i < log_size s \<Longrightarrow> bb_log s ! i = rr_record (log_slot s (log_end s - log_size s + i))"
  using diff_add_inverse2 [of "log_size s"] by (auto simp: bb_log_def log_size_def min_def)

lemma get_recent_log:
  assumes "bb_ok s"
  shows "ls_blackbox_get_recent age s =
    ((if age < log_size s then (LS_OK, Some (bb_log s ! (log_size s - 1 - age)))
      else (LS_EAGAIN, None)), s)"
proof (cases "age < log_size s")
  case True
  note b = log_bounds [OF assms] log_end_bound [of s]
  have newest: "newest_loop (bb_records s) 0 0 = (word_of_nat (log_end s - 1), log_size s)"
    using newest_loop_ok [OF assms] True by simp
  have "unat (word_of_nat (log_end s - 1) :: u32) = log_end s - 1" and "0 < log_end s - 1"
    using True b by (auto simp del: of_nat_diff intro!: unat_word_of_nat32)
  then have nz: "(word_of_nat (log_end s - 1) :: u32) \<noteq> 0" by (metis unsigned_0 less_irrefl)
  have "step_back (word_of_nat (log_end s - 1)) age = word_of_nat (log_end s - 1 - age)"
    unfolding step_back_sequence_before using True b by (intro sequence_before_of_nat) auto
  moreover have "log_end s - 1 - age \<in> {log_end s - log_size s..<log_end s}"
    using True b by auto
  ultimately have find: "find_sequence (step_back (word_of_nat (log_end s - 1)) age) (bb_records s) =
      Some (rr_record (log_slot s (log_end s - 1 - age)))"
    using find_sequence_window [OF assms] by simp
  have "log_end s - log_size s + (log_size s - 1 - age) = log_end s - 1 - age"
    using True b by auto
  then have "bb_log s ! (log_size s - 1 - age) = rr_record (log_slot s (log_end s - 1 - age))"
    using True nth_bb_log [of "log_size s - 1 - age" s] by simp
  then show ?thesis
    using assms True newest nz find
    by (simp add: ls_blackbox_get_recent_def Let_def del: of_nat_diff)
next
  case False
  then show ?thesis
    using assms newest_loop_ok [OF assms] by (simp add: ls_blackbox_get_recent_def Let_def)
qed

lemma copy_loop_window:
  assumes "bb_ok s" and "q \<in> {log_end s - log_size s..<log_end s}"
    and "wanted = length out + (log_end s - q)"
  shows "copy_loop (bb_records s) wanted (word_of_nat (log_end s - 1)) (word_of_nat q) out =
    Some (out @ map (\<lambda>q. rr_record (log_slot s q)) [q..<log_end s])"
  using assms(2,3)
proof (induction "log_end s - q" arbitrary: q out)
  case (Suc d)
  note b = log_end_bound [of s]
  have q: "q < log_end s" using Suc.prems(1) by simp
  have find: "find_sequence (word_of_nat q) (bb_records s) = Some (rr_record (log_slot s q))"
    by (rule find_sequence_window [OF assms(1) Suc.prems(1)])
  have eq: "(word_of_nat q :: u32) = word_of_nat (log_end s - 1) \<longleftrightarrow> q = log_end s - 1"
    using unat_word_of_nat32 [of q] unat_word_of_nat32 [of "log_end s - 1"] q b
    by (metis diff_le_self le_less_trans less_trans)
  show ?case
  proof (cases "q = log_end s - 1")
    case True
    then show ?thesis
      using find q Suc.prems(2)
      by (subst copy_loop.simps) (simp add: Let_def upt_rec [of "log_end s - Suc 0"] del: of_nat_diff)
  next
    case False
    have after: "sequence_after (word_of_nat q) = word_of_nat (Suc q)"
      using q b by (intro sequence_after_of_nat) auto
    have "copy_loop (bb_records s) wanted (word_of_nat (log_end s - 1)) (word_of_nat (Suc q))
        (out @ [rr_record (log_slot s q)]) =
      Some ((out @ [rr_record (log_slot s q)]) @ map (\<lambda>q. rr_record (log_slot s q)) [Suc q..<log_end s])"
      using Suc.hyps(2) Suc.prems False by (intro Suc.hyps(1)) auto
    then show ?thesis
      using find q eq False Suc.prems(2) after
      by (subst copy_loop.simps) (simp add: Let_def upt_rec [of q] del: of_nat_diff of_nat_Suc)
  qed
qed simp

lemma copy_log:
  assumes "bb_ok s"
  shows "ls_blackbox_copy capacity s = Some ((LS_OK, last_n capacity (bb_log s)), s)"
proof (cases "min (log_size s) capacity = 0")
  case True
  then show ?thesis
    using assms newest_loop_ok [OF assms]
    by (auto simp: ls_blackbox_copy_def Let_def last_n_def min_def split: if_splits)
next
  case False
  note b = log_bounds [OF assms] log_end_bound [of s]
  define w where "w = min (log_size s) capacity"
  have w: "0 < w" "w \<le> log_size s" using False by (auto simp: w_def)
  have newest: "newest_loop (bb_records s) 0 0 = (word_of_nat (log_end s - 1), log_size s)"
    using newest_loop_ok [OF assms] w by simp
  have "sequence_before (word_of_nat (log_end s - 1)) (w - 1) = word_of_nat (log_end s - 1 - (w - 1))"
    using w b by (intro sequence_before_of_nat) auto
  then have first: "sequence_before (word_of_nat (log_end s - 1)) (w - 1) = word_of_nat (log_end s - w)"
    using w b by (simp del: of_nat_diff)
  have "copy_loop (bb_records s) w (word_of_nat (log_end s - 1)) (word_of_nat (log_end s - w)) [] =
      Some (map (\<lambda>q. rr_record (log_slot s q)) [log_end s - w..<log_end s])"
    using w b by (subst copy_loop_window [OF assms]) auto
  moreover have "map (\<lambda>q. rr_record (log_slot s q)) [log_end s - w..<log_end s] = last_n capacity (bb_log s)"
    using w b by (auto simp: last_n_def bb_log_def drop_map w_def min_def)
  moreover have "(if log_size s < capacity then log_size s else capacity) = w"
    by (auto simp: w_def)
  ultimately show ?thesis
    using assms newest first w by (simp add: ls_blackbox_copy_def Let_def del: of_nat_diff)
qed

text \<open>The copy returns on every content of the memory: the number of the loop reaches the newest one.\<close>

lemma copy_loop_returns:
  assumes "newest \<noteq> 0" and "length out \<le> wanted"
  shows "\<exists>out'. copy_loop rrs wanted newest sequence out = Some out' \<and> length out' \<le> wanted"
  using assms(2)
proof (induction "unat (newest - sequence)" arbitrary: sequence out rule: less_induct)
  case less
  show ?case
  proof (cases "sequence = newest \<or> \<not> length out < wanted")
    case True
    then show ?thesis
      using less.prems by (subst copy_loop.simps) (auto simp: Let_def split: option.split)
  next
    case False
    then have nz: "newest - sequence \<noteq> 0" by (auto simp del: right_minus_eq simp: right_minus_eq)
    have "unat (newest - sequence_after sequence) < unat (newest - sequence)"
    proof (cases "sequence = - 1")
      case True
      then have "newest - sequence = newest + 1" by simp
      moreover have "unat (newest + 1) = unat newest + 1"
        using nz True unat_minus_one [of "newest + 1"] by (simp add: unat_gt_0 Suc_leI)
      ultimately show ?thesis
        using True assms(1) unat_minus_one [of newest] by (simp add: sequence_after_def)
    next
      case False
      then have after: "newest - sequence_after sequence = newest - sequence - 1"
        by (simp add: sequence_after_def)
      have "0 < unat (newest - sequence)" using nz unat_gt_0 by blast
      then show ?thesis unfolding after unat_minus_one [OF nz] by linarith
    qed
    then show ?thesis
      using False less.hyps [of "sequence_after sequence"]
      by (subst copy_loop.simps) (auto simp: Let_def split: option.split)
  qed
qed

lemma newest_loop_zero: "fst (newest_loop rrs h v) = 0 \<Longrightarrow> h = 0 \<and> snd (newest_loop rrs h v) = v"
proof (induction rrs arbitrary: h v)
  case (Cons rr rrs)
  show ?case
  proof (cases "blackbox_record_valid rr")
    case True
    then have "rr_sequence rr \<noteq> 0" by (simp add: blackbox_record_valid_def)
    define h' where "h' = (if h = 0 \<or> sequence_is_newer (rr_sequence rr) h then rr_sequence rr else h)"
    have "h' \<noteq> 0" using \<open>rr_sequence rr \<noteq> 0\<close> by (simp add: h'_def)
    then show ?thesis using Cons.IH [of h' "v + 1"] Cons.prems True by (simp add: h'_def [symmetric])
  next
    case False
    then show ?thesis using Cons.IH [of h v] Cons.prems by auto
  qed
qed simp

text \<open>C38: whatever the retained memory holds, after a power-up or a reset in the middle of a write,
  \<^verbatim>\<open>ls_blackbox_copy\<close> terminates, returns \<open>LS_OK\<close> and writes at most as many records as the caller
  has room for.\<close>

theorem blackbox_copy_terminates:
  "\<exists>out t. ls_blackbox_copy capacity s = Some ((LS_OK, out), t) \<and> length out \<le> capacity"
proof -
  obtain newest valid where scan: "newest_loop (bb_records (ensure_initialised s)) 0 0 = (newest, valid)"
    by (cases "newest_loop (bb_records (ensure_initialised s)) 0 0")
  show ?thesis
  proof (cases "newest = 0")
    case True
    then have "valid = 0" using newest_loop_zero [of "bb_records (ensure_initialised s)" 0 0] scan by simp
    then show ?thesis by (simp add: ls_blackbox_copy_def Let_def scan)
  next
    case False
    define wanted where "wanted = (if valid < capacity then valid else capacity)"
    obtain out where "copy_loop (bb_records (ensure_initialised s)) wanted newest
        (sequence_before newest (wanted - 1)) [] = Some out" and "length out \<le> wanted"
      using copy_loop_returns [OF False, of "[]" wanted "bb_records (ensure_initialised s)"
          "sequence_before newest (wanted - 1)"] by auto
    then show ?thesis
      by (auto simp: ls_blackbox_copy_def Let_def scan wanted_def split: if_splits)
  qed
qed

section \<open>Refinement of a bounded log\<close>

text \<open>
  The abstract recorder: a log that keeps the last \<open>fl_room\<close> records, the number of all records, and
  the switches. It has no slots, checksums, sequence numbers or inverses.
\<close>

record flight_log =
  fl_room :: nat
  fl_entries :: "ls_blackbox_record_t list"
  fl_total :: nat
  fl_frozen :: bool
  fl_profile :: u8
  fl_previous :: u8
  fl_until :: u32

datatype blackbox_op =
    Op_record u32 "ls_blackbox_record_t option" | Op_freeze | Op_thaw | Op_clear | Op_restart
  | Op_set_profile u8 | Op_anomaly_begin u32 u32 | Op_poll bool u32
  | Op_copy nat | Op_get_recent nat | Op_get_stats

datatype blackbox_out =
    Out_none | Out_result ls_result | Out_diverges
  | Out_records ls_result "ls_blackbox_record_t list"
  | Out_recent ls_result "ls_blackbox_record_t option" | Out_stats ls_blackbox_stats

fun log_record :: "u32 \<Rightarrow> ls_blackbox_record_t option \<Rightarrow> flight_log \<Rightarrow> ls_result \<times> flight_log" where
  "log_record now None l = (LS_EINVAL, l)"
| "log_record now (Some r) l =
     (if bb_kind r \<notin> {LS_BLACKBOX_STATE..LS_BLACKBOX_USER} then (LS_EINVAL, l)
      else if fl_frozen l then (LS_EBUSY, l)
      else if fl_profile l = LS_BLACKBOX_PROFILE_QUIET \<and>
              bb_kind r \<notin> {LS_BLACKBOX_WATCHDOG, LS_BLACKBOX_POWER} \<and>
              bb_flags r AND (LS_BLACKBOX_IMPORTANT OR LS_BLACKBOX_ERROR) = 0
      then (LS_OK, l)
      else (LS_OK, l\<lparr>fl_entries := last_n (fl_room l) (fl_entries l @ [stamped now r]),
                     fl_total := Suc (fl_total l)\<rparr>))"

fun log_step :: "blackbox_op \<Rightarrow> flight_log \<Rightarrow> blackbox_out \<times> flight_log" where
  "log_step (Op_record now r) l = (let (res, l) = log_record now r l in (Out_result res, l))"
| "log_step Op_freeze l = (Out_none, l\<lparr>fl_frozen := True\<rparr>)"
| "log_step Op_thaw l = (Out_none, l\<lparr>fl_frozen := False\<rparr>)"
| "log_step Op_clear l =
     (Out_none, l\<lparr>fl_entries := [], fl_total := 0, fl_frozen := False,
                  fl_profile := LS_BLACKBOX_PROFILE_NORMAL, fl_previous := LS_BLACKBOX_PROFILE_NORMAL,
                  fl_until := 0\<rparr>)"
| "log_step Op_restart l = (Out_none, l\<lparr>fl_previous := fl_profile l\<rparr>)"
| "log_step (Op_set_profile p) l =
     (Out_none,
      if p > LS_BLACKBOX_PROFILE_ANOMALY then l
      else l\<lparr>fl_profile := p, fl_previous := p,
             fl_until := (if p = LS_BLACKBOX_PROFILE_ANOMALY then fl_until l else 0)\<rparr>)"
| "log_step (Op_anomaly_begin now duration) l =
     (Out_none,
      if duration = 0 then l
      else l\<lparr>fl_previous := (if fl_profile l = LS_BLACKBOX_PROFILE_ANOMALY then fl_previous l
                             else fl_profile l),
             fl_profile := LS_BLACKBOX_PROFILE_ANOMALY, fl_until := now + duration\<rparr>)"
| "log_step (Op_poll initialized uptime) l =
     (Out_none,
      if initialized \<and> fl_profile l = LS_BLACKBOX_PROFILE_ANOMALY \<and> fl_until l \<noteq> 0 \<and>
         0 \<le> sint (uptime - fl_until l)
      then l\<lparr>fl_profile := fl_previous l, fl_until := 0\<rparr> else l)"
| "log_step (Op_copy capacity) l = (Out_records LS_OK (last_n capacity (fl_entries l)), l)"
| "log_step (Op_get_recent age) l =
     (if age < length (fl_entries l) then Out_recent LS_OK (Some (rev (fl_entries l) ! age))
      else Out_recent LS_EAGAIN None, l)"
| "log_step Op_get_stats l =
     (Out_stats
        \<lparr>bs_capacity = fl_room l, bs_count = length (fl_entries l),
         bs_total_records = word_of_nat (fl_total l),
         bs_overwritten_records = word_of_nat (fl_total l - fl_room l),
         bs_frozen = fl_frozen l, bs_profile = fl_profile l, bs_anomaly_until_ms = fl_until l\<rparr>, l)"

text \<open>The same operations on the recorder of the code.\<close>

fun blackbox_step :: "blackbox_op \<Rightarrow> ls_blackbox \<Rightarrow> blackbox_out \<times> ls_blackbox" where
  "blackbox_step (Op_record now r) s = (let (res, s) = ls_blackbox_record now r s in (Out_result res, s))"
| "blackbox_step Op_freeze s = (Out_none, ls_blackbox_freeze s)"
| "blackbox_step Op_thaw s = (Out_none, ls_blackbox_thaw s)"
| "blackbox_step Op_clear s = (Out_none, ls_blackbox_clear s)"
| "blackbox_step Op_restart s = (Out_none, ls_blackbox_init s)"
| "blackbox_step (Op_set_profile p) s = (Out_none, ls_blackbox_set_profile p s)"
| "blackbox_step (Op_anomaly_begin now duration) s = (Out_none, ls_blackbox_anomaly_begin now duration s)"
| "blackbox_step (Op_poll initialized uptime) s = (Out_none, ls_blackbox_poll initialized uptime s)"
| "blackbox_step (Op_copy capacity) s =
     (case ls_blackbox_copy capacity s of
        None \<Rightarrow> (Out_diverges, s) | Some ((res, out), s) \<Rightarrow> (Out_records res out, s))"
| "blackbox_step (Op_get_recent age) s =
     (case ls_blackbox_get_recent age s of ((res, r), s) \<Rightarrow> (Out_recent res r, s))"
| "blackbox_step Op_get_stats s = (let (st, s) = ls_blackbox_get_stats s in (Out_stats st, s))"

definition log_of :: "ls_blackbox \<Rightarrow> flight_log" where
  "log_of s =
     \<lparr>fl_room = length (bb_records s), fl_entries = bb_log s, fl_total = log_end s - 1,
      fl_frozen = (fst (bb_frozen s) \<noteq> 0), fl_profile = fst (bb_profile s),
      fl_previous = previous_profile s, fl_until = fst (bb_anomaly_until_ms s)\<rparr>"

definition bb_room :: "nat \<Rightarrow> ls_blackbox \<Rightarrow> bool" where
  "bb_room n s \<longleftrightarrow> bb_ok s \<and> log_end s + n < 2 ^ 32"

text \<open>The switches do not touch the ring.\<close>

lemma switch_ok:
  assumes "bb_magic t = bb_magic s" "bb_version t = bb_version s" "bb_records t = bb_records s"
    "bb_next_sequence t = bb_next_sequence s" "bb_total_records t = bb_total_records s"
    "bb_overwritten_records t = bb_overwritten_records s"
  shows "log_end t = log_end s" and "bb_log t = bb_log s"
    and "bb_ok s \<Longrightarrow> metadata_valid (bb_anomaly_until_ms t) \<Longrightarrow> metadata_valid (bb_frozen t) \<Longrightarrow>
      metadata_valid (bb_profile t) \<Longrightarrow> fst (bb_profile t) \<le> LS_BLACKBOX_PROFILE_ANOMALY \<Longrightarrow>
      previous_profile t \<le> LS_BLACKBOX_PROFILE_ANOMALY \<Longrightarrow> bb_ok t"
  using assms
  by (simp_all add: log_end_def log_size_def log_slot_def bb_log_def bb_ok_def bb_counters_def
      bb_window_def cong: map_cong)

lemma log_switch [simp]:
  "log_end (s\<lparr>previous_profile := p\<rparr>) = log_end s" "bb_log (s\<lparr>previous_profile := p\<rparr>) = bb_log s"
  "log_end (s\<lparr>bb_profile := g\<rparr>) = log_end s" "bb_log (s\<lparr>bb_profile := g\<rparr>) = bb_log s"
  "log_end (s\<lparr>bb_frozen := g\<rparr>) = log_end s" "bb_log (s\<lparr>bb_frozen := g\<rparr>) = bb_log s"
  "log_end (s\<lparr>bb_anomaly_until_ms := h\<rparr>) = log_end s" "bb_log (s\<lparr>bb_anomaly_until_ms := h\<rparr>) = bb_log s"
  by (intro switch_ok; simp)+

lemma reset_ok:
  assumes "0 < length (bb_records s)" and "length (bb_records s) < 2 ^ 31"
  shows "bb_ok (blackbox_reset s)" and "log_end (blackbox_reset s) = 1" and "bb_log (blackbox_reset s) = []"
proof -
  have "\<not> blackbox_record_valid zero_retained_record"
    by (simp add: blackbox_record_valid_def zero_retained_record_def)
  then show "bb_ok (blackbox_reset s)" and "log_end (blackbox_reset s) = 1"
    and "bb_log (blackbox_reset s) = []"
    using assms
    by (auto simp: bb_ok_def bb_counters_def bb_window_def bb_log_def log_end_def log_size_def
        blackbox_reset_def blackbox_constants)
qed

lemma repair_False [simp]: "repair False v p = p"
  by (simp add: repair_def)

lemma repair_valid [simp]: "metadata_valid (repair (\<not> metadata_valid p \<or> c) v p)"
  "metadata_valid (repair (\<not> metadata_valid p) v p)"
  by (simp_all add: repair_def)

lemma init_restart:
  assumes "bb_ok s"
  shows "ls_blackbox_init s = s\<lparr>previous_profile := fst (bb_profile s)\<rparr>"
proof -
  have "bb_magic s = LS_BLACKBOX_MAGIC" "bb_version s = LS_BLACKBOX_VERSION"
    "metadata_valid (bb_next_sequence s)" "fst (bb_next_sequence s) \<noteq> 0"
    "metadata_valid (bb_total_records s)" "metadata_valid (bb_overwritten_records s)"
    "metadata_valid (bb_anomaly_until_ms s)" "metadata_valid (bb_frozen s)"
    "metadata_valid (bb_profile s)" "\<not> LS_BLACKBOX_PROFILE_ANOMALY < fst (bb_profile s)"
    using assms by (auto simp: bb_ok_def bb_counters_def log_end_def)
  then show ?thesis by (simp add: ls_blackbox_init_def split_beta Let_def)
qed

lemma record_cases:
  assumes "bb_ok s" and "log_end s < 2 ^ 32 - 1"
  shows "ls_blackbox_record now (Some r) s =
    (if \<not> kind_ok r then (LS_EINVAL, s) else if fst (bb_frozen s) \<noteq> 0 then (LS_EBUSY, s)
     else if \<not> profile_accepts r s then (LS_OK, s) else (LS_OK, recorded now r s))"
  using assms ls_blackbox_record_accepted [OF assms]
  by (auto simp: ls_blackbox_record_def kind_ok_def Let_def not_less not_le)

lemma record_refines:
  assumes "bb_ok s" and "log_end s < 2 ^ 32 - 1"
  shows "log_record now r (log_of s) = map_prod id log_of (ls_blackbox_record now r s)"
    and "bb_ok (snd (ls_blackbox_record now r s))"
    and "log_end (snd (ls_blackbox_record now r s)) \<le> Suc (log_end s)"
proof -
  have pos: "0 < log_end s" using assms(1) by (simp add: bb_ok_def bb_counters_def)
  have "log_of (recorded now x s) = (log_of s)\<lparr>
      fl_entries := last_n (length (bb_records s)) (bb_log s @ [stamped now x]), fl_total := log_end s\<rparr>" for x
    using bb_log_recorded [OF assms] log_end_recorded [OF assms(2)] by (simp add: log_of_def)
  then show "log_record now r (log_of s) = map_prod id log_of (ls_blackbox_record now r s)"
    using pos by (cases r)
      (auto simp: record_cases [OF assms] kind_ok_def profile_accepts_def log_of_def
        ls_blackbox_record_def [of _ None])
  show "bb_ok (snd (ls_blackbox_record now r s))"
    using bb_ok_recorded [OF assms] assms(1)
    by (cases r) (auto simp: record_cases [OF assms] ls_blackbox_record_def [of _ None])
  show "log_end (snd (ls_blackbox_record now r s)) \<le> Suc (log_end s)"
    using log_end_recorded [OF assms(2)]
    by (cases r) (auto simp: record_cases [OF assms] ls_blackbox_record_def [of _ None])
qed

lemma blackbox_step_ok:
  assumes "bb_room (Suc n) s"
  shows "bb_room n (snd (blackbox_step a s))"
proof -
  have ok: "bb_ok s" and room: "log_end s < 2 ^ 32 - 1" and n: "log_end s + Suc n < 2 ^ 32"
    using assms by (auto simp: bb_room_def)
  have switches: "metadata_valid (bb_anomaly_until_ms s)" "metadata_valid (bb_frozen s)"
    "metadata_valid (bb_profile s)" "fst (bb_profile s) \<le> LS_BLACKBOX_PROFILE_ANOMALY"
    "previous_profile s \<le> LS_BLACKBOX_PROFILE_ANOMALY" "bb_magic s = LS_BLACKBOX_MAGIC"
    using ok by (auto simp: bb_ok_def)
  note sw = switch_ok(3) [OF _ _ _ _ _ _ ok]
  show ?thesis
  proof (cases a)
    case (Op_record now r)
    then show ?thesis
      using record_refines(2,3) [OF ok room, of now r] n by (simp add: bb_room_def split_beta)
  next
    case Op_clear
    then show ?thesis
      using reset_ok log_bounds(1,2) [OF ok] n by (simp add: bb_room_def ls_blackbox_clear_def)
  next
    case (Op_copy c)
    then show ?thesis using copy_log [OF ok] ok n by (simp add: bb_room_def)
  next
    case (Op_get_recent c)
    then show ?thesis using get_recent_log [OF ok] ok n by (simp add: bb_room_def)
  next
    case Op_get_stats
    then show ?thesis using ok n by (simp add: bb_room_def ls_blackbox_get_stats_def Let_def)
  next
    case Op_restart
    then show ?thesis
      using init_restart [OF ok] sw n switches by (auto simp: bb_room_def)
  qed (use ok sw n switches in \<open>auto simp: bb_room_def ls_blackbox_freeze_def ls_blackbox_thaw_def
        ls_blackbox_set_profile_def ls_blackbox_anomaly_begin_def ls_blackbox_poll_def Let_def not_less\<close>)
qed

lemma blackbox_step_refines:
  assumes "bb_room (Suc n) s"
  shows "log_step a (log_of s) = map_prod id log_of (blackbox_step a s)"
proof -
  have ok: "bb_ok s" and room: "log_end s < 2 ^ 32 - 1"
    using assms by (auto simp: bb_room_def)
  have magic: "bb_magic s = LS_BLACKBOX_MAGIC" and c: "bb_counters s"
    using ok by (auto simp: bb_ok_def)
  show ?thesis
  proof (cases a)
    case (Op_record now r)
    then show ?thesis using record_refines(1) [OF ok room, of now r] by (simp add: split_beta)
  next
    case Op_clear
    then show ?thesis
      using reset_ok log_bounds(1,2) [OF ok]
      by (simp add: log_of_def ls_blackbox_clear_def) (simp add: blackbox_reset_def)
  next
    case (Op_copy cap)
    then show ?thesis using copy_log [OF ok] by (simp add: log_of_def)
  next
    case (Op_get_recent age)
    have "age < log_size s \<Longrightarrow> rev (bb_log s) ! age = bb_log s ! (log_size s - 1 - age)"
      by (simp add: rev_nth)
    then show ?thesis using Op_get_recent get_recent_log [OF ok] by (simp add: log_of_def)
  next
    case Op_get_stats
    have "fst (bb_total_records s) = word_of_nat (log_end s - 1)"
      and "fst (bb_overwritten_records s) = word_of_nat (log_end s - 1 - length (bb_records s))"
      using c by (auto simp: bb_counters_def simp del: of_nat_diff intro!: word_of_nat_eqI)
    then show ?thesis
      using Op_get_stats ok count_valid [OF ok]
      by (simp add: ls_blackbox_get_stats_def log_of_def Let_def del: of_nat_diff)
  next
    case Op_restart
    then show ?thesis using init_restart [OF ok] by (simp add: log_of_def)
  qed (use ok magic in \<open>simp_all add: log_of_def ls_blackbox_freeze_def ls_blackbox_thaw_def
        ls_blackbox_set_profile_def ls_blackbox_anomaly_begin_def ls_blackbox_poll_def Let_def\<close>)
qed

interpretation recorder: budgeted_refinement blackbox_step log_step log_of bb_room
  by unfold_locales (auto intro: blackbox_step_ok blackbox_step_refines)

text \<open>C36: the flight recorder refines a bounded log. From a cleared recorder of any capacity below
  \<open>2^31\<close>, every sequence of fewer than \<open>2^32 - 1\<close> operations (records, freezes, profile switches,
  anomaly windows, polls, restarts that keep the memory, and reads) returns exactly the results of the
  log that keeps the last records: copies are the newest records in the order of recording,
  \<open>get_recent\<close> counts back from the newest one, the statistics count what was kept and overwritten.\<close>

theorem blackbox_refines_log:
  assumes "0 < length (bb_records s)" and "length (bb_records s) < 2 ^ 31"
    and "length ops < 2 ^ 32 - 1"
  shows "run_ops log_step ops (log_of (ls_blackbox_clear s)) =
    map_prod id log_of (run_ops blackbox_step ops (ls_blackbox_clear s))"
proof -
  have "bb_room (length ops + 0) (ls_blackbox_clear s)"
    using reset_ok [OF assms(1,2)] assms(3) by (simp add: bb_room_def ls_blackbox_clear_def)
  then show ?thesis using recorder.run_refines by blast
qed

text \<open>Three records in a ring of two slots, with unspecified memory before: the copy returns the last
  two, the newest record is the third, and one record was overwritten.\<close>

definition user_record :: "u32 \<Rightarrow> ls_blackbox_record_t" where
  "user_record t = \<lparr>bb_timestamp_ms = t, bb_kind = 10, bb_source_id = 7, bb_flags = 0,
     bb_reserved = 0, bb_value = [t, 0, 0, 0]\<rparr>"

definition two_slots :: ls_blackbox where
  "two_slots = \<lparr>bb_magic = 5, bb_version = 0, bb_retained_reserved = 0, bb_next_sequence = (3, 4),
     bb_total_records = (1, 1), bb_overwritten_records = (0, 0), bb_anomaly_until_ms = (0, 0),
     bb_frozen = (1, 1), bb_profile = (9, 9),
     bb_records = [zero_retained_record, zero_retained_record\<lparr>rr_sequence := 8\<rparr>],
     previous_profile = 0\<rparr>"

lemma log_of_clear:
  assumes "0 < length (bb_records s)" and "length (bb_records s) < 2 ^ 31"
  shows "log_of (ls_blackbox_clear s) =
    \<lparr>fl_room = length (bb_records s), fl_entries = [], fl_total = 0, fl_frozen = False,
     fl_profile = LS_BLACKBOX_PROFILE_NORMAL, fl_previous = LS_BLACKBOX_PROFILE_NORMAL, fl_until = 0\<rparr>"
  using reset_ok [OF assms] by (simp add: log_of_def ls_blackbox_clear_def) (simp add: blackbox_reset_def)

theorem blackbox_refines_log_witness:
  "fst (run_ops blackbox_step
      [Op_record 0 (Some (user_record 1)), Op_record 0 (Some (user_record 2)), Op_restart,
       Op_record 0 (Some (user_record 3)), Op_freeze, Op_record 0 (Some (user_record 4)),
       Op_copy 9, Op_get_recent 0, Op_get_recent 2]
      (ls_blackbox_clear two_slots)) =
   [Out_result LS_OK, Out_result LS_OK, Out_none, Out_result LS_OK, Out_none, Out_result LS_EBUSY,
    Out_records LS_OK [user_record 2, user_record 3], Out_recent LS_OK (Some (user_record 3)),
    Out_recent LS_EAGAIN None]"
proof -
  let ?ops = "[Op_record 0 (Some (user_record 1)), Op_record 0 (Some (user_record 2)), Op_restart,
       Op_record 0 (Some (user_record 3)), Op_freeze, Op_record 0 (Some (user_record 4)),
       Op_copy 9, Op_get_recent 0, Op_get_recent 2]"
  have two: "length (bb_records two_slots) = 2" by (simp add: two_slots_def)
  have "fst (run_ops blackbox_step ?ops (ls_blackbox_clear two_slots)) =
      fst (run_ops log_step ?ops (log_of (ls_blackbox_clear two_slots)))"
    using blackbox_refines_log [of two_slots ?ops] two by (simp only: fst_map_prod) simp
  also have "\<dots> = [Out_result LS_OK, Out_result LS_OK, Out_none, Out_result LS_OK, Out_none,
      Out_result LS_EBUSY, Out_records LS_OK [user_record 2, user_record 3],
      Out_recent LS_OK (Some (user_record 3)), Out_recent LS_EAGAIN None]"
    using two by (simp add: log_of_clear user_record_def blackbox_constants last_n_def stamped_def)
  finally show ?thesis .
qed

section \<open>Recovery of torn metadata\<close>

text \<open>A counter whose two words were not both written, and the memory a reset leaves when it tears
  any number of metadata fields.\<close>

definition torn_field :: "'a::len word guarded \<Rightarrow> 'a word guarded \<Rightarrow> bool" where
  "torn_field p q \<longleftrightarrow> q = p \<or> \<not> metadata_valid q"

definition torn_metadata :: "ls_blackbox \<Rightarrow> ls_blackbox \<Rightarrow> bool" where
  "torn_metadata s t \<longleftrightarrow>
     bb_magic t = bb_magic s \<and> bb_version t = bb_version s \<and> bb_records t = bb_records s \<and>
     torn_field (bb_next_sequence s) (bb_next_sequence t) \<and>
     torn_field (bb_total_records s) (bb_total_records t) \<and>
     torn_field (bb_overwritten_records s) (bb_overwritten_records t)"

lemma guarded_eqI:
  "metadata_valid p \<Longrightarrow> unat (fst p) = n \<Longrightarrow> p = metadata_store (word_of_nat n)"
  using word_of_nat_eqI [of "fst p" n] by (simp only: metadata_valid_store)

lemma counters_as_stored:
  assumes "bb_ok s"
  shows "bb_next_sequence s = metadata_store (word_of_nat (log_end s))"
    and "bb_total_records s = metadata_store (word_of_nat (log_end s - 1))"
    and "bb_overwritten_records s = metadata_store (word_of_nat (log_end s - 1 - length (bb_records s)))"
  by (rule guarded_eqI; use assms in \<open>simp add: bb_ok_def bb_counters_def log_end_def\<close>)+

lemma init_fields:
  assumes "bb_magic t = LS_BLACKBOX_MAGIC" and "bb_version t = LS_BLACKBOX_VERSION"
    and "newest_loop (bb_records t) 0 0 = (highest, valid)"
  shows "bb_next_sequence (ls_blackbox_init t) =
      repair (\<not> metadata_valid (bb_next_sequence t) \<or> fst (bb_next_sequence t) = 0)
        (if highest + 1 \<noteq> 0 then highest + 1 else 1) (bb_next_sequence t)"
    and "bb_total_records (ls_blackbox_init t) =
      repair (\<not> metadata_valid (bb_total_records t))
        (if word_of_nat valid < highest then highest else word_of_nat valid) (bb_total_records t)"
    and "bb_overwritten_records (ls_blackbox_init t) =
      repair (\<not> metadata_valid (bb_overwritten_records t))
        (if length (bb_records t) < unat (fst (bb_total_records (ls_blackbox_init t)))
         then fst (bb_total_records (ls_blackbox_init t)) - word_of_nat (length (bb_records t)) else 0)
        (bb_overwritten_records t)"
    and "bb_records (ls_blackbox_init t) = bb_records t"
    and "bb_magic (ls_blackbox_init t) = LS_BLACKBOX_MAGIC"
    and "bb_version (ls_blackbox_init t) = LS_BLACKBOX_VERSION"
    and "metadata_valid (bb_anomaly_until_ms (ls_blackbox_init t))"
    and "metadata_valid (bb_frozen (ls_blackbox_init t))"
    and "metadata_valid (bb_profile (ls_blackbox_init t))"
    and "fst (bb_profile (ls_blackbox_init t)) \<le> LS_BLACKBOX_PROFILE_ANOMALY"
    and "previous_profile (ls_blackbox_init t) = fst (bb_profile (ls_blackbox_init t))"
  using assms
  by (simp_all add: ls_blackbox_init_def Let_def)
    (auto simp: repair_def blackbox_constants not_less)

lemma init_recovers_counters:
  assumes ok: "bb_ok s" and torn: "torn_metadata s t"
  shows "bb_next_sequence (ls_blackbox_init t) = bb_next_sequence s"
    and "bb_total_records (ls_blackbox_init t) = bb_total_records s"
    and "bb_overwritten_records (ls_blackbox_init t) = bb_overwritten_records s"
proof -
  let ?e = "log_end s - 1" and ?m = "length (bb_records s)"
  note b = log_bounds [OF ok] log_end_bound [of s] and st = counters_as_stored [OF ok]
  have scan: "newest_loop (bb_records t) 0 0 = (word_of_nat ?e, log_size s)"
  proof (cases "log_size s = 0")
    case True
    then have "?e = 0" using b by (auto simp: log_size_def min_def split: if_splits)
    then show ?thesis using newest_loop_ok [OF ok] True torn by (simp add: torn_metadata_def)
  next
    case False
    then show ?thesis using newest_loop_ok [OF ok] torn by (simp add: torn_metadata_def)
  qed
  have e: "unat (word_of_nat ?e :: u32) = ?e" and m: "unat (word_of_nat ?m :: u32) = ?m"
    and k: "unat (word_of_nat (log_size s) :: u32) = log_size s"
    using b by (auto intro!: unat_word_of_nat32 simp del: of_nat_diff)
  have next_seq: "(word_of_nat ?e + 1 :: u32) = word_of_nat (log_end s)"
    using b by (simp add: add.commute)
  have "unat (word_of_nat (log_end s) :: u32) \<noteq> 0"
    using b by (subst unat_word_of_nat32) auto
  then have nz: "(word_of_nat (log_end s) :: u32) \<noteq> 0" by (metis unsigned_0)
  have total: "(if (word_of_nat (log_size s) :: u32) < word_of_nat ?e then word_of_nat ?e
      else word_of_nat (log_size s) :: u32) = word_of_nat ?e"
    using e k by (auto simp: word_less_nat_alt log_size_def simp del: of_nat_diff)
  have over: "(if ?m < unat (word_of_nat ?e :: u32) then word_of_nat ?e - word_of_nat ?m else 0 :: u32) =
      word_of_nat (?e - ?m)"
    using e by (auto simp: not_less)
  have magic: "bb_magic t = LS_BLACKBOX_MAGIC" "bb_version t = LS_BLACKBOX_VERSION"
    "length (bb_records t) = ?m"
    using ok torn by (auto simp: bb_ok_def torn_metadata_def)
  note init = init_fields [OF magic(1,2) scan]
  have t: "torn_field (metadata_store (word_of_nat (log_end s))) (bb_next_sequence t)"
    "torn_field (metadata_store (word_of_nat ?e)) (bb_total_records t)"
    "torn_field (metadata_store (word_of_nat (?e - ?m))) (bb_overwritten_records t)"
    using torn unfolding torn_metadata_def st by blast+
  show "bb_next_sequence (ls_blackbox_init t) = bb_next_sequence s"
    unfolding init st next_seq using t(1) nz by (auto simp: torn_field_def repair_def)
  show tot: "bb_total_records (ls_blackbox_init t) = bb_total_records s"
    unfolding init st total using t(2) by (auto simp: torn_field_def repair_def)
  show "bb_overwritten_records (ls_blackbox_init t) = bb_overwritten_records s"
    unfolding init(3) tot st magic(3) fst_metadata_store over using t(3) by (auto simp: torn_field_def repair_def)
qed



section \<open>A damaged record hides the ones before it\<close>

text \<open>
  The reads count sequence numbers, not valid records: when the record before the newest one is
  damaged, \<open>get_recent 1\<close> finds nothing although older valid records remain.
\<close>

lemma find_sequence_None:
  "(\<And>rr. rr \<in> set rrs \<Longrightarrow> blackbox_record_valid rr \<Longrightarrow> rr_sequence rr \<noteq> q) \<Longrightarrow> find_sequence q rrs = None"
  by (induction rrs) auto

lemma recent_stops_at_damage:
  assumes ok: "bb_ok s" and three: "2 < log_size s" and bad: "\<not> blackbox_record_valid rr"
    and t: "t = s\<lparr>bb_records := (bb_records s)[(log_end s - 3) mod length (bb_records s) := rr]\<rparr>"
  shows "fst (ls_blackbox_get_recent 1 t) = (LS_EAGAIN, None)"
    and "bb_records t ! ((log_end s - 4) mod length (bb_records s)) = log_slot s (log_end s - 3)"
    and "blackbox_record_valid (log_slot s (log_end s - 3))"
proof -
  let ?m = "length (bb_records s)" and ?e = "log_end s"
  let ?d = "(?e - 3) mod ?m" and ?rs = "filter blackbox_record_valid (bb_records t)"
  note b = log_bounds [OF ok] log_end_bound [of s]
  have e: "3 < ?e" "2 < ?m" using three b by (auto simp: log_size_def)
  have less: "i mod ?m < length (bb_records t)" for i using e(2) by (cases ?m) (simp_all add: t)
  have a: "?e - 1 - 1 = ?e - 2" "?e - 3 - 1 = ?e - 4" "?e - 2 - 1 = ?e - 3" by simp_all
  have "(?e - 3) mod ?m \<noteq> (?e - 2) mod ?m" "(?e - 4) mod ?m \<noteq> (?e - 3) mod ?m"
    using e by (intro mod_neq_near; simp)+
  then have newest: "bb_records t ! ((?e - 2) mod ?m) = log_slot s (?e - 1)"
    and older: "bb_records t ! ((?e - 4) mod ?m) = log_slot s (?e - 3)"
    unfolding log_slot_def a t by simp_all
  show "bb_records t ! ((?e - 4) mod ?m) = log_slot s (?e - 3)" by (rule older)
  show "blackbox_record_valid (log_slot s (?e - 3))"
    using three b by (intro bb_window_slot [OF ok]) auto
  have from_s: "\<exists>i<?m. i \<noteq> ?d \<and> x = bb_records s ! i"
    if x: "x \<in> set (bb_records t)" and v: "blackbox_record_valid x" for x
  proof -
    obtain i where "i < ?m" "x = bb_records t ! i" using x by (auto simp: t in_set_conv_nth)
    then show ?thesis using v bad by (cases "i = ?d") (auto simp: t)
  qed
  have range: "\<forall>x \<in> set ?rs. unat (rr_sequence x) \<in> {?e - log_size s..<?e}"
  proof
    fix x assume "x \<in> set ?rs"
    then obtain i where "i < ?m" "x = bb_records s ! i" "blackbox_record_valid (bb_records s ! i)"
      using from_s by auto
    then show "unat (rr_sequence x) \<in> {?e - log_size s..<?e}" using bb_window_valid(1) [OF ok] by blast
  qed
  have "find_sequence (word_of_nat (?e - 2)) (bb_records t) = None"
  proof (rule find_sequence_None)
    fix x assume "x \<in> set (bb_records t)" and v: "blackbox_record_valid x"
    then obtain i where i: "i < ?m" "i \<noteq> ?d" "x = bb_records s ! i" using from_s by blast
    have "unat (word_of_nat (?e - 2) :: u32) = ?e - 2"
      using b by (intro unat_word_of_nat32) simp
    then show "rr_sequence x \<noteq> word_of_nat (?e - 2)"
      using bb_window_valid(2) [OF ok i(1)] v i a(3) by (auto simp del: of_nat_diff)
  qed
  moreover have "step_back (word_of_nat (?e - 1)) 1 = word_of_nat (?e - 2)"
    unfolding step_back_sequence_before
    using sequence_before_of_nat [of 1 "?e - 1", unfolded a] e b by linarith
  moreover have "fst (newest_loop (bb_records t) 0 0) = word_of_nat (?e - 1)"
  proof -
    have "fold (\<lambda>x. max (unat (rr_sequence x))) ?rs 0 = ?e - 1"
    proof (rule fold_max_eqI)
      show "\<forall>x \<in> set ?rs. unat (rr_sequence x) \<le> ?e - 1" using range by auto
      have "log_slot s (?e - 1) \<in> set (bb_records t)"
        unfolding newest [symmetric] by (rule nth_mem [OF less])
      then show "\<exists>x \<in> set ?rs. unat (rr_sequence x) = ?e - 1"
        using bb_window_slot [OF ok, of "?e - 1"] three e b by auto
    qed simp
    moreover have "\<forall>x \<in> set (bb_records t). blackbox_record_valid x \<longrightarrow>
        ?e - log_size s \<le> unat (rr_sequence x) \<and> unat (rr_sequence x) < ?e - log_size s + 2 ^ 31"
      using range b by auto
    ultimately show ?thesis
      using newest_loop_max [of "bb_records t" "?e - log_size s" 0 0] b(3) by simp
  qed
  moreover have "ensure_initialised t = t"
    using ok by (simp add: t ensure_initialised_def bb_ok_def)
  ultimately show "fst (ls_blackbox_get_recent 1 t) = (LS_EAGAIN, None)"
    by (cases "newest_loop (bb_records t) 0 0")
      (simp add: ls_blackbox_get_recent_def Let_def del: of_nat_diff step_back.simps)
qed

end
