(* ===== verification/LS_Boot.thy ===== *)
theory LS_Boot
  imports LS_Spool LS_Security LS_Blackbox
begin

text \<open>
  The boot record of \<^verbatim>\<open>src/core/boot.c\<close> and the accounting of \<^verbatim>\<open>ls_boot\<close> in
  \<^verbatim>\<open>src/core/runtime.c\<close>: the persistent structure with its three layouts, loading and saving it,
  crash and reset marks, and the update state machine with its version floor.

  The runtime state here extends the part the spool uses with the boot record, the security state and
  the flight recorder. The timestamp callback of the configuration is the list of values it returns,
  one per call, so that two reads of the clock inside one operation may differ.
\<close>

section \<open>State\<close>

text \<open>\<^verbatim>\<open>ls_persistent_boot_t\<close>.\<close>

record ls_persistent_boot =
  pb_magic :: u32
  pb_version :: u32
  pb_boot_count :: u32
  pb_previous_uptime_ms :: u32
  pb_consecutive_failures :: u32
  pb_first_failure_ms :: u32
  pb_last_sequence :: u32
  pb_pending_crash_id :: u32
  pb_release_hash :: u32
  pb_crash_pending :: u8
  pb_expected_reset :: u8
  pb_boot_successful :: u8
  pb_release_state :: u8
  pb_update_version_floor :: u32
  pb_update_pending_version :: u32
  pb_update_image_fingerprint :: u32
  pb_update_signing_key_id :: u32
  pb_update_rollback_count :: u32
  pb_update_state :: u8
  pb_update_reserved :: bytes
  pb_provision_key_id :: u32
  pb_provision_pending_key_id :: u32
  pb_provision_generation :: u32
  pb_provision_monotonic_counter :: u32
  pb_provision_state :: u8
  pb_provision_reserved :: bytes
  pb_crc :: u32

datatype ls_reset_reason =
    LS_RESET_UNKNOWN | LS_RESET_POWER_ON | LS_RESET_PIN | LS_RESET_SOFTWARE | LS_RESET_WATCHDOG
  | LS_RESET_INDEPENDENT_WATCHDOG | LS_RESET_WINDOW_WATCHDOG | LS_RESET_BROWNOUT
  | LS_RESET_LOW_POWER_WAKE | LS_RESET_LOCKUP | LS_RESET_SECURITY | LS_RESET_BOOTLOADER
  | LS_RESET_FIRMWARE_UPDATE | LS_RESET_CLOCK_FAILURE

record ls_reset_info =
  ri_reason :: ls_reset_reason
  ri_raw_reason :: u32
  ri_boot_count :: u32
  ri_previous_uptime_ms :: u32
  ri_expected :: bool
  ri_crash_pending :: bool
  ri_boot_loop :: bool

record ls_update_state =
  us_confirmed_version_floor :: u32
  us_pending_version :: u32
  us_image_fingerprint :: u32
  us_signing_key_id :: u32
  us_rollback_count :: u32
  us_state :: u8

text \<open>What is fixed while the program runs: the build, the registered storage and the clock.\<close>

record 's boot_env =
  en_config :: ls_build_config
  en_storage :: "'s ls_storage_backend option"
  LS_BOOT_LOOP_THRESHOLD :: u32
  LS_BOOT_LOOP_WINDOW_MS :: u32
  LS_ENABLE_POWERFAIL_SEAL :: bool
  en_timestamp_ms :: "(nat \<Rightarrow> u32) option"

record ('s, 't, 'p) boot_rt =
  bt_spool :: "('s, 't) spool_rt"
  bt_security :: "'p ls_security"
  bt_blackbox :: ls_blackbox
  bt_initialized :: bool
  bt_persistent :: ls_persistent_boot
  bt_reset_info :: ls_reset_info
  bt_boot_started_ms :: u32
  bt_boot_count :: u32
  bt_previous_crashed :: bool
  bt_boot_loop :: bool
  bt_safe_mode :: bool
  bt_powerfail_last_valid :: bool
  bt_clock_reads :: nat

definition LS_BOOT_MAGIC :: u32 where "LS_BOOT_MAGIC = 0x544F4F42"
definition LS_BOOT_VERSION :: u32 where "LS_BOOT_VERSION = 3"
definition LS_BOOT_VERSION_V2 :: u32 where "LS_BOOT_VERSION_V2 = 2"
definition LS_BOOT_VERSION_LEGACY :: u32 where "LS_BOOT_VERSION_LEGACY = 1"

definition LS_UPDATE_NONE :: u8 where "LS_UPDATE_NONE = 0"
definition LS_UPDATE_PENDING :: u8 where "LS_UPDATE_PENDING = 1"
definition LS_UPDATE_CONFIRMED :: u8 where "LS_UPDATE_CONFIRMED = 2"
definition LS_UPDATE_ROLLED_BACK :: u8 where "LS_UPDATE_ROLLED_BACK = 3"

lemmas update_codes =
  LS_UPDATE_NONE_def LS_UPDATE_PENDING_def LS_UPDATE_CONFIRMED_def LS_UPDATE_ROLLED_BACK_def

section \<open>Layouts\<close>

text \<open>The common first forty bytes, the version 2 part, and the whole record of 88 bytes.\<close>

definition boot_head_bytes :: "ls_persistent_boot \<Rightarrow> bytes" where
  "boot_head_bytes p =
     le32 (pb_magic p) @ le32 (pb_version p) @ le32 (pb_boot_count p) @
     le32 (pb_previous_uptime_ms p) @ le32 (pb_consecutive_failures p) @
     le32 (pb_first_failure_ms p) @ le32 (pb_last_sequence p) @ le32 (pb_pending_crash_id p) @
     le32 (pb_release_hash p) @
     [pb_crash_pending p, pb_expected_reset p, pb_boot_successful p, pb_release_state p]"

definition boot_update_bytes :: "ls_persistent_boot \<Rightarrow> bytes" where
  "boot_update_bytes p =
     le32 (pb_update_version_floor p) @ le32 (pb_update_pending_version p) @
     le32 (pb_update_image_fingerprint p) @ le32 (pb_update_signing_key_id p) @
     le32 (pb_update_rollback_count p) @ [pb_update_state p] @ pb_update_reserved p"

definition boot_provision_bytes :: "ls_persistent_boot \<Rightarrow> bytes" where
  "boot_provision_bytes p =
     le32 (pb_provision_key_id p) @ le32 (pb_provision_pending_key_id p) @
     le32 (pb_provision_generation p) @ le32 (pb_provision_monotonic_counter p) @
     [pb_provision_state p] @ pb_provision_reserved p"

definition boot_body_bytes :: "ls_persistent_boot \<Rightarrow> bytes" where
  "boot_body_bytes p = boot_head_bytes p @ boot_update_bytes p @ boot_provision_bytes p"

definition boot_bytes :: "ls_persistent_boot \<Rightarrow> bytes" where
  "boot_bytes p = boot_body_bytes p @ le32 (pb_crc p)"

definition boot_crc :: "ls_persistent_boot \<Rightarrow> u32" where
  "boot_crc p = ls_crc32 (boot_body_bytes p)"

definition zero_boot :: ls_persistent_boot where
  "zero_boot =
     \<lparr>pb_magic = 0, pb_version = 0, pb_boot_count = 0, pb_previous_uptime_ms = 0,
      pb_consecutive_failures = 0, pb_first_failure_ms = 0, pb_last_sequence = 0,
      pb_pending_crash_id = 0, pb_release_hash = 0, pb_crash_pending = 0, pb_expected_reset = 0,
      pb_boot_successful = 0, pb_release_state = 0, pb_update_version_floor = 0,
      pb_update_pending_version = 0, pb_update_image_fingerprint = 0, pb_update_signing_key_id = 0,
      pb_update_rollback_count = 0, pb_update_state = 0, pb_update_reserved = [0, 0, 0],
      pb_provision_key_id = 0, pb_provision_pending_key_id = 0, pb_provision_generation = 0,
      pb_provision_monotonic_counter = 0, pb_provision_state = 0, pb_provision_reserved = [0, 0, 0],
      pb_crc = 0\<rparr>"

text \<open>The state after a record that cannot be used.\<close>

definition fresh_boot :: ls_persistent_boot where
  "fresh_boot = zero_boot\<lparr>pb_magic := LS_BOOT_MAGIC, pb_version := LS_BOOT_VERSION\<rparr>"

text \<open>The fields of the three layouts, read from the bytes of the storage into a zeroed record.\<close>

definition boot_head_parse :: "bytes \<Rightarrow> ls_persistent_boot \<Rightarrow> ls_persistent_boot" where
  "boot_head_parse d p =
     p\<lparr>pb_boot_count := read_u32 d 8, pb_previous_uptime_ms := read_u32 d 12,
       pb_consecutive_failures := read_u32 d 16, pb_first_failure_ms := read_u32 d 20,
       pb_last_sequence := read_u32 d 24, pb_pending_crash_id := read_u32 d 28,
       pb_release_hash := read_u32 d 32, pb_crash_pending := d ! 36, pb_expected_reset := d ! 37,
       pb_boot_successful := d ! 38, pb_release_state := d ! 39\<rparr>"

definition boot_update_parse :: "bytes \<Rightarrow> ls_persistent_boot \<Rightarrow> ls_persistent_boot" where
  "boot_update_parse d p =
     p\<lparr>pb_update_version_floor := read_u32 d 40, pb_update_pending_version := read_u32 d 44,
       pb_update_image_fingerprint := read_u32 d 48, pb_update_signing_key_id := read_u32 d 52,
       pb_update_rollback_count := read_u32 d 56, pb_update_state := d ! 60\<rparr>"

definition boot_from_v1 :: "bytes \<Rightarrow> ls_persistent_boot" where
  "boot_from_v1 d = boot_head_parse d fresh_boot"

definition boot_from_v2 :: "bytes \<Rightarrow> ls_persistent_boot" where
  "boot_from_v2 d = boot_update_parse d (boot_head_parse d fresh_boot)"

definition boot_parse :: "bytes \<Rightarrow> ls_persistent_boot" where
  "boot_parse d =
     (boot_update_parse d (boot_head_parse d zero_boot))
       \<lparr>pb_magic := read_u32 d 0, pb_version := read_u32 d 4, pb_update_reserved := bslice 61 3 d,
        pb_provision_key_id := read_u32 d 64, pb_provision_pending_key_id := read_u32 d 68,
        pb_provision_generation := read_u32 d 72, pb_provision_monotonic_counter := read_u32 d 76,
        pb_provision_state := d ! 80, pb_provision_reserved := bslice 81 3 d,
        pb_crc := read_u32 d 84\<rparr>"

section \<open>Loading and saving\<close>

definition boot_offset :: "'s boot_env \<Rightarrow> nat" where
  "boot_offset e = ls_spool_storage_size (en_config e)"

definition boot_store ::
    "('s world \<Rightarrow> 'r \<times> 's world) \<Rightarrow> ('s, 't, 'p) boot_rt \<Rightarrow> 'r \<times> ('s, 't, 'p) boot_rt" where
  "boot_store f bt = (case on_store f (bt_spool bt) of (r, rt) \<Rightarrow> (r, bt\<lparr>bt_spool := rt\<rparr>))"

text \<open>The record read with one of the three layouts: \<open>n\<close> is its size, the checksum the last word.\<close>

definition load_layout ::
    "'s boot_env \<Rightarrow> 's ls_storage_backend \<Rightarrow> nat \<Rightarrow> (bytes \<Rightarrow> ls_persistent_boot) \<Rightarrow>
     ('s, 't, 'p) boot_rt \<Rightarrow> ls_result \<times> ('s, 't, 'p) boot_rt" where
  "load_layout e dev n parse bt =
     (case boot_store (call_read dev (boot_offset e) n) bt of
        ((result, d), bt) \<Rightarrow>
          if result \<noteq> LS_OK then (result, bt)
          else if read_u32 d (n - 4) \<noteq> ls_crc32 (take (n - 4) d)
          then (LS_ECORRUPT, bt\<lparr>bt_persistent := fresh_boot\<rparr>)
          else (LS_OK, bt\<lparr>bt_persistent := parse d\<rparr>))"

definition ls_boot_state_load ::
    "'s boot_env \<Rightarrow> ('s, 't, 'p) boot_rt \<Rightarrow> ls_result \<times> ('s, 't, 'p) boot_rt" where
  "ls_boot_state_load e bt =
     (let bt = bt\<lparr>bt_persistent := zero_boot\<rparr>
      in case en_storage e of
           None \<Rightarrow> (LS_OK, bt)
         | Some dev \<Rightarrow>
             if be_read dev = None then (LS_OK, bt)
             else if be_capacity dev < boot_offset e + 44 then (LS_ENOSPACE, bt)
             else case boot_store (call_read dev (boot_offset e) 8) bt of
               ((result, prefix), bt) \<Rightarrow>
                 if result \<noteq> LS_OK then (result, bt)
                 else if read_u32 prefix 0 \<noteq> LS_BOOT_MAGIC
                 then (LS_ECORRUPT, bt\<lparr>bt_persistent := fresh_boot\<rparr>)
                 else if read_u32 prefix 4 = LS_BOOT_VERSION_LEGACY
                 then load_layout e dev 44 boot_from_v1 bt
                 else if read_u32 prefix 4 = LS_BOOT_VERSION_V2
                 then (if be_capacity dev < boot_offset e + 68 then (LS_ENOSPACE, bt)
                       else load_layout e dev 68 boot_from_v2 bt)
                 else if read_u32 prefix 4 \<noteq> LS_BOOT_VERSION \<or> be_capacity dev < boot_offset e + 88
                 then (if read_u32 prefix 4 = LS_BOOT_VERSION then LS_ENOSPACE else LS_ECORRUPT,
                       bt\<lparr>bt_persistent := fresh_boot\<rparr>)
                 else load_layout e dev 88 boot_parse bt)"

text \<open>\<^verbatim>\<open>ls_uptime_ms\<close>, and the expression of the flight recorder's callers.\<close>

definition read_timestamp :: "'s boot_env \<Rightarrow> ('s, 't, 'p) boot_rt \<Rightarrow> u32 \<times> ('s, 't, 'p) boot_rt" where
  "read_timestamp e bt =
     (case en_timestamp_ms e of
        None \<Rightarrow> (0, bt)
      | Some clock \<Rightarrow> (clock (bt_clock_reads bt), bt\<lparr>bt_clock_reads := bt_clock_reads bt + 1\<rparr>))"

definition ls_uptime_ms :: "'s boot_env \<Rightarrow> ('s, 't, 'p) boot_rt \<Rightarrow> u32 \<times> ('s, 't, 'p) boot_rt" where
  "ls_uptime_ms e bt = (case read_timestamp e bt of (now, bt) \<Rightarrow> (now - bt_boot_started_ms bt, bt))"

definition uptime_if_initialized :: "'s boot_env \<Rightarrow> ('s, 't, 'p) boot_rt \<Rightarrow> u32 \<times> ('s, 't, 'p) boot_rt" where
  "uptime_if_initialized e bt = (if bt_initialized bt then ls_uptime_ms e bt else (0, bt))"

definition ls_boot_state_save ::
    "'s boot_env \<Rightarrow> ('s, 't, 'p) boot_rt \<Rightarrow> ls_result \<times> ('s, 't, 'p) boot_rt" where
  "ls_boot_state_save e bt =
     (case en_storage e of
        None \<Rightarrow> (LS_OK, bt)
      | Some dev \<Rightarrow>
          if be_write dev = None then (LS_OK, bt)
          else if be_capacity dev < boot_offset e + 88 then (LS_ENOSPACE, bt)
          else
            let (uptime, bt) = ls_uptime_ms e bt;
                p = (bt_persistent bt)
                      \<lparr>pb_magic := LS_BOOT_MAGIC, pb_version := LS_BOOT_VERSION,
                       pb_previous_uptime_ms := uptime,
                       pb_last_sequence := rt_sequence (bt_spool bt)\<rparr>;
                p = p\<lparr>pb_crc := boot_crc p\<rparr>;
                bt = bt\<lparr>bt_persistent := p\<rparr>
            in and_then
                 (boot_store (ls_storage_program (en_config e) dev (boot_offset e) (boot_bytes p)) bt)
                 (boot_store (call_sync dev)))"

section \<open>Marks\<close>

text \<open>An update of the boot record in memory, and the save most operations end with; a save whose
  result is ignored is \<open>snd\<close> of it.\<close>

definition on_boot ::
    "(ls_persistent_boot \<Rightarrow> ls_persistent_boot) \<Rightarrow> ('s, 't, 'p) boot_rt \<Rightarrow> ('s, 't, 'p) boot_rt" where
  "on_boot f bt = bt\<lparr>bt_persistent := f (bt_persistent bt)\<rparr>"

definition ls_boot_state_mark_crash ::
    "'s boot_env \<Rightarrow> u32 \<Rightarrow> ('s, 't, 'p) boot_rt \<Rightarrow> ('s, 't, 'p) boot_rt" where
  "ls_boot_state_mark_crash e event_id bt =
     snd (ls_boot_state_save e
       (on_boot (\<lambda>p. p\<lparr>pb_crash_pending := 1, pb_boot_successful := 0,
                       pb_pending_crash_id := event_id\<rparr>) bt))"

definition ls_reset_mark_expected ::
    "'s boot_env \<Rightarrow> bool \<Rightarrow> ('s, 't, 'p) boot_rt \<Rightarrow> ('s, 't, 'p) boot_rt" where
  "ls_reset_mark_expected e expected bt =
     snd (ls_boot_state_save e
       ((on_boot (\<lambda>p. p\<lparr>pb_expected_reset := (if expected then 1 else 0)\<rparr>) bt)
          \<lparr>bt_reset_info := (bt_reset_info bt)\<lparr>ri_expected := expected\<rparr>\<rparr>))"

definition ls_boot_mark_successful ::
    "'s boot_env \<Rightarrow> ('s, 't, 'p) boot_rt \<Rightarrow> ('s, 't, 'p) boot_rt" where
  "ls_boot_mark_successful e bt =
     (let bt = on_boot (\<lambda>p. p\<lparr>pb_boot_successful := 1, pb_crash_pending := 0,
                             pb_consecutive_failures := 0\<rparr>) bt;
          bt = (if LS_ENABLE_POWERFAIL_SEAL e then bt\<lparr>bt_powerfail_last_valid := False\<rparr> else bt)
      in snd (ls_boot_state_save e bt))"

definition ls_safe_mode_requested :: "('s, 't, 'p) boot_rt \<Rightarrow> bool" where
  "ls_safe_mode_requested bt = bt_safe_mode bt"

definition ls_release_mark_pending ::
    "'s boot_env \<Rightarrow> cstring option \<Rightarrow> ('s, 't, 'p) boot_rt \<Rightarrow> ('s, 't, 'p) boot_rt" where
  "ls_release_mark_pending e release bt =
     snd (ls_boot_state_save e
       (on_boot (\<lambda>p. p\<lparr>pb_release_hash := ls_hash_string release, pb_release_state := 1\<rparr>) bt))"

definition ls_release_confirm :: "'s boot_env \<Rightarrow> ('s, 't, 'p) boot_rt \<Rightarrow> ('s, 't, 'p) boot_rt" where
  "ls_release_confirm e bt = snd (ls_boot_state_save e (on_boot (\<lambda>p. p\<lparr>pb_release_state := 2\<rparr>) bt))"

definition ls_release_mark_rollback ::
    "'s boot_env \<Rightarrow> ('s, 't, 'p) boot_rt \<Rightarrow> ('s, 't, 'p) boot_rt" where
  "ls_release_mark_rollback e bt =
     snd (ls_boot_state_save e (on_boot (\<lambda>p. p\<lparr>pb_release_state := 3\<rparr>) bt))"

section \<open>Updates\<close>

definition ls_update_version_allowed :: "u32 \<Rightarrow> ls_persistent_boot \<Rightarrow> bool" where
  "ls_update_version_allowed version_counter p \<longleftrightarrow>
     version_counter \<noteq> 0 \<and> version_counter \<ge> pb_update_version_floor p"

definition ls_update_stage ::
    "'s boot_env \<Rightarrow> u32 \<Rightarrow> u32 \<Rightarrow> u32 \<Rightarrow> ('s, 't, 'p) boot_rt \<Rightarrow> ls_result \<times> ('s, 't, 'p) boot_rt" where
  "ls_update_stage e version_counter image_fingerprint signing_key_id bt =
     (if \<not> ls_update_version_allowed version_counter (bt_persistent bt) \<or> image_fingerprint = 0 \<or>
         signing_key_id = 0
      then (LS_EINVAL, bt)
      else ls_boot_state_save e
        (on_boot (\<lambda>p. p\<lparr>pb_update_pending_version := version_counter,
                        pb_update_image_fingerprint := image_fingerprint,
                        pb_update_signing_key_id := signing_key_id,
                        pb_update_state := LS_UPDATE_PENDING\<rparr>) bt))"

text \<open>The test the three ways out of a pending update begin with.\<close>

definition update_is_pending :: "u32 \<Rightarrow> ls_persistent_boot \<Rightarrow> bool" where
  "update_is_pending version p \<longleftrightarrow>
     \<not> (pb_update_state p \<noteq> LS_UPDATE_PENDING \<or> version = 0 \<or> version \<noteq> pb_update_pending_version p)"

definition ls_update_confirm_version ::
    "'s boot_env \<Rightarrow> u32 \<Rightarrow> ('s, 't, 'p) boot_rt \<Rightarrow> ls_result \<times> ('s, 't, 'p) boot_rt" where
  "ls_update_confirm_version e version_counter bt =
     (if \<not> update_is_pending version_counter (bt_persistent bt) then (LS_EINVAL, bt)
      else ls_boot_state_save e
        (on_boot (\<lambda>p. p\<lparr>pb_update_version_floor :=
                          (if version_counter > pb_update_version_floor p then version_counter
                           else pb_update_version_floor p),
                        pb_update_pending_version := 0,
                        pb_update_state := LS_UPDATE_CONFIRMED\<rparr>) bt))"

definition ls_update_mark_version_rollback ::
    "'s boot_env \<Rightarrow> u32 \<Rightarrow> ('s, 't, 'p) boot_rt \<Rightarrow> ls_result \<times> ('s, 't, 'p) boot_rt" where
  "ls_update_mark_version_rollback e failed_version bt =
     (if \<not> update_is_pending failed_version (bt_persistent bt) then (LS_EINVAL, bt)
      else ls_boot_state_save e
        (on_boot (\<lambda>p. p\<lparr>pb_update_rollback_count :=
                          (if pb_update_rollback_count p \<noteq> - 1 then pb_update_rollback_count p + 1
                           else pb_update_rollback_count p),
                        pb_update_pending_version := 0,
                        pb_update_state := LS_UPDATE_ROLLED_BACK\<rparr>) bt))"

definition ls_update_abort_stage ::
    "'s boot_env \<Rightarrow> u32 \<Rightarrow> ('s, 't, 'p) boot_rt \<Rightarrow> ls_result \<times> ('s, 't, 'p) boot_rt" where
  "ls_update_abort_stage e version_counter bt =
     (if \<not> update_is_pending version_counter (bt_persistent bt) then (LS_EINVAL, bt)
      else ls_boot_state_save e
        (on_boot (\<lambda>p. p\<lparr>pb_update_pending_version := 0, pb_update_image_fingerprint := 0,
                        pb_update_signing_key_id := 0, pb_update_state := LS_UPDATE_NONE\<rparr>) bt))"

definition ls_update_get_state :: "('s, 't, 'p) boot_rt \<Rightarrow> ls_update_state" where
  "ls_update_get_state bt =
     (let p = bt_persistent bt
      in \<lparr>us_confirmed_version_floor = pb_update_version_floor p,
          us_pending_version = pb_update_pending_version p,
          us_image_fingerprint = pb_update_image_fingerprint p,
          us_signing_key_id = pb_update_signing_key_id p,
          us_rollback_count = pb_update_rollback_count p, us_state = pb_update_state p\<rparr>)"

section \<open>Booting\<close>

text \<open>
  \<^verbatim>\<open>ls_boot\<close> up to the recovery calls at its end. \<open>retained_fault\<close> is the result of the scan for
  a retained crash snapshot, \<open>reset_info\<close> the value of the reset callback of the configuration
  (\<open>LS_RESET_UNKNOWN\<close> and zeros when there is none).
\<close>

definition reset_failure :: "ls_reset_reason \<Rightarrow> bool" where
  "reset_failure reason \<longleftrightarrow>
     reason = LS_RESET_WATCHDOG \<or> reason = LS_RESET_INDEPENDENT_WATCHDOG \<or>
     reason = LS_RESET_WINDOW_WATCHDOG \<or> reason = LS_RESET_LOCKUP"

definition count_failures :: "'s boot_env \<Rightarrow> bool \<Rightarrow> bool \<Rightarrow> ls_persistent_boot \<Rightarrow> ls_persistent_boot" where
  "count_failures e crashed failed p =
     (if crashed \<or> failed \<and> pb_expected_reset p = 0
      then p\<lparr>pb_consecutive_failures :=
               (if pb_previous_uptime_ms p \<le> LS_BOOT_LOOP_WINDOW_MS e
                then pb_consecutive_failures p + 1 else 1)\<rparr>
      else if pb_boot_successful p \<noteq> 0 then p\<lparr>pb_consecutive_failures := 0\<rparr> else p)"

definition boot_accounting ::
    "'s boot_env \<Rightarrow> bool \<Rightarrow> ls_reset_info \<Rightarrow> ('s, 't, 'p) boot_rt \<Rightarrow> ('s, 't, 'p) boot_rt" where
  "boot_accounting e retained_fault info bt =
     (let (now, bt) = read_timestamp e bt;
          p = bt_persistent bt;
          crashed = (pb_crash_pending p \<noteq> 0 \<or> retained_fault);
          expected = (pb_expected_reset p \<noteq> 0);
          p = count_failures e crashed (reset_failure (ri_reason info)) p;
          loop = (pb_consecutive_failures p \<ge> LS_BOOT_LOOP_THRESHOLD e);
          p = p\<lparr>pb_boot_count := pb_boot_count p + 1, pb_boot_successful := 0,
                pb_crash_pending := 0, pb_expected_reset := 0\<rparr>;
          rt = bt_spool bt;
          rt = rt\<lparr>rt_sequence := (if pb_last_sequence p > rt_sequence rt then pb_last_sequence p
                                  else rt_sequence rt)\<rparr>
      in bt\<lparr>bt_boot_started_ms := now, bt_persistent := p, bt_previous_crashed := crashed,
            bt_boot_loop := loop, bt_safe_mode := loop, bt_boot_count := pb_boot_count p,
            bt_spool := rt,
            bt_reset_info :=
              info\<lparr>ri_boot_count := pb_boot_count p, ri_previous_uptime_ms := pb_previous_uptime_ms p,
                   ri_expected := expected, ri_crash_pending := crashed, ri_boot_loop := loop\<rparr>\<rparr>)"

definition boot_sequence ::
    "'s boot_env \<Rightarrow> bool \<Rightarrow> ls_reset_info \<Rightarrow> ('s, 't, 'p) boot_rt \<Rightarrow> ls_result \<times> ('s, 't, 'p) boot_rt" where
  "boot_sequence e retained_fault info bt =
     (if \<not> bt_initialized bt then (LS_EINVAL, bt)
      else case ls_spool_init (en_config e) (en_storage e) (bt_spool bt) of
        (result, rt) \<Rightarrow>
          let bt = bt\<lparr>bt_spool := rt\<rparr>
          in if result \<noteq> LS_OK then (result, bt)
             else case ls_boot_state_load e bt of
               (result, bt) \<Rightarrow>
                 if result \<noteq> LS_OK \<and> result \<noteq> LS_ECORRUPT then (result, bt)
                 else ls_boot_state_save e (boot_accounting e retained_fault info bt))"

section \<open>The layout round trip\<close>

lemma skip_le32:
  "4 \<le> n \<Longrightarrow> read_u32 (le32 v @ ys) n = read_u32 ys (n - 4)"
  "4 \<le> n \<Longrightarrow> (le32 v @ ys) ! n = ys ! (n - 4)"
  "4 \<le> n \<Longrightarrow> drop n (le32 v @ ys) = drop (n - 4) ys"
  using read_u32_shift [of "le32 v" ys "n - 4"] by (simp_all add: nth_append)

lemma skip_byte:
  "1 \<le> n \<Longrightarrow> read_u32 (y # ys) n = read_u32 ys (n - 1)"
  "1 \<le> n \<Longrightarrow> (y # ys) ! n = ys ! (n - 1)"
  "1 \<le> n \<Longrightarrow> drop n (y # ys) = drop (n - 1) ys"
  using read_u32_shift [of "[y]" ys "n - 1"] by (simp_all add: drop_Cons')

definition boot_record_ok :: "ls_persistent_boot \<Rightarrow> bool" where
  "boot_record_ok p \<longleftrightarrow> length (pb_update_reserved p) = 3 \<and> length (pb_provision_reserved p) = 3"

lemma length_boot_bytes [simp]:
  "boot_record_ok p \<Longrightarrow> length (boot_body_bytes p) = 84" "boot_record_ok p \<Longrightarrow> length (boot_bytes p) = 88"
  by (simp_all add: boot_record_ok_def boot_bytes_def boot_body_bytes_def boot_head_bytes_def
      boot_update_bytes_def boot_provision_bytes_def)

lemma boot_parse_bytes:
  assumes "boot_record_ok p"
  shows "boot_parse (boot_bytes p) = p"
proof -
  obtain a b c where u: "pb_update_reserved p = [a, b, c]"
    using assms by (auto simp: boot_record_ok_def length_Suc_conv numeral_eq_Suc)
  obtain a' b' c' where v: "pb_provision_reserved p = [a', b', c']"
    using assms by (auto simp: boot_record_ok_def length_Suc_conv numeral_eq_Suc)
  show ?thesis
    by (rule ls_persistent_boot.equality)
      (simp_all add: boot_parse_def boot_update_parse_def boot_head_parse_def boot_bytes_def
        boot_body_bytes_def boot_head_bytes_def boot_update_bytes_def boot_provision_bytes_def u v
        skip_le32 skip_byte bslice_def del: drop_Cons_numeral nth_Cons_numeral)
qed

lemma boot_prefix:
  "read_u32 (boot_bytes p) 0 = pb_magic p" "read_u32 (boot_bytes p) 4 = pb_version p"
  by (simp_all add: boot_bytes_def boot_body_bytes_def boot_head_bytes_def skip_le32)

section \<open>What a save changes\<close>

text \<open>
  A save stores the uptime, the sequence number and the checksum; the rest of the boot record, its
  \<open>lifecycle\<close>, and the other parts of the runtime stay as they are, whatever the storage does.
\<close>

definition lifecycle :: "ls_persistent_boot \<Rightarrow> ls_persistent_boot" where
  "lifecycle p = p\<lparr>pb_magic := 0, pb_version := 0, pb_previous_uptime_ms := 0, pb_last_sequence := 0,
     pb_crc := 0\<rparr>"

text \<open>The record a save writes.\<close>

definition saved_record :: "'s boot_env \<Rightarrow> ('s, 't, 'p) boot_rt \<Rightarrow> ls_persistent_boot" where
  "saved_record e bt =
     (let p = (bt_persistent bt)
                \<lparr>pb_magic := LS_BOOT_MAGIC, pb_version := LS_BOOT_VERSION,
                 pb_previous_uptime_ms := fst (ls_uptime_ms e bt),
                 pb_last_sequence := rt_sequence (bt_spool bt)\<rparr>
      in p\<lparr>pb_crc := boot_crc p\<rparr>)"

lemma read_timestamp_frame [simp]:
  "bt_persistent (snd (read_timestamp e bt)) = bt_persistent bt"
  "bt_spool (snd (read_timestamp e bt)) = bt_spool bt"
  "bt_security (snd (read_timestamp e bt)) = bt_security bt"
  "bt_blackbox (snd (read_timestamp e bt)) = bt_blackbox bt"
  "bt_initialized (snd (read_timestamp e bt)) = bt_initialized bt"
  "bt_boot_loop (snd (read_timestamp e bt)) = bt_boot_loop bt"
  "bt_safe_mode (snd (read_timestamp e bt)) = bt_safe_mode bt"
  "bt_boot_count (snd (read_timestamp e bt)) = bt_boot_count bt"
  "bt_boot_started_ms (snd (read_timestamp e bt)) = bt_boot_started_ms bt"
  by (simp_all add: read_timestamp_def split: option.split)

lemma ls_uptime_ms_snd [simp]: "snd (ls_uptime_ms e bt) = snd (read_timestamp e bt)"
  by (simp add: ls_uptime_ms_def split: prod.split)

lemma boot_store_frame:
  assumes "boot_store f bt = (r, bt')"
  shows "\<exists>w'. f \<lparr>faults = rt_faults (bt_spool bt), ctx = rt_store (bt_spool bt)\<rparr> = (r, w') \<and>
    bt' = bt\<lparr>bt_spool := (bt_spool bt)\<lparr>rt_faults := faults w', rt_store := ctx w'\<rparr>\<rparr>"
  using assms by (auto simp: boot_store_def on_store_def split: prod.splits)

lemma save_cases:
  assumes "ls_boot_state_save e bt = (r, bt')"
  obtains (skip) "bt' = bt"
    | (program) dev bt1 where "en_storage e = Some dev" "boot_offset e + 88 \<le> be_capacity dev"
        "bt1 = (snd (read_timestamp e bt))\<lparr>bt_persistent := saved_record e bt\<rparr>"
        "and_then (boot_store (ls_storage_program (en_config e) dev (boot_offset e)
            (boot_bytes (saved_record e bt))) bt1) (boot_store (call_sync dev)) = (r, bt')"
  using assms
  by (auto simp: ls_boot_state_save_def saved_record_def Let_def split_beta not_less
      split: option.splits if_splits)

definition boot_frame :: "('s, 't, 'p) boot_rt \<Rightarrow> ('s, 't, 'p) boot_rt \<Rightarrow> bool" where
  "boot_frame bt bt' \<longleftrightarrow>
     lifecycle (bt_persistent bt') = lifecycle (bt_persistent bt) \<and>
     bt_security bt' = bt_security bt \<and> bt_blackbox bt' = bt_blackbox bt \<and>
     bt_initialized bt' = bt_initialized bt \<and> bt_boot_loop bt' = bt_boot_loop bt \<and>
     bt_safe_mode bt' = bt_safe_mode bt \<and> bt_boot_count bt' = bt_boot_count bt \<and>
     rt_sequence (bt_spool bt') = rt_sequence (bt_spool bt)"

lemma boot_frame_refl [simp]: "boot_frame bt bt"
  by (simp add: boot_frame_def)

lemma boot_frame_trans: "boot_frame a b \<Longrightarrow> boot_frame b c \<Longrightarrow> boot_frame a c"
  by (simp add: boot_frame_def)

lemma boot_store_boot_frame: "boot_frame bt (snd (boot_store f bt))"
  by (auto simp: boot_frame_def boot_store_def on_store_def split: prod.split)

lemma lifecycle_saved_record [simp]: "lifecycle (saved_record e bt) = lifecycle (bt_persistent bt)"
  by (simp add: lifecycle_def saved_record_def Let_def)

lemma save_frame: "boot_frame bt (snd (ls_boot_state_save e bt))"
proof -
  obtain r bt' where s: "ls_boot_state_save e bt = (r, bt')" by (metis prod.exhaust)
  from s show ?thesis
  proof (cases rule: save_cases)
    case skip
    then show ?thesis using s by simp
  next
    case (program dev bt1)
    have "boot_frame bt bt1"
      unfolding program(3) by (simp add: boot_frame_def)
    then have "boot_frame bt (snd (boot_store (ls_storage_program (en_config e) dev (boot_offset e)
        (boot_bytes (saved_record e bt))) bt1))"
      using boot_store_boot_frame boot_frame_trans by blast
    then have "boot_frame bt (snd (and_then (boot_store (ls_storage_program (en_config e) dev
        (boot_offset e) (boot_bytes (saved_record e bt))) bt1) (boot_store (call_sync dev))))"
      by (rule and_then_invariant) (use boot_store_boot_frame boot_frame_trans in blast)
    then show ?thesis using program(4) s by simp
  qed
qed

lemma lifecycle_fields:
  assumes "lifecycle p = lifecycle q"
  shows "pb_boot_count p = pb_boot_count q" "pb_consecutive_failures p = pb_consecutive_failures q"
    "pb_crash_pending p = pb_crash_pending q" "pb_expected_reset p = pb_expected_reset q"
    "pb_boot_successful p = pb_boot_successful q" "pb_release_state p = pb_release_state q"
    "pb_release_hash p = pb_release_hash q" "pb_pending_crash_id p = pb_pending_crash_id q"
    "pb_update_version_floor p = pb_update_version_floor q"
    "pb_update_pending_version p = pb_update_pending_version q"
    "pb_update_image_fingerprint p = pb_update_image_fingerprint q"
    "pb_update_signing_key_id p = pb_update_signing_key_id q"
    "pb_update_rollback_count p = pb_update_rollback_count q"
    "pb_update_state p = pb_update_state q" "pb_update_reserved p = pb_update_reserved q"
    "pb_provision_key_id p = pb_provision_key_id q"
    "pb_provision_pending_key_id p = pb_provision_pending_key_id q"
    "pb_provision_generation p = pb_provision_generation q"
    "pb_provision_monotonic_counter p = pb_provision_monotonic_counter q"
    "pb_provision_state p = pb_provision_state q"
    "pb_provision_reserved p = pb_provision_reserved q"
  using assms by (cases p; cases q; simp add: lifecycle_def)+

lemmas boot_frame_fields =
  lifecycle_fields [OF boot_frame_def [THEN iffD1, THEN conjunct1]]

lemma save_fields [simp]:
  "pb_boot_count (bt_persistent (snd (ls_boot_state_save e bt))) = pb_boot_count (bt_persistent bt)"
  "pb_consecutive_failures (bt_persistent (snd (ls_boot_state_save e bt))) = pb_consecutive_failures (bt_persistent bt)"
  "pb_update_version_floor (bt_persistent (snd (ls_boot_state_save e bt))) = pb_update_version_floor (bt_persistent bt)"
  "pb_update_pending_version (bt_persistent (snd (ls_boot_state_save e bt))) = pb_update_pending_version (bt_persistent bt)"
  "pb_update_image_fingerprint (bt_persistent (snd (ls_boot_state_save e bt))) = pb_update_image_fingerprint (bt_persistent bt)"
  "pb_update_signing_key_id (bt_persistent (snd (ls_boot_state_save e bt))) = pb_update_signing_key_id (bt_persistent bt)"
  "pb_update_rollback_count (bt_persistent (snd (ls_boot_state_save e bt))) = pb_update_rollback_count (bt_persistent bt)"
  "pb_update_state (bt_persistent (snd (ls_boot_state_save e bt))) = pb_update_state (bt_persistent bt)"
  "pb_provision_key_id (bt_persistent (snd (ls_boot_state_save e bt))) = pb_provision_key_id (bt_persistent bt)"
  "pb_provision_pending_key_id (bt_persistent (snd (ls_boot_state_save e bt))) = pb_provision_pending_key_id (bt_persistent bt)"
  "pb_provision_generation (bt_persistent (snd (ls_boot_state_save e bt))) = pb_provision_generation (bt_persistent bt)"
  "pb_provision_monotonic_counter (bt_persistent (snd (ls_boot_state_save e bt))) = pb_provision_monotonic_counter (bt_persistent bt)"
  "pb_provision_state (bt_persistent (snd (ls_boot_state_save e bt))) = pb_provision_state (bt_persistent bt)"
  "boot_record_ok (bt_persistent (snd (ls_boot_state_save e bt))) = boot_record_ok (bt_persistent bt)"
  "bt_security (snd (ls_boot_state_save e bt)) = bt_security bt"
  "bt_blackbox (snd (ls_boot_state_save e bt)) = bt_blackbox bt"
  "bt_initialized (snd (ls_boot_state_save e bt)) = bt_initialized bt"
  "bt_safe_mode (snd (ls_boot_state_save e bt)) = bt_safe_mode bt"
  "bt_boot_loop (snd (ls_boot_state_save e bt)) = bt_boot_loop bt"
  using boot_frame_fields [OF save_frame [of bt e]] save_frame [of bt e]
  by (simp_all add: boot_record_ok_def) (simp_all add: boot_frame_def)

section \<open>A saved record is loaded again\<close>

definition boot_world :: "('s, 't, 'p) boot_rt \<Rightarrow> 's world" where
  "boot_world bt = \<lparr>faults = rt_faults (bt_spool bt), ctx = rt_store (bt_spool bt)\<rparr>"

lemma boot_storeD:
  assumes "boot_store f bt = (r, bt')"
  obtains w' where "f (boot_world bt) = (r, w')" "ctx w' = rt_store (bt_spool bt')"
    "bt_persistent bt' = bt_persistent bt" "boot_world bt' = w'"
  using boot_store_frame [OF assms] by (auto simp: boot_world_def)

lemma saved_record_fields [simp]:
  "pb_magic (saved_record e bt) = LS_BOOT_MAGIC" "pb_version (saved_record e bt) = LS_BOOT_VERSION"
  "pb_crc (saved_record e bt) = boot_crc (saved_record e bt)"
  "boot_record_ok (saved_record e bt) = boot_record_ok (bt_persistent bt)"
  by (simp_all add: saved_record_def Let_def boot_crc_def boot_record_ok_def boot_body_bytes_def
      boot_head_bytes_def boot_update_bytes_def boot_provision_bytes_def)

text \<open>The record lies in the storage.\<close>

definition record_on :: "'s boot_env \<Rightarrow> bytes \<Rightarrow> ls_persistent_boot \<Rightarrow> bool" where
  "record_on e m p \<longleftrightarrow>
     boot_offset e + 88 \<le> length m \<and> bslice (boot_offset e) 88 m = boot_bytes p \<and>
     boot_record_ok p \<and> pb_magic p = LS_BOOT_MAGIC \<and> pb_version p = LS_BOOT_VERSION \<and>
     pb_crc p = boot_crc p"

context storage_device
begin

lemma save_record_on:
  assumes storage: "en_storage e = Some dev" and ok: "inv (rt_store (bt_spool bt))"
    and fit: "boot_offset e + 88 \<le> be_capacity dev" and p: "boot_record_ok (bt_persistent bt)"
    and save: "ls_boot_state_save e bt = (LS_OK, bt')"
  shows "inv (rt_store (bt_spool bt')) \<and> bt_persistent bt' = saved_record e bt \<and>
    record_on e (mem (rt_store (bt_spool bt'))) (bt_persistent bt')"
proof -
  define q where "q = saved_record e bt"
  have len: "length (boot_bytes q) = 88" using p by (simp add: q_def)
  define bt1 where "bt1 = (snd (read_timestamp e bt))\<lparr>bt_persistent := q\<rparr>"
  have w: "ctx (boot_world bt1) = rt_store (bt_spool bt)" by (simp add: boot_world_def bt1_def)
  have "and_then (boot_store (ls_storage_program (en_config e) dev (boot_offset e) (boot_bytes q)) bt1)
      (boot_store (call_sync dev)) = (LS_OK, bt')"
    using save storage has_write fit
    by (simp add: ls_boot_state_save_def saved_record_def q_def bt1_def Let_def split_beta)
  then obtain bt2 where
    prog: "boot_store (ls_storage_program (en_config e) dev (boot_offset e) (boot_bytes q)) bt1 = (LS_OK, bt2)"
    and sync: "boot_store (call_sync dev) bt2 = (LS_OK, bt')"
    by (auto simp: and_then_eq_OK)
  obtain w2 where w2: "ls_storage_program (en_config e) dev (boot_offset e) (boot_bytes q) (boot_world bt1) = (LS_OK, w2)"
    "ctx w2 = rt_store (bt_spool bt2)" "bt_persistent bt2 = bt_persistent bt1" "boot_world bt2 = w2"
    using prog by (rule boot_storeD)
  have m2: "inv (ctx w2)" "mem (ctx w2) = overwrite (boot_offset e) (boot_bytes q) (mem (rt_store (bt_spool bt)))"
    using program_effects [OF w2(1)] ok fit len by (simp_all add: w)
  obtain w3 where w3: "call_sync dev (boot_world bt2) = (LS_OK, w3)" "ctx w3 = rt_store (bt_spool bt')"
    "bt_persistent bt' = bt_persistent bt2"
    using sync by (rule boot_storeD)
  have "inv (ctx w3)" "mem (ctx w3) = mem (ctx w2)"
    using sync_law [OF _ w3(1)] m2(1) by (simp_all add: w2(4))
  moreover have "bt_persistent bt' = q" using w2(3) w3(3) by (simp add: bt1_def)
  moreover have "length (mem (rt_store (bt_spool bt))) = be_capacity dev" using ok by (rule mem_length)
  ultimately show ?thesis
    using m2(2) w3(2) fit len p by (simp add: record_on_def q_def)
qed

lemma load_record_on:
  assumes storage: "en_storage e = Some dev" and ok: "inv (rt_store (bt_spool bt))"
    and stored: "record_on e (mem (rt_store (bt_spool bt))) p"
    and load: "ls_boot_state_load e bt = (r, bt')"
  shows "r = LS_OK \<and> bt_persistent bt' = p \<or>
    (\<exists>n w d w'. r \<noteq> LS_OK \<and> inv (ctx w) \<and> boot_offset e + n \<le> be_capacity dev \<and>
       call_read dev (boot_offset e) n w = ((r, d), w'))"
proof -
  note st = stored [unfolded record_on_def]
  define z where "z = bt\<lparr>bt_persistent := zero_boot\<rparr>"
  have zw: "ctx (boot_world z) = rt_store (bt_spool bt)" by (simp add: z_def boot_world_def)
  have cap: "boot_offset e + 88 \<le> be_capacity dev" using st mem_length [OF ok] by simp
  obtain r1 d1 bt1 where read1: "boot_store (call_read dev (boot_offset e) 8) z = ((r1, d1), bt1)"
    by (metis prod.exhaust)
  then obtain w1 where w1: "call_read dev (boot_offset e) 8 (boot_world z) = ((r1, d1), w1)"
    "ctx w1 = rt_store (bt_spool bt1)" "boot_world bt1 = w1"
    by (rule boot_storeD) blast
  have c1: "inv (ctx w1)" "mem (ctx w1) = mem (rt_store (bt_spool bt))"
    "r1 = LS_OK \<Longrightarrow> d1 = bslice (boot_offset e) 8 (mem (rt_store (bt_spool bt)))"
    using read_law [OF _ _ w1(1)] ok cap by (auto simp: zw)
  obtain f where "be_read dev = Some f" using has_read by blast
  then have fail: "r1 \<noteq> LS_OK \<Longrightarrow> ls_boot_state_load e bt = (r1, bt1)"
    and layout: "r1 = LS_OK \<Longrightarrow> read_u32 d1 0 = LS_BOOT_MAGIC \<Longrightarrow> read_u32 d1 4 = LS_BOOT_VERSION \<Longrightarrow>
      ls_boot_state_load e bt = load_layout e dev 88 boot_parse bt1"
    using storage cap read1
    by (simp_all add: ls_boot_state_load_def z_def [symmetric] Let_def LS_BOOT_VERSION_def
        LS_BOOT_VERSION_V2_def LS_BOOT_VERSION_LEGACY_def)
  show ?thesis
  proof (cases "r1 = LS_OK")
    case False
    moreover have "r = r1" using fail load False by simp
    moreover have "inv (ctx (boot_world z))" "boot_offset e + 8 \<le> be_capacity dev"
      using ok cap by (simp_all add: zw)
    ultimately show ?thesis using w1(1) by blast
  next
    case True
    have "bslice (boot_offset e) 8 (mem (rt_store (bt_spool bt))) =
        bslice 0 8 (bslice (boot_offset e) 88 (mem (rt_store (bt_spool bt))))"
      by (simp add: bslice_bslice)
    then have d1: "d1 = bslice 0 8 (boot_bytes p)" using c1(3) True st by simp
    have prefix: "read_u32 d1 0 = LS_BOOT_MAGIC" "read_u32 d1 4 = LS_BOOT_VERSION"
      using st boot_prefix [of p] by (simp_all add: d1 read_u32_bslice)
    obtain r2 d2 bt2 where read2: "boot_store (call_read dev (boot_offset e) 88) bt1 = ((r2, d2), bt2)"
      by (metis prod.exhaust)
    then obtain w2 where w2: "call_read dev (boot_offset e) 88 (boot_world bt1) = ((r2, d2), w2)"
      by (rule boot_storeD) blast
    have d2: "r2 = LS_OK \<Longrightarrow> d2 = boot_bytes p"
      using read_law [OF _ _ w2] c1 cap st by (auto simp: w1(3))
    have "read_u32 (boot_bytes p) 84 = pb_crc p" "take 84 (boot_bytes p) = boot_body_bytes p"
      using st read_u32_shift [of "boot_body_bytes p" "le32 (pb_crc p)" 0] by (simp_all add: boot_bytes_def)
    then have "load_layout e dev 88 boot_parse bt1 =
        (if r2 \<noteq> LS_OK then (r2, bt2) else (LS_OK, bt2\<lparr>bt_persistent := p\<rparr>))"
      using read2 d2 st boot_parse_bytes [of p] by (simp add: load_layout_def boot_crc_def)
    then consider "r = LS_OK" "bt_persistent bt' = p" | "r \<noteq> LS_OK" "r = r2"
      using layout [OF True prefix] load by (auto split: if_splits)
    then show ?thesis
    proof cases
      case 2
      moreover have "inv (ctx (boot_world bt1))" using c1(1) w1(3) by simp
      ultimately show ?thesis using w2 cap by blast
    qed simp
  qed
qed

end

text \<open>The boot environment of a simulated flash.\<close>

definition sim_env :: "ls_build_config \<Rightarrow> nat \<Rightarrow> nat \<Rightarrow> nat \<Rightarrow> ls_storage_sim boot_env" where
  "sim_env cfg cap erase_sz write_sz =
     \<lparr>en_config = cfg, en_storage = Some (sim_backend cap erase_sz write_sz),
      LS_BOOT_LOOP_THRESHOLD = 3, LS_BOOT_LOOP_WINDOW_MS = 60000, LS_ENABLE_POWERFAIL_SEAL = True,
      en_timestamp_ms = None\<rparr>"

lemma sim_env_simps [simp]:
  "en_storage (sim_env cfg cap erase_sz write_sz) = Some (sim_backend cap erase_sz write_sz)"
  "en_config (sim_env cfg cap erase_sz write_sz) = cfg"
  "boot_offset (sim_env cfg cap erase_sz write_sz) = ls_spool_storage_size cfg"
  "be_capacity (sim_backend cap erase_sz write_sz) = cap"
  by (simp_all add: sim_env_def boot_offset_def sim_backend_def)

text \<open>C35: what \<^verbatim>\<open>ls_boot_state_save\<close> reports as saved survives a reset: on a simulated flash with
  any faults scheduled, when the save returns \<open>LS_OK\<close>, a later \<^verbatim>\<open>ls_boot_state_load\<close> by a fresh
  runtime on the same flash returns \<open>LS_OK\<close> with exactly the saved record (or the error of a failing
  read), never \<open>LS_ECORRUPT\<close>.\<close>

theorem boot_state_survives_reset:
  fixes bt :: "(ls_storage_sim, 't, 'p) boot_rt" and fresh :: "(ls_storage_sim, 'u, 'q) boot_rt"
  assumes "ls_boot_state_save (sim_env cfg cap erase_sz write_sz) bt = (LS_OK, bt')"
    and "ls_spool_storage_size cfg + 88 \<le> cap" and "sim_ok cap (rt_store (bt_spool bt))"
    and "boot_record_ok (bt_persistent bt)"
    and "rt_store (bt_spool fresh) = rt_store (bt_spool bt')"
    and "ls_boot_state_load (sim_env cfg cap erase_sz write_sz) fresh = (r, loaded)"
  shows "if r = LS_OK then bt_persistent loaded = bt_persistent bt' else r = LS_EIO"
proof -
  let ?e = "sim_env cfg cap erase_sz write_sz"
  have S: "sim_ok cap (rt_store (bt_spool bt'))"
    "record_on ?e (sim_content (rt_store (bt_spool bt'))) (bt_persistent bt')"
    using sim.save_record_on [of ?e cap erase_sz write_sz bt bt'] assms(1-4) by auto
  have R: "r = LS_OK \<and> bt_persistent loaded = bt_persistent bt' \<or>
      (\<exists>n w d w'. r \<noteq> LS_OK \<and> sim_ok cap (ctx w) \<and>
         boot_offset ?e + n \<le> be_capacity (sim_backend cap erase_sz write_sz) \<and>
         call_read (sim_backend cap erase_sz write_sz) (boot_offset ?e) n w = ((r, d), w'))"
    by (rule sim.load_record_on) (use S assms(5,6) in simp_all)
  have "r = LS_EIO" if "r \<noteq> LS_OK" "sim_ok cap (ctx w)" "ls_spool_storage_size cfg + n \<le> cap"
    "ls_storage_sim_read (ls_spool_storage_size cfg) n w = ((r, d), w')" for n w d w'
    using that by (auto simp: ls_storage_sim_read_def sim_bounds_def sim_ok_def split: if_splits prod.splits bool.splits)
  then show ?thesis using R by (auto simp: sim_calls)
qed

text \<open>A record saved on an erased flash, and loaded by a runtime with nothing but that flash.\<close>

definition blank_spool_rt :: "'s \<Rightarrow> 't \<Rightarrow> ('s, 't) spool_rt" where
  "blank_spool_rt store net =
     \<lparr>rt_faults = faults_none, rt_store = store, rt_net = net, rt_transports = [], rt_busy = [],
      rt_sequence = 0, spool_high_watermark = 0, spool_dropped_records = 0, spool_corrupt_records = 0,
      spool_transport_failures = 0, spool_retry_saturated = 0\<rparr>"

definition blank_boot_rt :: "'s \<Rightarrow> 't \<Rightarrow> 'p \<Rightarrow> ('s, 't, 'p) boot_rt" where
  "blank_boot_rt store net prt =
     \<lparr>bt_spool = blank_spool_rt store net, bt_security = security_init prt,
      bt_blackbox = ls_blackbox_clear two_slots, bt_initialized = True, bt_persistent = zero_boot,
      bt_reset_info = \<lparr>ri_reason = LS_RESET_UNKNOWN, ri_raw_reason = 0, ri_boot_count = 0,
        ri_previous_uptime_ms = 0, ri_expected = False, ri_crash_pending = False, ri_boot_loop = False\<rparr>,
      bt_boot_started_ms = 0, bt_boot_count = 0, bt_previous_crashed = False, bt_boot_loop = False,
      bt_safe_mode = False, bt_powerfail_last_valid = False, bt_clock_reads = 0\<rparr>"

definition boot_flash :: "ls_storage_sim" where
  "boot_flash = ctx (example_flash (replicate 256 0xff))"

definition tiny_config :: ls_build_config where
  "tiny_config = ls_build_config_default\<lparr>LS_MAX_EVENT_SIZE := 16, LS_SPOOL_MAX_RECORDS := 1,
     LS_STORAGE_MAX_WRITE_SIZE := 1\<rparr>"

context reliable_device
begin

lemma save_succeeds:
  assumes storage: "en_storage e = Some dev" and ok: "inv (rt_store (bt_spool bt))"
    and h: "healthy (rt_store (bt_spool bt))" "\<not> fault_injection_active (rt_faults (bt_spool bt))"
    and fit: "boot_offset e + 88 \<le> be_capacity dev" and p: "boot_record_ok (bt_persistent bt)"
    and size: "be_write_size dev \<le> LS_STORAGE_MAX_WRITE_SIZE (en_config e)" "1 \<le> LS_STORAGE_MAX_WRITE_SIZE (en_config e)"
    and cap: "be_write_size dev dvd be_capacity dev" "be_capacity dev + be_write_size dev \<le> SIZE_MAX"
    and erased: "bslice (boot_offset e) 88 (mem (rt_store (bt_spool bt))) = replicate 88 0xff"
  shows "\<exists>bt'. ls_boot_state_save e bt = (LS_OK, bt')"
proof -
  define q where "q = saved_record e bt"
  define bt1 where "bt1 = (snd (read_timestamp e bt))\<lparr>bt_persistent := q\<rparr>"
  have w: "ctx (boot_world bt1) = rt_store (bt_spool bt)" "no_faults (boot_world bt1)"
    using h by (simp_all add: boot_world_def bt1_def no_faults_def)
  have len: "length (boot_bytes q) = 88" using p by (simp add: q_def)
  have "clears_only (mem (rt_store (bt_spool bt)) ! (boot_offset e + i)) (boot_bytes q ! i)" if "i < 88" for i
  proof -
    have "mem (rt_store (bt_spool bt)) ! (boot_offset e + i) = bslice (boot_offset e) 88 (mem (rt_store (bt_spool bt))) ! i"
      using that fit mem_length [OF ok] by simp
    then show ?thesis using that by (simp add: erased)
  qed
  then obtain w2 where w2: "ls_storage_program (en_config e) dev (boot_offset e) (boot_bytes q) (boot_world bt1) = (LS_OK, w2)"
    "healthy (ctx w2)" "no_faults w2" "inv (ctx w2)"
    using program_ok [of "boot_world bt1" "boot_offset e" "boot_bytes q" "en_config e"] ok h fit size cap len
    by (auto simp: w)
  obtain w3 where w3: "call_sync dev w2 = (LS_OK, w3)" using sync_ok [of w2] w2 by blast
  obtain f where f: "be_write dev = Some f" using has_write by blast
  have world: "\<lparr>faults = rt_faults (bt_spool bt1), ctx = rt_store (bt_spool bt1)\<rparr> = boot_world bt1"
    by (simp add: boot_world_def)
  have w2': "\<lparr>faults = faults w2, ctx = ctx w2\<rparr> = w2" by simp
  have "ls_boot_state_save e bt = and_then (boot_store (ls_storage_program (en_config e) dev
      (boot_offset e) (boot_bytes q)) bt1) (boot_store (call_sync dev))"
    using storage f fit
    by (simp add: ls_boot_state_save_def saved_record_def q_def bt1_def Let_def split_beta)
  then show ?thesis
    by (simp add: boot_store_def on_store_def world w2 w2' w3)
qed

end

theorem boot_state_survives_reset_witness:
  "\<exists>bt'. ls_boot_state_save (sim_env tiny_config 256 1 1) (blank_boot_rt boot_flash () ()) = (LS_OK, bt') \<and>
     (case ls_boot_state_load (sim_env tiny_config 256 1 1)
             (blank_boot_rt (rt_store (bt_spool bt')) () ()) of
        (r, loaded) \<Rightarrow> if r = LS_OK then bt_persistent loaded = bt_persistent bt' else r = LS_EIO)"
proof -
  let ?e = "sim_env tiny_config 256 1 1" and ?bt = "blank_boot_rt boot_flash () ()"
  have ok: "sim_ok 256 (rt_store (bt_spool ?bt))" "sim_healthy (rt_store (bt_spool ?bt))"
    "sim_content (rt_store (bt_spool ?bt)) = replicate 256 0xff"
    "\<not> fault_injection_active (rt_faults (bt_spool ?bt))" "boot_record_ok (bt_persistent ?bt)"
    using example_flash_simps(1) [of 256 "replicate 256 0xff"]
      example_flash_simps(2,4) [of "replicate 256 0xff"]
    by (simp_all add: blank_boot_rt_def blank_spool_rt_def boot_flash_def boot_record_ok_def
        zero_boot_def no_faults_def faults_none_def example_flash_def)
  have size: "ls_spool_storage_size tiny_config + 88 \<le> 256"
    by (simp add: ls_spool_storage_size_def raw_storage_size_def record_size_def spool_add_size_def
        SPOOL_HEADER_SIZE_def SPOOL_RECORD_SIZE_def tiny_config_def ls_build_config_default_def
        SIZE_MAX_def Let_def)
  have units: "LS_STORAGE_MAX_WRITE_SIZE tiny_config = 1"
    "be_write_size (sim_backend 256 1 1 :: ls_storage_sim ls_storage_backend) = 1"
    by (simp_all add: tiny_config_def sim_backend_def)
  have "\<exists>bt'. ls_boot_state_save ?e ?bt = (LS_OK, bt')"
  proof (rule sim.save_succeeds)
    show "en_storage ?e = Some (sim_backend 256 1 1)" by simp
    show "boot_offset ?e + 88 \<le> be_capacity (sim_backend 256 1 1 :: ls_storage_sim ls_storage_backend)"
      using size by simp
    show "bslice (boot_offset ?e) 88 (sim_content (rt_store (bt_spool ?bt))) = replicate 88 0xff"
      unfolding ok(3) using size by (simp add: bslice_def)
  qed (use ok(1,2,4,5) units in \<open>simp_all add: SIZE_MAX_def\<close>)
  then obtain bt' where s: "ls_boot_state_save ?e ?bt = (LS_OK, bt')" by blast
  obtain r l where l: "ls_boot_state_load ?e (blank_boot_rt (rt_store (bt_spool bt')) () ()) = (r, l)"
    by (metis prod.exhaust)
  have "if r = LS_OK then bt_persistent l = bt_persistent bt' else r = LS_EIO"
    using boot_state_survives_reset [OF s size ok(1,5) _ l] by (simp add: blank_boot_rt_def blank_spool_rt_def)
  then show ?thesis using s l by auto
qed

section \<open>The update state machine\<close>

text \<open>
  The invariant of the update fields: a known state; a pending update has a version at or above the
  confirmed floor, a fingerprint and a key; without one there is no pending version.
\<close>

definition update_ok :: "ls_persistent_boot \<Rightarrow> bool" where
  "update_ok p \<longleftrightarrow>
     pb_update_state p \<in> {LS_UPDATE_NONE, LS_UPDATE_PENDING, LS_UPDATE_CONFIRMED, LS_UPDATE_ROLLED_BACK} \<and>
     (if pb_update_state p = LS_UPDATE_PENDING
      then pb_update_pending_version p \<noteq> 0 \<and> pb_update_version_floor p \<le> pb_update_pending_version p \<and>
           pb_update_image_fingerprint p \<noteq> 0 \<and> pb_update_signing_key_id p \<noteq> 0
      else pb_update_pending_version p = 0)"

lemma update_ok_zero [simp]: "update_ok zero_boot" "update_ok fresh_boot"
  by (simp_all add: update_ok_def zero_boot_def fresh_boot_def update_codes)

lemma update_ok_save [simp]:
  "update_ok (bt_persistent (snd (ls_boot_state_save e bt))) = update_ok (bt_persistent bt)"
  by (simp add: update_ok_def)

lemma on_boot_persistent [simp]:
  "bt_persistent (on_boot f bt) = f (bt_persistent bt)" "bt_security (on_boot f bt) = bt_security bt"
  "bt_blackbox (on_boot f bt) = bt_blackbox bt" "bt_initialized (on_boot f bt) = bt_initialized bt"
  "bt_spool (on_boot f bt) = bt_spool bt"
  by (simp_all add: on_boot_def)

lemma update_stage_ok:
  "update_ok (bt_persistent bt) \<Longrightarrow> update_ok (bt_persistent (snd (ls_update_stage e v f k bt)))"
  by (simp add: ls_update_stage_def ls_update_version_allowed_def)
    (simp add: update_ok_def update_codes)

lemma update_confirm_ok:
  "update_ok (bt_persistent bt) \<Longrightarrow> update_ok (bt_persistent (snd (ls_update_confirm_version e v bt)))"
  by (simp add: ls_update_confirm_version_def) (simp add: update_ok_def update_codes)

lemma update_rollback_ok:
  "update_ok (bt_persistent bt) \<Longrightarrow> update_ok (bt_persistent (snd (ls_update_mark_version_rollback e v bt)))"
  by (simp add: ls_update_mark_version_rollback_def) (simp add: update_ok_def update_codes)

lemma update_abort_ok:
  "update_ok (bt_persistent bt) \<Longrightarrow> update_ok (bt_persistent (snd (ls_update_abort_stage e v bt)))"
  by (simp add: ls_update_abort_stage_def) (simp add: update_ok_def update_codes)

text \<open>The floor never goes down.\<close>

lemma update_floor:
  "pb_update_version_floor (bt_persistent (snd (ls_update_stage e v f k bt))) =
     pb_update_version_floor (bt_persistent bt)"
  "pb_update_version_floor (bt_persistent (snd (ls_update_mark_version_rollback e v bt))) =
     pb_update_version_floor (bt_persistent bt)"
  "pb_update_version_floor (bt_persistent (snd (ls_update_abort_stage e v bt))) =
     pb_update_version_floor (bt_persistent bt)"
  "pb_update_version_floor (bt_persistent (snd (ls_update_confirm_version e v bt))) =
     (if update_is_pending v (bt_persistent bt)
      then max v (pb_update_version_floor (bt_persistent bt))
      else pb_update_version_floor (bt_persistent bt))"
  by (auto simp: ls_update_stage_def ls_update_mark_version_rollback_def ls_update_abort_stage_def
      ls_update_confirm_version_def max_def)

text \<open>
  A load that does not succeed leaves no floor, no counter and no provisioning: \<^verbatim>\<open>ls_boot\<close> goes on
  after \<open>LS_ECORRUPT\<close> and saves this record over the damaged one.
\<close>

lemma load_failure_forgets:
  assumes "ls_boot_state_load e bt = (r, bt')" and "r \<noteq> LS_OK"
  shows "pb_update_version_floor (bt_persistent bt') = 0"
    and "pb_provision_monotonic_counter (bt_persistent bt') = 0"
    and "pb_provision_state (bt_persistent bt') = 0"
    and "ls_update_version_allowed v (bt_persistent bt') \<longleftrightarrow> v \<noteq> 0"
proof -
  have store: "boot_store f x = (y, x') \<Longrightarrow> bt_persistent x' = bt_persistent x" for f x y x'
    by (auto dest: boot_store_frame)
  have "load_layout e dev n parse x = (r, x') \<Longrightarrow> r \<noteq> LS_OK \<Longrightarrow>
      bt_persistent x' = bt_persistent x \<or> bt_persistent x' = fresh_boot" for dev n parse x x'
    by (auto simp: load_layout_def dest: store split: prod.splits if_splits)
  then have "bt_persistent bt' = zero_boot \<or> bt_persistent bt' = fresh_boot"
    using assms
    by (fastforce simp: ls_boot_state_load_def Let_def dest: store split: prod.splits if_splits option.splits)
  then show "pb_update_version_floor (bt_persistent bt') = 0"
    and "pb_provision_monotonic_counter (bt_persistent bt') = 0"
    and "pb_provision_state (bt_persistent bt') = 0"
    and "ls_update_version_allowed v (bt_persistent bt') \<longleftrightarrow> v \<noteq> 0"
    by (auto simp: zero_boot_def fresh_boot_def ls_update_version_allowed_def)
qed

end
