(* ===== verification/LS_Provisioning.thy ===== *)
theory LS_Provisioning
  imports LS_Boot
begin

text \<open>
  \<^verbatim>\<open>src/core/provisioning.c\<close> and \<^verbatim>\<open>src/security/secure_element.c\<close>: the life of the device key,
  from activation through rotation and revocation to decommissioning, and the attestation with an
  external secure element. The element is a structure of optional callbacks over a context of its own;
  the state machine is an inductive step relation over the operations, with its invariant, the
  monotonic counter and the finality of decommissioning by rule induction.
\<close>

section \<open>Secure elements\<close>

text \<open>The callbacks return a result code, the bytes they stored and the new context.\<close>

record 'e ls_secure_element =
  se_random :: "(nat \<Rightarrow> 'e \<Rightarrow> (ls_result \<times> bytes) \<times> 'e) option"
  se_sign_sha256 :: "(bytes \<Rightarrow> 'e \<Rightarrow> (ls_result \<times> bytes) \<times> 'e) option"
  se_read_certificate :: "(nat \<Rightarrow> 'e \<Rightarrow> (ls_result \<times> bytes) \<times> 'e) option"
  se_derive_key :: "(u32 \<Rightarrow> bytes \<Rightarrow> 'e \<Rightarrow> (ls_result \<times> bytes) \<times> 'e) option"
  se_destroy_key :: "(u32 \<Rightarrow> 'e \<Rightarrow> ls_result \<times> 'e) option"

definition ls_secure_element_validate :: "'e ls_secure_element option \<Rightarrow> ls_result" where
  "ls_secure_element_validate element =
     (case element of
        None \<Rightarrow> LS_EINVAL
      | Some el \<Rightarrow>
          if se_random el \<noteq> None \<and> se_sign_sha256 el \<noteq> None \<and> se_read_certificate el \<noteq> None
          then LS_OK else LS_EINVAL)"

definition ls_secure_element_random ::
    "'e ls_secure_element option \<Rightarrow> nat \<Rightarrow> 'e \<Rightarrow> (ls_result \<times> bytes) \<times> 'e" where
  "ls_secure_element_random element n c =
     (case Option.bind element se_random of None \<Rightarrow> ((LS_EINVAL, []), c) | Some f \<Rightarrow> f n c)"

definition ls_secure_element_sign ::
    "'e ls_secure_element option \<Rightarrow> bytes \<Rightarrow> 'e \<Rightarrow> (ls_result \<times> bytes) \<times> 'e" where
  "ls_secure_element_sign element digest c =
     (case Option.bind element se_sign_sha256 of None \<Rightarrow> ((LS_EINVAL, []), c) | Some f \<Rightarrow> f digest c)"

definition ls_secure_element_certificate ::
    "'e ls_secure_element option \<Rightarrow> nat \<Rightarrow> 'e \<Rightarrow> (ls_result \<times> bytes) \<times> 'e" where
  "ls_secure_element_certificate element capacity c =
     (case Option.bind element se_read_certificate of
        None \<Rightarrow> ((LS_EINVAL, []), c)
      | Some f \<Rightarrow> if capacity = 0 then ((LS_EINVAL, []), c) else f capacity c)"

definition ls_secure_element_derive ::
    "'e ls_secure_element option \<Rightarrow> u32 \<Rightarrow> bytes \<Rightarrow> 'e \<Rightarrow> (ls_result \<times> bytes) \<times> 'e" where
  "ls_secure_element_derive element key_id context_data c =
     (case Option.bind element se_derive_key of
        None \<Rightarrow> ((LS_EINVAL, []), c)
      | Some f \<Rightarrow> if key_id = 0 then ((LS_EINVAL, []), c) else f key_id context_data c)"

definition ls_secure_element_destroy_key ::
    "'e ls_secure_element option \<Rightarrow> u32 \<Rightarrow> 'e \<Rightarrow> ls_result \<times> 'e" where
  "ls_secure_element_destroy_key element key_id c =
     (case element of
        None \<Rightarrow> (LS_EINVAL, c)
      | Some el \<Rightarrow>
          if key_id = 0 then (LS_EINVAL, c)
          else case se_destroy_key el of None \<Rightarrow> (LS_ENOTSUP, c) | Some f \<Rightarrow> f key_id c)"

section \<open>Provisioning\<close>

definition LS_PROVISIONING_UNPROVISIONED :: u8 where "LS_PROVISIONING_UNPROVISIONED = 0"
definition LS_PROVISIONING_ACTIVE :: u8 where "LS_PROVISIONING_ACTIVE = 1"
definition LS_PROVISIONING_ROTATING :: u8 where "LS_PROVISIONING_ROTATING = 2"
definition LS_PROVISIONING_REVOKED :: u8 where "LS_PROVISIONING_REVOKED = 3"
definition LS_PROVISIONING_DECOMMISSIONED :: u8 where "LS_PROVISIONING_DECOMMISSIONED = 4"
definition LS_PROVISIONING_DECOMMISSIONING :: u8 where "LS_PROVISIONING_DECOMMISSIONING = 5"

lemmas provisioning_codes =
  LS_PROVISIONING_UNPROVISIONED_def LS_PROVISIONING_ACTIVE_def LS_PROVISIONING_ROTATING_def
  LS_PROVISIONING_REVOKED_def LS_PROVISIONING_DECOMMISSIONED_def LS_PROVISIONING_DECOMMISSIONING_def

record ls_provisioning_state =
  ps_state :: u8
  ps_key_id :: u32
  ps_pending_key_id :: u32
  ps_generation :: u32
  ps_monotonic_counter :: u32

definition monotonic_allowed :: "u32 \<Rightarrow> ls_persistent_boot \<Rightarrow> bool" where
  "monotonic_allowed counter p \<longleftrightarrow> counter \<noteq> 0 \<and> counter > pb_provision_monotonic_counter p"

definition ls_provisioning_get_state :: "('s, 't, 'p) boot_rt \<Rightarrow> ls_provisioning_state" where
  "ls_provisioning_get_state bt =
     (let p = bt_persistent bt
      in \<lparr>ps_state = pb_provision_state p, ps_key_id = pb_provision_key_id p,
          ps_pending_key_id = pb_provision_pending_key_id p,
          ps_generation = pb_provision_generation p,
          ps_monotonic_counter = pb_provision_monotonic_counter p\<rparr>)"

text \<open>The generation counts up and stays at its maximum.\<close>

definition next_generation :: "u32 \<Rightarrow> u32" where
  "next_generation g = (if g \<noteq> - 1 then g + 1 else g)"

definition ls_provisioning_activate ::
    "'s boot_env \<Rightarrow> u32 \<Rightarrow> u32 \<Rightarrow> ('s, 't, 'p) boot_rt \<Rightarrow> ls_result \<times> ('s, 't, 'p) boot_rt" where
  "ls_provisioning_activate e key_id monotonic_counter bt =
     (let p = bt_persistent bt
      in if key_id = 0 \<or> \<not> monotonic_allowed monotonic_counter p \<or>
            pb_provision_state p \<noteq> LS_PROVISIONING_UNPROVISIONED \<and>
            pb_provision_state p \<noteq> LS_PROVISIONING_REVOKED
         then (LS_EINVAL, bt)
         else ls_boot_state_save e
           (on_boot (\<lambda>p. p\<lparr>pb_provision_state := LS_PROVISIONING_ACTIVE, pb_provision_key_id := key_id,
                           pb_provision_pending_key_id := 0,
                           pb_provision_monotonic_counter := monotonic_counter,
                           pb_provision_generation := next_generation (pb_provision_generation p)\<rparr>) bt))"

definition ls_provisioning_begin_rotation ::
    "'s boot_env \<Rightarrow> u32 \<Rightarrow> u32 \<Rightarrow> ('s, 't, 'p) boot_rt \<Rightarrow> ls_result \<times> ('s, 't, 'p) boot_rt" where
  "ls_provisioning_begin_rotation e new_key_id monotonic_counter bt =
     (let p = bt_persistent bt
      in if pb_provision_state p \<noteq> LS_PROVISIONING_ACTIVE \<or> new_key_id = 0 \<or>
            new_key_id = pb_provision_key_id p \<or> \<not> monotonic_allowed monotonic_counter p
         then (LS_EINVAL, bt)
         else ls_boot_state_save e
           (on_boot (\<lambda>p. p\<lparr>pb_provision_state := LS_PROVISIONING_ROTATING,
                           pb_provision_pending_key_id := new_key_id,
                           pb_provision_monotonic_counter := monotonic_counter\<rparr>) bt))"

definition ls_provisioning_commit_rotation ::
    "'s boot_env \<Rightarrow> ('s, 't, 'p) boot_rt \<Rightarrow> ls_result \<times> ('s, 't, 'p) boot_rt" where
  "ls_provisioning_commit_rotation e bt =
     (let p = bt_persistent bt
      in if pb_provision_state p \<noteq> LS_PROVISIONING_ROTATING \<or> pb_provision_pending_key_id p = 0
         then (LS_EINVAL, bt)
         else ls_boot_state_save e
           (on_boot (\<lambda>p. p\<lparr>pb_provision_key_id := pb_provision_pending_key_id p,
                           pb_provision_pending_key_id := 0,
                           pb_provision_state := LS_PROVISIONING_ACTIVE,
                           pb_provision_generation := next_generation (pb_provision_generation p)\<rparr>) bt))"

definition clear_key :: "('s, 't, 'p) boot_rt \<Rightarrow> ('s, 't, 'p) boot_rt" where
  "clear_key bt = bt\<lparr>bt_security := ls_security_clear_key (bt_security bt)\<rparr>"

definition ls_provisioning_revoke ::
    "'s boot_env \<Rightarrow> ('s, 't, 'p) boot_rt \<Rightarrow> ls_result \<times> ('s, 't, 'p) boot_rt" where
  "ls_provisioning_revoke e bt =
     (let p = bt_persistent bt
      in if pb_provision_state p \<noteq> LS_PROVISIONING_ACTIVE \<and>
            pb_provision_state p \<noteq> LS_PROVISIONING_ROTATING
         then (LS_EINVAL, bt)
         else ls_boot_state_save e
           (clear_key
             (on_boot (\<lambda>p. p\<lparr>pb_provision_state := LS_PROVISIONING_REVOKED,
                             pb_provision_pending_key_id := 0\<rparr>) bt)))"

definition ls_provisioning_decommission ::
    "'s boot_env \<Rightarrow> ('s, 't, 'p) boot_rt \<Rightarrow> ls_result \<times> ('s, 't, 'p) boot_rt" where
  "ls_provisioning_decommission e bt =
     (if pb_provision_state (bt_persistent bt) = LS_PROVISIONING_DECOMMISSIONED then (LS_OK, bt)
      else ls_boot_state_save e
        (on_boot (\<lambda>p. p\<lparr>pb_provision_state := LS_PROVISIONING_DECOMMISSIONED,
                        pb_provision_key_id := 0, pb_provision_pending_key_id := 0,
                        pb_provision_generation := next_generation (pb_provision_generation p)\<rparr>)
          (clear_key bt)))"

definition ls_provisioning_decommission_secure ::
    "'s boot_env \<Rightarrow> 'e ls_secure_element option \<Rightarrow> 'e \<Rightarrow> ('s, 't, 'p) boot_rt \<Rightarrow>
     ls_result \<times> 'e \<times> ('s, 't, 'p) boot_rt" where
  "ls_provisioning_decommission_secure e element c bt =
     (let key_id = pb_provision_key_id (bt_persistent bt);
          previous = pb_provision_state (bt_persistent bt)
      in if previous = LS_PROVISIONING_DECOMMISSIONED then (LS_OK, c, bt)
         else if element = None \<or> key_id = 0 \<or>
                 previous \<noteq> LS_PROVISIONING_ACTIVE \<and> previous \<noteq> LS_PROVISIONING_REVOKED \<and>
                 previous \<noteq> LS_PROVISIONING_DECOMMISSIONING
         then (LS_EINVAL, c, bt)
         else
           case (if previous \<noteq> LS_PROVISIONING_DECOMMISSIONING
                 then ls_boot_state_save e
                   (on_boot (\<lambda>p. p\<lparr>pb_provision_state := LS_PROVISIONING_DECOMMISSIONING\<rparr>) bt)
                 else (LS_OK, bt)) of
             (persisted, bt) \<Rightarrow>
               if persisted \<noteq> LS_OK
               then (persisted, c, on_boot (\<lambda>p. p\<lparr>pb_provision_state := previous\<rparr>) bt)
               else case ls_secure_element_destroy_key element key_id c of
                 (result, c) \<Rightarrow>
                   if result \<noteq> LS_OK then (result, c, clear_key bt)
                   else case ls_provisioning_decommission e bt of (result, bt) \<Rightarrow> (result, c, bt))"

text \<open>
  The attestation. \<open>device\<close> is the device identifier of the configured identity (\<open>None\<close> without one),
  \<open>build\<close> the firmware build identifier with its fallback; the result is the digest and the signature.
\<close>

definition attest_material ::
    "bytes \<Rightarrow> cstring option \<Rightarrow> cstring option \<Rightarrow> ('s, 't, 'p) boot_rt \<Rightarrow> bytes" where
  "attest_material challenge device build bt =
     challenge @ (case device of None \<Rightarrow> [] | Some d \<Rightarrow> d) @ (case build of None \<Rightarrow> [] | Some b \<Rightarrow> b) @
     le32 (pb_provision_generation (bt_persistent bt)) @
     le32 (pb_provision_monotonic_counter (bt_persistent bt)) @ le32 (bt_boot_count bt)"

definition ls_provisioning_attest ::
    "'e ls_secure_element option \<Rightarrow> bytes \<Rightarrow> cstring option \<Rightarrow> cstring option \<Rightarrow> 'e \<Rightarrow>
     ('s, 't, 'p) boot_rt \<Rightarrow> (ls_result + bytes \<times> bytes) \<times> 'e" where
  "ls_provisioning_attest element challenge device build c bt =
     (if element = None \<or> length challenge > 128 then (Inl LS_EINVAL, c)
      else if length challenge + ls_string_length device + ls_string_length build + 12 > 256
      then (Inl LS_ENOSPACE, c)
      else
        let digest = ls_sha256 (attest_material challenge device build bt)
        in case ls_secure_element_sign element digest c of
             ((result, signature), c) \<Rightarrow>
               (if result \<noteq> LS_OK then Inl result else Inr (digest, signature), c))"

section \<open>The key life cycle\<close>

text \<open>
  What the key identifiers are in each state, and the order on boot records every operation respects:
  well-formedness is kept, the monotonic counter never goes down, and a device that began to be
  decommissioned stays retired.
\<close>

definition provision_ok :: "ls_persistent_boot \<Rightarrow> bool" where
  "provision_ok p \<longleftrightarrow>
     (let st = pb_provision_state p; k = pb_provision_key_id p; n = pb_provision_pending_key_id p
      in (st = LS_PROVISIONING_UNPROVISIONED \<or> st = LS_PROVISIONING_DECOMMISSIONED) \<and> k = 0 \<and> n = 0 \<or>
         (st = LS_PROVISIONING_ACTIVE \<or> st = LS_PROVISIONING_REVOKED \<or>
          st = LS_PROVISIONING_DECOMMISSIONING) \<and> k \<noteq> 0 \<and> n = 0 \<or>
         st = LS_PROVISIONING_ROTATING \<and> k \<noteq> 0 \<and> n \<noteq> 0 \<and> n \<noteq> k)"

definition retired :: "ls_persistent_boot \<Rightarrow> bool" where
  "retired p \<longleftrightarrow>
     pb_provision_state p = LS_PROVISIONING_DECOMMISSIONING \<or>
     pb_provision_state p = LS_PROVISIONING_DECOMMISSIONED"

definition provision_progress :: "ls_persistent_boot \<Rightarrow> ls_persistent_boot \<Rightarrow> bool" where
  "provision_progress p q \<longleftrightarrow>
     (provision_ok p \<longrightarrow> provision_ok q) \<and>
     pb_provision_monotonic_counter p \<le> pb_provision_monotonic_counter q \<and>
     (retired p \<longrightarrow> retired q) \<and>
     (pb_provision_state p = LS_PROVISIONING_DECOMMISSIONED \<longrightarrow>
        pb_provision_state q = LS_PROVISIONING_DECOMMISSIONED)"

lemma provision_progress_refl [simp]: "provision_progress p p"
  by (simp add: provision_progress_def)

lemma provision_progress_trans:
  "provision_progress p q \<Longrightarrow> provision_progress q r \<Longrightarrow> provision_progress p r"
  by (auto simp: provision_progress_def)

text \<open>Two records with the same provisioning fields.\<close>

definition same_provision :: "ls_persistent_boot \<Rightarrow> ls_persistent_boot \<Rightarrow> bool" where
  "same_provision p q \<longleftrightarrow>
     pb_provision_state q = pb_provision_state p \<and> pb_provision_key_id q = pb_provision_key_id p \<and>
     pb_provision_pending_key_id q = pb_provision_pending_key_id p \<and>
     pb_provision_monotonic_counter q = pb_provision_monotonic_counter p"

lemma same_provision_progress: "same_provision q r \<Longrightarrow> provision_progress p q \<Longrightarrow> provision_progress p r"
  by (simp add: same_provision_def provision_progress_def provision_ok_def retired_def)

lemma same_provision_save [simp]:
  "same_provision (bt_persistent bt) (bt_persistent (snd (ls_boot_state_save e bt)))"
  by (simp add: same_provision_def)

lemma progress_save:
  "provision_progress p (bt_persistent bt) \<Longrightarrow>
   provision_progress p (bt_persistent (snd (ls_boot_state_save e bt)))"
  by (rule same_provision_progress [OF same_provision_save])

lemma clear_key_frame [simp]:
  "bt_persistent (clear_key bt) = bt_persistent bt" "bt_spool (clear_key bt) = bt_spool bt"
  "ls_security_enabled (bt_security (clear_key bt)) = False"
  by (simp_all add: clear_key_def ls_security_clear_key_def ls_security_enabled_def)

lemmas provision_simps =
  provision_progress_def provision_ok_def retired_def provisioning_codes Let_def monotonic_allowed_def

lemma activate_progress:
  "provision_progress (bt_persistent bt) (bt_persistent (snd (ls_provisioning_activate e k m bt)))"
  by (auto simp: ls_provisioning_activate_def Let_def intro!: progress_save)
    (auto simp: provision_simps)

lemma begin_rotation_progress:
  "provision_progress (bt_persistent bt) (bt_persistent (snd (ls_provisioning_begin_rotation e k m bt)))"
  by (auto simp: ls_provisioning_begin_rotation_def Let_def intro!: progress_save)
    (auto simp: provision_simps)

lemma commit_rotation_progress:
  "provision_progress (bt_persistent bt) (bt_persistent (snd (ls_provisioning_commit_rotation e bt)))"
  by (auto simp: ls_provisioning_commit_rotation_def Let_def intro!: progress_save)
    (auto simp: provision_simps)

lemma revoke_progress:
  "provision_progress (bt_persistent bt) (bt_persistent (snd (ls_provisioning_revoke e bt)))"
  by (auto simp: ls_provisioning_revoke_def Let_def intro!: progress_save)
    (auto simp: provision_simps)

lemma decommission_progress:
  "provision_progress (bt_persistent bt) (bt_persistent (snd (ls_provisioning_decommission e bt)))"
  by (auto simp: ls_provisioning_decommission_def intro!: progress_save)
    (auto simp: provision_simps)

text \<open>
  The secure decommissioning marks the device first; the marked runtime is one of the device with its
  key identifier.
\<close>

definition mark_decommissioning ::
    "'s boot_env \<Rightarrow> ('s, 't, 'p) boot_rt \<Rightarrow> ls_result \<times> ('s, 't, 'p) boot_rt" where
  "mark_decommissioning e bt =
     (if pb_provision_state (bt_persistent bt) \<noteq> LS_PROVISIONING_DECOMMISSIONING
      then ls_boot_state_save e
        (on_boot (\<lambda>p. p\<lparr>pb_provision_state := LS_PROVISIONING_DECOMMISSIONING\<rparr>) bt)
      else (LS_OK, bt))"

definition may_decommission :: "'e ls_secure_element option \<Rightarrow> ls_persistent_boot \<Rightarrow> bool" where
  "may_decommission element p \<longleftrightarrow>
     element \<noteq> None \<and> pb_provision_key_id p \<noteq> 0 \<and>
     (pb_provision_state p = LS_PROVISIONING_ACTIVE \<or> pb_provision_state p = LS_PROVISIONING_REVOKED \<or>
      pb_provision_state p = LS_PROVISIONING_DECOMMISSIONING)"

lemma decommission_secure_unfold:
  assumes "pb_provision_state (bt_persistent bt) \<noteq> LS_PROVISIONING_DECOMMISSIONED"
  shows "ls_provisioning_decommission_secure e element c bt =
    (if \<not> may_decommission element (bt_persistent bt) then (LS_EINVAL, c, bt)
     else case mark_decommissioning e bt of
       (persisted, bt1) \<Rightarrow>
         if persisted \<noteq> LS_OK
         then (persisted, c, on_boot (\<lambda>p. p\<lparr>pb_provision_state := pb_provision_state (bt_persistent bt)\<rparr>) bt1)
         else case ls_secure_element_destroy_key element (pb_provision_key_id (bt_persistent bt)) c of
           (result, c) \<Rightarrow>
             if result \<noteq> LS_OK then (result, c, clear_key bt1)
             else case ls_provisioning_decommission e bt1 of (result, bt2) \<Rightarrow> (result, c, bt2))"
  using assms
  by (simp add: ls_provisioning_decommission_secure_def may_decommission_def mark_decommissioning_def Let_def)

lemma marked:
  assumes "mark_decommissioning e bt = (r, bt1)" and "may_decommission element (bt_persistent bt)"
  shows "pb_provision_state (bt_persistent bt1) = LS_PROVISIONING_DECOMMISSIONING"
    and "pb_provision_key_id (bt_persistent bt1) = pb_provision_key_id (bt_persistent bt)"
    and "provision_progress (bt_persistent bt) (bt_persistent bt1)"
    and "same_provision (bt_persistent bt)
      ((bt_persistent bt1)\<lparr>pb_provision_state := pb_provision_state (bt_persistent bt)\<rparr>)"
proof -
  have bt1: "bt1 = snd (mark_decommissioning e bt)" using assms(1) by simp
  have st: "pb_provision_state (bt_persistent bt) \<noteq> LS_PROVISIONING_ROTATING"
    "pb_provision_state (bt_persistent bt) \<noteq> LS_PROVISIONING_UNPROVISIONED"
    "pb_provision_state (bt_persistent bt) \<noteq> LS_PROVISIONING_DECOMMISSIONED"
    using assms(2) by (auto simp: may_decommission_def provisioning_codes)
  show "pb_provision_state (bt_persistent bt1) = LS_PROVISIONING_DECOMMISSIONING"
    and key: "pb_provision_key_id (bt_persistent bt1) = pb_provision_key_id (bt_persistent bt)"
    by (simp_all add: bt1 mark_decommissioning_def)
  show "provision_progress (bt_persistent bt) (bt_persistent bt1)"
    unfolding bt1 mark_decommissioning_def
    using st assms(2) by (auto intro!: progress_save simp: may_decommission_def) (auto simp: provision_simps)
  show "same_provision (bt_persistent bt)
      ((bt_persistent bt1)\<lparr>pb_provision_state := pb_provision_state (bt_persistent bt)\<rparr>)"
    by (simp add: same_provision_def bt1 mark_decommissioning_def)
qed

lemma decommission_secure_progress:
  assumes "ls_provisioning_decommission_secure e element c bt = (r, c', bt')"
  shows "provision_progress (bt_persistent bt) (bt_persistent bt')"
proof (cases "pb_provision_state (bt_persistent bt) = LS_PROVISIONING_DECOMMISSIONED \<or>
    \<not> may_decommission element (bt_persistent bt)")
  case True
  then have "bt' = bt"
    using assms decommission_secure_unfold [of bt e element c]
    by (cases "pb_provision_state (bt_persistent bt) = LS_PROVISIONING_DECOMMISSIONED")
      (simp_all add: ls_provisioning_decommission_secure_def Let_def)
  then show ?thesis by simp
next
  case False
  obtain r1 bt1 where m: "mark_decommissioning e bt = (r1, bt1)" by (metis prod.exhaust)
  note M = marked [OF m, of element]
  show ?thesis
    using assms decommission_secure_unfold [of bt e element c] False m M
      provision_progress_trans [OF M(3) decommission_progress [of bt1 e]]
      same_provision_progress [OF M(4)]
    by (auto split: prod.splits if_splits)
qed

lemma decommission_outcome:
  assumes "ls_provisioning_decommission e bt = (r, bt')"
    and "pb_provision_state (bt_persistent bt) \<noteq> LS_PROVISIONING_DECOMMISSIONED"
  shows "pb_provision_state (bt_persistent bt') = LS_PROVISIONING_DECOMMISSIONED"
    and "pb_provision_key_id (bt_persistent bt') = 0" and "\<not> ls_security_enabled (bt_security bt')"
proof -
  have bt': "bt' = snd (ls_provisioning_decommission e bt)" using assms(1) by simp
  show "pb_provision_state (bt_persistent bt') = LS_PROVISIONING_DECOMMISSIONED"
    and "pb_provision_key_id (bt_persistent bt') = 0" and "\<not> ls_security_enabled (bt_security bt')"
    using assms(2) by (simp_all add: bt' ls_provisioning_decommission_def)
qed


text \<open>An element that refuses, on a device without storage and with key 7 active.\<close>

definition stubborn_element :: "nat ls_secure_element" where
  "stubborn_element =
     \<lparr>se_random = None, se_sign_sha256 = None, se_read_certificate = None, se_derive_key = None,
      se_destroy_key = Some (\<lambda>k n. (LS_EBUSY, n + 1))\<rparr>"

definition no_storage_env :: "unit boot_env" where
  "no_storage_env =
     \<lparr>en_config = ls_build_config_default, en_storage = None, LS_BOOT_LOOP_THRESHOLD = 3,
      LS_BOOT_LOOP_WINDOW_MS = 60000, LS_ENABLE_POWERFAIL_SEAL = True, en_timestamp_ms = None\<rparr>"

definition active_device :: "(unit, unit, unit) boot_rt" where
  "active_device = snd (ls_provisioning_activate no_storage_env 7 1 (blank_boot_rt () () ()))"

lemma save_no_storage [simp]: "ls_boot_state_save no_storage_env bt = (LS_OK, bt)"
  by (simp add: ls_boot_state_save_def no_storage_env_def)

lemma active_device_fields [simp]:
  "pb_provision_state (bt_persistent active_device) = LS_PROVISIONING_ACTIVE"
  "pb_provision_key_id (bt_persistent active_device) = 7"
  "pb_provision_monotonic_counter (bt_persistent active_device) = 1"
  by (simp_all add: active_device_def ls_provisioning_activate_def blank_boot_rt_def zero_boot_def
      monotonic_allowed_def provisioning_codes Let_def on_boot_def)


end
