(* ===== verification/LS_Ota.thy ===== *)
theory LS_Ota
  imports LS_Provisioning
begin

text \<open>
  \<^verbatim>\<open>src/core/ota.c\<close>: the orchestration of a firmware update over the callbacks of a bootloader
  backend, the update state machine of the boot record and the flight recorder. The last section closes
  the boot record under every operation of the boot, update, provisioning and OTA interfaces and proves
  its invariant and its monotonicity by rule induction.
\<close>

section \<open>Backend\<close>

text \<open>The callbacks of \<^verbatim>\<open>ls_ota_backend_t\<close> on the state of the bootloader.\<close>

record 'o ls_ota_backend =
  ob_authenticate :: "(u32 \<Rightarrow> u32 \<Rightarrow> bytes \<Rightarrow> bytes \<Rightarrow> 'o \<Rightarrow> ls_result \<times> 'o) option"
  ob_stage :: "(bytes \<Rightarrow> 'o \<Rightarrow> ls_result \<times> 'o) option"
  ob_request_boot :: "(u32 \<Rightarrow> 'o \<Rightarrow> ls_result \<times> 'o) option"
  ob_confirm :: "(u32 \<Rightarrow> 'o \<Rightarrow> ls_result \<times> 'o) option"
  ob_rollback :: "(u32 \<Rightarrow> 'o \<Rightarrow> ls_result \<times> 'o) option"

definition digest_fingerprint :: "bytes \<Rightarrow> u32" where
  "digest_fingerprint digest = (let v = read_u32 digest 0 in if v \<noteq> 0 then v else 1)"

definition backend_valid :: "'o ls_ota_backend option \<Rightarrow> bool" where
  "backend_valid backend \<longleftrightarrow>
     (case backend of
        None \<Rightarrow> False
      | Some b \<Rightarrow> ob_authenticate b \<noteq> None \<and> ob_stage b \<noteq> None \<and> ob_request_boot b \<noteq> None \<and>
                  ob_confirm b \<noteq> None \<and> ob_rollback b \<noteq> None)"

section \<open>Operations\<close>

text \<open>A result code as the \<^verbatim>\<open>int32_t\<close> the recorder stores: the values of \<^verbatim>\<open>ls_result_t\<close>.\<close>

fun result_code :: "ls_result \<Rightarrow> u32" where
  "result_code LS_OK = 0"
| "result_code LS_EINVAL = - 1"
| "result_code LS_ENOSPACE = - 2"
| "result_code LS_EIO = - 3"
| "result_code LS_ECORRUPT = - 4"
| "result_code LS_EAGAIN = - 5"
| "result_code LS_ENOTSUP = - 6"
| "result_code LS_EBUSY = - 7"
| "result_code LS_EAUTH = - 8"
| "result_code LS_EOVERFLOW = - 9"

definition record_values ::
    "'s boot_env \<Rightarrow> u16 \<Rightarrow> u16 \<Rightarrow> u16 \<Rightarrow> u32 \<Rightarrow> u32 \<Rightarrow> u32 \<Rightarrow> u32 \<Rightarrow>
     ('s, 't, 'p) boot_rt \<Rightarrow> ('s, 't, 'p) boot_rt" where
  "record_values e kind source_id flags v0 v1 v2 v3 bt =
     (case uptime_if_initialized e bt of
        (now, bt) \<Rightarrow>
          bt\<lparr>bt_blackbox := snd (ls_blackbox_record_values now kind source_id flags v0 v1 v2 v3
                                  (bt_blackbox bt))\<rparr>)"

text \<open>The bookkeeping after a successful request, and after the bootloader refused to boot the image.\<close>

definition stage_accepted ::
    "'s boot_env \<Rightarrow> cstring option \<Rightarrow> u32 \<Rightarrow> u32 \<Rightarrow> u32 \<Rightarrow> ('s, 't, 'p) boot_rt \<Rightarrow> ('s, 't, 'p) boot_rt" where
  "stage_accepted e firmware_version version_counter signing_key_id fingerprint bt =
     record_values e LS_BLACKBOX_STATE 0x0a01 LS_BLACKBOX_IMPORTANT version_counter signing_key_id
       fingerprint 0
       (ls_reset_mark_expected e True (ls_release_mark_pending e firmware_version bt))"

definition stage_refused ::
    "'s boot_env \<Rightarrow> u32 \<Rightarrow> ls_result \<Rightarrow> ('s, 't, 'p) boot_rt \<Rightarrow> ('s, 't, 'p) boot_rt" where
  "stage_refused e version_counter result bt =
     record_values e LS_BLACKBOX_STATE 0x0a04 (LS_BLACKBOX_IMPORTANT OR LS_BLACKBOX_ERROR)
       version_counter (result_code result) 0 0
       (snd (ls_update_abort_stage e version_counter bt))"

definition ls_ota_stage_candidate ::
    "'s boot_env \<Rightarrow> cstring option \<Rightarrow> 'o ls_ota_backend option \<Rightarrow> u32 \<Rightarrow> u32 \<Rightarrow> bytes \<Rightarrow> bytes \<Rightarrow> 'o \<Rightarrow>
     ('s, 't, 'p) boot_rt \<Rightarrow> ls_result \<times> 'o \<times> ('s, 't, 'p) boot_rt" where
  "ls_ota_stage_candidate e firmware_version backend version_counter signing_key_id img signature c bt =
     (if \<not> backend_valid backend \<or> img = [] \<or> signature = [] \<or> signing_key_id = 0 \<or>
         \<not> ls_update_version_allowed version_counter (bt_persistent bt)
      then (LS_EINVAL, c, bt)
      else
        let b = the backend;
            digest = ls_sha256 img;
            fingerprint = digest_fingerprint digest
        in case the (ob_authenticate b) version_counter signing_key_id digest signature c of
          (result, c) \<Rightarrow>
            if result \<noteq> LS_OK then (result, c, bt)
            else case the (ob_stage b) img c of
              (result, c) \<Rightarrow>
                if result \<noteq> LS_OK then (result, c, bt)
                else case ls_update_stage e version_counter fingerprint signing_key_id bt of
                  (result, bt) \<Rightarrow>
                    if result \<noteq> LS_OK then (result, c, bt)
                    else case the (ob_request_boot b) version_counter c of
                      (result, c) \<Rightarrow>
                        if result \<noteq> LS_OK then (result, c, stage_refused e version_counter result bt)
                        else (LS_OK, c,
                              stage_accepted e firmware_version version_counter signing_key_id fingerprint bt))"

definition ls_ota_confirm_running ::
    "'s boot_env \<Rightarrow> 'o ls_ota_backend option \<Rightarrow> u32 \<Rightarrow> 'o \<Rightarrow> ('s, 't, 'p) boot_rt \<Rightarrow>
     ls_result \<times> 'o \<times> ('s, 't, 'p) boot_rt" where
  "ls_ota_confirm_running e backend version_counter c bt =
     (if \<not> backend_valid backend \<or> version_counter = 0 then (LS_EINVAL, c, bt)
      else case the (ob_confirm (the backend)) version_counter c of
        (result, c) \<Rightarrow>
          if result \<noteq> LS_OK then (result, c, bt)
          else case ls_update_confirm_version e version_counter bt of
            (result, bt) \<Rightarrow>
              if result \<noteq> LS_OK then (result, c, bt)
              else (LS_OK, c,
                    record_values e LS_BLACKBOX_STATE 0x0a02 LS_BLACKBOX_IMPORTANT version_counter 0 0 0
                      (ls_reset_mark_expected e False (ls_release_confirm e bt))))"

definition ls_ota_request_rollback ::
    "'s boot_env \<Rightarrow> 'o ls_ota_backend option \<Rightarrow> u32 \<Rightarrow> 'o \<Rightarrow> ('s, 't, 'p) boot_rt \<Rightarrow>
     ls_result \<times> 'o \<times> ('s, 't, 'p) boot_rt" where
  "ls_ota_request_rollback e backend failed_version c bt =
     (if \<not> backend_valid backend \<or> failed_version = 0 then (LS_EINVAL, c, bt)
      else case the (ob_rollback (the backend)) failed_version c of
        (result, c) \<Rightarrow>
          if result \<noteq> LS_OK then (result, c, bt)
          else case ls_update_mark_version_rollback e failed_version bt of
            (result, bt) \<Rightarrow>
              if result \<noteq> LS_OK then (result, c, bt)
              else (LS_OK, c,
                    record_values e LS_BLACKBOX_STATE 0x0a03 (LS_BLACKBOX_IMPORTANT OR LS_BLACKBOX_ERROR)
                      failed_version 0 0 0
                      (ls_reset_mark_expected e True (ls_release_mark_rollback e bt))))"

section \<open>Progress of the boot record\<close>

definition boot_progress :: "ls_persistent_boot \<Rightarrow> ls_persistent_boot \<Rightarrow> bool" where
  "boot_progress p q \<longleftrightarrow>
     (update_ok p \<longrightarrow> update_ok q) \<and> pb_update_version_floor p \<le> pb_update_version_floor q \<and>
     provision_progress p q"

lemma boot_progress_refl [simp]: "boot_progress p p"
  by (simp add: boot_progress_def)

lemma boot_progress_trans [trans]: "boot_progress p q \<Longrightarrow> boot_progress q r \<Longrightarrow> boot_progress p r"
  by (auto simp: boot_progress_def intro: provision_progress_trans)

text \<open>Operations that leave the update and provisioning fields alone.\<close>

definition same_states :: "ls_persistent_boot \<Rightarrow> ls_persistent_boot \<Rightarrow> bool" where
  "same_states p q \<longleftrightarrow>
     same_provision p q \<and> pb_update_state q = pb_update_state p \<and>
     pb_update_version_floor q = pb_update_version_floor p \<and>
     pb_update_pending_version q = pb_update_pending_version p \<and>
     pb_update_image_fingerprint q = pb_update_image_fingerprint p \<and>
     pb_update_signing_key_id q = pb_update_signing_key_id p"

lemma same_states_progress: "same_states p q \<Longrightarrow> boot_progress p q"
  using same_provision_progress [of p q p]
  by (simp add: same_states_def boot_progress_def update_ok_def)

lemma same_states_trans: "same_states p q \<Longrightarrow> same_states q r \<Longrightarrow> same_states p r"
  by (simp add: same_states_def same_provision_def)

lemma same_states_save:
  "same_states p (bt_persistent bt) \<Longrightarrow> same_states p (bt_persistent (snd (ls_boot_state_save e bt)))"
  by (simp add: same_states_def same_provision_def)

lemma mark_states [simp]:
  "same_states (bt_persistent bt) (bt_persistent (ls_boot_state_mark_crash e i bt))"
  "same_states (bt_persistent bt) (bt_persistent (ls_reset_mark_expected e x bt))"
  "same_states (bt_persistent bt) (bt_persistent (ls_boot_mark_successful e bt))"
  "same_states (bt_persistent bt) (bt_persistent (ls_release_mark_pending e rel bt))"
  "same_states (bt_persistent bt) (bt_persistent (ls_release_confirm e bt))"
  "same_states (bt_persistent bt) (bt_persistent (ls_release_mark_rollback e bt))"
  unfolding ls_boot_state_mark_crash_def ls_reset_mark_expected_def ls_boot_mark_successful_def
    ls_release_mark_pending_def ls_release_confirm_def ls_release_mark_rollback_def Let_def
  by (rule same_states_save; simp add: same_states_def same_provision_def)+

lemma record_values_persistent [simp]:
  "bt_persistent (record_values e k i f v0 v1 v2 v3 bt) = bt_persistent bt"
  by (simp add: record_values_def uptime_if_initialized_def split_beta)

lemma boot_accounting_states [simp]:
  "same_states (bt_persistent bt) (bt_persistent (boot_accounting e fault info bt))"
  by (simp add: boot_accounting_def Let_def split_beta same_states_def same_provision_def
      count_failures_def)

lemma update_progress:
  "boot_progress (bt_persistent bt) (bt_persistent (snd (ls_update_stage e v f k bt)))"
  "boot_progress (bt_persistent bt) (bt_persistent (snd (ls_update_confirm_version e v bt)))"
  "boot_progress (bt_persistent bt) (bt_persistent (snd (ls_update_mark_version_rollback e v bt)))"
  "boot_progress (bt_persistent bt) (bt_persistent (snd (ls_update_abort_stage e v bt)))"
proof -
  have keep: "provision_progress (bt_persistent bt) (bt_persistent bt')"
    if "same_provision (bt_persistent bt) (bt_persistent bt')" for bt'
    using same_provision_progress [OF that] by simp
  have "same_provision (bt_persistent bt) (bt_persistent (snd (ls_update_stage e v f k bt)))"
    "same_provision (bt_persistent bt) (bt_persistent (snd (ls_update_confirm_version e v bt)))"
    "same_provision (bt_persistent bt) (bt_persistent (snd (ls_update_mark_version_rollback e v bt)))"
    "same_provision (bt_persistent bt) (bt_persistent (snd (ls_update_abort_stage e v bt)))"
    by (simp_all add: same_provision_def ls_update_stage_def ls_update_confirm_version_def
        ls_update_mark_version_rollback_def ls_update_abort_stage_def)
  note provision = this [THEN keep]
  show "boot_progress (bt_persistent bt) (bt_persistent (snd (ls_update_stage e v f k bt)))"
    and "boot_progress (bt_persistent bt) (bt_persistent (snd (ls_update_confirm_version e v bt)))"
    and "boot_progress (bt_persistent bt) (bt_persistent (snd (ls_update_mark_version_rollback e v bt)))"
    and "boot_progress (bt_persistent bt) (bt_persistent (snd (ls_update_abort_stage e v bt)))"
    using provision
    by (simp_all add: boot_progress_def update_stage_ok update_confirm_ok update_rollback_ok
        update_abort_ok update_floor)
qed

text \<open>The bookkeeping after the update call.\<close>

lemma stage_accepted_states [simp]:
  "same_states (bt_persistent bt) (bt_persistent (stage_accepted e fw v k f bt))"
  unfolding stage_accepted_def record_values_persistent by (rule same_states_trans; rule mark_states)

lemma confirm_marks_states:
  "same_states (bt_persistent bt) (bt_persistent (ls_reset_mark_expected e x (ls_release_confirm e bt)))"
  "same_states (bt_persistent bt) (bt_persistent (ls_reset_mark_expected e x (ls_release_mark_rollback e bt)))"
  by (rule same_states_trans; rule mark_states)+

lemma stage_candidate_progress:
  assumes "ls_ota_stage_candidate e fw backend v k img sig c bt = (r, c', bt')"
  shows "boot_progress (bt_persistent bt) (bt_persistent bt')"
proof -
  obtain r1 bt1 where s: "ls_update_stage e v (digest_fingerprint (ls_sha256 img)) k bt = (r1, bt1)"
    by (metis prod.exhaust)
  then have p: "boot_progress (bt_persistent bt) (bt_persistent bt1)"
    using update_progress(1) [of bt e v "digest_fingerprint (ls_sha256 img)" k] by simp
  have "boot_progress (bt_persistent bt) (bt_persistent (stage_refused e v res bt1))" for res
    unfolding stage_refused_def record_values_persistent
    by (rule boot_progress_trans [OF p update_progress(4)])
  moreover have "boot_progress (bt_persistent bt) (bt_persistent (stage_accepted e fw v k f bt1))" for f
    by (rule boot_progress_trans [OF p same_states_progress [OF stage_accepted_states]])
  ultimately show ?thesis
    using assms p s by (auto simp: ls_ota_stage_candidate_def Let_def split: prod.splits if_splits)
qed

lemma confirm_running_progress:
  assumes "ls_ota_confirm_running e backend v c bt = (r, c', bt')"
  shows "boot_progress (bt_persistent bt) (bt_persistent bt')"
proof -
  obtain r1 bt1 where s: "ls_update_confirm_version e v bt = (r1, bt1)" by (metis prod.exhaust)
  then have p: "boot_progress (bt_persistent bt) (bt_persistent bt1)"
    using update_progress(2) [of bt e v] by simp
  note boot_progress_trans [OF p same_states_progress [OF confirm_marks_states(1)]]
  then show ?thesis
    using assms p s by (auto simp: ls_ota_confirm_running_def split: prod.splits if_splits)
qed

lemma request_rollback_progress:
  assumes "ls_ota_request_rollback e backend v c bt = (r, c', bt')"
  shows "boot_progress (bt_persistent bt) (bt_persistent bt')"
proof -
  obtain r1 bt1 where s: "ls_update_mark_version_rollback e v bt = (r1, bt1)" by (metis prod.exhaust)
  then have p: "boot_progress (bt_persistent bt) (bt_persistent bt1)"
    using update_progress(3) [of bt e v] by simp
  note boot_progress_trans [OF p same_states_progress [OF confirm_marks_states(2)]]
  then show ?thesis
    using assms p s by (auto simp: ls_ota_request_rollback_def split: prod.splits if_splits)
qed

lemma provisioning_progress:
  assumes "provision_progress (bt_persistent bt) (bt_persistent bt')"
    and "pb_update_state (bt_persistent bt') = pb_update_state (bt_persistent bt)"
    and "pb_update_version_floor (bt_persistent bt') = pb_update_version_floor (bt_persistent bt)"
    and "pb_update_pending_version (bt_persistent bt') = pb_update_pending_version (bt_persistent bt)"
    and "pb_update_image_fingerprint (bt_persistent bt') = pb_update_image_fingerprint (bt_persistent bt)"
    and "pb_update_signing_key_id (bt_persistent bt') = pb_update_signing_key_id (bt_persistent bt)"
  shows "boot_progress (bt_persistent bt) (bt_persistent bt')"
  using assms by (simp add: boot_progress_def update_ok_def)

section \<open>Every history of operations\<close>

text \<open>
  One step of the program on the boot record: any operation of the boot, update, provisioning and OTA
  interfaces, with any arguments, results of the callbacks and failures of the storage, or any other
  part of the program, which does not write the update and provisioning fields.
\<close>

inductive boot_step ::
    "'s boot_env \<Rightarrow> 'o ls_ota_backend option \<Rightarrow> 'e ls_secure_element option \<Rightarrow>
     ('s, 't, 'p) boot_rt \<Rightarrow> ('s, 't, 'p) boot_rt \<Rightarrow> bool"
  for e :: "'s boot_env" and backend :: "'o ls_ota_backend option" and element :: "'e ls_secure_element option"
where
  step_other: "same_states (bt_persistent bt) (bt_persistent bt') \<Longrightarrow> boot_step e backend element bt bt'"
| step_accounting: "boot_step e backend element bt (boot_accounting e fault info bt)"
| step_save: "boot_step e backend element bt (snd (ls_boot_state_save e bt))"
| step_mark_crash: "boot_step e backend element bt (ls_boot_state_mark_crash e event_id bt)"
| step_mark_expected: "boot_step e backend element bt (ls_reset_mark_expected e expected bt)"
| step_mark_successful: "boot_step e backend element bt (ls_boot_mark_successful e bt)"
| step_release_pending: "boot_step e backend element bt (ls_release_mark_pending e release bt)"
| step_release_confirm: "boot_step e backend element bt (ls_release_confirm e bt)"
| step_release_rollback: "boot_step e backend element bt (ls_release_mark_rollback e bt)"
| step_stage: "boot_step e backend element bt (snd (ls_update_stage e v f k bt))"
| step_confirm: "boot_step e backend element bt (snd (ls_update_confirm_version e v bt))"
| step_rollback: "boot_step e backend element bt (snd (ls_update_mark_version_rollback e v bt))"
| step_abort: "boot_step e backend element bt (snd (ls_update_abort_stage e v bt))"
| step_activate: "boot_step e backend element bt (snd (ls_provisioning_activate e k m bt))"
| step_begin_rotation: "boot_step e backend element bt (snd (ls_provisioning_begin_rotation e k m bt))"
| step_commit_rotation: "boot_step e backend element bt (snd (ls_provisioning_commit_rotation e bt))"
| step_revoke: "boot_step e backend element bt (snd (ls_provisioning_revoke e bt))"
| step_decommission: "boot_step e backend element bt (snd (ls_provisioning_decommission e bt))"
| step_decommission_secure:
    "ls_provisioning_decommission_secure e element c bt = (r, c', bt') \<Longrightarrow> boot_step e backend element bt bt'"
| step_ota_stage:
    "ls_ota_stage_candidate e fw backend v k img sig o1 bt = (r, o2, bt') \<Longrightarrow> boot_step e backend element bt bt'"
| step_ota_confirm:
    "ls_ota_confirm_running e backend v o1 bt = (r, o2, bt') \<Longrightarrow> boot_step e backend element bt bt'"
| step_ota_rollback:
    "ls_ota_request_rollback e backend v o1 bt = (r, o2, bt') \<Longrightarrow> boot_step e backend element bt bt'"

lemma decommission_secure_update_fields:
  assumes "ls_provisioning_decommission_secure e element c bt = (r, c', bt')"
  shows "pb_update_state (bt_persistent bt') = pb_update_state (bt_persistent bt)"
    and "pb_update_version_floor (bt_persistent bt') = pb_update_version_floor (bt_persistent bt)"
    and "pb_update_pending_version (bt_persistent bt') = pb_update_pending_version (bt_persistent bt)"
    and "pb_update_image_fingerprint (bt_persistent bt') = pb_update_image_fingerprint (bt_persistent bt)"
    and "pb_update_signing_key_id (bt_persistent bt') = pb_update_signing_key_id (bt_persistent bt)"
proof -
  let ?u = "\<lambda>bt. (pb_update_state (bt_persistent bt), pb_update_version_floor (bt_persistent bt),
    pb_update_pending_version (bt_persistent bt), pb_update_image_fingerprint (bt_persistent bt),
    pb_update_signing_key_id (bt_persistent bt))"
  have d: "?u (snd (ls_provisioning_decommission e b)) = ?u b" for b
    by (simp add: ls_provisioning_decommission_def)
  have m: "?u (snd (mark_decommissioning e bt)) = ?u bt"
    by (simp add: mark_decommissioning_def)
  obtain r1 bt1 where m1: "mark_decommissioning e bt = (r1, bt1)" by (metis prod.exhaust)
  have "?u bt' = ?u bt"
  proof (cases "pb_provision_state (bt_persistent bt) = LS_PROVISIONING_DECOMMISSIONED")
    case True
    then show ?thesis using assms by (auto simp: ls_provisioning_decommission_secure_def Let_def)
  next
    case False
    show ?thesis
      using assms d [of bt1] m m1 unfolding decommission_secure_unfold [OF False]
      by (auto split: prod.splits if_splits)
  qed
  then show "pb_update_state (bt_persistent bt') = pb_update_state (bt_persistent bt)"
    and "pb_update_version_floor (bt_persistent bt') = pb_update_version_floor (bt_persistent bt)"
    and "pb_update_pending_version (bt_persistent bt') = pb_update_pending_version (bt_persistent bt)"
    and "pb_update_image_fingerprint (bt_persistent bt') = pb_update_image_fingerprint (bt_persistent bt)"
    and "pb_update_signing_key_id (bt_persistent bt') = pb_update_signing_key_id (bt_persistent bt)"
    by simp_all
qed

lemma boot_step_progress:
  "boot_step e backend element bt bt' \<Longrightarrow> boot_progress (bt_persistent bt) (bt_persistent bt')"
proof (induction rule: boot_step.induct)
  case (step_activate bt k m)
  show ?case by (rule provisioning_progress [OF activate_progress])
    (simp_all add: ls_provisioning_activate_def Let_def)
next
  case (step_begin_rotation bt k m)
  show ?case by (rule provisioning_progress [OF begin_rotation_progress])
    (simp_all add: ls_provisioning_begin_rotation_def Let_def)
next
  case (step_commit_rotation bt)
  show ?case by (rule provisioning_progress [OF commit_rotation_progress])
    (simp_all add: ls_provisioning_commit_rotation_def Let_def)
next
  case (step_revoke bt)
  show ?case by (rule provisioning_progress [OF revoke_progress])
    (simp_all add: ls_provisioning_revoke_def Let_def)
next
  case (step_decommission bt)
  show ?case by (rule provisioning_progress [OF decommission_progress])
    (simp_all add: ls_provisioning_decommission_def)
next
  case (step_decommission_secure c bt r c' bt')
  show ?case
    by (rule provisioning_progress [OF decommission_secure_progress [OF step_decommission_secure]])
      (fact decommission_secure_update_fields [OF step_decommission_secure])+
next
  case (step_save bt)
  show ?case by (rule same_states_progress, rule same_states_save) (simp add: same_states_def same_provision_def)
qed (simp_all add: update_progress same_states_progress stage_candidate_progress
      confirm_running_progress request_rollback_progress)

lemma boot_steps_progress:
  assumes "(boot_step e backend element)\<^sup>*\<^sup>* bt bt'"
  shows "boot_progress (bt_persistent bt) (bt_persistent bt')"
  using assms
proof induction
  case (step b c)
  then show ?case using boot_progress_trans boot_step_progress by blast
qed simp

lemma stage_below_floor:
  "w < pb_update_version_floor (bt_persistent bt) \<Longrightarrow> ls_update_stage e w f k bt = (LS_EINVAL, bt)"
  by (auto simp: ls_update_stage_def ls_update_version_allowed_def)

lemma activate_retired:
  "retired (bt_persistent bt) \<Longrightarrow> ls_provisioning_activate e k m bt = (LS_EINVAL, bt)"
  by (auto simp: ls_provisioning_activate_def Let_def retired_def provisioning_codes)


text \<open>Stage and confirm version 5; version 4 is then refused.\<close>

definition updated_device :: "(unit, unit, unit) boot_rt" where
  "updated_device = snd (ls_update_confirm_version no_storage_env 5
     (snd (ls_update_stage no_storage_env 5 77 1 active_device)))"

lemma active_device_ok: "update_ok (bt_persistent active_device)" "provision_ok (bt_persistent active_device)"
  by (simp_all add: active_device_def ls_provisioning_activate_def blank_boot_rt_def zero_boot_def
      monotonic_allowed_def provisioning_codes Let_def on_boot_def update_ok_def provision_ok_def update_codes)

lemma updated_device_floor: "pb_update_version_floor (bt_persistent updated_device) = 5"
  by (simp add: updated_device_def active_device_def ls_provisioning_activate_def blank_boot_rt_def
      zero_boot_def monotonic_allowed_def provisioning_codes Let_def on_boot_def
      ls_update_confirm_version_def ls_update_stage_def ls_update_version_allowed_def
      update_is_pending_def update_codes)


section \<open>Staging an update\<close>

text \<open>C33: what \<^verbatim>\<open>ls_ota_stage_candidate\<close> did when it returns. It never moves the version floor; a
  candidate whose authentication fails changes nothing in the boot record and is not staged; success
  means that the backend authenticated the SHA-256 digest of the image, staged this image and accepted
  the boot request, in this order, and that the boot record holds a pending update with this version,
  at or above the floor, its fingerprint and its key.\<close>

theorem ota_stage_candidate_outcome:
  assumes "ls_ota_stage_candidate e fw (Some b) v k img sig c bt = (r, c', bt')"
    and "ob_authenticate b = Some auth" and "ob_stage b = Some stage" and "ob_request_boot b = Some boot"
    and "auth v k (ls_sha256 img) sig c = (a, c1)"
  shows "pb_update_version_floor (bt_persistent bt') = pb_update_version_floor (bt_persistent bt) \<and>
    (a \<noteq> LS_OK \<longrightarrow> r \<noteq> LS_OK \<and> bt' = bt \<and> (c' = c \<or> c' = c1)) \<and>
    (r = LS_OK \<longrightarrow>
       a = LS_OK \<and> (\<exists>c2. stage img c1 = (LS_OK, c2) \<and> boot v c2 = (LS_OK, c')) \<and>
       pb_update_state (bt_persistent bt') = LS_UPDATE_PENDING \<and>
       pb_update_pending_version (bt_persistent bt') = v \<and>
       pb_update_version_floor (bt_persistent bt') \<le> v \<and>
       pb_update_image_fingerprint (bt_persistent bt') = digest_fingerprint (ls_sha256 img) \<and>
       pb_update_signing_key_id (bt_persistent bt') = k)"
proof (cases "backend_valid (Some b) \<and> img \<noteq> [] \<and> sig \<noteq> [] \<and> k \<noteq> 0 \<and> ls_update_version_allowed v (bt_persistent bt)")
  case False
  then have "r = LS_EINVAL \<and> c' = c \<and> bt' = bt"
    using assms(1) by (auto simp: ls_ota_stage_candidate_def)
  then show ?thesis by simp
next
  case True
  let ?f = "digest_fingerprint (ls_sha256 img)"
  have f: "?f \<noteq> 0" by (simp add: digest_fingerprint_def Let_def)
  obtain r1 bt1 where s: "ls_update_stage e v ?f k bt = (r1, bt1)" by (metis prod.exhaust)
  then have bt1: "bt1 = snd (ls_update_stage e v ?f k bt)" by simp
  have floor1: "pb_update_version_floor (bt_persistent bt1) = pb_update_version_floor (bt_persistent bt)"
    by (simp add: bt1 update_floor)
  have pending: "pb_update_state (bt_persistent bt1) = LS_UPDATE_PENDING"
    "pb_update_pending_version (bt_persistent bt1) = v" "pb_update_signing_key_id (bt_persistent bt1) = k"
    "pb_update_image_fingerprint (bt_persistent bt1) = ?f"
    using True f by (simp_all add: bt1 ls_update_stage_def)
  have refused: "pb_update_version_floor (bt_persistent (stage_refused e v d bt1)) =
      pb_update_version_floor (bt_persistent bt)" for d
    by (simp add: stage_refused_def update_floor floor1)
  have accepted: "same_states (bt_persistent bt1) (bt_persistent (stage_accepted e fw v k ?f bt1))"
    by (rule stage_accepted_states)
  have allowed: "pb_update_version_floor (bt_persistent bt) \<le> v"
    using True by (simp add: ls_update_version_allowed_def)
  obtain d1 c2 where st: "stage img c1 = (d1, c2)" by (metis prod.exhaust)
  obtain d2 c3 where bo: "boot v c2 = (d2, c3)" by (metis prod.exhaust)
  have run: "(r, c', bt') =
    (if a \<noteq> LS_OK then (a, c1, bt) else if d1 \<noteq> LS_OK then (d1, c2, bt)
     else if r1 \<noteq> LS_OK then (r1, c2, bt1)
     else if d2 \<noteq> LS_OK then (d2, c3, stage_refused e v d2 bt1)
     else (LS_OK, c3, stage_accepted e fw v k ?f bt1))"
    using assms True s st bo by (auto simp: ls_ota_stage_candidate_def Let_def split: if_splits)
  show ?thesis
    using run st bo pending floor1 refused accepted allowed
    by (auto simp: same_states_def split: if_splits)
qed

text \<open>A bootloader that logs its calls and accepts everything.\<close>

definition logging_backend :: "string list ls_ota_backend" where
  "logging_backend =
     \<lparr>ob_authenticate = Some (\<lambda>v k d sg c. (LS_OK, c @ [''authenticate''])),
      ob_stage = Some (\<lambda>img c. (LS_OK, c @ [''stage''])),
      ob_request_boot = Some (\<lambda>v c. (LS_OK, c @ [''boot''])),
      ob_confirm = Some (\<lambda>v c. (LS_OK, c)), ob_rollback = Some (\<lambda>v c. (LS_OK, c))\<rparr>"

theorem ota_stage_candidate_outcome_witness:
  "case ls_ota_stage_candidate no_storage_env None (Some logging_backend) 6 3 [1, 2] [9] [] updated_device of
     (r, c, bt) \<Rightarrow> r = LS_OK \<and> c = [''authenticate'', ''stage'', ''boot''] \<and>
       pb_update_state (bt_persistent bt) = LS_UPDATE_PENDING \<and>
       pb_update_pending_version (bt_persistent bt) = 6"
proof -
  obtain r c bt where run: "ls_ota_stage_candidate no_storage_env None (Some logging_backend) 6 3 [1, 2] [9] []
      updated_device = (r, c, bt)"
    by (metis prod.exhaust)
  have f: "digest_fingerprint d \<noteq> 0" for d by (simp add: digest_fingerprint_def Let_def)
  have "r = LS_OK"
    using run f by (auto simp: ls_ota_stage_candidate_def backend_valid_def logging_backend_def
        ls_update_version_allowed_def ls_update_stage_def updated_device_floor Let_def)
  moreover have "pb_update_state (bt_persistent bt) = LS_UPDATE_PENDING \<and>
      pb_update_pending_version (bt_persistent bt) = 6 \<and> c = [''authenticate'', ''stage'', ''boot'']"
    using ota_stage_candidate_outcome [OF run, of "\<lambda>v k d sg c. (LS_OK, c @ [''authenticate''])"
        "\<lambda>img c. (LS_OK, c @ [''stage''])" "\<lambda>v c. (LS_OK, c @ [''boot''])"] \<open>r = LS_OK\<close>
    by (simp add: logging_backend_def)
  ultimately show ?thesis using run by simp
qed

end
