(* ===== verification/LS_Event.thy ===== *)
theory LS_Event
  imports LS_Envelope
begin

text \<open>
  The data of an event: \<^verbatim>\<open>include/laststate/event.h\<close>, \<^verbatim>\<open>capture.h\<close>, the event of
  \<^verbatim>\<open>src/core/internal.h\<close>, and the fingerprints of \<^verbatim>\<open>src/core/fingerprint.c\<close>. Enumerations whose
  values the code casts from integers that it read back from memory are words, with a constant
  per name that the code uses. The identifier of the build, \<^verbatim>\<open>LS_BUILD_ID\<close>, is an argument.
\<close>

section \<open>Constants\<close>

definition LS_SEVERITY_DEBUG :: u8 where "LS_SEVERITY_DEBUG = 0"
definition LS_SEVERITY_INFO :: u8 where "LS_SEVERITY_INFO = 1"
definition LS_SEVERITY_WARNING :: u8 where "LS_SEVERITY_WARNING = 2"
definition LS_SEVERITY_ERROR :: u8 where "LS_SEVERITY_ERROR = 3"
definition LS_SEVERITY_FATAL :: u8 where "LS_SEVERITY_FATAL = 4"

definition LS_EVENT_ERROR :: u8 where "LS_EVENT_ERROR = 2"
definition LS_EVENT_RESET :: u8 where "LS_EVENT_RESET = 5"
definition LS_EVENT_LOG :: u8 where "LS_EVENT_LOG = 6"
definition LS_EVENT_PERIPHERAL :: u8 where "LS_EVENT_PERIPHERAL = 7"

definition LS_ARCH_UNKNOWN :: u32 where "LS_ARCH_UNKNOWN = 0"
definition LS_ARCH_RISCV64 :: u32 where "LS_ARCH_RISCV64 = 5"
definition LS_FAULT_UNKNOWN :: u32 where "LS_FAULT_UNKNOWN = 0"
definition LS_FAULT_TRAP :: u32 where "LS_FAULT_TRAP = 10"

definition LS_CAPTURE_METADATA :: u8 where "LS_CAPTURE_METADATA = 0"
definition LS_CAPTURE_SNAPSHOT :: u8 where "LS_CAPTURE_SNAPSHOT = 1"
definition LS_CAPTURE_STACK :: u8 where "LS_CAPTURE_STACK = 2"
definition LS_CAPTURE_SELECTIVE :: u8 where "LS_CAPTURE_SELECTIVE = 3"
definition LS_CAPTURE_FULL :: u8 where "LS_CAPTURE_FULL = 4"

section \<open>Contexts and events\<close>

record ls_arch_context =
  ac_architecture :: u32
  ac_fault :: u32
  ac_registers :: "u32 list"
  ac_r :: "u32 list"
  ac_lr :: u32
  ac_pc :: u32
  ac_xpsr :: u32
  ac_msp :: u32
  ac_psp :: u32
  ac_control :: u32
  ac_primask :: u32
  ac_basepri :: u32
  ac_faultmask :: u32
  ac_exc_return :: u32
  ac_cfsr :: u32
  ac_hfsr :: u32
  ac_dfsr :: u32
  ac_afsr :: u32
  ac_mmfar :: u32
  ac_bfar :: u32
  ac_shcsr :: u32
  ac_icsr :: u32
  ac_vtor :: u32
  ac_sfsr :: u32
  ac_sfar :: u32
  ac_s :: "u32 list"
  ac_fpscr :: u32
  ac_mcause :: u32
  ac_mtval :: u32
  ac_mstatus :: u32
  ac_mepc :: u32
  ac_exccause :: u32
  ac_excvaddr :: u32
  ac_ps :: u32
  ac_sar :: u32
  ac_fault_address :: u64
  ac_signal_number :: u32
  ac_has_fpu :: bool
  ac_fpu_lazy :: bool

text \<open>A context whose fields are all zero, from which the designated initialisers of the code start.\<close>

definition zero_context :: ls_arch_context where
  "zero_context =
     \<lparr>ac_architecture = 0, ac_fault = 0, ac_registers = replicate 32 0, ac_r = replicate 13 0, ac_lr = 0,
      ac_pc = 0, ac_xpsr = 0, ac_msp = 0, ac_psp = 0, ac_control = 0, ac_primask = 0, ac_basepri = 0,
      ac_faultmask = 0, ac_exc_return = 0, ac_cfsr = 0, ac_hfsr = 0, ac_dfsr = 0, ac_afsr = 0, ac_mmfar = 0,
      ac_bfar = 0, ac_shcsr = 0, ac_icsr = 0, ac_vtor = 0, ac_sfsr = 0, ac_sfar = 0, ac_s = replicate 16 0,
      ac_fpscr = 0, ac_mcause = 0, ac_mtval = 0, ac_mstatus = 0, ac_mepc = 0, ac_exccause = 0,
      ac_excvaddr = 0, ac_ps = 0, ac_sar = 0, ac_fault_address = 0, ac_signal_number = 0,
      ac_has_fpu = False, ac_fpu_lazy = False\<rparr>"

record ls_riscv64_context =
  rv_x :: "u64 list"
  rv_mstatus :: u64
  rv_mcause :: u64
  rv_mtval :: u64
  rv_mepc :: u64

record ls_assert_info =
  as_expression :: "cstring option"
  as_file :: "cstring option"
  as_message :: "cstring option"
  as_line :: u32

record ls_peripheral_fault =
  pf_domain :: u8
  pf_fault :: u16
  pf_instance :: u16
  pf_status :: u32
  pf_address :: u32
  pf_reg :: u32
  pf_timeout_ms :: u32
  pf_auxiliary :: "u32 list"

record ls_log_info =
  li_message_id :: u16
  li_format_id :: u16
  li_argument_count :: u8
  li_arguments :: "u32 list"

record ls_event =
  ev_type :: u8
  ev_priority :: ls_priority
  ev_timestamp_ms :: u32
  ev_fingerprint :: u32
  ev_domain :: "cstring option"
  ev_code :: u32
  ev_severity :: u8
  ev_message :: "cstring option"
  ev_cpu :: "ls_arch_context option"
  ev_riscv64 :: "ls_riscv64_context option"
  ev_assertion :: "ls_assert_info option"
  ev_peripheral :: "ls_peripheral_fault option"
  ev_log :: "ls_log_info option"
  ev_capture_level :: u8
  ev_repeat_count :: u32
  ev_first_seen_ms :: u32
  ev_last_seen_ms :: u32

section \<open>Fingerprints\<close>

definition mix :: "u32 \<Rightarrow> u32" where
  "mix v =
     (let v = v XOR drop_bit 16 v;
          v = v * 0x7feb352d;
          v = v XOR drop_bit 15 v;
          v = v * 0x846ca68b
      in v XOR drop_bit 16 v)"

definition ls_event_fingerprint :: "cstring option \<Rightarrow> cstring option \<Rightarrow> u32 \<Rightarrow> u32 \<Rightarrow> u32" where
  "ls_event_fingerprint build_id domain code detail =
     (let v = ls_hash_string domain XOR mix code XOR mix detail XOR mix (ls_hash_string build_id);
          v = mix v
      in if v \<noteq> 0 then v else 1)"

definition ls_crash_fingerprint :: "cstring option \<Rightarrow> ls_arch_context option \<Rightarrow> u32" where
  "ls_crash_fingerprint build_id ctx =
     (case ctx of
        None \<Rightarrow> 0
      | Some c \<Rightarrow>
          let v = mix (ac_architecture c) XOR mix (ac_fault c) XOR mix (ac_pc c) XOR mix (ac_lr c) XOR
                  mix (ucast (ac_fault_address c)) XOR mix (ac_cfsr c) XOR mix (ac_hfsr c) XOR
                  mix (ac_mcause c) XOR mix (ac_mtval c) XOR mix (ac_exccause c) XOR mix (ac_excvaddr c) XOR
                  mix (ls_hash_string build_id);
              v = mix v
          in if v \<noteq> 0 then v else 1)"

definition build_char_ok :: "u8 \<Rightarrow> bool" where
  "build_char_ok c \<longleftrightarrow> 0x61 \<le> c \<and> c \<le> 0x7a \<or> 0x41 \<le> c \<and> c \<le> 0x5a \<or> 0x30 \<le> c \<and> c \<le> 0x39 \<or>
     c = 0x2e \<or> c = 0x5f \<or> c = 0x2d \<or> c = 0x3a"

definition ls_build_id_validate :: "nat \<Rightarrow> cstring option \<Rightarrow> bool" where
  "ls_build_id_validate LS_BUILD_ID_MAX build_id =
     (let n = ls_string_length build_id
      in \<not> (n < 8 \<or> n > LS_BUILD_ID_MAX) \<and> list_all build_char_ok (case build_id of None \<Rightarrow> [] | Some t \<Rightarrow> t))"

lemma event_fingerprint_nonzero [simp]: "ls_event_fingerprint b d c x \<noteq> 0"
  by (simp add: ls_event_fingerprint_def Let_def)

lemma crash_fingerprint_nonzero [simp]: "ls_crash_fingerprint b (Some c) \<noteq> 0"
  by (simp add: ls_crash_fingerprint_def Let_def)

end
