(* ===== verification/LS_Policy.thy ===== *)
theory LS_Policy
  imports LS_Event
begin

text \<open>
  \<^verbatim>\<open>src/core/policy.c\<close>: sampling, rate limits and deduplication, which decide whether an event
  becomes an envelope. The arrays with their counts are lists. A pointer into a table that the code
  holds is an index. The probability of \<^verbatim>\<open>ls_sampling_set\<close> is the bit pattern of its
  \<^verbatim>\<open>float\<close>, which is all the code uses of it.
\<close>

section \<open>State\<close>

record ls_policy_record =
  po_domain_hash :: u32
  po_sampling_permyriad :: u16
  po_rate_maximum :: u16
  po_rate_count :: u16
  po_rate_period_ms :: u32
  po_window_started_ms :: u32
  po_seen :: u32

record ls_dedup_record =
  dd_fingerprint :: u32
  dd_count :: u32
  dd_first_seen_ms :: u32
  dd_last_seen_ms :: u32

record ls_policy_config =
  LS_POLICY_CAPACITY :: nat
  LS_DEDUP_CAPACITY :: nat
  LS_DEDUP_WINDOW_MS :: u32

record ls_policy =
  policies :: "ls_policy_record list"
  dedup :: "ls_dedup_record list"
  dedup_next :: nat
  random_state :: u32

section \<open>Operations\<close>

text \<open>The index of the first entry with a property.\<close>

fun first_where :: "('a \<Rightarrow> bool) \<Rightarrow> 'a list \<Rightarrow> nat option" where
  "first_where P [] = None"
| "first_where P (x # xs) = (if P x then Some 0 else map_option Suc (first_where P xs))"

definition find_policy :: "ls_policy_config \<Rightarrow> u32 \<Rightarrow> bool \<Rightarrow> ls_policy \<Rightarrow> nat option \<times> ls_policy" where
  "find_policy cfg hash create s =
     (case first_where (\<lambda>p. po_domain_hash p = hash) (policies s) of
        Some i \<Rightarrow> (Some i, s)
      | None \<Rightarrow>
          if \<not> create \<or> length (policies s) \<ge> LS_POLICY_CAPACITY cfg then (None, s)
          else (Some (length (policies s)),
                s\<lparr>policies := policies s @
                    [\<lparr>po_domain_hash = hash, po_sampling_permyriad = 10000, po_rate_maximum = 0,
                      po_rate_count = 0, po_rate_period_ms = 0, po_window_started_ms = 0, po_seen = 0\<rparr>]\<rparr>))"

definition update_policy :: "nat \<Rightarrow> (ls_policy_record \<Rightarrow> ls_policy_record) \<Rightarrow> ls_policy \<Rightarrow> ls_policy" where
  "update_policy i f s = s\<lparr>policies := (policies s)[i := f (policies s ! i)]\<rparr>"

definition ls_sampling_set_permyriad ::
    "ls_policy_config \<Rightarrow> cstring option \<Rightarrow> u16 \<Rightarrow> ls_policy \<Rightarrow> ls_result \<times> ls_policy" where
  "ls_sampling_set_permyriad cfg domain permyriad s =
     (if domain = None \<or> permyriad > 10000 then (LS_EINVAL, s)
      else case find_policy cfg (ls_hash_string domain) True s of
        (None, s) \<Rightarrow> (LS_ENOSPACE, s)
      | (Some i, s) \<Rightarrow> (LS_OK, update_policy i (\<lambda>p. p\<lparr>po_sampling_permyriad := permyriad\<rparr>) s))"

definition sampling_permyriad_of_bits :: "u32 \<Rightarrow> u16 option" where
  "sampling_permyriad_of_bits bits =
     (let magnitude = bits AND 0x7fffffff
      in if drop_bit 31 bits \<noteq> 0 \<and> magnitude \<noteq> 0 \<or> magnitude > 0x3f800000 then None
         else if magnitude = 0 then Some 0
         else
           let exponent = drop_bit 23 magnitude;
               mantissa = magnitude AND 0x7fffff
           in if exponent = 0 then Some 0
              else
                let mantissa = mantissa OR 0x800000;
                    shift = unat (150 - exponent);
                    scaled = (ucast mantissa :: u64) * 10000;
                    permyriad = (if shift \<ge> 64 then 0
                                 else ucast (drop_bit shift (scaled + push_bit (shift - 1) 1)) :: u32)
                in Some (ucast permyriad))"

definition ls_sampling_set ::
    "ls_policy_config \<Rightarrow> cstring option \<Rightarrow> u32 \<Rightarrow> ls_policy \<Rightarrow> ls_result \<times> ls_policy" where
  "ls_sampling_set cfg domain bits s =
     (case sampling_permyriad_of_bits bits of
        None \<Rightarrow> (LS_EINVAL, s)
      | Some permyriad \<Rightarrow> ls_sampling_set_permyriad cfg domain permyriad s)"

text \<open>\<open>uptime\<close> is the value of \<^verbatim>\<open>ls_uptime_ms()\<close>.\<close>

definition ls_rate_limit_set ::
    "ls_policy_config \<Rightarrow> cstring option \<Rightarrow> u16 \<Rightarrow> u32 \<Rightarrow> u32 \<Rightarrow> ls_policy \<Rightarrow> ls_result \<times> ls_policy" where
  "ls_rate_limit_set cfg domain maximum period uptime s =
     (if domain = None \<or> maximum = 0 \<or> period = 0 then (LS_EINVAL, s)
      else case find_policy cfg (ls_hash_string domain) True s of
        (None, s) \<Rightarrow> (LS_ENOSPACE, s)
      | (Some i, s) \<Rightarrow>
          (LS_OK, update_policy i (\<lambda>p. p\<lparr>po_rate_maximum := maximum, po_rate_period_ms := period,
                                        po_rate_count := 0, po_window_started_ms := uptime\<rparr>) s))"

definition ls_policy_reset :: "ls_policy \<Rightarrow> ls_policy" where
  "ls_policy_reset s = s\<lparr>policies := [], dedup := [], dedup_next := 0\<rparr>"

definition ls_dedup_count :: "ls_policy \<Rightarrow> nat" where
  "ls_dedup_count s = length (dedup s)"

definition ls_dedup_get :: "nat \<Rightarrow> ls_policy \<Rightarrow> ls_result + ls_dedup_record" where
  "ls_dedup_get index s = (if index \<ge> length (dedup s) then Inl LS_EINVAL else Inr (dedup s ! index))"

definition random_next :: "ls_policy \<Rightarrow> u32 \<times> ls_policy" where
  "random_next s =
     (let v = random_state s;
          v = (if v = 0 then 0xa341316c else v);
          v = v XOR push_bit 13 v;
          v = v XOR drop_bit 17 v;
          v = v XOR push_bit 5 v
      in (v, s\<lparr>random_state := v\<rparr>))"

definition is_power_of_two :: "u32 \<Rightarrow> bool" where
  "is_power_of_two v \<longleftrightarrow> v \<noteq> 0 \<and> v AND (v - 1) = 0"

definition dedup_record :: "ls_policy_config \<Rightarrow> u32 \<Rightarrow> u32 \<Rightarrow> ls_policy \<Rightarrow> nat \<times> ls_policy" where
  "dedup_record cfg fingerprint now s =
     (case first_where (\<lambda>d. dd_fingerprint d = fingerprint) (dedup s) of
        Some i \<Rightarrow> (i, s)
      | None \<Rightarrow>
          let fresh = \<lparr>dd_fingerprint = fingerprint, dd_count = 0, dd_first_seen_ms = now, dd_last_seen_ms = now\<rparr>
          in if length (dedup s) < LS_DEDUP_CAPACITY cfg
             then (length (dedup s), s\<lparr>dedup := dedup s @ [fresh]\<rparr>)
             else (dedup_next s, s\<lparr>dedup := (dedup s)[dedup_next s := fresh],
                                   dedup_next := (dedup_next s + 1) mod LS_DEDUP_CAPACITY cfg\<rparr>))"

text \<open>The bookkeeping of one repetition, and the fixed window of a rate limit: whether the event is
  within it, and the new record.\<close>

definition count_repeat :: "ls_policy_config \<Rightarrow> u32 \<Rightarrow> ls_dedup_record \<Rightarrow> ls_dedup_record" where
  "count_repeat cfg now d =
     (let d = (if now - dd_last_seen_ms d > LS_DEDUP_WINDOW_MS cfg
               then d\<lparr>dd_count := 0, dd_first_seen_ms := now\<rparr> else d)
      in d\<lparr>dd_count := dd_count d + 1, dd_last_seen_ms := now\<rparr>)"

definition rate_window :: "u32 \<Rightarrow> ls_policy_record \<Rightarrow> bool \<times> ls_policy_record" where
  "rate_window now p =
     (if po_rate_maximum p = 0 then (True, p)
      else
        let p = (if now - po_window_started_ms p \<ge> po_rate_period_ms p
                 then p\<lparr>po_window_started_ms := now, po_rate_count := 0\<rparr> else p)
        in if po_rate_count p \<ge> po_rate_maximum p then (False, p)
           else (True, p\<lparr>po_rate_count := po_rate_count p + 1\<rparr>))"

definition event_fingerprint :: "ls_event \<Rightarrow> u32" where
  "event_fingerprint event =
     (if ev_fingerprint event \<noteq> 0 then ev_fingerprint event
      else ls_hash_string (ev_domain event) XOR (ev_code event * 0x9e3779b9) XOR ls_hash_string (ev_message event))"

definition ls_policy_apply ::
    "ls_policy_config \<Rightarrow> ls_event \<Rightarrow> ls_policy \<Rightarrow> bool \<times> ls_event \<times> ls_policy" where
  "ls_policy_apply cfg event s =
     (let now = ev_timestamp_ms event;
          fingerprint = event_fingerprint event;
          (i, s) = dedup_record cfg fingerprint now s;
          d = count_repeat cfg now (dedup s ! i);
          s = s\<lparr>dedup := (dedup s)[i := d]\<rparr>;
          event = event\<lparr>ev_fingerprint := fingerprint, ev_repeat_count := dd_count d,
                        ev_first_seen_ms := dd_first_seen_ms d, ev_last_seen_ms := now\<rparr>;
          distinct_or_doubled = (dd_count d = 1 \<or> is_power_of_two (dd_count d))
      in if ev_priority event \<le> LS_PRIORITY_CRITICAL then (True, event, s)
         else case find_policy cfg (ls_hash_string (ev_domain event)) False s of
           (None, s) \<Rightarrow> (distinct_or_doubled, event, s)
         | (Some j, s) \<Rightarrow>
             let p = policies s ! j;
                 (within, p) = rate_window now (p\<lparr>po_seen := po_seen p + 1\<rparr>);
                 s = s\<lparr>policies := (policies s)[j := p]\<rparr>
             in if \<not> within then (False, event, s)
                else if po_seen p > 1 \<and> po_sampling_permyriad p < 10000
                then (case random_next s of
                        (r, s) \<Rightarrow> (r mod 10000 < ucast (po_sampling_permyriad p) \<and> distinct_or_doubled, event, s))
                else (distinct_or_doubled, event, s))"

section \<open>The tables\<close>

lemma first_where_SomeD: "first_where P xs = Some i \<Longrightarrow> i < length xs \<and> P (xs ! i)"
  by (induction xs arbitrary: i) (auto split: if_splits)

lemma first_where_NoneD: "first_where (\<lambda>x. f x = y) xs = None \<Longrightarrow> y \<notin> f ` set xs"
  by (induction xs) (auto split: if_splits)

lemma first_where_unique:
  "distinct (map f xs) \<Longrightarrow> i < length xs \<Longrightarrow> f (xs ! i) = y \<Longrightarrow> first_where (\<lambda>x. f x = y) xs = Some i"
proof (induction xs arbitrary: i)
  case (Cons x xs)
  show ?case
  proof (cases i)
    case (Suc j)
    then have "f x \<noteq> y" using Cons.prems nth_mem [of j xs] by auto
    then show ?thesis using Cons Suc by simp
  qed (use Cons.prems in simp)
qed simp

lemma map_list_update_same: "i < length xs \<Longrightarrow> f y = f (xs ! i) \<Longrightarrow> map f (xs[i := y]) = map f xs"
  by (simp add: map_update list_update_same_conv)

text \<open>A record of the policy table: a probability, and a count that stays within the
  limit of a period that is not empty.\<close>

definition policy_record_ok :: "ls_policy_record \<Rightarrow> bool" where
  "policy_record_ok p \<longleftrightarrow>
     po_sampling_permyriad p \<le> 10000 \<and> (po_rate_maximum p \<noteq> 0 \<longrightarrow> po_rate_count p \<le> po_rate_maximum p \<and> po_rate_period_ms p \<noteq> 0)"

definition policies_ok :: "ls_policy_config \<Rightarrow> ls_policy \<Rightarrow> bool" where
  "policies_ok cfg s \<longleftrightarrow>
     length (policies s) \<le> LS_POLICY_CAPACITY cfg \<and> distinct (map po_domain_hash (policies s)) \<and>
     list_all policy_record_ok (policies s) \<and>
     0 < LS_DEDUP_CAPACITY cfg \<and> length (dedup s) \<le> LS_DEDUP_CAPACITY cfg \<and>
     distinct (map dd_fingerprint (dedup s)) \<and> dedup_next s < LS_DEDUP_CAPACITY cfg"

lemma list_all_update: "list_all P xs \<Longrightarrow> P y \<Longrightarrow> list_all P (xs[i := y])"
  by (auto simp: list_all_iff dest!: set_update_subset_insert [THEN subsetD])

lemma rate_window_ok: "policy_record_ok p \<Longrightarrow> policy_record_ok (snd (rate_window now p))"
proof -
  have step: "c < m \<Longrightarrow> c + 1 \<le> m" for c m :: u16 by (simp add: inc_le)
  have one: "0 < m \<Longrightarrow> 1 \<le> m" for m :: u16 using inc_le [of 0 m] by simp
  assume "policy_record_ok p"
  then show ?thesis
    by (auto simp: rate_window_def policy_record_ok_def Let_def not_le intro!: step one)
qed

lemma rate_window_frame [simp]:
  "po_domain_hash (snd (rate_window now p)) = po_domain_hash p"
  "po_rate_maximum (snd (rate_window now p)) = po_rate_maximum p"
  "po_rate_period_ms (snd (rate_window now p)) = po_rate_period_ms p"
  "po_sampling_permyriad (snd (rate_window now p)) = po_sampling_permyriad p"
  "po_seen (snd (rate_window now p)) = po_seen p"
  by (simp_all add: rate_window_def Let_def)

lemma find_policies_ok:
  assumes "policies_ok cfg s" and "find_policy cfg hash create s = (r, s')"
  shows "policies_ok cfg s' \<and> dedup s' = dedup s \<and> random_state s' = random_state s \<and>
    (\<forall>i. r = Some i \<longrightarrow> i < length (policies s') \<and> po_domain_hash (policies s' ! i) = hash) \<and>
    (\<not> create \<longrightarrow> s' = s)"
proof (cases "first_where (\<lambda>p. po_domain_hash p = hash) (policies s)")
  case None
  then have "hash \<notin> po_domain_hash ` set (policies s)" by (rule first_where_NoneD)
  then show ?thesis
    using assms None by (auto simp: find_policy_def policies_ok_def policy_record_ok_def nth_append split: if_splits)
next
  case (Some i)
  then show ?thesis
    using assms first_where_SomeD [OF Some] by (auto simp: find_policy_def)
qed

lemma update_policies_ok:
  assumes "policies_ok cfg s" and "i < length (policies s)" and "policy_record_ok p"
    and "po_domain_hash p = po_domain_hash (policies s ! i)"
  shows "policies_ok cfg (s\<lparr>policies := (policies s)[i := p]\<rparr>)"
  using assms by (simp add: policies_ok_def list_all_update map_list_update_same)

lemma policy_record_ok_nth: "policies_ok cfg s \<Longrightarrow> i < length (policies s) \<Longrightarrow> policy_record_ok (policies s ! i)"
  by (simp add: policies_ok_def list_all_length)

lemma dedup_record_ok:
  assumes "policies_ok cfg s" and "dedup_record cfg fingerprint now s = (i, s')"
  shows "policies_ok cfg s' \<and> policies s' = policies s \<and> i < length (dedup s') \<and>
    dd_fingerprint (dedup s' ! i) = fingerprint"
proof (cases "first_where (\<lambda>d. dd_fingerprint d = fingerprint) (dedup s)")
  case None
  then have "fingerprint \<notin> dd_fingerprint ` set (dedup s)" by (rule first_where_NoneD)
  moreover have "distinct (map dd_fingerprint ((dedup s)[dedup_next s := d]))"
    if "dd_fingerprint d = fingerprint" for d
    using that assms(1) calculation by (auto simp: map_update policies_ok_def intro!: distinct_list_update)
  ultimately show ?thesis
    using assms None by (auto simp: dedup_record_def policies_ok_def Let_def nth_append split: if_splits)
next
  case (Some i)
  then show ?thesis
    using assms first_where_SomeD [OF Some] by (auto simp: dedup_record_def)
qed

lemma count_repeat_fingerprint [simp]: "dd_fingerprint (count_repeat cfg now d) = dd_fingerprint d"
  by (simp add: count_repeat_def Let_def)

lemma update_dedup_ok:
  assumes "policies_ok cfg s" and "i < length (dedup s)" and "dd_fingerprint d = dd_fingerprint (dedup s ! i)"
  shows "policies_ok cfg (s\<lparr>dedup := (dedup s)[i := d]\<rparr>)"
  using assms by (simp add: policies_ok_def map_list_update_same)

definition judged :: "u32 \<Rightarrow> ls_policy_record \<Rightarrow> bool \<times> ls_policy_record" where
  "judged now p = rate_window now (p\<lparr>po_seen := po_seen p + 1\<rparr>)"

lemma judged_ok: "policy_record_ok p \<Longrightarrow> policy_record_ok (snd (judged now p))"
  unfolding judged_def by (rule rate_window_ok) (simp add: policy_record_ok_def)

lemma judged_frame [simp]:
  "po_domain_hash (snd (judged now p)) = po_domain_hash p"
  "po_rate_maximum (snd (judged now p)) = po_rate_maximum p"
  "po_rate_period_ms (snd (judged now p)) = po_rate_period_ms p"
  by (simp_all add: judged_def)

lemma policy_apply_effect:
  assumes ok: "policies_ok cfg s" and run: "ls_policy_apply cfg event s = (pass, event', s')"
  defines "found \<equiv> first_where (\<lambda>p. po_domain_hash p = ls_hash_string (ev_domain event)) (policies s)"
  shows "policies_ok cfg s' \<and>
    (ev_priority event \<le> LS_PRIORITY_CRITICAL \<longrightarrow> pass \<and> policies s' = policies s) \<and>
    (\<not> ev_priority event \<le> LS_PRIORITY_CRITICAL \<longrightarrow>
      (case found of
         None \<Rightarrow> policies s' = policies s
       | Some j \<Rightarrow> policies s' = (policies s)[j := snd (judged (ev_timestamp_ms event) (policies s ! j))] \<and>
           (pass \<longrightarrow> fst (judged (ev_timestamp_ms event) (policies s ! j)))))"
proof -
  let ?now = "ev_timestamp_ms event"
  obtain i s1 where d: "dedup_record cfg (event_fingerprint event) ?now s = (i, s1)" by fastforce
  define s2 where "s2 = s1\<lparr>dedup := (dedup s1)[i := count_repeat cfg ?now (dedup s1 ! i)]\<rparr>"
  have d1: "policies_ok cfg s1" "policies s1 = policies s" "i < length (dedup s1)"
    using dedup_record_ok [OF ok d] by auto
  have ok2: "policies_ok cfg s2" and pol2: "policies s2 = policies s"
    using update_dedup_ok [OF d1(1,3)] d1(2) by (simp_all add: s2_def)
  show ?thesis
  proof (cases "ev_priority event \<le> LS_PRIORITY_CRITICAL")
    case True
    then show ?thesis
      using run d ok2 pol2 by (auto simp: ls_policy_apply_def Let_def s2_def)
  next
    case crit: False
    show ?thesis
    proof (cases found)
      case None
      then have "find_policy cfg (ls_hash_string (ev_domain event)) False s2 = (None, s2)"
        by (simp add: find_policy_def pol2 found_def)
      then show ?thesis
        using run d ok2 pol2 crit None by (auto simp: ls_policy_apply_def Let_def s2_def)
    next
      case (Some j)
      define q where "q = snd (judged ?now (policies s ! j))"
      define s3 where "s3 = s2\<lparr>policies := (policies s2)[j := q]\<rparr>"
      have j: "j < length (policies s)" using first_where_SomeD Some by (fastforce simp: found_def)
      have "policy_record_ok q"
        unfolding q_def using policy_record_ok_nth [OF ok j] by (rule judged_ok)
      then have ok3: "policies_ok cfg s3"
        unfolding s3_def using j by (intro update_policies_ok [OF ok2]) (simp_all add: pol2 q_def)
      have found': "find_policy cfg (ls_hash_string (ev_domain event)) False s2 = (Some j, s2)"
        using Some by (simp add: find_policy_def pol2 found_def)
      have split: "rate_window ?now ((policies s2 ! j)\<lparr>po_seen := po_seen (policies s2 ! j) + 1\<rparr>) =
          (fst (judged ?now (policies s ! j)), q)"
        by (simp add: q_def judged_def pol2)
      have rnd: "policies_ok cfg (snd (random_next s3))" "policies (snd (random_next s3)) = policies s3"
        using ok3 by (simp_all add: random_next_def policies_ok_def Let_def)
      have "policies_ok cfg s' \<and> policies s' = policies s3 \<and> (pass \<longrightarrow> fst (judged ?now (policies s ! j)))"
        using run d crit found' split ok3 rnd
        by (auto simp: ls_policy_apply_def Let_def s2_def [symmetric] s3_def [symmetric] split: if_splits prod.splits)
      then show ?thesis using crit Some by (simp add: s3_def pol2 q_def)
    qed
  qed
qed

section \<open>The rate limit over a stretch of time\<close>

text \<open>How many of the events that a limit applies to, those of the domain below critical priority, pass.\<close>

definition limited :: "u32 \<Rightarrow> ls_event \<Rightarrow> bool" where
  "limited hash event \<longleftrightarrow> \<not> ev_priority event \<le> LS_PRIORITY_CRITICAL \<and> ls_hash_string (ev_domain event) = hash"

fun admitted :: "ls_policy_config \<Rightarrow> u32 \<Rightarrow> ls_event list \<Rightarrow> ls_policy \<Rightarrow> nat" where
  "admitted cfg hash [] s = 0"
| "admitted cfg hash (event # events) s =
     (case ls_policy_apply cfg event s of
        (pass, _, s') \<Rightarrow> (if pass \<and> limited hash event then 1 else 0) + admitted cfg hash events s')"

text \<open>What a window still lets through: what is left of the limit, and the limit for every further
  period until \<open>t\<close>.\<close>

definition allowance :: "nat \<Rightarrow> ls_policy_record \<Rightarrow> nat" where
  "allowance t p =
     (unat (po_rate_maximum p) - unat (po_rate_count p)) +
     unat (po_rate_maximum p) * ((t - unat (po_window_started_ms p)) div unat (po_rate_period_ms p))"

lemma allowance_judged:
  assumes ok: "policy_record_ok p" "po_rate_maximum p \<noteq> 0"
    and time: "po_window_started_ms p \<le> now" "unat now \<le> t"
    and q: "judged now p = (pass, q)"
  shows "(if pass then 1 else 0) + allowance t q \<le> allowance t p \<and> po_window_started_ms q \<le> now"
proof -
  let ?m = "unat (po_rate_maximum p)" and ?c = "unat (po_rate_count p)"
  let ?w = "unat (po_window_started_ms p)" and ?n = "unat (po_rate_period_ms p)"
  have m: "0 < ?m" and n: "0 < ?n" and c: "?c \<le> ?m"
    using ok by (auto simp: policy_record_ok_def unat_gt_0 word_le_nat_alt)
  have age: "unat (now - po_window_started_ms p) = unat now - ?w"
    using time(1) by (rule unat_sub)
  have wn: "?w \<le> unat now" using time(1) by (simp add: word_le_nat_alt)
  have inc: "unat (x + 1) = unat x + 1" if "x < y" for x y :: u16
    using that unsigned_less [of y, where ?'a = nat] by (simp add: unat_word_ariths word_less_nat_alt)
  show ?thesis
  proof (cases "po_rate_period_ms p \<le> now - po_window_started_ms p")
    case True
    then have late: "?n \<le> unat now - ?w" by (simp add: word_le_nat_alt age)
    have "(t - unat now) div ?n + 1 \<le> (t - ?w) div ?n"
    proof -
      have "(t - unat now + ?n) div ?n \<le> (t - ?w) div ?n"
        using late wn time(2) by (intro div_le_mono) linarith
      moreover have "(t - unat now + ?n) div ?n = (t - unat now) div ?n + 1"
        by (rule div_add_self2) (use n in linarith)
      ultimately show ?thesis by linarith
    qed
    then have "?m * ((t - unat now) div ?n) + ?m \<le> ?m * ((t - ?w) div ?n)"
      by (metis mult_le_mono2 distrib_left mult.right_neutral)
    moreover have "pass" "q = p\<lparr>po_seen := po_seen p + 1, po_window_started_ms := now, po_rate_count := 1\<rparr>"
      using q True ok(2) by (auto simp: judged_def rate_window_def Let_def word_gt_0 not_le)
    ultimately show ?thesis using m by (simp add: allowance_def)
  next
    case False
    then have "pass = (po_rate_count p < po_rate_maximum p)"
      "q = p\<lparr>po_seen := po_seen p + 1, po_rate_count := po_rate_count p + (if pass then 1 else 0)\<rparr>"
      using q ok(2) by (auto simp: judged_def rate_window_def Let_def not_le split: if_splits)
    then show ?thesis
      using time(1) inc [of "po_rate_count p" "po_rate_maximum p"]
      by (auto simp: allowance_def word_less_nat_alt)
  qed
qed

lemma admitted_le_allowance:
  assumes "policies_ok cfg s" and "i < length (policies s)" and "po_rate_maximum (policies s ! i) \<noteq> 0"
    and "sorted (map ev_timestamp_ms events)"
    and "\<forall>event \<in> set events. po_window_started_ms (policies s ! i) \<le> ev_timestamp_ms event \<and>
           unat (ev_timestamp_ms event) \<le> t"
  shows "admitted cfg (po_domain_hash (policies s ! i)) events s \<le> allowance t (policies s ! i)"
  using assms
proof (induction events arbitrary: s)
  case (Cons event events)
  let ?p = "policies s ! i" and ?now = "ev_timestamp_ms event"
  obtain pass event' s' where run: "ls_policy_apply cfg event s = (pass, event', s')" by (metis prod_cases3)
  note eff = policy_apply_effect [OF Cons.prems(1) run]
  have later: "\<forall>e \<in> set events. ?now \<le> ev_timestamp_ms e" using Cons.prems(4) by auto
  show ?case
  proof (cases "limited (po_domain_hash ?p) event")
    case True
    then have "first_where (\<lambda>p. po_domain_hash p = ls_hash_string (ev_domain event)) (policies s) = Some i"
      using Cons.prems(1,2) by (intro first_where_unique) (auto simp: limited_def policies_ok_def)
    then have upd: "policies s' = (policies s)[i := snd (judged ?now ?p)]"
      and pass: "pass \<longrightarrow> fst (judged ?now ?p)" and ok: "policies_ok cfg s'"
      using eff True by (auto simp: limited_def)
    obtain within q where q: "judged ?now ?p = (within, q)" by fastforce
    have p': "policies s' ! i = q" "length (policies s') = length (policies s)"
      using upd q Cons.prems(2) by simp_all
    have same: "po_domain_hash q = po_domain_hash ?p" "po_rate_maximum q = po_rate_maximum ?p"
      using judged_frame [of ?now ?p] q by simp_all
    have step: "(if within then 1 else 0) + allowance t q \<le> allowance t ?p" "po_window_started_ms q \<le> ?now"
      using allowance_judged [OF policy_record_ok_nth [OF Cons.prems(1,2)] Cons.prems(3) _ _ q] Cons.prems(5)
      by auto
    have "admitted cfg (po_domain_hash q) events s' \<le> allowance t q"
      using Cons.IH [of s'] ok p' same Cons.prems(2-5) step(2) later by fastforce
    then show ?thesis using step(1) pass q same(1) run True by (auto split: if_splits)
  next
    case False
    have "policies s' ! i = ?p \<and> length (policies s') = length (policies s) \<and> policies_ok cfg s'"
    proof (cases "ev_priority event \<le> LS_PRIORITY_CRITICAL")
      case crit: False
      then have dom: "ls_hash_string (ev_domain event) \<noteq> po_domain_hash ?p" using False by (auto simp: limited_def)
      show ?thesis
      proof (cases "first_where (\<lambda>p. po_domain_hash p = ls_hash_string (ev_domain event)) (policies s)")
        case (Some j)
        then have "j \<noteq> i" using first_where_SomeD [OF Some] dom by auto
        then show ?thesis using eff crit Some by auto
      qed (use eff crit in auto)
    qed (use eff in auto)
    then show ?thesis using Cons.IH [of s'] Cons.prems False run by auto
  qed
qed simp

text \<open>C20: the rate limiter bounds every stretch of time. Over any sequence of events in the order of
  their timestamps, of all domains and priorities mixed, the policy of a domain with a limit lets at most
  \<^verbatim>\<open>maximum\<close> of its events below critical priority pass in what is left of the current window and
  \<^verbatim>\<open>maximum\<close> more for each further period up to the last timestamp \<open>t\<close>; critical and
  emergency events always pass, whatever the tables hold.\<close>

theorem rate_limit_bounds_events:
  assumes "policies_ok cfg s" and "i < length (policies s)" and "po_rate_maximum (policies s ! i) \<noteq> 0"
    and "sorted (map ev_timestamp_ms events)"
    and "\<forall>event \<in> set events. po_window_started_ms (policies s ! i) \<le> ev_timestamp_ms event \<and>
           unat (ev_timestamp_ms event) \<le> t"
  shows "admitted cfg (po_domain_hash (policies s ! i)) events s
      \<le> unat (po_rate_maximum (policies s ! i)) *
          ((t - unat (po_window_started_ms (policies s ! i))) div unat (po_rate_period_ms (policies s ! i)) + 1)
    \<and> (ev_priority event \<le> LS_PRIORITY_CRITICAL \<longrightarrow> fst (ls_policy_apply cfg event s))"
proof -
  have "admitted cfg (po_domain_hash (policies s ! i)) events s \<le> allowance t (policies s ! i)"
    using assms by (rule admitted_le_allowance)
  also have "\<dots> \<le> unat (po_rate_maximum (policies s ! i)) *
          ((t - unat (po_window_started_ms (policies s ! i))) div unat (po_rate_period_ms (policies s ! i)) + 1)"
    by (simp add: allowance_def algebra_simps)
  finally show ?thesis
    using policy_apply_effect [OF assms(1), of event] by (metis prod.collapse)
qed

definition one_limit :: ls_policy where
  "one_limit =
     \<lparr>policies = [\<lparr>po_domain_hash = ls_hash_string (Some [0x6e]), po_sampling_permyriad = 10000, po_rate_maximum = 2,
                    po_rate_count = 0, po_rate_period_ms = 10, po_window_started_ms = 100, po_seen = 0\<rparr>],
      dedup = [], dedup_next = 0, random_state = 1\<rparr>"

definition network_event :: "ls_priority \<Rightarrow> u32 \<Rightarrow> u32 \<Rightarrow> ls_event" where
  "network_event priority now code =
     \<lparr>ev_type = LS_EVENT_ERROR, ev_priority = priority, ev_timestamp_ms = now, ev_fingerprint = 0,
      ev_domain = Some [0x6e], ev_code = code, ev_severity = LS_SEVERITY_ERROR, ev_message = None, ev_cpu = None,
      ev_riscv64 = None, ev_assertion = None, ev_peripheral = None, ev_log = None,
      ev_capture_level = LS_CAPTURE_SNAPSHOT, ev_repeat_count = 0, ev_first_seen_ms = 0, ev_last_seen_ms = 0\<rparr>"

theorem rate_limit_bounds_events_witness:
  "admitted \<lparr>LS_POLICY_CAPACITY = 2, LS_DEDUP_CAPACITY = 4, LS_DEDUP_WINDOW_MS = 60000\<rparr> (ls_hash_string (Some [0x6e]))
      [network_event LS_PRIORITY_ERROR 100 1, network_event LS_PRIORITY_WARNING 101 2,
       network_event LS_PRIORITY_ERROR 102 3, network_event LS_PRIORITY_ERROR 115 4] one_limit \<le> 4 \<and>
   fst (ls_policy_apply \<lparr>LS_POLICY_CAPACITY = 2, LS_DEDUP_CAPACITY = 4, LS_DEDUP_WINDOW_MS = 60000\<rparr>
      (network_event LS_PRIORITY_EMERGENCY 103 5) one_limit)"
proof -
  let ?cfg = "\<lparr>LS_POLICY_CAPACITY = 2, LS_DEDUP_CAPACITY = 4, LS_DEDUP_WINDOW_MS = 60000\<rparr>"
  let ?events = "[network_event LS_PRIORITY_ERROR 100 1, network_event LS_PRIORITY_WARNING 101 2,
       network_event LS_PRIORITY_ERROR 102 3, network_event LS_PRIORITY_ERROR 115 4]"
  have "policies_ok ?cfg one_limit"
    by (simp add: policies_ok_def one_limit_def policy_record_ok_def)
  then show ?thesis
    using rate_limit_bounds_events [of ?cfg one_limit 0 ?events 115 "network_event LS_PRIORITY_EMERGENCY 103 5"]
    by (simp add: one_limit_def network_event_def less_eq_ls_priority_def)
qed

section \<open>Every operation keeps the tables well formed\<close>

inductive policy_step :: "ls_policy_config \<Rightarrow> ls_policy \<Rightarrow> ls_policy \<Rightarrow> bool" for cfg where
  sampling: "policy_step cfg s (snd (ls_sampling_set cfg domain bits s))"
| permyriad: "policy_step cfg s (snd (ls_sampling_set_permyriad cfg domain n s))"
| rate: "policy_step cfg s (snd (ls_rate_limit_set cfg domain maximum period uptime s))"
| reset: "policy_step cfg s (ls_policy_reset s)"
| judge: "ls_policy_apply cfg event s = (pass, event', s') \<Longrightarrow> policy_step cfg s s'"

lemma found_update_ok:
  assumes "policies_ok cfg s" and "find_policy cfg hash True s = (Some i, s')"
    and "\<And>p. policy_record_ok p \<Longrightarrow> policy_record_ok (f p)" and "\<And>p. po_domain_hash (f p) = po_domain_hash p"
  shows "policies_ok cfg (update_policy i f s')"
  using find_policies_ok [OF assms(1,2)] assms(3,4) policy_record_ok_nth [of cfg s' i]
  unfolding update_policy_def by (intro update_policies_ok) auto

lemma sampling_permyriad_ok:
  "policies_ok cfg s \<Longrightarrow> policies_ok cfg (snd (ls_sampling_set_permyriad cfg domain n s))"
  using find_policies_ok [of cfg s "ls_hash_string domain" True] found_update_ok [of cfg s "ls_hash_string domain"]
  by (auto simp: ls_sampling_set_permyriad_def policy_record_ok_def not_less split: prod.split option.split)

lemma policy_step_keeps_ok: "policy_step cfg s s' \<Longrightarrow> policies_ok cfg s \<Longrightarrow> policies_ok cfg s'"
proof (induction rule: policy_step.induct)
  case (sampling s domain bits)
  then show ?case by (simp add: ls_sampling_set_def sampling_permyriad_ok split: option.split)
next
  case (rate s domain maximum period uptime)
  then show ?case
    using find_policies_ok [of cfg s "ls_hash_string domain" True] found_update_ok [of cfg s "ls_hash_string domain"]
    by (auto simp: ls_rate_limit_set_def policy_record_ok_def split: prod.split option.split)
next
  case (reset s)
  then show ?case by (simp add: ls_policy_reset_def policies_ok_def)
qed (auto simp: sampling_permyriad_ok dest: policy_apply_effect)

end
