(* ===== verification/LS_Snapshot.thy ===== *)
theory LS_Snapshot
  imports LS_Event
begin

text \<open>
  The retained fault records of \<^verbatim>\<open>src/capture/capture.c\<close>: the minimal snapshot, which a fault
  handler writes to memory that survives a reset, and its wide sidecar for RV64. The stores to the
  volatile structures are lists of updates in program order, since a nested fault or the end of the
  supply may stop the handler after any of them; the writers run the whole list.
\<close>

section \<open>State\<close>

record ls_minimal_snapshot =
  ms_magic :: u32
  ms_version :: u32
  ms_pc :: u32
  ms_lr :: u32
  ms_msp :: u32
  ms_psp :: u32
  ms_cfsr :: u32
  ms_hfsr :: u32
  ms_build_hash :: u32
  ms_crc :: u32
  ms_fault :: u32
  ms_flags :: u32
  ms_exc_return :: u32
  ms_xpsr :: u32
  ms_fpscr :: u32
  ms_emergency_stack_used :: u32
  ms_fault_sequence :: u32
  ms_extension_crc :: u32
  ms_architecture :: u32
  ms_registers :: "u32 list"
  ms_ps :: u32
  ms_sar :: u32
  ms_exccause :: u32
  ms_excvaddr :: u32
  ms_context_crc :: u32

record ls_wide_context_snapshot =
  wc_magic :: u32
  wc_version :: u32
  wc_architecture :: u32
  wc_fault :: u32
  wc_build_hash :: u32
  wc_fault_sequence :: u32
  wc_context :: ls_riscv64_context
  wc_crc :: u32

text \<open>The retained records and the two static variables of the file.\<close>

record fault_memory =
  minimal_snapshot :: ls_minimal_snapshot
  wide_context_snapshot :: ls_wide_context_snapshot
  minimal_build_hash :: u32
  riscv64_fault_capture_sequence :: u32

definition LS_MINIMAL_MAGIC :: u32 where "LS_MINIMAL_MAGIC = 0x4d534c53"
definition LS_WIDE_CONTEXT_MAGIC :: u32 where "LS_WIDE_CONTEXT_MAGIC = 0x3656534c"
definition LS_MINIMAL_SNAPSHOT_VERSION :: u32 where "LS_MINIMAL_SNAPSHOT_VERSION = 3"
definition LS_WIDE_CONTEXT_SNAPSHOT_VERSION :: u32 where "LS_WIDE_CONTEXT_SNAPSHOT_VERSION = 1"
definition LS_MINIMAL_SNAPSHOT_FPU_FRAME :: u32 where "LS_MINIMAL_SNAPSHOT_FPU_FRAME = 8"
definition LS_MINIMAL_SNAPSHOT_FPU_LAZY :: u32 where "LS_MINIMAL_SNAPSHOT_FPU_LAZY = 16"
definition LS_MINIMAL_SNAPSHOT_WIDE_CONTEXT_VALID :: u32 where "LS_MINIMAL_SNAPSHOT_WIDE_CONTEXT_VALID = 0x200"

text \<open>The structures as they lie in memory.\<close>

definition minimal_bytes :: "ls_minimal_snapshot \<Rightarrow> bytes" where
  "minimal_bytes m =
     concat (map le32
       ([ms_magic m, ms_version m, ms_pc m, ms_lr m, ms_msp m, ms_psp m, ms_cfsr m, ms_hfsr m, ms_build_hash m,
         ms_crc m, ms_fault m, ms_flags m, ms_exc_return m, ms_xpsr m, ms_fpscr m, ms_emergency_stack_used m,
         ms_fault_sequence m, ms_extension_crc m, ms_architecture m] @ ms_registers m @
        [ms_ps m, ms_sar m, ms_exccause m, ms_excvaddr m, ms_context_crc m]))"

definition wide_bytes :: "ls_wide_context_snapshot \<Rightarrow> bytes" where
  "wide_bytes w =
     concat (map le32 [wc_magic w, wc_version w, wc_architecture w, wc_fault w, wc_build_hash w, wc_fault_sequence w]) @
     concat (map le64 (rv_x (wc_context w) @
       [rv_mstatus (wc_context w), rv_mcause (wc_context w), rv_mtval (wc_context w), rv_mepc (wc_context w)])) @
     le32 (wc_crc w)"

section \<open>Writing\<close>

text \<open>The checksum of a record whose magic is not stored yet: over the magic it will have, and the rest
  of the first \<open>n\<close> bytes.\<close>

definition minimal_crc32_update :: "u32 \<Rightarrow> bytes \<Rightarrow> u32" where
  "minimal_crc32_update crc data = foldl (\<lambda>crc b. (crc_bit ^^ 8) (crc XOR ucast b)) crc data"

definition fault_crc :: "u32 \<Rightarrow> bytes \<Rightarrow> nat \<Rightarrow> u32" where
  "fault_crc magic image_bytes n =
     (if n < 4 then 0
      else NOT (minimal_crc32_update (minimal_crc32_update 0xffffffff (le32 magic)) (bslice 4 (n - 4) image_bytes)))"

definition minimal_snapshot_fault_crc :: "ls_minimal_snapshot \<Rightarrow> nat \<Rightarrow> u32" where
  "minimal_snapshot_fault_crc m n = fault_crc LS_MINIMAL_MAGIC (minimal_bytes m) n"

definition wide_snapshot_fault_crc :: "ls_wide_context_snapshot \<Rightarrow> nat \<Rightarrow> u32" where
  "wide_snapshot_fault_crc w n = fault_crc LS_WIDE_CONTEXT_MAGIC (wide_bytes w) n"

text \<open>The three checksums and the magic end every writer of the minimal record.\<close>

definition minimal_commit :: "(ls_minimal_snapshot \<Rightarrow> ls_minimal_snapshot) list" where
  "minimal_commit =
     [\<lambda>m. m\<lparr>ms_crc := minimal_snapshot_fault_crc m 36\<rparr>,
      \<lambda>m. m\<lparr>ms_extension_crc := minimal_snapshot_fault_crc m 68\<rparr>,
      \<lambda>m. m\<lparr>ms_context_crc := minimal_snapshot_fault_crc m 156\<rparr>,
      \<lambda>m. m\<lparr>ms_magic := LS_MINIMAL_MAGIC\<rparr>]"

definition minimal_stores ::
    "u32 \<Rightarrow> u32 \<Rightarrow> u32 \<Rightarrow> u32 \<Rightarrow> u32 \<Rightarrow> u32 \<Rightarrow> u32 \<Rightarrow> u32 \<Rightarrow> u32 \<Rightarrow> u32 \<Rightarrow> u32 \<Rightarrow> u32 \<Rightarrow> u32 \<Rightarrow> u32 \<Rightarrow>
     ls_arch_context option \<Rightarrow> (ls_minimal_snapshot \<Rightarrow> ls_minimal_snapshot) list" where
  "minimal_stores build_hash pc lr msp psp cfsr hfsr fault exc_return xpsr fpscr flags emergency_stack_used
     fault_sequence ctx =
     [ms_magic_update (\<lambda>_. 0), ms_version_update (\<lambda>_. LS_MINIMAL_SNAPSHOT_VERSION), ms_pc_update (\<lambda>_. pc),
      ms_lr_update (\<lambda>_. lr), ms_msp_update (\<lambda>_. msp), ms_psp_update (\<lambda>_. psp), ms_cfsr_update (\<lambda>_. cfsr),
      ms_hfsr_update (\<lambda>_. hfsr), ms_build_hash_update (\<lambda>_. build_hash), ms_crc_update (\<lambda>_. 0),
      ms_fault_update (\<lambda>_. fault), ms_flags_update (\<lambda>_. flags), ms_exc_return_update (\<lambda>_. exc_return),
      ms_xpsr_update (\<lambda>_. xpsr), ms_fpscr_update (\<lambda>_. fpscr),
      ms_emergency_stack_used_update (\<lambda>_. emergency_stack_used),
      ms_fault_sequence_update (\<lambda>_. fault_sequence), ms_extension_crc_update (\<lambda>_. 0),
      ms_architecture_update (\<lambda>_. case ctx of None \<Rightarrow> LS_ARCH_UNKNOWN | Some c \<Rightarrow> ac_architecture c)] @
     map (\<lambda>i. ms_registers_update (\<lambda>rs. rs[i := (case ctx of None \<Rightarrow> 0 | Some c \<Rightarrow> ac_registers c ! i)])) [0..<16] @
     [ms_ps_update (\<lambda>_. case ctx of None \<Rightarrow> 0 | Some c \<Rightarrow> ac_ps c),
      ms_sar_update (\<lambda>_. case ctx of None \<Rightarrow> 0 | Some c \<Rightarrow> ac_sar c),
      ms_exccause_update (\<lambda>_. case ctx of None \<Rightarrow> 0 | Some c \<Rightarrow> ac_exccause c),
      ms_excvaddr_update (\<lambda>_. case ctx of None \<Rightarrow> 0 | Some c \<Rightarrow> ac_excvaddr c),
      ms_context_crc_update (\<lambda>_. 0)] @
     minimal_commit"

definition run_stores :: "('a \<Rightarrow> 'a) list \<Rightarrow> 'a \<Rightarrow> 'a" where
  "run_stores stores m = foldl (\<lambda>m store. store m) m stores"

text \<open>The store of the record without the freeze of the flight recorder, which \<open>LS_Capture\<close> adds.\<close>

definition minimal_snapshot_store ::
    "u32 \<Rightarrow> u32 \<Rightarrow> u32 \<Rightarrow> u32 \<Rightarrow> u32 \<Rightarrow> u32 \<Rightarrow> u32 \<Rightarrow> u32 \<Rightarrow> u32 \<Rightarrow> u32 \<Rightarrow> u32 \<Rightarrow> u32 \<Rightarrow> u32 \<Rightarrow>
     ls_arch_context option \<Rightarrow> fault_memory \<Rightarrow> fault_memory" where
  "minimal_snapshot_store pc lr msp psp cfsr hfsr fault exc_return xpsr fpscr flags emergency_stack_used
     fault_sequence ctx mem =
     mem\<lparr>minimal_snapshot :=
       run_stores (minimal_stores (minimal_build_hash mem) pc lr msp psp cfsr hfsr fault exc_return xpsr fpscr
         flags emergency_stack_used fault_sequence ctx) (minimal_snapshot mem)\<rparr>"

definition ls_capture_minimal_prepare :: "cstring option \<Rightarrow> fault_memory \<Rightarrow> fault_memory" where
  "ls_capture_minimal_prepare build_id mem =
     mem\<lparr>minimal_build_hash := ls_hash_string build_id, riscv64_fault_capture_sequence := 0\<rparr>"

text \<open>\<open>wide\<close> is the build switch \<^verbatim>\<open>LS_ENABLE_WIDE_CONTEXT\<close>.\<close>

definition wide_snapshot_clear :: "bool \<Rightarrow> fault_memory \<Rightarrow> fault_memory" where
  "wide_snapshot_clear wide mem =
     (if wide then mem\<lparr>wide_context_snapshot := (wide_context_snapshot mem)\<lparr>wc_magic := 0\<rparr>\<rparr> else mem)"

definition wide_stores :: "u32 \<Rightarrow> ls_riscv64_context \<Rightarrow> u32 \<Rightarrow> (ls_wide_context_snapshot \<Rightarrow> ls_wide_context_snapshot) list" where
  "wide_stores build_hash ctx fault_sequence =
     [wc_magic_update (\<lambda>_. 0), wc_version_update (\<lambda>_. LS_WIDE_CONTEXT_SNAPSHOT_VERSION),
      wc_architecture_update (\<lambda>_. LS_ARCH_RISCV64), wc_fault_update (\<lambda>_. LS_FAULT_TRAP),
      wc_build_hash_update (\<lambda>_. build_hash), wc_fault_sequence_update (\<lambda>_. fault_sequence)] @
     map (\<lambda>i. wc_context_update (\<lambda>c. c\<lparr>rv_x := (rv_x c)[i := rv_x ctx ! i]\<rparr>)) [0..<32] @
     [wc_context_update (\<lambda>c. c\<lparr>rv_mstatus := rv_mstatus ctx\<rparr>), wc_context_update (\<lambda>c. c\<lparr>rv_mcause := rv_mcause ctx\<rparr>),
      wc_context_update (\<lambda>c. c\<lparr>rv_mtval := rv_mtval ctx\<rparr>), wc_context_update (\<lambda>c. c\<lparr>rv_mepc := rv_mepc ctx\<rparr>),
      \<lambda>w. w\<lparr>wc_crc := wide_snapshot_fault_crc w 312\<rparr>, wc_magic_update (\<lambda>_. LS_WIDE_CONTEXT_MAGIC)]"

definition wide_snapshot_store :: "bool \<Rightarrow> ls_riscv64_context \<Rightarrow> u32 \<Rightarrow> fault_memory \<Rightarrow> bool \<times> fault_memory" where
  "wide_snapshot_store wide ctx fault_sequence mem =
     (if wide
      then (True, mem\<lparr>wide_context_snapshot :=
              run_stores (wide_stores (minimal_build_hash mem) ctx fault_sequence) (wide_context_snapshot mem)\<rparr>)
      else (False, mem))"

definition riscv64_fault_sequence_next :: "fault_memory \<Rightarrow> u32 \<times> fault_memory" where
  "riscv64_fault_sequence_next mem =
     (let sequence = riscv64_fault_capture_sequence mem + 1;
          sequence = (if sequence = 0 then 1 else sequence)
      in (sequence, mem\<lparr>riscv64_fault_capture_sequence := sequence\<rparr>))"

text \<open>The summary of an RV64 trap in the minimal record.\<close>

definition riscv64_stores ::
    "u32 \<Rightarrow> ls_riscv64_context \<Rightarrow> u32 \<Rightarrow> u32 \<Rightarrow> (ls_minimal_snapshot \<Rightarrow> ls_minimal_snapshot) list" where
  "riscv64_stores build_hash ctx flags fault_sequence =
     [ms_magic_update (\<lambda>_. 0), ms_version_update (\<lambda>_. LS_MINIMAL_SNAPSHOT_VERSION), ms_pc_update (\<lambda>_. ucast (rv_mepc ctx)),
      ms_lr_update (\<lambda>_. ucast (rv_x ctx ! 1)), ms_msp_update (\<lambda>_. ucast (rv_x ctx ! 2)), ms_psp_update (\<lambda>_. 0),
      ms_cfsr_update (\<lambda>_. 0), ms_hfsr_update (\<lambda>_. 0), ms_build_hash_update (\<lambda>_. build_hash), ms_crc_update (\<lambda>_. 0),
      ms_fault_update (\<lambda>_. LS_FAULT_TRAP), ms_flags_update (\<lambda>_. flags), ms_exc_return_update (\<lambda>_. 0),
      ms_xpsr_update (\<lambda>_. 0), ms_fpscr_update (\<lambda>_. 0), ms_emergency_stack_used_update (\<lambda>_. 0),
      ms_fault_sequence_update (\<lambda>_. fault_sequence), ms_extension_crc_update (\<lambda>_. 0),
      ms_architecture_update (\<lambda>_. LS_ARCH_RISCV64)] @
     map (\<lambda>i. ms_registers_update (\<lambda>rs. rs[i := ucast (rv_x ctx ! i)])) [0..<16] @
     [ms_ps_update (\<lambda>_. 0), ms_sar_update (\<lambda>_. 0), ms_exccause_update (\<lambda>_. 0),
      ms_excvaddr_update (\<lambda>_. ucast (rv_mtval ctx)), ms_context_crc_update (\<lambda>_. 0)] @
     minimal_commit"

definition ls_capture_minimal_riscv64_fault :: "bool \<Rightarrow> ls_riscv64_context \<Rightarrow> fault_memory \<Rightarrow> fault_memory" where
  "ls_capture_minimal_riscv64_fault wide ctx mem =
     (let (fault_sequence, mem) = riscv64_fault_sequence_next mem;
          (stored, mem) = wide_snapshot_store wide ctx fault_sequence mem;
          flags = (if stored then LS_MINIMAL_SNAPSHOT_WIDE_CONTEXT_VALID else 0)
      in mem\<lparr>minimal_snapshot :=
               run_stores (riscv64_stores (minimal_build_hash mem) ctx flags fault_sequence) (minimal_snapshot mem)\<rparr>)"

section \<open>Reading\<close>

text \<open>The fields from the fault on, and from the architecture on, cleared for the older versions.\<close>

definition clear_context :: "ls_minimal_snapshot \<Rightarrow> ls_minimal_snapshot" where
  "clear_context m =
     m\<lparr>ms_architecture := 0, ms_registers := replicate 16 0, ms_ps := 0, ms_sar := 0, ms_exccause := 0,
       ms_excvaddr := 0, ms_context_crc := 0\<rparr>"

definition clear_extension :: "ls_minimal_snapshot \<Rightarrow> ls_minimal_snapshot" where
  "clear_extension m =
     (clear_context m)\<lparr>ms_fault := 0, ms_flags := 0, ms_exc_return := 0, ms_xpsr := 0, ms_fpscr := 0,
       ms_emergency_stack_used := 0, ms_fault_sequence := 0, ms_extension_crc := 0\<rparr>"

definition ls_minimal_snapshot_validate :: "ls_minimal_snapshot \<Rightarrow> ls_minimal_snapshot option" where
  "ls_minimal_snapshot_validate m =
     (if ms_magic m \<noteq> LS_MINIMAL_MAGIC then None
      else
        let prefix_crc = ls_crc32 (bslice 0 36 (minimal_bytes m));
            extension_crc = ls_crc32 (bslice 0 68 (minimal_bytes m));
            context_crc = ls_crc32 (bslice 0 156 (minimal_bytes m))
        in if ms_version m = 1
           then if ms_crc m \<noteq> prefix_crc then None else Some (clear_extension m)
           else if ms_version m = 2
           then if ms_crc m \<noteq> prefix_crc \<or> ms_extension_crc m \<noteq> extension_crc then None else Some (clear_context m)
           else if ms_version m = LS_MINIMAL_SNAPSHOT_VERSION
           then if ms_crc m \<noteq> prefix_crc \<or> ms_extension_crc m \<noteq> extension_crc \<or> ms_context_crc m \<noteq> context_crc
                then None else Some m
           else None)"

definition ls_minimal_snapshot_read :: "fault_memory \<Rightarrow> ls_minimal_snapshot option" where
  "ls_minimal_snapshot_read mem = ls_minimal_snapshot_validate (minimal_snapshot mem)"

definition ls_wide_context_snapshot_read :: "bool \<Rightarrow> fault_memory \<Rightarrow> ls_wide_context_snapshot option" where
  "ls_wide_context_snapshot_read wide mem =
     (let w = wide_context_snapshot mem
      in if \<not> wide then None
         else if wc_magic w \<noteq> LS_WIDE_CONTEXT_MAGIC \<or> wc_version w \<noteq> LS_WIDE_CONTEXT_SNAPSHOT_VERSION \<or>
            wc_architecture w \<noteq> LS_ARCH_RISCV64 \<or> wc_fault w \<noteq> LS_FAULT_TRAP \<or>
            wc_crc w \<noteq> ls_crc32 (bslice 0 312 (wide_bytes w))
         then None else Some w)"

definition ls_minimal_snapshot_clear :: "bool \<Rightarrow> fault_memory \<Rightarrow> fault_memory" where
  "ls_minimal_snapshot_clear wide mem =
     wide_snapshot_clear wide (mem\<lparr>minimal_snapshot := (minimal_snapshot mem)\<lparr>ms_magic := 0\<rparr>\<rparr>)"

definition wide_snapshot_matches_minimal :: "ls_wide_context_snapshot \<Rightarrow> ls_minimal_snapshot \<Rightarrow> bool" where
  "wide_snapshot_matches_minimal w m \<longleftrightarrow>
     wc_architecture w = ms_architecture m \<and> wc_fault w = ms_fault m \<and> wc_build_hash w = ms_build_hash m \<and>
     wc_fault_sequence w = ms_fault_sequence m \<and> ucast (rv_x (wc_context w) ! 1) = ms_lr m \<and>
     ucast (rv_x (wc_context w) ! 2) = ms_msp m \<and> ucast (rv_mtval (wc_context w)) = ms_excvaddr m \<and>
     ucast (rv_mepc (wc_context w)) = ms_pc m"

definition riscv64_context_to_arch :: "ls_riscv64_context \<Rightarrow> u32 \<Rightarrow> ls_arch_context" where
  "riscv64_context_to_arch source fault =
     zero_context\<lparr>ac_architecture := LS_ARCH_RISCV64, ac_fault := fault, ac_lr := ucast (rv_x source ! 1),
       ac_pc := ucast (rv_mepc source), ac_msp := ucast (rv_x source ! 2), ac_mcause := ucast (rv_mcause source),
       ac_mtval := ucast (rv_mtval source), ac_mstatus := ucast (rv_mstatus source),
       ac_mepc := ucast (rv_mepc source), ac_fault_address := rv_mtval source,
       ac_registers := map ucast (rv_x source)\<rparr>"

text \<open>The context that recovery rebuilds, and the full RV64 state when the sidecar belongs to it.\<close>

definition recovered_context :: "u32 \<Rightarrow> ls_minimal_snapshot \<Rightarrow> ls_arch_context" where
  "recovered_context default_architecture m =
     zero_context\<lparr>ac_architecture :=
         (if ms_architecture m > LS_ARCH_UNKNOWN \<and> ms_architecture m \<le> LS_ARCH_RISCV64
          then ms_architecture m else default_architecture),
       ac_fault := ms_fault m, ac_lr := ms_lr m, ac_pc := ms_pc m, ac_xpsr := ms_xpsr m, ac_msp := ms_msp m,
       ac_psp := ms_psp m, ac_exc_return := ms_exc_return m, ac_cfsr := ms_cfsr m, ac_hfsr := ms_hfsr m,
       ac_fpscr := ms_fpscr m, ac_has_fpu := (ms_flags m AND LS_MINIMAL_SNAPSHOT_FPU_FRAME \<noteq> 0),
       ac_fpu_lazy := (ms_flags m AND LS_MINIMAL_SNAPSHOT_FPU_LAZY \<noteq> 0), ac_ps := ms_ps m, ac_sar := ms_sar m,
       ac_exccause := ms_exccause m, ac_excvaddr := ms_excvaddr m, ac_fault_address := ucast (ms_excvaddr m),
       ac_registers := ms_registers m @ replicate 16 0\<rparr>"

definition recovered_riscv64 :: "bool \<Rightarrow> fault_memory \<Rightarrow> ls_minimal_snapshot \<Rightarrow> ls_riscv64_context option" where
  "recovered_riscv64 wide mem m =
     (if ms_flags m AND LS_MINIMAL_SNAPSHOT_WIDE_CONTEXT_VALID = 0 then None
      else case ls_wide_context_snapshot_read wide mem of
        None \<Rightarrow> None
      | Some w \<Rightarrow> if wide_snapshot_matches_minimal w m then Some (wc_context w) else None)"

section \<open>Checksums\<close>

lemma minimal_crc32_update_eq: "minimal_crc32_update = crc_update"
  by (simp add: fun_eq_iff minimal_crc32_update_def crc_update_def crc_byte_def [abs_def])

lemma fault_crc_eq: "4 \<le> n \<Longrightarrow> fault_crc magic xs n = ls_crc32 (le32 magic @ bslice 4 (n - 4) xs)"
  by (simp add: fault_crc_def ls_crc32_def minimal_crc32_update_eq crc_update_def)

lemma concat_le32_length [simp]: "length (concat (map le32 ws)) = 4 * length ws"
  by (induction ws) simp_all

lemma take_concat_le32: "take (4 * k) (concat (map le32 ws)) = concat (map le32 (take k ws))"
proof (induction ws arbitrary: k)
  case (Cons w ws)
  then show ?case by (cases k) (simp_all add: algebra_simps)
qed simp

text \<open>The words of the record, and the checksum of its first \<open>k\<close> words once the magic is there.\<close>

definition minimal_words :: "ls_minimal_snapshot \<Rightarrow> u32 list" where
  "minimal_words m =
     [ms_magic m, ms_version m, ms_pc m, ms_lr m, ms_msp m, ms_psp m, ms_cfsr m, ms_hfsr m, ms_build_hash m,
      ms_crc m, ms_fault m, ms_flags m, ms_exc_return m, ms_xpsr m, ms_fpscr m, ms_emergency_stack_used m,
      ms_fault_sequence m, ms_extension_crc m, ms_architecture m] @ ms_registers m @
     [ms_ps m, ms_sar m, ms_exccause m, ms_excvaddr m, ms_context_crc m]"

definition prefix_crc :: "nat \<Rightarrow> ls_minimal_snapshot \<Rightarrow> u32" where
  "prefix_crc k m = ls_crc32 (concat (map le32 (LS_MINIMAL_MAGIC # take k (tl (minimal_words m)))))"

lemma minimal_fault_crc_eq: "minimal_snapshot_fault_crc m (4 * Suc k) = prefix_crc k m"
proof -
  have "minimal_bytes m = le32 (ms_magic m) @ concat (map le32 (tl (minimal_words m)))"
    by (simp add: minimal_bytes_def minimal_words_def)
  then have "bslice 4 (4 * k) (minimal_bytes m) = concat (map le32 (take k (tl (minimal_words m))))"
    by (simp add: bslice_def take_concat_le32)
  then show ?thesis
    by (simp add: minimal_snapshot_fault_crc_def fault_crc_eq prefix_crc_def)
qed

lemma stored_crc_eq:
  assumes "ms_magic m = LS_MINIMAL_MAGIC"
  shows "ls_crc32 (bslice 0 (4 * Suc k) (minimal_bytes m)) = prefix_crc k m"
proof -
  have "minimal_bytes m = concat (map le32 (LS_MINIMAL_MAGIC # tl (minimal_words m)))"
    using assms by (simp add: minimal_bytes_def minimal_words_def)
  then have "bslice 0 (4 * Suc k) (minimal_bytes m) =
      concat (map le32 (take (Suc k) (LS_MINIMAL_MAGIC # tl (minimal_words m))))"
    unfolding bslice_def by (simp only: drop_0 take_concat_le32)
  then show ?thesis by (simp add: prefix_crc_def)
qed

lemma prefix_crc_frame:
  "prefix_crc 8 (m\<lparr>ms_crc := a\<rparr>) = prefix_crc 8 m"
  "prefix_crc 8 (m\<lparr>ms_extension_crc := a\<rparr>) = prefix_crc 8 m"
  "prefix_crc 8 (m\<lparr>ms_context_crc := a\<rparr>) = prefix_crc 8 m"
  "prefix_crc 16 (m\<lparr>ms_extension_crc := a\<rparr>) = prefix_crc 16 m"
  "prefix_crc 16 (m\<lparr>ms_context_crc := a\<rparr>) = prefix_crc 16 m"
  "length (ms_registers m) = 16 \<Longrightarrow> prefix_crc 38 (m\<lparr>ms_context_crc := a\<rparr>) = prefix_crc 38 m"
  "prefix_crc k (m\<lparr>ms_magic := a\<rparr>) = prefix_crc k m"
  by (simp_all add: prefix_crc_def minimal_words_def)

text \<open>What the last stores of a writer make of a record: it carries its magic and validates.\<close>

definition sealed_minimal :: "ls_minimal_snapshot \<Rightarrow> ls_minimal_snapshot" where
  "sealed_minimal m =
     (let m = m\<lparr>ms_crc := prefix_crc 8 m\<rparr>;
          m = m\<lparr>ms_extension_crc := prefix_crc 16 m\<rparr>;
          m = m\<lparr>ms_context_crc := prefix_crc 38 m\<rparr>
      in m\<lparr>ms_magic := LS_MINIMAL_MAGIC\<rparr>)"

lemma minimal_commit_run: "run_stores minimal_commit m = sealed_minimal m"
  using minimal_fault_crc_eq [of _ 8] minimal_fault_crc_eq [of _ 16] minimal_fault_crc_eq [of _ 38]
  by (simp add: run_stores_def minimal_commit_def sealed_minimal_def Let_def)

lemma sealed_minimal_valid:
  assumes "ms_version m = LS_MINIMAL_SNAPSHOT_VERSION" and "length (ms_registers m) = 16"
  shows "ls_minimal_snapshot_validate (sealed_minimal m) = Some (sealed_minimal m)"
proof -
  let ?s = "sealed_minimal m"
  have magic: "ms_magic ?s = LS_MINIMAL_MAGIC" and version: "ms_version ?s = 3"
    using assms(1) by (simp_all add: sealed_minimal_def Let_def LS_MINIMAL_SNAPSHOT_VERSION_def)
  have "ms_crc ?s = prefix_crc 8 ?s" "ms_extension_crc ?s = prefix_crc 16 ?s" "ms_context_crc ?s = prefix_crc 38 ?s"
    using assms(2) by (simp_all add: sealed_minimal_def Let_def prefix_crc_frame)
  then show ?thesis
    using magic version stored_crc_eq [OF magic, of 8] stored_crc_eq [OF magic, of 16] stored_crc_eq [OF magic, of 38]
    by (simp add: ls_minimal_snapshot_validate_def Let_def LS_MINIMAL_SNAPSHOT_VERSION_def)
qed

section \<open>Interrupted writers\<close>

lemma run_stores_append: "run_stores (xs @ ys) m = run_stores ys (run_stores xs m)"
  by (simp add: run_stores_def)

text \<open>A list of stores that clears a field first and sets it last leaves it cleared wherever it stops in
  between.\<close>

lemma run_stores_cleared:
  assumes "\<forall>f \<in> set stores. \<forall>m. field m = 0 \<longrightarrow> field (f m) = 0" and "field m = 0"
  shows "field (run_stores stores m) = 0"
  using assms by (induction stores arbitrary: m) (simp_all add: run_stores_def)

lemma torn_cleared:
  assumes "\<And>m. field (first m) = 0" and "\<forall>f \<in> set middle. \<forall>m. field m = 0 \<longrightarrow> field (f m) = 0"
    and "0 < k" and "k \<le> Suc (length middle)"
  shows "field (run_stores (take k (first # middle @ [final])) m) = 0"
proof -
  have "take k (first # middle @ [final]) = first # take (k - 1) middle"
    using assms(3,4) by (cases k) simp_all
  moreover have "field (run_stores (take (k - 1) middle) (first m)) = 0"
    using assms(1,2) by (intro run_stores_cleared [where field = field]) (auto dest: in_set_takeD)
  ultimately show ?thesis by (simp add: run_stores_def)
qed

lemma length_stores [simp]:
  "length (minimal_stores bh pc lr msp psp cfsr hfsr fault er xp fp fl es fs ctx) = 44"
  "length (riscv64_stores bh rv fl fs) = 44" "length (wide_stores bh rv fs) = 44"
  by (simp_all add: minimal_stores_def riscv64_stores_def minimal_commit_def wide_stores_def)

lemma torn_stores:
  assumes "\<And>m. field (hd stores m) = 0" and "\<forall>f \<in> set (butlast (tl stores)). \<forall>m. field m = 0 \<longrightarrow> field (f m) = 0"
    and "0 < k" and "k < length stores"
  shows "field (run_stores (take k stores) m) = 0"
proof -
  obtain first rest where stores: "stores = first # rest" "rest \<noteq> []"
    using assms(3,4) by (cases stores; cases "tl stores") auto
  have "field (run_stores (take k (first # butlast rest @ [last rest])) m) = 0"
  proof (rule torn_cleared [where field = field])
    show "field (first m) = 0" for m using assms(1) stores by simp
    show "\<forall>f \<in> set (butlast rest). \<forall>m. field m = 0 \<longrightarrow> field (f m) = 0" using assms(2) stores by simp
    show "k \<le> Suc (length (butlast rest))" using assms(4) stores by simp
  qed (rule assms(3))
  then show ?thesis using stores by simp
qed

lemma minimal_stores_torn:
  assumes "0 < k" "k < 44"
  shows "ms_magic (run_stores (take k (minimal_stores bh pc lr msp psp cfsr hfsr fault er xp fp fl es fs ctx)) m) = 0"
  using assms
  by (intro torn_stores [where field = ms_magic])
    (simp_all add: minimal_stores_def minimal_commit_def butlast_append del: upt_rec_numeral)

lemma riscv64_stores_torn:
  assumes "0 < k" "k < 44"
  shows "ms_magic (run_stores (take k (riscv64_stores bh rv fl fs)) m) = 0"
  using assms
  by (intro torn_stores [where field = ms_magic])
    (simp_all add: riscv64_stores_def minimal_commit_def butlast_append del: upt_rec_numeral)

lemma wide_stores_torn:
  assumes "0 < k" "k < 44"
  shows "wc_magic (run_stores (take k (wide_stores bh rv fs)) w) = 0"
  using assms
  by (intro torn_stores [where field = wc_magic])
    (simp_all add: wide_stores_def butlast_append del: upt_rec_numeral)

text \<open>The registers stored one by one.\<close>

lemma run_register_stores:
  assumes "\<And>i rs m. upd (\<lambda>rs. rs[i := f i]) m = upd (\<lambda>_. (get m)[i := f i]) m"
    and "\<And>rs m. get (upd (\<lambda>_. rs) m) = rs" and "\<And>a b m. upd (\<lambda>_. a) (upd (\<lambda>_. b) m) = upd (\<lambda>_. a) m"
    and "\<And>m. upd (\<lambda>_. get m) m = m"
    and "n \<le> length (get m)"
  shows "run_stores (map (\<lambda>i. upd (\<lambda>rs. rs[i := f i])) [0..<n]) m = upd (\<lambda>_. map f [0..<n] @ drop n (get m)) m"
  using assms(5)
proof (induction n)
  case 0
  then show ?case by (simp add: run_stores_def assms(4))
next
  case (Suc n)
  have "(map f [0..<n] @ drop n (get m))[n := f n] = map f [0..<n] @ f n # drop (Suc n) (get m)"
    using Suc.prems by (simp add: list_update_append Cons_nth_drop_Suc [symmetric])
  then show ?case
    using Suc by (simp add: run_stores_append run_stores_def [of "[_]"] assms)
qed

section \<open>Complete writers\<close>

definition riscv64_summary :: "u32 \<Rightarrow> ls_riscv64_context \<Rightarrow> u32 \<Rightarrow> u32 \<Rightarrow> ls_minimal_snapshot" where
  "riscv64_summary build_hash ctx flags fault_sequence =
     \<lparr>ms_magic = 0, ms_version = LS_MINIMAL_SNAPSHOT_VERSION, ms_pc = ucast (rv_mepc ctx),
      ms_lr = ucast (rv_x ctx ! 1), ms_msp = ucast (rv_x ctx ! 2), ms_psp = 0, ms_cfsr = 0, ms_hfsr = 0,
      ms_build_hash = build_hash, ms_crc = 0, ms_fault = LS_FAULT_TRAP, ms_flags = flags, ms_exc_return = 0,
      ms_xpsr = 0, ms_fpscr = 0, ms_emergency_stack_used = 0, ms_fault_sequence = fault_sequence,
      ms_extension_crc = 0, ms_architecture = LS_ARCH_RISCV64,
      ms_registers = map (\<lambda>i. ucast (rv_x ctx ! i)) [0..<16], ms_ps = 0, ms_sar = 0, ms_exccause = 0,
      ms_excvaddr = ucast (rv_mtval ctx), ms_context_crc = 0\<rparr>"

definition fault_summary ::
    "u32 \<Rightarrow> u32 \<Rightarrow> u32 \<Rightarrow> u32 \<Rightarrow> u32 \<Rightarrow> u32 \<Rightarrow> u32 \<Rightarrow> u32 \<Rightarrow> u32 \<Rightarrow> u32 \<Rightarrow> u32 \<Rightarrow> u32 \<Rightarrow> u32 \<Rightarrow> u32 \<Rightarrow>
     ls_arch_context option \<Rightarrow> ls_minimal_snapshot" where
  "fault_summary build_hash pc lr msp psp cfsr hfsr fault exc_return xpsr fpscr flags emergency_stack_used
     fault_sequence ctx =
     \<lparr>ms_magic = 0, ms_version = LS_MINIMAL_SNAPSHOT_VERSION, ms_pc = pc, ms_lr = lr, ms_msp = msp, ms_psp = psp,
      ms_cfsr = cfsr, ms_hfsr = hfsr, ms_build_hash = build_hash, ms_crc = 0, ms_fault = fault, ms_flags = flags,
      ms_exc_return = exc_return, ms_xpsr = xpsr, ms_fpscr = fpscr, ms_emergency_stack_used = emergency_stack_used,
      ms_fault_sequence = fault_sequence, ms_extension_crc = 0,
      ms_architecture = (case ctx of None \<Rightarrow> LS_ARCH_UNKNOWN | Some c \<Rightarrow> ac_architecture c),
      ms_registers = map (\<lambda>i. case ctx of None \<Rightarrow> 0 | Some c \<Rightarrow> ac_registers c ! i) [0..<16],
      ms_ps = (case ctx of None \<Rightarrow> 0 | Some c \<Rightarrow> ac_ps c), ms_sar = (case ctx of None \<Rightarrow> 0 | Some c \<Rightarrow> ac_sar c),
      ms_exccause = (case ctx of None \<Rightarrow> 0 | Some c \<Rightarrow> ac_exccause c),
      ms_excvaddr = (case ctx of None \<Rightarrow> 0 | Some c \<Rightarrow> ac_excvaddr c), ms_context_crc = 0\<rparr>"

lemma run_registers:
  assumes "length (ms_registers m) = n"
  shows "run_stores (map (\<lambda>i. ms_registers_update (\<lambda>rs. rs[i := f i])) [0..<n]) m =
    m\<lparr>ms_registers := map f [0..<n]\<rparr>"
  using run_register_stores [of ms_registers_update f ms_registers n m] assms by simp

lemma run_stores_Cons [simp]: "run_stores (f # fs) m = run_stores fs (f m)"
  and run_stores_Nil [simp]: "run_stores [] m = m"
  by (simp_all add: run_stores_def)

lemma riscv64_stores_run:
  assumes "length (ms_registers m) = 16"
  shows "run_stores (riscv64_stores bh ctx fl fs) m = sealed_minimal (riscv64_summary bh ctx fl fs)"
  unfolding riscv64_stores_def run_stores_append minimal_commit_run
  using assms by (cases m) (simp add: run_registers riscv64_summary_def del: upt_rec_numeral)

lemma minimal_stores_run:
  assumes "length (ms_registers m) = 16"
  shows "run_stores (minimal_stores bh pc lr msp psp cfsr hfsr fault er xp fp fl es fs ctx) m =
    sealed_minimal (fault_summary bh pc lr msp psp cfsr hfsr fault er xp fp fl es fs ctx)"
  unfolding minimal_stores_def run_stores_append minimal_commit_run
  using assms by (cases m) (simp add: run_registers fault_summary_def del: upt_rec_numeral)

lemma sealed_fields [simp]:
  "ms_pc (sealed_minimal m) = ms_pc m" "ms_lr (sealed_minimal m) = ms_lr m" "ms_msp (sealed_minimal m) = ms_msp m"
  "ms_fault (sealed_minimal m) = ms_fault m" "ms_flags (sealed_minimal m) = ms_flags m"
  "ms_build_hash (sealed_minimal m) = ms_build_hash m" "ms_fault_sequence (sealed_minimal m) = ms_fault_sequence m"
  "ms_architecture (sealed_minimal m) = ms_architecture m" "ms_excvaddr (sealed_minimal m) = ms_excvaddr m"
  by (simp_all add: sealed_minimal_def Let_def)

lemma summary_valid:
  "ls_minimal_snapshot_validate (sealed_minimal (riscv64_summary bh ctx fl fs)) =
     Some (sealed_minimal (riscv64_summary bh ctx fl fs))"
  "ls_minimal_snapshot_validate (sealed_minimal (fault_summary bh pc lr msp psp cfsr hfsr fault er xp fp fl es fs carg)) =
     Some (sealed_minimal (fault_summary bh pc lr msp psp cfsr hfsr fault er xp fp fl es fs carg))"
  by (rule sealed_minimal_valid; simp add: riscv64_summary_def fault_summary_def)+

text \<open>The sidecar.\<close>

definition wide_summary :: "u32 \<Rightarrow> ls_riscv64_context \<Rightarrow> u32 \<Rightarrow> ls_wide_context_snapshot" where
  "wide_summary build_hash ctx fault_sequence =
     (let w = \<lparr>wc_magic = LS_WIDE_CONTEXT_MAGIC, wc_version = LS_WIDE_CONTEXT_SNAPSHOT_VERSION,
               wc_architecture = LS_ARCH_RISCV64, wc_fault = LS_FAULT_TRAP, wc_build_hash = build_hash,
               wc_fault_sequence = fault_sequence, wc_context = ctx, wc_crc = 0\<rparr>
      in w\<lparr>wc_crc := ls_crc32 (bslice 0 312 (wide_bytes w))\<rparr>)"

lemma concat_le64_length [simp]: "length (concat (map le64 ws)) = 8 * length ws"
  by (induction ws) simp_all

lemma wide_crc_eq:
  "ls_crc32 (bslice 0 312 (wide_bytes (w\<lparr>wc_magic := LS_WIDE_CONTEXT_MAGIC\<rparr>))) = wide_snapshot_fault_crc w 312"
proof -
  obtain rest where rest: "wide_bytes (w\<lparr>wc_magic := x\<rparr>) = le32 x @ rest" for x
    using that [of "concat (map le32 [wc_version w, wc_architecture w, wc_fault w, wc_build_hash w, wc_fault_sequence w]) @
     concat (map le64 (rv_x (wc_context w) @
       [rv_mstatus (wc_context w), rv_mcause (wc_context w), rv_mtval (wc_context w), rv_mepc (wc_context w)])) @
     le32 (wc_crc w)"] by (simp add: wide_bytes_def)
  have "wide_bytes w = le32 (wc_magic w) @ rest" using rest [of "wc_magic w"] by simp
  then show ?thesis
    by (simp add: wide_snapshot_fault_crc_def fault_crc_eq rest bslice_def)
qed

lemma wide_crc_frame:
  "length (rv_x (wc_context w)) = 32 \<Longrightarrow> bslice 0 312 (wide_bytes (w\<lparr>wc_crc := a\<rparr>)) = bslice 0 312 (wide_bytes w)"
  by (simp add: wide_bytes_def bslice_def)

lemma run_wide_registers:
  assumes "length (rv_x (wc_context w)) = n"
  shows "run_stores (map (\<lambda>i. wc_context_update (\<lambda>c. c\<lparr>rv_x := (rv_x c)[i := f i]\<rparr>)) [0..<n]) w =
    w\<lparr>wc_context := (wc_context w)\<lparr>rv_x := map f [0..<n]\<rparr>\<rparr>"
  using run_register_stores [of "\<lambda>g. wc_context_update (\<lambda>c. c\<lparr>rv_x := g (rv_x c)\<rparr>)" f "\<lambda>w. rv_x (wc_context w)" n w]
    assms by simp

lemma riscv64_context_eta:
  "c\<lparr>rv_x := rv_x d, rv_mstatus := rv_mstatus d, rv_mcause := rv_mcause d, rv_mtval := rv_mtval d,
     rv_mepc := rv_mepc d\<rparr> = (d :: ls_riscv64_context)"
  by (cases c; cases d) simp

lemma wide_stores_run:
  assumes "length (rv_x (wc_context w)) = 32" and "length (rv_x ctx) = 32"
  shows "run_stores (wide_stores bh ctx fs) w = wide_summary bh ctx fs"
proof -
  have regs: "map ((!) (rv_x ctx)) [0..<32] = rv_x ctx" using assms(2) by (simp add: map_nth flip: assms(2))
  define w0 where "w0 = \<lparr>wc_magic = 0, wc_version = LS_WIDE_CONTEXT_SNAPSHOT_VERSION,
               wc_architecture = LS_ARCH_RISCV64, wc_fault = LS_FAULT_TRAP, wc_build_hash = bh,
               wc_fault_sequence = fs, wc_context = ctx, wc_crc = wc_crc w\<rparr>"
  have "run_stores (wide_stores bh ctx fs) w =
      w0\<lparr>wc_crc := wide_snapshot_fault_crc w0 312, wc_magic := LS_WIDE_CONTEXT_MAGIC\<rparr>"
    unfolding wide_stores_def run_stores_append w0_def
    using assms regs by (cases w) (simp add: run_wide_registers riscv64_context_eta del: upt_rec_numeral)
  also have "wide_snapshot_fault_crc w0 312 = ls_crc32 (bslice 0 312 (wide_bytes (w0\<lparr>wc_magic := LS_WIDE_CONTEXT_MAGIC\<rparr>)))"
    by (rule wide_crc_eq [symmetric])
  also have "\<dots> = ls_crc32 (bslice 0 312 (wide_bytes (w0\<lparr>wc_magic := LS_WIDE_CONTEXT_MAGIC, wc_crc := 0\<rparr>)))"
    using assms(2) wide_crc_frame [of "w0\<lparr>wc_magic := LS_WIDE_CONTEXT_MAGIC\<rparr>" 0] by (simp add: w0_def)
  finally show ?thesis by (simp add: wide_summary_def w0_def Let_def)
qed

lemma wide_summary_read:
  assumes "length (rv_x ctx) = 32" and "wide_context_snapshot mem = wide_summary bh ctx fs"
  shows "ls_wide_context_snapshot_read True mem = Some (wide_summary bh ctx fs)"
proof -
  define w0 where "w0 = \<lparr>wc_magic = LS_WIDE_CONTEXT_MAGIC, wc_version = LS_WIDE_CONTEXT_SNAPSHOT_VERSION,
      wc_architecture = LS_ARCH_RISCV64, wc_fault = LS_FAULT_TRAP, wc_build_hash = bh, wc_fault_sequence = fs,
      wc_context = ctx, wc_crc = 0\<rparr>"
  have w: "wide_summary bh ctx fs = w0\<lparr>wc_crc := ls_crc32 (bslice 0 312 (wide_bytes w0))\<rparr>"
    unfolding wide_summary_def w0_def Let_def by (rule refl)
  have "bslice 0 312 (wide_bytes (wide_summary bh ctx fs)) = bslice 0 312 (wide_bytes w0)"
    unfolding w using assms(1) by (intro wide_crc_frame) (simp add: w0_def)
  moreover have "wc_crc (wide_summary bh ctx fs) = ls_crc32 (bslice 0 312 (wide_bytes w0))"
    unfolding w by simp
  moreover have "wc_magic (wide_summary bh ctx fs) = LS_WIDE_CONTEXT_MAGIC"
    "wc_version (wide_summary bh ctx fs) = LS_WIDE_CONTEXT_SNAPSHOT_VERSION"
    "wc_architecture (wide_summary bh ctx fs) = LS_ARCH_RISCV64" "wc_fault (wide_summary bh ctx fs) = LS_FAULT_TRAP"
    unfolding w w0_def by simp_all
  ultimately show ?thesis
    unfolding ls_wide_context_snapshot_read_def assms(2) Let_def by simp
qed

lemma summary_fields [simp]:
  "ms_pc (riscv64_summary bh ctx fl fs) = ucast (rv_mepc ctx)"
  "ms_lr (riscv64_summary bh ctx fl fs) = ucast (rv_x ctx ! 1)"
  "ms_msp (riscv64_summary bh ctx fl fs) = ucast (rv_x ctx ! 2)"
  "ms_fault (riscv64_summary bh ctx fl fs) = LS_FAULT_TRAP" "ms_flags (riscv64_summary bh ctx fl fs) = fl"
  "ms_build_hash (riscv64_summary bh ctx fl fs) = bh" "ms_fault_sequence (riscv64_summary bh ctx fl fs) = fs"
  "ms_architecture (riscv64_summary bh ctx fl fs) = LS_ARCH_RISCV64"
  "ms_excvaddr (riscv64_summary bh ctx fl fs) = ucast (rv_mtval ctx)"
  "wc_architecture (wide_summary bh ctx fs) = LS_ARCH_RISCV64" "wc_fault (wide_summary bh ctx fs) = LS_FAULT_TRAP"
  "wc_build_hash (wide_summary bh ctx fs) = bh" "wc_fault_sequence (wide_summary bh ctx fs) = fs"
  "wc_context (wide_summary bh ctx fs) = ctx"
  by (simp_all add: riscv64_summary_def wide_summary_def Let_def)

section \<open>The trap handler\<close>

text \<open>All stores of the RV64 handler to retained memory, the sidecar first.\<close>

definition riscv64_fault_stores :: "u32 \<Rightarrow> ls_riscv64_context \<Rightarrow> u32 \<Rightarrow> (fault_memory \<Rightarrow> fault_memory) list" where
  "riscv64_fault_stores build_hash ctx fault_sequence =
     map wide_context_snapshot_update (wide_stores build_hash ctx fault_sequence) @
     map minimal_snapshot_update
       (riscv64_stores build_hash ctx LS_MINIMAL_SNAPSHOT_WIDE_CONTEXT_VALID fault_sequence)"

lemma run_wide_updates: "run_stores (map wide_context_snapshot_update fs) mem =
    mem\<lparr>wide_context_snapshot := run_stores fs (wide_context_snapshot mem)\<rparr>"
  by (induction fs arbitrary: mem) simp_all

lemma run_minimal_updates: "run_stores (map minimal_snapshot_update fs) mem =
    mem\<lparr>minimal_snapshot := run_stores fs (minimal_snapshot mem)\<rparr>"
  by (induction fs arbitrary: mem) simp_all

lemma riscv64_fault_is_stores:
  "ls_capture_minimal_riscv64_fault True ctx mem =
     (case riscv64_fault_sequence_next mem of
        (fault_sequence, mem) \<Rightarrow> run_stores (riscv64_fault_stores (minimal_build_hash mem) ctx fault_sequence) mem)"
  by (simp add: ls_capture_minimal_riscv64_fault_def wide_snapshot_store_def riscv64_fault_stores_def
      run_stores_append run_wide_updates run_minimal_updates split: prod.split)

text \<open>What recovery finds in retained memory: the summary, and the full state that goes with it.\<close>

definition recovered :: "bool \<Rightarrow> fault_memory \<Rightarrow> (ls_minimal_snapshot \<times> ls_riscv64_context option) option" where
  "recovered wide mem = map_option (\<lambda>m. (m, recovered_riscv64 wide mem m)) (ls_minimal_snapshot_read mem)"

lemma validate_sequence: "ls_minimal_snapshot_validate m = Some m' \<Longrightarrow>
    ms_fault_sequence m' \<in> {0, ms_fault_sequence m}"
  by (auto simp: ls_minimal_snapshot_validate_def clear_extension_def clear_context_def Let_def split: if_splits)

lemma summary_pairs:
  assumes "length (rv_x ctx) = 32" and "minimal_snapshot mem = sealed_minimal
      (riscv64_summary bh ctx LS_MINIMAL_SNAPSHOT_WIDE_CONTEXT_VALID fs)"
    and "wide_context_snapshot mem = wide_summary bh ctx fs"
  shows "recovered True mem = Some (minimal_snapshot mem, Some ctx)"
  using wide_summary_read [OF assms(1,3)] assms(2)
  by (simp add: recovered_def ls_minimal_snapshot_read_def summary_valid recovered_riscv64_def
      wide_snapshot_matches_minimal_def
      LS_MINIMAL_SNAPSHOT_WIDE_CONTEXT_VALID_def)


definition example_trap :: ls_riscv64_context where
  "example_trap = \<lparr>rv_x = map word_of_nat [100..<132], rv_mstatus = 1, rv_mcause = 2, rv_mtval = 0x100000003, rv_mepc = 4\<rparr>"

definition blank_fault_memory :: fault_memory where
  "blank_fault_memory =
     \<lparr>minimal_snapshot = riscv64_summary 0 example_trap 0 0,
      wide_context_snapshot = \<lparr>wc_magic = 0, wc_version = 0, wc_architecture = 0, wc_fault = 0, wc_build_hash = 0,
        wc_fault_sequence = 0, wc_context = example_trap, wc_crc = 0\<rparr>,
      minimal_build_hash = 5, riscv64_fault_capture_sequence = 0\<rparr>"


text \<open>The writer of the other architectures, wherever it stops.\<close>

lemma minimal_record_never_torn:
  assumes "length (ms_registers m) = 16"
  shows "ls_minimal_snapshot_validate
      (run_stores (take k (minimal_stores bh pc lr msp psp cfsr hfsr fault er xp fp fl es fs ctx)) m) =
    (if k = 0 then ls_minimal_snapshot_validate m
     else if k < 44 then None
     else Some (sealed_minimal (fault_summary bh pc lr msp psp cfsr hfsr fault er xp fp fl es fs ctx)))"
proof -
  consider "k = 0" | "0 < k" "k < 44" | "44 \<le> k" by linarith
  then show ?thesis
  proof cases
    case 2
    then show ?thesis
      using minimal_stores_torn [OF 2] by (simp add: ls_minimal_snapshot_validate_def LS_MINIMAL_MAGIC_def)
  next
    case 3
    then show ?thesis using assms by (simp add: minimal_stores_run summary_valid)
  qed simp
qed

end
