(* ===== verification/LS_Powerfail.thy ===== *)
theory LS_Powerfail
  imports LS_Snapshot
begin

text \<open>
  The power-fail seal of \<^verbatim>\<open>src/core/powerfail.c\<close>: the record that an NMI writes while the supply
  collapses, its mirror in a backup window, reading it back and clearing it. Retained memory is a byte
  list, since the handler copies bytes and may stop after any of them; the word store of the magic is
  one step. The promotion of a seal into the spool is in \<open>LS_Capture\<close>.
\<close>

section \<open>State\<close>

record ls_powerfail_sealed =
  ps_magic :: u32
  ps_version :: u32
  ps_reason :: u32
  ps_vcap_mv :: u32
  ps_tier :: u32
  ps_boot_id :: u32
  ps_fault :: u32
  ps_pc :: u32
  ps_lr :: u32
  ps_msp :: u32
  ps_psp :: u32
  ps_cfsr :: u32
  ps_hfsr :: u32
  ps_sequence :: u32
  ps_crc :: u32

record ls_powerfail_seal_info =
  si_reason :: u32
  si_tier :: u32
  si_vcap_mv :: u16
  si_boot_id :: u32
  si_fault :: u32
  si_sealed_ok :: bool

text \<open>The retained record, the content of the installed window and the sequence counter.\<close>

record powerfail_memory =
  sealed_retained :: bytes
  backup_window :: "bytes option"
  seal_sequence :: u32

definition LS_POWERFAIL_MAGIC :: u32 where "LS_POWERFAIL_MAGIC = 0x46575250"
definition LS_POWERFAIL_VERSION :: u32 where "LS_POWERFAIL_VERSION = 1"
definition LS_POWERFAIL_BACKUP_MAGIC :: u32 where "LS_POWERFAIL_BACKUP_MAGIC = 0x42575250"
definition LS_POWERFAIL_NONE :: u32 where "LS_POWERFAIL_NONE = 0"
definition LS_POWERFAIL_PVD :: u32 where "LS_POWERFAIL_PVD = 3"
definition LS_POWERFAIL_TIER_RAM :: u32 where "LS_POWERFAIL_TIER_RAM = 0"
definition LS_POWERFAIL_TIER_BACKUP_RAM :: u32 where "LS_POWERFAIL_TIER_BACKUP_RAM = 1"
definition SEALED_SIZE :: nat where "SEALED_SIZE = 60"

text \<open>The structure as it lies in memory.\<close>

definition sealed_words :: "ls_powerfail_sealed \<Rightarrow> u32 list" where
  "sealed_words p =
     [ps_magic p, ps_version p, ps_reason p, ps_vcap_mv p, ps_tier p, ps_boot_id p, ps_fault p, ps_pc p, ps_lr p,
      ps_msp p, ps_psp p, ps_cfsr p, ps_hfsr p, ps_sequence p, ps_crc p]"

definition sealed_bytes :: "ls_powerfail_sealed \<Rightarrow> bytes" where
  "sealed_bytes p = concat (map le32 (sealed_words p))"

definition sealed_parse :: "bytes \<Rightarrow> ls_powerfail_sealed" where
  "sealed_parse d =
     \<lparr>ps_magic = read_u32 d 0, ps_version = read_u32 d 4, ps_reason = read_u32 d 8, ps_vcap_mv = read_u32 d 12,
      ps_tier = read_u32 d 16, ps_boot_id = read_u32 d 20, ps_fault = read_u32 d 24, ps_pc = read_u32 d 28,
      ps_lr = read_u32 d 32, ps_msp = read_u32 d 36, ps_psp = read_u32 d 40, ps_cfsr = read_u32 d 44,
      ps_hfsr = read_u32 d 48, ps_sequence = read_u32 d 52, ps_crc = read_u32 d 56\<rparr>"

section \<open>Sealing\<close>

definition seal_crc_update :: "u32 \<Rightarrow> bytes \<Rightarrow> u32" where
  "seal_crc_update crc data = foldl (\<lambda>crc b. (crc_bit ^^ 8) (crc XOR ucast b)) crc data"

definition window_usable :: "powerfail_memory \<Rightarrow> bool" where
  "window_usable pm = (case backup_window pm of None \<Rightarrow> False | Some w \<Rightarrow> length w \<ge> SEALED_SIZE)"

definition seal_snapshot ::
    "u32 \<Rightarrow> ls_minimal_snapshot option \<Rightarrow> u32 \<Rightarrow> u16 \<Rightarrow> u32 \<Rightarrow> bool \<Rightarrow> ls_powerfail_sealed" where
  "seal_snapshot boot_count minimal reason vcap_mv sequence window =
     (let field = (\<lambda>f. case minimal of None \<Rightarrow> 0 | Some m \<Rightarrow> f m);
          p = \<lparr>ps_magic = 0, ps_version = LS_POWERFAIL_VERSION, ps_reason = reason, ps_vcap_mv = ucast vcap_mv,
               ps_tier = (if window then LS_POWERFAIL_TIER_BACKUP_RAM else LS_POWERFAIL_TIER_RAM),
               ps_boot_id = boot_count,
               ps_fault = (case minimal of None \<Rightarrow> LS_FAULT_UNKNOWN | Some m \<Rightarrow> ms_fault m),
               ps_pc = field ms_pc, ps_lr = field ms_lr, ps_msp = field ms_msp, ps_psp = field ms_psp,
               ps_cfsr = field ms_cfsr, ps_hfsr = field ms_hfsr, ps_sequence = sequence, ps_crc = 0\<rparr>;
          crc = seal_crc_update (seal_crc_update 0xffffffff (le32 LS_POWERFAIL_MAGIC)) (bslice 4 52 (sealed_bytes p))
      in p\<lparr>ps_crc := NOT crc\<rparr>)"

text \<open>The stores, in program order: the tail of the record, the mirror, the magic of the record, and the
  magic of the mirror byte by byte.\<close>

definition store_retained :: "nat \<Rightarrow> u8 \<Rightarrow> powerfail_memory \<Rightarrow> powerfail_memory" where
  "store_retained i b = sealed_retained_update (\<lambda>xs. xs[i := b])"

definition store_backup :: "nat \<Rightarrow> u8 \<Rightarrow> powerfail_memory \<Rightarrow> powerfail_memory" where
  "store_backup i b = backup_window_update (map_option (\<lambda>xs. xs[i := b]))"

definition seal_copy_to_backup :: "bool \<Rightarrow> bytes \<Rightarrow> (powerfail_memory \<Rightarrow> powerfail_memory) list" where
  "seal_copy_to_backup window src = (if window then map (\<lambda>i. store_backup i (src ! i)) [0..<SEALED_SIZE] else [])"

definition seal_stores :: "bool \<Rightarrow> ls_powerfail_sealed \<Rightarrow> (powerfail_memory \<Rightarrow> powerfail_memory) list" where
  "seal_stores window p =
     map (\<lambda>i. store_retained i (sealed_bytes p ! i)) [4..<SEALED_SIZE] @
     seal_copy_to_backup window (sealed_bytes p) @
     [sealed_retained_update (overwrite 0 (le32 LS_POWERFAIL_MAGIC))] @
     (if window then map (\<lambda>i. store_backup i (le32 LS_POWERFAIL_MAGIC ! i)) [0..<4] else [])"

text \<open>What a call does before its first store to retained memory: nothing for an existing seal or without
  a reason, else it takes a sequence number. \<open>boot_count\<close> is the runtime's, \<open>minimal\<close> what
  \<^verbatim>\<open>ls_minimal_snapshot_read\<close> returns.\<close>

definition next_seal :: "u32 \<Rightarrow> ls_minimal_snapshot option \<Rightarrow> u32 \<Rightarrow> u16 \<Rightarrow> powerfail_memory \<Rightarrow> ls_powerfail_sealed" where
  "next_seal boot_count minimal reason vcap_mv pm =
     (let sequence = seal_sequence pm + 1
      in seal_snapshot boot_count minimal reason vcap_mv (if sequence = 0 then 1 else sequence) (window_usable pm))"

definition ls_powerfail_seal ::
    "u32 \<Rightarrow> ls_minimal_snapshot option \<Rightarrow> u32 \<Rightarrow> u16 \<Rightarrow> powerfail_memory \<Rightarrow> powerfail_memory" where
  "ls_powerfail_seal boot_count minimal reason vcap_mv pm =
     (if reason = LS_POWERFAIL_NONE then pm
      else if read_u32 (sealed_retained pm) 0 = LS_POWERFAIL_MAGIC then pm
      else
        let p = next_seal boot_count minimal reason vcap_mv pm
        in run_stores (seal_stores (window_usable pm) p) (pm\<lparr>seal_sequence := ps_sequence p\<rparr>))"

section \<open>Reading and clearing\<close>

definition sealed_validate_copy :: "ls_powerfail_sealed \<Rightarrow> bool" where
  "sealed_validate_copy p \<longleftrightarrow>
     \<not> (ps_magic p \<noteq> LS_POWERFAIL_MAGIC \<or> ps_version p \<noteq> LS_POWERFAIL_VERSION) \<and>
     \<not> (ps_reason p > LS_POWERFAIL_PVD \<or> ps_tier p > LS_POWERFAIL_TIER_BACKUP_RAM) \<and>
     (let computed = seal_crc_update (seal_crc_update 0xffffffff (le32 LS_POWERFAIL_MAGIC)) (bslice 4 52 (sealed_bytes p))
      in NOT computed = ps_crc p)"

definition sealed_read_retained :: "powerfail_memory \<Rightarrow> ls_powerfail_sealed option" where
  "sealed_read_retained pm =
     (let copy = sealed_parse (sealed_retained pm)
      in if sealed_validate_copy copy then Some copy
         else case backup_window pm of
           None \<Rightarrow> None
         | Some w \<Rightarrow>
             if length w < SEALED_SIZE then None
             else
               let backup_copy = sealed_parse (take SEALED_SIZE w)
               in if (ps_magic backup_copy = LS_POWERFAIL_MAGIC \<or> ps_magic backup_copy = LS_POWERFAIL_BACKUP_MAGIC) \<and>
                     sealed_validate_copy (backup_copy\<lparr>ps_magic := LS_POWERFAIL_MAGIC\<rparr>)
                  then Some (backup_copy\<lparr>ps_magic := LS_POWERFAIL_MAGIC\<rparr>) else None)"

definition ls_powerfail_install_backup :: "bytes option \<Rightarrow> powerfail_memory \<Rightarrow> powerfail_memory" where
  "ls_powerfail_install_backup ram pm =
     pm\<lparr>backup_window := (case ram of None \<Rightarrow> None | Some w \<Rightarrow> if length w \<ge> SEALED_SIZE then Some w else None)\<rparr>"

definition seal_info :: "ls_powerfail_sealed \<Rightarrow> ls_powerfail_seal_info" where
  "seal_info p =
     \<lparr>si_reason = ps_reason p, si_tier = ps_tier p, si_vcap_mv = ucast (ps_vcap_mv p), si_boot_id = ps_boot_id p,
      si_fault = ps_fault p, si_sealed_ok = True\<rparr>"

definition ls_powerfail_sealed_read :: "powerfail_memory \<Rightarrow> ls_powerfail_seal_info option" where
  "ls_powerfail_sealed_read pm = map_option seal_info (sealed_read_retained pm)"

definition ls_powerfail_sealed_clear :: "powerfail_memory \<Rightarrow> powerfail_memory" where
  "ls_powerfail_sealed_clear pm =
     (let pm = pm\<lparr>sealed_retained := overwrite 0 (le32 0) (sealed_retained pm)\<rparr>
      in if window_usable pm then store_backup 0 0 pm else pm)"

section \<open>The record in memory\<close>

lemma read_word: "i < length ws \<Longrightarrow> read_u32 (concat (map le32 ws)) (4 * i) = ws ! i"
proof (induction ws arbitrary: i)
  case (Cons w ws)
  show ?case
  proof (cases i)
    case (Suc j)
    have "read_u32 (le32 w @ concat (map le32 ws)) (4 + 4 * j) = read_u32 (concat (map le32 ws)) (4 * j)"
      using read_u32_shift [of "le32 w" "concat (map le32 ws)" "4 * j"] by simp
    then show ?thesis using Cons Suc by simp
  qed simp
qed simp

lemma sealed_parse_bytes [simp]: "sealed_parse (sealed_bytes p) = p"
proof -
  have r: "read_u32 (sealed_bytes p) (4 * i) = sealed_words p ! i" if "i < 15" for i
    unfolding sealed_bytes_def using that by (intro read_word) (simp add: sealed_words_def)
  note w = r [of 0] r [of 1] r [of 2] r [of 3] r [of 4] r [of 5] r [of 6] r [of 7] r [of 8] r [of 9] r [of 10]
    r [of 11] r [of 12] r [of 13] r [of 14]
  show ?thesis using w by (simp add: sealed_parse_def sealed_words_def)
qed

lemma length_sealed_bytes [simp]: "length (sealed_bytes p) = 60"
  by (simp add: sealed_bytes_def sealed_words_def)

lemma sealed_bytes_magic:
  "le32 m @ drop 4 (sealed_bytes p) = sealed_bytes (p\<lparr>ps_magic := m\<rparr>)"
  "bslice 4 52 (sealed_bytes (p\<lparr>ps_magic := m\<rparr>)) = bslice 4 52 (sealed_bytes p)"
  "bslice 4 52 (sealed_bytes (p\<lparr>ps_crc := c\<rparr>)) = bslice 4 52 (sealed_bytes p)"
  by (simp_all add: sealed_bytes_def sealed_words_def bslice_def)

lemma sealed_snapshot_valid:
  assumes "reason \<le> LS_POWERFAIL_PVD"
  shows "sealed_validate_copy ((seal_snapshot b minimal reason v q window)\<lparr>ps_magic := LS_POWERFAIL_MAGIC\<rparr>)"
proof -
  let ?crc = "\<lambda>p. NOT (seal_crc_update (seal_crc_update 0xffffffff (le32 LS_POWERFAIL_MAGIC)) (bslice 4 52 (sealed_bytes p)))"
  define p0 where "p0 = (let field = (\<lambda>f. case minimal of None \<Rightarrow> 0 | Some m \<Rightarrow> f m)
      in \<lparr>ps_magic = 0, ps_version = LS_POWERFAIL_VERSION, ps_reason = reason, ps_vcap_mv = ucast v,
               ps_tier = (if window then LS_POWERFAIL_TIER_BACKUP_RAM else LS_POWERFAIL_TIER_RAM),
               ps_boot_id = b,
               ps_fault = (case minimal of None \<Rightarrow> LS_FAULT_UNKNOWN | Some m \<Rightarrow> ms_fault m),
               ps_pc = field ms_pc, ps_lr = field ms_lr, ps_msp = field ms_msp, ps_psp = field ms_psp,
               ps_cfsr = field ms_cfsr, ps_hfsr = field ms_hfsr, ps_sequence = q, ps_crc = 0\<rparr>)"
  have snap: "seal_snapshot b minimal reason v q window = p0\<lparr>ps_crc := ?crc p0\<rparr>"
    unfolding seal_snapshot_def p0_def Let_def by (rule refl)
  have "ps_version p0 = LS_POWERFAIL_VERSION" "ps_reason p0 = reason" "ps_tier p0 \<le> LS_POWERFAIL_TIER_BACKUP_RAM"
    by (simp_all add: p0_def LS_POWERFAIL_TIER_RAM_def LS_POWERFAIL_TIER_BACKUP_RAM_def)
  then show ?thesis
    using assms unfolding snap sealed_validate_copy_def sealed_bytes_magic Let_def by (simp add: not_less)
qed

lemma read_u32_first_byte:
  assumes "read_u32 xs 0 = m" and "4 \<le> length xs"
  shows "xs ! 0 = le32 m ! 0"
proof -
  have "le32 m = take 4 xs" using le32_read_u32 [of 0 xs] assms by (simp add: bslice_def)
  then show ?thesis by simp
qed

lemma read_u32_take4: "read_u32 (take 4 xs) 0 = read_u32 xs 0"
  by (simp add: read_u32_def)

section \<open>Byte stores\<close>

definition put_bytes :: "nat list \<Rightarrow> bytes \<Rightarrow> bytes \<Rightarrow> bytes" where
  "put_bytes is src dst = foldl (\<lambda>xs i. xs[i := src ! i]) dst is"

lemma put_bytes_length [simp]: "length (put_bytes is src dst) = length dst"
  unfolding put_bytes_def by (induction "is" arbitrary: dst) simp_all

lemma put_bytes_Nil [simp]: "put_bytes [] src dst = dst"
  by (simp add: put_bytes_def)

lemma put_bytes_append: "put_bytes (is @ js) src dst = put_bytes js src (put_bytes is src dst)"
  by (simp add: put_bytes_def)

lemma put_bytes_upto:
  assumes "a \<le> b" and "b \<le> length dst"
  shows "put_bytes [a..<b] src dst = take a dst @ map ((!) src) [a..<b] @ drop b dst"
  using assms
proof (induction b)
  case (Suc b)
  show ?case
  proof (cases "a \<le> b")
    case True
    have "(take a dst @ map ((!) src) [a..<b] @ drop b dst)[b := src ! b] =
        take a dst @ map ((!) src) [a..<b] @ (drop b dst)[0 := src ! b]"
      using True Suc.prems by (simp add: list_update_append)
    also have "(drop b dst)[0 := src ! b] = src ! b # drop (Suc b) dst"
      using Suc.prems by (simp add: Cons_nth_drop_Suc [symmetric])
    finally show ?thesis
      using True Suc by (simp add: put_bytes_append) (simp add: put_bytes_def)
  next
    case False
    then have "a = Suc b" using Suc.prems by simp
    then show ?thesis by (simp add: put_bytes_def)
  qed
qed (simp add: put_bytes_def)

lemma put_bytes_slice:
  "a \<le> b \<Longrightarrow> b \<le> length dst \<Longrightarrow> b \<le> length src \<Longrightarrow>
    put_bytes [a..<b] src dst = take a dst @ bslice a (b - a) src @ drop b dst"
  by (simp add: put_bytes_upto bslice_def) (rule nth_equalityI; simp)

lemma run_store_retained:
  "run_stores (map (\<lambda>i. store_retained i (src ! i)) is) pm = pm\<lparr>sealed_retained := put_bytes is src (sealed_retained pm)\<rparr>"
  by (induction "is" arbitrary: pm) (simp_all add: store_retained_def put_bytes_def)

lemma run_store_backup:
  "run_stores (map (\<lambda>i. store_backup i (src ! i)) is) pm =
    pm\<lparr>backup_window := map_option (put_bytes is src) (backup_window pm)\<rparr>"
proof (induction "is" arbitrary: pm)
  case Nil
  have "put_bytes [] src = (\<lambda>x. x)" by (simp add: fun_eq_iff put_bytes_def)
  then show ?case by (simp add: option.map_ident)
next
  case (Cons i "is")
  then show ?case by (cases "backup_window pm") (simp_all add: store_backup_def put_bytes_def)
qed

lemma put_bytes_keeps: "j \<notin> set is \<Longrightarrow> put_bytes is src dst ! j = dst ! j"
  unfolding put_bytes_def by (induction "is" arbitrary: dst) (simp_all add: nth_list_update)

section \<open>A seal that is cut short\<close>

lemma not_sealed_magic: "read_u32 xs 0 \<noteq> LS_POWERFAIL_MAGIC \<Longrightarrow> \<not> sealed_validate_copy (sealed_parse xs)"
  by (simp add: sealed_validate_copy_def sealed_parse_def)

text \<open>What a read takes from a window.\<close>

definition backup_sealed :: "bytes \<Rightarrow> ls_powerfail_sealed option" where
  "backup_sealed w =
     (let backup_copy = sealed_parse (take SEALED_SIZE w)
      in if (ps_magic backup_copy = LS_POWERFAIL_MAGIC \<or> ps_magic backup_copy = LS_POWERFAIL_BACKUP_MAGIC) \<and>
            sealed_validate_copy (backup_copy\<lparr>ps_magic := LS_POWERFAIL_MAGIC\<rparr>)
         then Some (backup_copy\<lparr>ps_magic := LS_POWERFAIL_MAGIC\<rparr>) else None)"

lemma read_retained_cases:
  "sealed_validate_copy (sealed_parse (sealed_retained pm)) \<Longrightarrow>
     sealed_read_retained pm = Some (sealed_parse (sealed_retained pm))"
  "\<not> sealed_validate_copy (sealed_parse (sealed_retained pm)) \<Longrightarrow>
     sealed_read_retained pm = (case backup_window pm of None \<Rightarrow> None
       | Some w \<Rightarrow> if length w < SEALED_SIZE then None else backup_sealed w)"
  unfolding sealed_read_retained_def backup_sealed_def Let_def by (simp_all cong: option.case_cong)

lemma backup_cleared:
  assumes "w ! 0 = 0" and "SEALED_SIZE \<le> length w"
  shows "backup_sealed w = None"
proof -
  have "ps_magic (sealed_parse (take SEALED_SIZE w)) = read_u32 w 0"
    by (simp add: sealed_parse_def SEALED_SIZE_def read_u32_def)
  moreover have "read_u32 w 0 \<noteq> LS_POWERFAIL_MAGIC" "read_u32 w 0 \<noteq> LS_POWERFAIL_BACKUP_MAGIC"
    using read_u32_first_byte [of w] assms
    by (auto simp: SEALED_SIZE_def LS_POWERFAIL_MAGIC_def LS_POWERFAIL_BACKUP_MAGIC_def le32_def)
  ultimately show ?thesis by (simp add: backup_sealed_def Let_def)
qed

text \<open>The memory after the first \<open>k\<close> stores.\<close>

lemma seal_stores_prefix:
  "run_stores (take k (seal_stores window p)) pm =
     (let n = (if window then 116 else 56)
      in pm\<lparr>sealed_retained :=
              (if n < k then overwrite 0 (le32 LS_POWERFAIL_MAGIC) else (\<lambda>x. x))
                (put_bytes (take k [4..<60]) (sealed_bytes p) (sealed_retained pm)),
            backup_window := (if window then map_option (\<lambda>w. put_bytes (take (k - 117) [0..<4]) (le32 LS_POWERFAIL_MAGIC)
                (put_bytes (take (k - 56) [0..<60]) (sealed_bytes p) w)) (backup_window pm) else backup_window pm)\<rparr>)"
proof -
  have one: "run_stores (take j [f]) m = (if 0 < j then f else (\<lambda>x. x)) m" for j and f :: "powerfail_memory \<Rightarrow> powerfail_memory" and m
    by (cases j) simp_all
  show ?thesis
    by (cases window) (simp_all add: seal_stores_def seal_copy_to_backup_def SEALED_SIZE_def run_stores_append take_map
        run_store_retained run_store_backup one Let_def option.map_comp comp_def take_Cons' del: upt_rec_numeral)
qed

lemma retained_complete:
  assumes "length xs = 60"
  shows "overwrite 0 (le32 m) (put_bytes [4..<60] (sealed_bytes p) xs) = sealed_bytes (p\<lparr>ps_magic := m\<rparr>)"
proof -
  have "put_bytes [4..<60] (sealed_bytes p) xs = take 4 xs @ drop 4 (sealed_bytes p)"
    using assms by (simp add: put_bytes_slice bslice_def del: upt_rec_numeral)
  then show ?thesis using assms by (simp add: overwrite_def sealed_bytes_magic del: upt_rec_numeral)
qed

lemma backup_complete:
  assumes "60 \<le> length w"
  shows "take 60 (put_bytes [0..<4] (le32 m) (put_bytes [0..<60] (sealed_bytes p) w)) = sealed_bytes (p\<lparr>ps_magic := m\<rparr>)"
proof -
  have "put_bytes [0..<60] (sealed_bytes p) w = sealed_bytes p @ drop 60 w"
    using assms by (simp add: put_bytes_slice bslice_def del: upt_rec_numeral)
  moreover have "put_bytes [0..<4] (le32 m) (sealed_bytes p @ drop 60 w) = le32 m @ drop 4 (sealed_bytes p) @ drop 60 w"
    by (simp add: put_bytes_slice bslice_def del: upt_rec_numeral)
  ultimately show ?thesis by (simp add: sealed_bytes_magic del: upt_rec_numeral)
qed

lemma retained_before_magic:
  assumes "read_u32 xs 0 \<noteq> LS_POWERFAIL_MAGIC"
  shows "\<not> sealed_validate_copy (sealed_parse (put_bytes (take k [4..<60]) src xs))"
proof -
  have "j \<notin> set (take k [4..<60])" if "j < 4" for j :: nat
  proof
    assume "j \<in> set (take k [4..<60])"
    then have "j \<in> set [4..<60]" by (rule in_set_takeD)
    then show False using that by (simp only: set_upt) simp
  qed
  then have "read_u32 (put_bytes (take k [4..<60]) src xs) 0 = read_u32 xs 0"
    by (simp add: read_u32_def put_bytes_keeps)
  then show ?thesis using assms by (intro not_sealed_magic) simp
qed

lemma backup_mirror:
  assumes "reason \<le> LS_POWERFAIL_PVD" and "60 \<le> length w" and p: "p = seal_snapshot b minimal reason v q window"
  shows "backup_sealed (put_bytes [0..<4] (le32 LS_POWERFAIL_MAGIC) (put_bytes [0..<60] (sealed_bytes p) w)) =
    Some (p\<lparr>ps_magic := LS_POWERFAIL_MAGIC\<rparr>)"
  using sealed_snapshot_valid [OF assms(1), of b minimal v q window] assms(2)
  by (simp add: backup_sealed_def SEALED_SIZE_def backup_complete p del: upt_rec_numeral)

text \<open>The magic of the record is the store number \<open>magic_store\<close>: up to it a read finds nothing, from it on
  the sealed record.\<close>

definition magic_store :: "powerfail_memory \<Rightarrow> nat" where
  "magic_store pm = (if window_usable pm then 116 else 56)"

lemma seal_prefix_late:
  assumes "length (sealed_retained pm) = SEALED_SIZE" and "reason \<le> LS_POWERFAIL_PVD" and "magic_store pm < k"
    and p: "p = seal_snapshot boot_count minimal reason vcap_mv q (window_usable pm)"
  shows "sealed_read_retained (run_stores (take k (seal_stores (window_usable pm) p)) (pm\<lparr>seal_sequence := n\<rparr>)) =
    Some (p\<lparr>ps_magic := LS_POWERFAIL_MAGIC\<rparr>)" (is "sealed_read_retained ?after = _")
proof -
  have "sealed_retained ?after = sealed_bytes (p\<lparr>ps_magic := LS_POWERFAIL_MAGIC\<rparr>)"
    using assms(1,3) retained_complete [of "sealed_retained pm" LS_POWERFAIL_MAGIC p]
    by (auto simp: seal_stores_prefix Let_def SEALED_SIZE_def magic_store_def split: if_splits simp del: upt_rec_numeral)
  then show ?thesis
    using read_retained_cases(1) [of ?after] sealed_snapshot_valid [OF assms(2)] by (simp add: p)
qed

lemma seal_prefix_early:
  assumes idle: "read_u32 (sealed_retained pm) 0 \<noteq> LS_POWERFAIL_MAGIC" and none: "sealed_read_retained pm = None"
    and k: "k \<le> magic_store pm" and p: "ps_magic p = 0"
  shows "sealed_read_retained (run_stores (take k (seal_stores (window_usable pm) p)) (pm\<lparr>seal_sequence := n\<rparr>)) = None"
    (is "sealed_read_retained ?after = _")
proof -
  have old: "\<not> sealed_validate_copy (sealed_parse (sealed_retained pm))" using idle by (rule not_sealed_magic)
  have early: "\<not> sealed_validate_copy (sealed_parse (sealed_retained ?after))"
    using k retained_before_magic [OF idle]
    by (auto simp: seal_stores_prefix Let_def magic_store_def simp del: upt_rec_numeral)
  show ?thesis
  proof (cases "window_usable pm")
    case False
    then show ?thesis
      using read_retained_cases(2) [OF early] read_retained_cases(2) [OF old] none
      by (simp add: seal_stores_prefix Let_def)
  next
    case True
    then obtain w where w: "backup_window pm = Some w" "60 \<le> length w"
      by (auto simp: window_usable_def SEALED_SIZE_def split: option.splits)
    let ?mirror = "put_bytes (take (k - 56) [0..<60]) (sealed_bytes p) w"
    have "backup_window ?after = Some ?mirror"
      using True w k by (simp add: seal_stores_prefix Let_def magic_store_def del: upt_rec_numeral)
    moreover have "backup_sealed ?mirror = None"
    proof (cases "k \<le> 56")
      case True
      then show ?thesis using read_retained_cases(2) [OF old] none w by (simp add: SEALED_SIZE_def)
    next
      case False
      have "take (k - 56) [0..<60] = [0..<k - 56]" "k - 56 \<le> 60"
        using k True by (simp_all add: take_upt magic_store_def)
      then have "?mirror ! 0 = sealed_bytes p ! 0"
        using w False by (simp add: put_bytes_slice nth_append bslice_def del: upt_rec_numeral)
      also have "\<dots> = 0" by (simp add: sealed_bytes_def sealed_words_def p le32_def)
      finally show ?thesis using w by (intro backup_cleared) (simp_all add: SEALED_SIZE_def)
    qed
    ultimately show ?thesis using read_retained_cases(2) [OF early] w by (simp add: SEALED_SIZE_def)
  qed
qed

text \<open>C14: a power-fail seal is all or nothing. When no seal is pending and the supply collapses after
  any number \<open>k\<close> of the stores of \<^verbatim>\<open>ls_powerfail_seal\<close>, the next boot reads no seal or exactly the sealed
  record; after the complete call it reads that record, and reads it from the backup window when the main
  record did not survive.\<close>

theorem powerfail_seal_never_torn:
  assumes len: "length (sealed_retained pm) = SEALED_SIZE" and idle: "read_u32 (sealed_retained pm) 0 \<noteq> LS_POWERFAIL_MAGIC"
    and none: "sealed_read_retained pm = None" and reason: "reason \<noteq> LS_POWERFAIL_NONE" "reason \<le> LS_POWERFAIL_PVD"
    and p: "p = next_seal boot_count minimal reason vcap_mv pm" and dead: "\<not> sealed_validate_copy (sealed_parse lost)"
  shows "sealed_read_retained (run_stores (take k (seal_stores (window_usable pm) p)) (pm\<lparr>seal_sequence := ps_sequence p\<rparr>))
      \<in> {None, Some (p\<lparr>ps_magic := LS_POWERFAIL_MAGIC\<rparr>)} \<and>
    sealed_read_retained (ls_powerfail_seal boot_count minimal reason vcap_mv pm) = Some (p\<lparr>ps_magic := LS_POWERFAIL_MAGIC\<rparr>) \<and>
    (window_usable pm \<longrightarrow>
      sealed_read_retained ((ls_powerfail_seal boot_count minimal reason vcap_mv pm)\<lparr>sealed_retained := lost\<rparr>) =
        Some (p\<lparr>ps_magic := LS_POWERFAIL_MAGIC\<rparr>))"
proof -
  let ?w = "window_usable pm" and ?sealed = "p\<lparr>ps_magic := LS_POWERFAIL_MAGIC\<rparr>"
  let ?after = "\<lambda>k. run_stores (take k (seal_stores ?w p)) (pm\<lparr>seal_sequence := ps_sequence p\<rparr>)"
  obtain q where snap: "p = seal_snapshot boot_count minimal reason vcap_mv q ?w"
    using p by (simp add: next_seal_def Let_def)
  then have zero: "ps_magic p = 0" by (simp add: seal_snapshot_def Let_def)
  note late = seal_prefix_late [OF len reason(2) _ snap]
  have prefix: "sealed_read_retained (?after k) \<in> {None, Some ?sealed}"
    using late [of k] seal_prefix_early [OF idle none _ zero, of k] by (cases "k \<le> magic_store pm") simp_all
  have whole: "ls_powerfail_seal boot_count minimal reason vcap_mv pm = ?after 121"
    using reason(1) idle p by (simp add: ls_powerfail_seal_def Let_def seal_stores_def seal_copy_to_backup_def SEALED_SIZE_def)
  have "sealed_read_retained ((?after 121)\<lparr>sealed_retained := lost\<rparr>) = Some ?sealed" if usable: ?w
  proof -
    obtain w where w: "backup_window pm = Some w" "60 \<le> length w"
      using usable by (auto simp: window_usable_def SEALED_SIZE_def split: option.splits)
    have "backup_window (?after 121) = Some (put_bytes [0..<4] (le32 LS_POWERFAIL_MAGIC) (put_bytes [0..<60] (sealed_bytes p) w))"
      using usable w by (simp add: seal_stores_prefix Let_def del: upt_rec_numeral)
    then show ?thesis
      using read_retained_cases(2) [of "(?after 121)\<lparr>sealed_retained := lost\<rparr>"] dead w
        backup_mirror [OF reason(2) w(2) snap] by (simp add: SEALED_SIZE_def del: upt_rec_numeral)
  qed
  then show ?thesis using prefix late [of 121] whole by (auto simp: magic_store_def)
qed

definition dark_memory :: powerfail_memory where
  "dark_memory = \<lparr>sealed_retained = replicate 60 0, backup_window = Some (replicate 64 0), seal_sequence = 0\<rparr>"

theorem powerfail_seal_never_torn_witness:
  "sealed_read_retained (run_stores (take 100 (seal_stores (window_usable dark_memory) (next_seal 7 None 1 2900 dark_memory)))
      (dark_memory\<lparr>seal_sequence := ps_sequence (next_seal 7 None 1 2900 dark_memory)\<rparr>))
      \<in> {None, Some ((next_seal 7 None 1 2900 dark_memory)\<lparr>ps_magic := LS_POWERFAIL_MAGIC\<rparr>)} \<and>
   sealed_read_retained (ls_powerfail_seal 7 None 1 2900 dark_memory) =
     Some ((next_seal 7 None 1 2900 dark_memory)\<lparr>ps_magic := LS_POWERFAIL_MAGIC\<rparr>) \<and>
   sealed_read_retained ((ls_powerfail_seal 7 None 1 2900 dark_memory)\<lparr>sealed_retained := replicate 60 0\<rparr>) =
     Some ((next_seal 7 None 1 2900 dark_memory)\<lparr>ps_magic := LS_POWERFAIL_MAGIC\<rparr>)"
proof -
  have zero: "read_u32 (replicate 60 0) 0 \<noteq> LS_POWERFAIL_MAGIC"
    by (simp add: read_u32_def LS_POWERFAIL_MAGIC_def)
  then have dead: "\<not> sealed_validate_copy (sealed_parse (replicate 60 0))" by (rule not_sealed_magic)
  have "backup_sealed (replicate 64 0) = None" by (rule backup_cleared) (simp_all add: SEALED_SIZE_def)
  then have none: "sealed_read_retained dark_memory = None"
    using dead by (simp add: read_retained_cases(2) dark_memory_def SEALED_SIZE_def)
  have "length (sealed_retained dark_memory) = SEALED_SIZE" "read_u32 (sealed_retained dark_memory) 0 \<noteq> LS_POWERFAIL_MAGIC"
    "window_usable dark_memory"
    using zero by (simp_all add: dark_memory_def SEALED_SIZE_def window_usable_def)
  then show ?thesis
    using powerfail_seal_never_torn [of dark_memory 1 "next_seal 7 None 1 2900 dark_memory" 7 None 2900 "replicate 60 0" 100]
      none dead by (simp add: LS_POWERFAIL_NONE_def LS_POWERFAIL_PVD_def)
qed

end
