(* ===== verification/LS_Telemetry.thy ===== *)
theory LS_Telemetry
  imports LS_Ota LS_Policy LS_Powerfail
begin

text \<open>
  The evidence that the runtime collects between two events: breadcrumbs, metrics, power samples, task
  deadlines, environment, mission, wall-clock time, memory regions and heap statistics
  (\<^verbatim>\<open>src/metrics\<close>, and \<^verbatim>\<open>health.c\<close>, \<^verbatim>\<open>environment.c\<close>, \<^verbatim>\<open>mission.c\<close>,
  \<^verbatim>\<open>time_sync.c\<close>, \<^verbatim>\<open>memory.c\<close> and \<^verbatim>\<open>performance.c\<close> of \<^verbatim>\<open>src/core\<close>). The runtime
  \<open>latch_rt\<close> joins it to the boot record, the policies and the retained memory. Operations that
  capture an event are in \<open>LS_Capture\<close>. Signed fields are words with their comparisons written with
  \<open>sint\<close>; an array with a count that only grows is a list.
\<close>

section \<open>Configuration\<close>

record ls_telemetry_config =
  LS_ENABLE_BREADCRUMBS :: bool
  LS_ENABLE_METRICS :: bool
  LS_ENABLE_POWER_SAMPLES :: bool
  LS_ENABLE_DUMPS :: bool
  LS_ENABLE_STACK_SNAPSHOT :: bool
  LS_ENABLE_WIDE_CONTEXT :: bool
  LS_STORE_STRINGS :: bool
  LS_COMPILED_MIN_LEVEL :: u8
  LS_BREADCRUMB_CAPACITY :: nat
  LS_BREADCRUMB_MESSAGE_MAX :: nat
  LS_BREADCRUMB_CATEGORY_MAX :: nat
  LS_BREADCRUMB_KV_MAX :: nat
  LS_METRIC_CAPACITY :: nat
  LS_METRIC_NAME_MAX :: nat
  LS_METRIC_WINDOW_SIZE :: nat
  LS_POWER_SAMPLE_CAPACITY :: nat
  LS_HEALTH_CAPACITY :: nat
  LS_MAX_DUMP_REGIONS :: nat
  LS_MAX_REDACTIONS :: nat
  LS_DUMP_REGION_MAX_BYTES :: nat
  LS_STACK_SNAPSHOT_MAX :: nat
  LS_ENABLE_LOGS :: bool
  LS_LOG_ARG_MAX :: nat
  LS_ENABLE_PERFORMANCE :: bool
  LS_SPAN_CAPACITY :: nat
  LS_BLACKBOX_ENVELOPE_MAX :: nat
  LS_MISSION_ID_MAX :: nat
  LS_DIVE_ID_MAX :: nat
  LS_NODE_ID_MAX :: nat
  LS_VEHICLE_MODE_MAX :: nat

section \<open>State\<close>

record ls_breadcrumb_kv =
  kv_key_id :: u16
  kv_type :: u8
  kv_value :: u32

record ls_breadcrumb_t =
  br_category :: "cstring option"
  br_level :: u8
  br_message_id :: u16
  br_message :: "cstring option"
  br_values :: "ls_breadcrumb_kv list option"
  br_value_count :: u8

record ls_breadcrumb_record =
  bc_at_ms :: u32
  bc_message_id :: u16
  bc_severity :: u8
  bc_value_count :: u8
  bc_category_hash :: u32
  bc_message_hash :: u32
  bc_category :: cstring
  bc_message :: cstring
  bc_values :: "ls_breadcrumb_kv list"

datatype ls_breadcrumb_policy = LS_BREADCRUMB_DROP_OLDEST | LS_BREADCRUMB_DROP_NEWEST | LS_BREADCRUMB_KEEP_ERRORS

record ls_metric_record =
  mt_name_hash :: u32
  mt_name :: cstring
  mt_value :: u32
  mt_previous :: u32
  mt_minimum :: u32
  mt_maximum :: u32
  mt_sum :: u64
  mt_count :: u32
  mt_window :: "u32 list"
  mt_window_next :: nat
  mt_window_count :: nat
  mt_type :: u8

record ls_metric_snapshot =
  mn_name :: cstring
  mn_name_hash :: u32
  mn_type :: u8
  mn_current :: u32
  mn_previous :: u32
  mn_minimum :: u32
  mn_maximum :: u32
  mn_average :: u32
  mn_sum :: u64
  mn_count :: u32

record ls_power_sample_t =
  pw_timestamp_ms :: u32
  pw_vdd_mv :: u16
  pw_battery_mv :: u16
  pw_current_ma :: u16
  pw_temperature_c :: u16
  pw_charger_status :: u16
  pw_power_flags :: u16

record ls_power_summary =
  pu_sample_count :: u32
  pu_last :: ls_power_sample_t
  pu_minimum_vdd_mv :: u16
  pu_minimum_battery_mv :: u16
  pu_maximum_temperature_c :: u16
  pu_maximum_current_ma :: u16

record ls_health_record =
  he_name :: cstring
  he_deadline_ms :: u32
  he_last_touch_ms :: u32
  he_misses :: u32
  he_max_lateness_ms :: u32
  he_expired :: bool

record ls_environment_sample_t =
  es_timestamp_ms :: u32
  es_pressure_pa :: u32
  es_depth_cm :: u32
  es_internal_temperature_c :: u16
  es_humidity_permyriad :: u16
  es_vibration_mg_rms :: u16
  es_flags :: u16

record ls_environment_summary =
  ey_last :: ls_environment_sample_t
  ey_sample_count :: u32
  ey_maximum_pressure_pa :: u32
  ey_maximum_depth_cm :: u32
  ey_maximum_temperature_c :: u16
  ey_maximum_humidity_permyriad :: u16
  ey_maximum_vibration_mg_rms :: u16
  ey_leak_events :: u32

record ls_mission_context =
  mi_mission_id :: cstring
  mi_dive_id :: cstring
  mi_node_id :: cstring
  mi_vehicle_mode :: cstring
  mi_mission_started_ms :: u32
  mi_phase :: u32
  mi_depth_cm :: u32
  mi_incident_hi :: u64
  mi_incident_lo :: u64
  mi_incident_active :: bool

record ls_time_sync_state =
  ts_source :: u8
  ts_utc_ms_at_sync :: u64
  ts_monotonic_ms_at_sync :: u32
  ts_uncertainty_ms :: u32
  ts_generation :: u32
  ts_synchronized :: bool

record ls_dump_region =
  dr_name :: "cstring option"
  dr_address :: nat
  dr_length :: nat
  dr_flags :: u32

datatype ls_redaction_mode = LS_REDACT_ZERO | LS_REDACT_HASH | LS_REDACT_EXCLUDE

record ls_redaction =
  re_address :: nat
  re_length :: nat
  re_mode :: ls_redaction_mode

record ls_heap_stats =
  hs_free_bytes :: u32
  hs_minimum_free_bytes :: u32
  hs_largest_block :: u32
  hs_allocation_failures :: u32
  hs_pool_exhaustions :: u32

record ls_supervisor_config =
  sc_watchdog_max_stale_ms :: u32
  sc_minimum_vdd_mv :: u16
  sc_minimum_battery_mv :: u16
  sc_maximum_temperature_c :: u16
  sc_minimum_heap_free_bytes :: u32
  sc_maximum_spool_percent :: u8
  sc_maximum_vibration_mg_rms :: u16
  sc_anomaly_hold_ms :: u32

record ls_supervisor_status =
  ss_active_alarms :: u32
  ss_previous_alarms :: u32
  ss_transitions :: u32
  ss_last_change_ms :: u32
  ss_configured :: bool

record ls_span_record =
  sr_id :: u16
  sr_started_ms :: u32
  sr_elapsed_ms :: u32
  sr_active :: bool

datatype ls_assert_policy = LS_ASSERT_CONTINUE | LS_ASSERT_RESET | LS_ASSERT_HALT | LS_ASSERT_BREAKPOINT | LS_ASSERT_CALLBACK

text \<open>\<open>assert_callback\<close> and \<open>log_stream\<close> say that a callback is installed.\<close>

record ls_telemetry =
  breadcrumbs :: "ls_breadcrumb_record list"
  breadcrumb_next :: nat
  breadcrumb_count :: nat
  breadcrumb_min_level :: u8
  breadcrumb_policy :: ls_breadcrumb_policy
  metrics :: "ls_metric_record list"
  power_samples :: "ls_power_sample_t list"
  power_next :: nat
  power_count :: nat
  health :: "ls_health_record list"
  active_task :: cstring
  watchdog_last_feed :: u32
  watchdog_checkpoint :: u16
  dump_regions :: "ls_dump_region list"
  redactions :: "ls_redaction list"
  stack_lower :: nat
  stack_upper :: nat
  heap_stats :: ls_heap_stats
  spans :: "ls_span_record list"
  assert_policy :: ls_assert_policy
  assert_callback :: bool
  log_stream :: bool
  log_min_level :: u8
  mission :: ls_mission_context
  time_sync :: ls_time_sync_state
  environment :: ls_environment_summary
  supervisor_config :: ls_supervisor_config
  supervisor_status :: ls_supervisor_status
  powerfail_last :: ls_powerfail_seal_info

text \<open>The identity of the device and the rest of the configuration that encoders read.\<close>

record ls_identity =
  id_project_id :: "cstring option"
  id_device_id :: "cstring option"
  id_product :: "cstring option"
  id_hardware_revision :: "cstring option"
  id_bom_revision :: "cstring option"
  id_manufacturing_batch :: "cstring option"
  id_firmware_version :: "cstring option"
  id_firmware_build_id :: "cstring option"
  id_bootloader_version :: "cstring option"
  id_git_commit :: "cstring option"
  id_variant :: "cstring option"
  id_architecture :: "cstring option"
  id_rtos :: "cstring option"
  id_region :: "cstring option"
  id_device_group :: "cstring option"

text \<open>\<open>le_memory\<close> is the memory of the device, which dumps read, \<open>le_reset\<close> says that the configuration has
  a callback that resets the device, and \<open>le_reset_info\<close> is what its callback for the reset reason returns.\<close>

record 's latch_env =
  le_boot :: "'s boot_env"
  le_telemetry :: ls_telemetry_config
  le_policy :: ls_policy_config
  le_crypto :: crypto_build
  le_build_id :: "cstring option"
  le_identity :: ls_identity
  le_architecture :: u32
  le_rtos :: "cstring option"
  le_region :: "cstring option"
  le_device_group :: "cstring option"
  le_memory :: "nat \<Rightarrow> u8"
  le_reset :: bool
  le_reset_info :: "ls_reset_info option"

text \<open>The calls of the application's callbacks, in order.\<close>

datatype port_call =
    Reset_device
  | Log_record bytes
  | Assert_callback "cstring option" "cstring option" u32

record ('s, 't, 'p) latch_rt =
  lt_boot :: "('s, 't, 'p) boot_rt"
  lt_telemetry :: ls_telemetry
  lt_policy :: ls_policy
  lt_capturing :: bool
  lt_fault_memory :: fault_memory
  lt_powerfail :: powerfail_memory
  lt_calls :: "port_call list"

definition uptime :: "'s latch_env \<Rightarrow> ('s, 't, 'p) latch_rt \<Rightarrow> u32 \<times> ('s, 't, 'p) latch_rt" where
  "uptime e rt = (case ls_uptime_ms (le_boot e) (lt_boot rt) of (now, bt) \<Rightarrow> (now, rt\<lparr>lt_boot := bt\<rparr>))"

definition on_telemetry ::
    "(ls_telemetry \<Rightarrow> ls_telemetry) \<Rightarrow> ('s, 't, 'p) latch_rt \<Rightarrow> ('s, 't, 'p) latch_rt" where
  "on_telemetry f rt = rt\<lparr>lt_telemetry := f (lt_telemetry rt)\<rparr>"

definition note_values ::
    "'s latch_env \<Rightarrow> u16 \<Rightarrow> u16 \<Rightarrow> u16 \<Rightarrow> u32 \<Rightarrow> u32 \<Rightarrow> u32 \<Rightarrow> u32 \<Rightarrow>
     ('s, 't, 'p) latch_rt \<Rightarrow> ('s, 't, 'p) latch_rt" where
  "note_values e kind source_id flags v0 v1 v2 v3 rt =
     rt\<lparr>lt_boot := record_values (le_boot e) kind source_id flags v0 v1 v2 v3 (lt_boot rt)\<rparr>"

section \<open>Breadcrumbs\<close>

definition ls_breadcrumb_set_min_level :: "u8 \<Rightarrow> ls_telemetry \<Rightarrow> ls_telemetry" where
  "ls_breadcrumb_set_min_level level t = t\<lparr>breadcrumb_min_level := level\<rparr>"

definition ls_breadcrumb_set_policy :: "ls_breadcrumb_policy \<Rightarrow> ls_telemetry \<Rightarrow> ls_telemetry" where
  "ls_breadcrumb_set_policy policy t = t\<lparr>breadcrumb_policy := policy\<rparr>"

definition breadcrumb_record :: "ls_telemetry_config \<Rightarrow> u32 \<Rightarrow> ls_breadcrumb_t \<Rightarrow> ls_breadcrumb_record" where
  "breadcrumb_record c now event =
     (let n = (if unat (br_value_count event) > LS_BREADCRUMB_KV_MAX c then LS_BREADCRUMB_KV_MAX c
               else unat (br_value_count event));
          zero = replicate (LS_BREADCRUMB_KV_MAX c) \<lparr>kv_key_id = 0, kv_type = 0, kv_value = 0\<rparr>
      in \<lparr>bc_at_ms = now, bc_message_id = br_message_id event, bc_severity = br_level event,
          bc_value_count = word_of_nat n, bc_category_hash = ls_hash_string (br_category event),
          bc_message_hash = (if br_message_id event \<noteq> 0 then ucast (br_message_id event)
                             else ls_hash_string (br_message event)),
          bc_category = (if LS_STORE_STRINGS c
                         then ls_copy_string [] (LS_BREADCRUMB_CATEGORY_MAX c) (br_category event) else []),
          bc_message = (if LS_STORE_STRINGS c
                        then ls_copy_string [] (LS_BREADCRUMB_MESSAGE_MAX c) (br_message event) else []),
          bc_values = (case br_values event of None \<Rightarrow> zero | Some vs \<Rightarrow> overwrite 0 (take n vs) zero)\<rparr>)"

definition breadcrumb_refused :: "ls_telemetry_config \<Rightarrow> ls_breadcrumb_t \<Rightarrow> ls_telemetry \<Rightarrow> bool" where
  "breadcrumb_refused c event t \<longleftrightarrow>
     breadcrumb_count t = LS_BREADCRUMB_CAPACITY c \<and>
     (breadcrumb_policy t = LS_BREADCRUMB_DROP_NEWEST \<or>
      breadcrumb_policy t = LS_BREADCRUMB_KEEP_ERRORS \<and> br_level event < LS_SEVERITY_ERROR)"

definition push_breadcrumb :: "ls_telemetry_config \<Rightarrow> ls_breadcrumb_record \<Rightarrow> ls_telemetry \<Rightarrow> ls_telemetry" where
  "push_breadcrumb c r t =
     t\<lparr>breadcrumbs := (breadcrumbs t)[breadcrumb_next t := r],
       breadcrumb_next := (breadcrumb_next t + 1) mod LS_BREADCRUMB_CAPACITY c,
       breadcrumb_count := (if breadcrumb_count t < LS_BREADCRUMB_CAPACITY c then breadcrumb_count t + 1
                            else breadcrumb_count t)\<rparr>"

definition ls_breadcrumb_event ::
    "'s latch_env \<Rightarrow> ls_breadcrumb_t option \<Rightarrow> ('s, 't, 'p) latch_rt \<Rightarrow> ('s, 't, 'p) latch_rt" where
  "ls_breadcrumb_event e event rt =
     (let c = le_telemetry e
      in case event of
           None \<Rightarrow> rt
         | Some ev \<Rightarrow>
             if \<not> LS_ENABLE_BREADCRUMBS c \<or> \<not> bt_initialized (lt_boot rt) \<or> br_level ev < LS_COMPILED_MIN_LEVEL c \<or>
                br_level ev < breadcrumb_min_level (lt_telemetry rt)
             then rt
             else if breadcrumb_refused c ev (lt_telemetry rt) then rt
             else case uptime e rt of
                    (now, rt) \<Rightarrow> on_telemetry (push_breadcrumb c (breadcrumb_record c now ev)) rt)"

definition ls_breadcrumb :: "'s latch_env \<Rightarrow> cstring option \<Rightarrow> ('s, 't, 'p) latch_rt \<Rightarrow> ('s, 't, 'p) latch_rt" where
  "ls_breadcrumb e message =
     ls_breadcrumb_event e (Some \<lparr>br_category = None, br_level = LS_SEVERITY_INFO, br_message_id = 0,
       br_message = message, br_values = None, br_value_count = 0\<rparr>)"

section \<open>Metrics\<close>

definition LS_METRIC_I32 :: u8 where "LS_METRIC_I32 = 1"
definition LS_METRIC_U32 :: u8 where "LS_METRIC_U32 = 2"
definition LS_METRIC_BOOL :: u8 where "LS_METRIC_BOOL = 3"
definition LS_METRIC_COUNTER :: u8 where "LS_METRIC_COUNTER = 4"

definition find_metric :: "cstring option \<Rightarrow> ls_telemetry \<Rightarrow> nat option" where
  "find_metric name t = first_where (\<lambda>m. mt_name_hash m = ls_hash_string name) (metrics t)"

definition new_metric :: "ls_telemetry_config \<Rightarrow> cstring option \<Rightarrow> u32 \<Rightarrow> ls_metric_record" where
  "new_metric c name v =
     \<lparr>mt_name_hash = ls_hash_string name,
      mt_name = (if LS_STORE_STRINGS c then ls_copy_string [] (LS_METRIC_NAME_MAX c) name else []),
      mt_value = 0, mt_previous = 0, mt_minimum = v, mt_maximum = v, mt_sum = 0, mt_count = 0,
      mt_window = replicate (LS_METRIC_WINDOW_SIZE c) 0, mt_window_next = 0, mt_window_count = 0, mt_type = 0\<rparr>"

definition sample_metric :: "ls_telemetry_config \<Rightarrow> u32 \<Rightarrow> u8 \<Rightarrow> ls_metric_record \<Rightarrow> ls_metric_record" where
  "sample_metric c v type m =
     m\<lparr>mt_previous := mt_value m, mt_value := v, mt_type := type,
       mt_minimum := (if mt_count m = 0 \<or> sint v < sint (mt_minimum m) then v else mt_minimum m),
       mt_maximum := (if mt_count m = 0 \<or> sint v > sint (mt_maximum m) then v else mt_maximum m),
       mt_sum := mt_sum m + scast v, mt_count := mt_count m + 1,
       mt_window := (mt_window m)[mt_window_next m := v],
       mt_window_next := (mt_window_next m + 1) mod LS_METRIC_WINDOW_SIZE c,
       mt_window_count := (if mt_window_count m < LS_METRIC_WINDOW_SIZE c then mt_window_count m + 1
                           else mt_window_count m)\<rparr>"

definition set_metric :: "ls_telemetry_config \<Rightarrow> cstring option \<Rightarrow> u32 \<Rightarrow> u8 \<Rightarrow> ls_telemetry \<Rightarrow> ls_telemetry" where
  "set_metric c name v type t =
     (if \<not> LS_ENABLE_METRICS c \<or> name = None then t
      else case find_metric name t of
        Some i \<Rightarrow> t\<lparr>metrics := (metrics t)[i := sample_metric c v type (metrics t ! i)]\<rparr>
      | None \<Rightarrow>
          if length (metrics t) < LS_METRIC_CAPACITY c
          then t\<lparr>metrics := metrics t @ [sample_metric c v type (new_metric c name v)]\<rparr> else t)"

definition ls_metric_i32 :: "ls_telemetry_config \<Rightarrow> cstring option \<Rightarrow> u32 \<Rightarrow> ls_telemetry \<Rightarrow> ls_telemetry" where
  "ls_metric_i32 c name v = set_metric c name v LS_METRIC_I32"

definition ls_metric_u32 :: "ls_telemetry_config \<Rightarrow> cstring option \<Rightarrow> u32 \<Rightarrow> ls_telemetry \<Rightarrow> ls_telemetry" where
  "ls_metric_u32 c name v = set_metric c name v LS_METRIC_U32"

definition ls_metric_bool :: "ls_telemetry_config \<Rightarrow> cstring option \<Rightarrow> bool \<Rightarrow> ls_telemetry \<Rightarrow> ls_telemetry" where
  "ls_metric_bool c name v = set_metric c name (if v then 1 else 0) LS_METRIC_BOOL"

definition ls_metric_increment :: "ls_telemetry_config \<Rightarrow> cstring option \<Rightarrow> u32 \<Rightarrow> ls_telemetry \<Rightarrow> ls_telemetry" where
  "ls_metric_increment c name amount t =
     set_metric c name ((case find_metric name t of None \<Rightarrow> 0 | Some i \<Rightarrow> mt_value (metrics t ! i)) + amount)
       LS_METRIC_COUNTER t"

text \<open>Division of \<^verbatim>\<open>int64_t\<close> truncates.\<close>

definition quotient :: "int \<Rightarrow> int \<Rightarrow> int" where
  "quotient a b = (if a \<ge> 0 then a div b else - ((- a) div b))"

definition ls_metric_get :: "ls_telemetry_config \<Rightarrow> cstring option \<Rightarrow> ls_telemetry \<Rightarrow> ls_result + ls_metric_snapshot" where
  "ls_metric_get c name t =
     (if name = None then Inl LS_EINVAL
      else case find_metric name t of
        None \<Rightarrow> Inl LS_EINVAL
      | Some i \<Rightarrow>
          let m = metrics t ! i;
              window_sum = sum_list (map sint (take (mt_window_count m) (mt_window m)))
          in Inr \<lparr>mn_name = (if LS_STORE_STRINGS c then ls_copy_string [] (LS_METRIC_NAME_MAX c) (Some (mt_name m)) else []),
                  mn_name_hash = mt_name_hash m, mn_type = mt_type m, mn_current = mt_value m,
                  mn_previous = mt_previous m, mn_minimum = mt_minimum m, mn_maximum = mt_maximum m,
                  mn_average = (if mt_window_count m \<noteq> 0
                                then word_of_int (quotient window_sum (int (mt_window_count m))) else 0),
                  mn_sum = mt_sum m, mn_count = mt_count m\<rparr>)"

definition ls_metrics_reset_window :: "cstring option \<Rightarrow> ls_telemetry \<Rightarrow> ls_telemetry" where
  "ls_metrics_reset_window name t =
     (case find_metric name t of
        None \<Rightarrow> t
      | Some i \<Rightarrow> t\<lparr>metrics := (metrics t)[i := (metrics t ! i)\<lparr>mt_window_count := 0, mt_window_next := 0\<rparr>]\<rparr>)"

section \<open>Health and power\<close>

definition find_health :: "cstring option \<Rightarrow> ls_telemetry \<Rightarrow> nat option" where
  "find_health name t = first_where (\<lambda>h. ls_hash_string name = ls_hash_string (Some (he_name h))) (health t)"

definition ls_health_register ::
    "'s latch_env \<Rightarrow> cstring option \<Rightarrow> u32 \<Rightarrow> ('s, 't, 'p) latch_rt \<Rightarrow> ('s, 't, 'p) latch_rt" where
  "ls_health_register e name deadline_ms rt =
     (let c = le_telemetry e; t = lt_telemetry rt
      in if name = None \<or> deadline_ms = 0 then rt
         else case find_health name t of
           Some i \<Rightarrow> on_telemetry (\<lambda>t. t\<lparr>health := (health t)[i := (health t ! i)\<lparr>he_deadline_ms := deadline_ms\<rparr>]\<rparr>) rt
         | None \<Rightarrow>
             if length (health t) < LS_HEALTH_CAPACITY c
             then (case uptime e rt of
                     (now, rt) \<Rightarrow>
                       on_telemetry (\<lambda>t. t\<lparr>health := health t @
                         [\<lparr>he_name = ls_copy_string [] (LS_BREADCRUMB_CATEGORY_MAX c) name, he_deadline_ms = deadline_ms,
                           he_last_touch_ms = now, he_misses = 0, he_max_lateness_ms = 0, he_expired = False\<rparr>]\<rparr>) rt)
             else rt)"

definition ls_health_touch :: "'s latch_env \<Rightarrow> cstring option \<Rightarrow> ('s, 't, 'p) latch_rt \<Rightarrow> ('s, 't, 'p) latch_rt" where
  "ls_health_touch e name rt =
     (case find_health name (lt_telemetry rt) of
        None \<Rightarrow> rt
      | Some i \<Rightarrow>
          (case uptime e rt of
             (now, rt) \<Rightarrow>
               on_telemetry (\<lambda>t. t\<lparr>health := (health t)[i := (health t ! i)\<lparr>he_last_touch_ms := now, he_expired := False\<rparr>]\<rparr>) rt))"

definition ls_health_get :: "cstring option \<Rightarrow> ls_telemetry \<Rightarrow> ls_result + ls_health_record" where
  "ls_health_get name t =
     (if name = None then Inl LS_EINVAL
      else case find_health name t of None \<Rightarrow> Inl LS_EAGAIN | Some i \<Rightarrow> Inr (health t ! i))"

definition ls_health_snapshot :: "nat \<Rightarrow> ls_telemetry \<Rightarrow> ls_health_record list" where
  "ls_health_snapshot capacity t = take (if length (health t) < capacity then length (health t) else capacity) (health t)"

definition ls_health_set_active_task :: "ls_telemetry_config \<Rightarrow> cstring option \<Rightarrow> ls_telemetry \<Rightarrow> ls_telemetry" where
  "ls_health_set_active_task c name t =
     t\<lparr>active_task := ls_copy_string (active_task t) (LS_BREADCRUMB_CATEGORY_MAX c) name\<rparr>"

definition ls_watchdog_fed :: "'s latch_env \<Rightarrow> ('s, 't, 'p) latch_rt \<Rightarrow> ('s, 't, 'p) latch_rt" where
  "ls_watchdog_fed e rt =
     (case uptime e rt of
        (now, rt) \<Rightarrow>
          let rt = on_telemetry (watchdog_last_feed_update (\<lambda>_. now)) rt
          in note_values e LS_BLACKBOX_WATCHDOG (watchdog_checkpoint (lt_telemetry rt)) 0 now 1 0 0 rt)"

definition ls_watchdog_checkpoint :: "'s latch_env \<Rightarrow> u16 \<Rightarrow> ('s, 't, 'p) latch_rt \<Rightarrow> ('s, 't, 'p) latch_rt" where
  "ls_watchdog_checkpoint e checkpoint_id rt =
     note_values e LS_BLACKBOX_WATCHDOG checkpoint_id 0 0 0 0 0
       (on_telemetry (watchdog_checkpoint_update (\<lambda>_. checkpoint_id)) rt)"

definition push_power :: "ls_telemetry_config \<Rightarrow> ls_power_sample_t \<Rightarrow> ls_telemetry \<Rightarrow> ls_telemetry" where
  "push_power c v t =
     t\<lparr>power_samples := (power_samples t)[power_next t := v],
       power_next := (power_next t + 1) mod LS_POWER_SAMPLE_CAPACITY c,
       power_count := (if power_count t < LS_POWER_SAMPLE_CAPACITY c then power_count t + 1 else power_count t)\<rparr>"

definition ls_power_sample ::
    "'s latch_env \<Rightarrow> ls_power_sample_t option \<Rightarrow> ('s, 't, 'p) latch_rt \<Rightarrow> ('s, 't, 'p) latch_rt" where
  "ls_power_sample e sample rt =
     (let c = le_telemetry e
      in case sample of
           None \<Rightarrow> rt
         | Some v \<Rightarrow>
             if \<not> LS_ENABLE_POWER_SAMPLES c then rt
             else
               let (now, rt) = (if pw_timestamp_ms v = 0 then uptime e rt else (pw_timestamp_ms v, rt));
                   v = v\<lparr>pw_timestamp_ms := now\<rparr>;
                   rt = on_telemetry (push_power c v) rt;
                   rt = on_telemetry (ls_metric_u32 c (Some (cstr ''vdd_mv'')) (ucast (pw_vdd_mv v))) rt;
                   rt = on_telemetry (ls_metric_u32 c (Some (cstr ''battery_mv'')) (ucast (pw_battery_mv v))) rt;
                   rt = on_telemetry (ls_metric_i32 c (Some (cstr ''current_ma'')) (scast (pw_current_ma v))) rt;
                   rt = on_telemetry (ls_metric_i32 c (Some (cstr ''temperature_c'')) (scast (pw_temperature_c v))) rt
               in note_values e LS_BLACKBOX_POWER 0 0 (ucast (pw_vdd_mv v)) (ucast (pw_battery_mv v))
                    (scast (pw_current_ma v)) (scast (pw_temperature_c v)) rt)"

text \<open>The samples from the oldest to the newest.\<close>

definition power_window :: "ls_telemetry_config \<Rightarrow> ls_telemetry \<Rightarrow> ls_power_sample_t list" where
  "power_window c t =
     map (\<lambda>n. power_samples t ! ((power_next t + LS_POWER_SAMPLE_CAPACITY c - power_count t + n) mod
                                 LS_POWER_SAMPLE_CAPACITY c)) [0..<power_count t]"

fun power_summary_loop :: "bool \<Rightarrow> ls_power_sample_t list \<Rightarrow> ls_power_summary \<Rightarrow> ls_power_summary" where
  "power_summary_loop first [] s = s"
| "power_summary_loop first (x # xs) s =
     power_summary_loop False xs
       (s\<lparr>pu_minimum_vdd_mv := (if pw_vdd_mv x < pu_minimum_vdd_mv s then pw_vdd_mv x else pu_minimum_vdd_mv s),
          pu_minimum_battery_mv :=
            (if pw_battery_mv x < pu_minimum_battery_mv s then pw_battery_mv x else pu_minimum_battery_mv s),
          pu_maximum_temperature_c :=
            (if first \<or> sint (pw_temperature_c x) > sint (pu_maximum_temperature_c s) then pw_temperature_c x
             else pu_maximum_temperature_c s),
          pu_maximum_current_ma :=
            (if first \<or> sint (pw_current_ma x) > sint (pu_maximum_current_ma s) then pw_current_ma x
             else pu_maximum_current_ma s),
          pu_last := x\<rparr>)"

definition zero_power :: ls_power_sample_t where
  "zero_power = \<lparr>pw_timestamp_ms = 0, pw_vdd_mv = 0, pw_battery_mv = 0, pw_current_ma = 0, pw_temperature_c = 0,
     pw_charger_status = 0, pw_power_flags = 0\<rparr>"

definition ls_power_get_summary :: "ls_telemetry_config \<Rightarrow> ls_telemetry \<Rightarrow> ls_result + ls_power_summary" where
  "ls_power_get_summary c t =
     (if \<not> LS_ENABLE_POWER_SAMPLES c then Inl LS_ENOTSUP
      else if power_count t = 0 then Inl LS_EAGAIN
      else
        let s = power_summary_loop True (power_window c t)
              \<lparr>pu_sample_count = 0, pu_last = zero_power, pu_minimum_vdd_mv = 0xffff, pu_minimum_battery_mv = 0xffff,
               pu_maximum_temperature_c = 0, pu_maximum_current_ma = 0\<rparr>
        in Inr (s\<lparr>pu_sample_count := word_of_nat (power_count t)\<rparr>))"

fun brownout_loop :: "u16 \<Rightarrow> u32 \<Rightarrow> u32 \<Rightarrow> ls_power_sample_t list \<Rightarrow> bool" where
  "brownout_loop threshold_mv within_ms now [] = False"
| "brownout_loop threshold_mv within_ms now (x # xs) =
     (if within_ms \<noteq> 0 \<and> now - pw_timestamp_ms x > within_ms then False
      else if pw_vdd_mv x \<noteq> 0 \<and> pw_vdd_mv x < threshold_mv then True
      else brownout_loop threshold_mv within_ms now xs)"

definition ls_power_brownout_suspected ::
    "'s latch_env \<Rightarrow> u16 \<Rightarrow> u32 \<Rightarrow> ('s, 't, 'p) latch_rt \<Rightarrow> bool \<times> ('s, 't, 'p) latch_rt" where
  "ls_power_brownout_suspected e threshold_mv within_ms rt =
     (if \<not> LS_ENABLE_POWER_SAMPLES (le_telemetry e) \<or> threshold_mv = 0 \<or> power_count (lt_telemetry rt) = 0
      then (False, rt)
      else case uptime e rt of
             (now, rt) \<Rightarrow> (brownout_loop threshold_mv within_ms now (rev (power_window (le_telemetry e) (lt_telemetry rt))), rt))"

section \<open>Mission and environment\<close>

definition LS_BLACKBOX_SENSOR :: u16 where "LS_BLACKBOX_SENSOR = 6"
definition LS_BLACKBOX_MISSION :: u16 where "LS_BLACKBOX_MISSION = 9"
definition LS_BLACKBOX_SENSITIVE :: u16 where "LS_BLACKBOX_SENSITIVE = 4"

definition anomaly_begin :: "'s latch_env \<Rightarrow> u32 \<Rightarrow> ('s, 't, 'p) latch_rt \<Rightarrow> ('s, 't, 'p) latch_rt" where
  "anomaly_begin e duration_ms rt =
     (if duration_ms = 0 then rt
      else case uptime_if_initialized (le_boot e) (lt_boot rt) of
        (now, bt) \<Rightarrow> rt\<lparr>lt_boot := bt\<lparr>bt_blackbox := ls_blackbox_anomaly_begin now duration_ms (bt_blackbox bt)\<rparr>\<rparr>)"

definition zero_mission :: ls_mission_context where
  "zero_mission =
     \<lparr>mi_mission_id = [], mi_dive_id = [], mi_node_id = [], mi_vehicle_mode = [], mi_mission_started_ms = 0,
      mi_phase = 0, mi_depth_cm = 0, mi_incident_hi = 0, mi_incident_lo = 0, mi_incident_active = False\<rparr>"

definition read_u64_le :: "bytes \<Rightarrow> u64" where
  "read_u64_le b = foldl (\<lambda>v i. v OR push_bit (i * 8) (ucast (b ! i))) 0 [0..<8]"

definition ls_mission_begin ::
    "'s latch_env \<Rightarrow> cstring option \<Rightarrow> cstring option \<Rightarrow> cstring option \<Rightarrow> ('s, 't, 'p) latch_rt \<Rightarrow>
     ls_result \<times> ('s, 't, 'p) latch_rt" where
  "ls_mission_begin e mission_id dive_id node_id rt =
     (let c = le_telemetry e
      in if mission_id = None \<or> mission_id = Some [] then (LS_EINVAL, rt)
         else case uptime e rt of
           (now, rt) \<Rightarrow>
             let rt = on_telemetry (\<lambda>t. t\<lparr>mission := zero_mission
                   \<lparr>mi_mission_id := ls_copy_string [] (LS_MISSION_ID_MAX c) mission_id,
                    mi_dive_id := ls_copy_string [] (LS_DIVE_ID_MAX c) dive_id,
                    mi_node_id := ls_copy_string [] (LS_NODE_ID_MAX c) node_id,
                    mi_mission_started_ms := now\<rparr>\<rparr>) rt
             in (LS_OK, note_values e LS_BLACKBOX_MISSION 1 LS_BLACKBOX_IMPORTANT (ls_hash_string mission_id)
                          (ls_hash_string dive_id) (ls_hash_string node_id) 0 rt))"

definition ls_mission_end :: "'s latch_env \<Rightarrow> ('s, 't, 'p) latch_rt \<Rightarrow> ('s, 't, 'p) latch_rt" where
  "ls_mission_end e rt =
     (let m = mission (lt_telemetry rt)
      in on_telemetry (mission_update (\<lambda>_. zero_mission))
           (note_values e LS_BLACKBOX_MISSION 2 LS_BLACKBOX_IMPORTANT (ls_hash_string (Some (mi_mission_id m)))
              (mi_depth_cm m) (mi_phase m) 0 rt))"

definition ls_mission_set_mode ::
    "'s latch_env \<Rightarrow> cstring option \<Rightarrow> u32 \<Rightarrow> ('s, 't, 'p) latch_rt \<Rightarrow> ('s, 't, 'p) latch_rt" where
  "ls_mission_set_mode e mode phase rt =
     (let c = le_telemetry e;
          rt = on_telemetry (mission_update (\<lambda>m. m\<lparr>mi_vehicle_mode := ls_copy_string (mi_vehicle_mode m) (LS_VEHICLE_MODE_MAX c) mode,
                                                  mi_phase := phase\<rparr>)) rt
      in note_values e LS_BLACKBOX_MISSION 3 0 (ls_hash_string mode) phase (mi_depth_cm (mission (lt_telemetry rt))) 0 rt)"

definition ls_mission_set_depth_cm :: "'s latch_env \<Rightarrow> u32 \<Rightarrow> ('s, 't, 'p) latch_rt \<Rightarrow> ('s, 't, 'p) latch_rt" where
  "ls_mission_set_depth_cm e depth_cm rt =
     note_values e LS_BLACKBOX_SENSOR 1 0 depth_cm 0 0 0
       (on_telemetry (mission_update (\<lambda>m. m\<lparr>mi_depth_cm := depth_cm\<rparr>)) rt)"

definition ls_mission_elapsed_ms :: "'s latch_env \<Rightarrow> ('s, 't, 'p) latch_rt \<Rightarrow> u32 \<times> ('s, 't, 'p) latch_rt" where
  "ls_mission_elapsed_ms e rt =
     (if mi_mission_id (mission (lt_telemetry rt)) \<noteq> []
      then (case uptime e rt of (now, rt) \<Rightarrow> (now - mi_mission_started_ms (mission (lt_telemetry rt)), rt))
      else (0, rt))"

text \<open>The deterministic identifier of an incident without a source of randomness; the clock is read twice.\<close>

definition fallback_incident :: "'s latch_env \<Rightarrow> ('s, 't, 'p) latch_rt \<Rightarrow> (u64 \<times> u64) \<times> ('s, 't, 'p) latch_rt" where
  "fallback_incident e rt =
     (let (now, rt) = uptime e rt;
          boot_count = bt_boot_count (lt_boot rt);
          sequence = rt_sequence (bt_spool (lt_boot rt));
          seed = ls_hash_string (id_device_id (le_identity e)) XOR ls_hash_string (le_build_id e) XOR boot_count XOR now;
          hi = push_bit 32 (ucast seed) OR
               ucast (ls_event_fingerprint (le_build_id e) (Some (cstr ''incident'')) boot_count sequence);
          (later, rt) = uptime e rt;
          lo = push_bit 32 (ucast sequence) OR
               ucast (ls_event_fingerprint (le_build_id e) (Some (cstr ''mission'')) later seed)
      in ((hi, lo), rt))"

definition incident_identifier ::
    "'s latch_env \<Rightarrow> u64 \<Rightarrow> u64 \<Rightarrow> ('s, 't, 'p) latch_rt \<Rightarrow> (u64 \<times> u64) \<times> ('s, 't, 'p) latch_rt" where
  "incident_identifier e hi lo rt =
     (if hi \<noteq> 0 \<or> lo \<noteq> 0 then ((hi, lo), rt)
      else
        case ls_security_random 16 (bt_security (lt_boot rt)) of
          (r, s) \<Rightarrow>
            let rt = rt\<lparr>lt_boot := (lt_boot rt)\<lparr>bt_security := s\<rparr>\<rparr>;
                ((hi, lo), rt) = (case r of
                     Inr random \<Rightarrow> ((read_u64_le (drop 8 random), read_u64_le random), rt)
                   | Inl _ \<Rightarrow> fallback_incident e rt)
            in (if hi = 0 \<and> lo = 0 then (hi, 1) else (hi, lo), rt))"

definition ls_incident_begin ::
    "'s latch_env \<Rightarrow> u64 \<Rightarrow> u64 \<Rightarrow> ('s, 't, 'p) latch_rt \<Rightarrow> ls_result \<times> ('s, 't, 'p) latch_rt" where
  "ls_incident_begin e hi lo rt =
     (case incident_identifier e hi lo rt of
        ((hi, lo), rt) \<Rightarrow>
          let rt = on_telemetry (mission_update (\<lambda>m. m\<lparr>mi_incident_hi := hi, mi_incident_lo := lo,
                                                      mi_incident_active := True\<rparr>)) rt
          in (LS_OK, note_values e LS_BLACKBOX_MISSION 4 LS_BLACKBOX_IMPORTANT (ucast hi) (ucast (drop_bit 32 hi))
                       (ucast lo) (ucast (drop_bit 32 lo)) rt))"

definition ls_incident_end :: "ls_telemetry \<Rightarrow> ls_telemetry" where
  "ls_incident_end t = t\<lparr>mission := (mission t)\<lparr>mi_incident_active := False, mi_incident_hi := 0, mi_incident_lo := 0\<rparr>\<rparr>"

definition LS_ENV_LEAK_DETECTED :: u16 where "LS_ENV_LEAK_DETECTED = 1"
definition LS_ENV_WATER_INGRESS :: u16 where "LS_ENV_WATER_INGRESS = 2"
definition LS_ENV_PRESSURE_SENSOR_FAULT :: u16 where "LS_ENV_PRESSURE_SENSOR_FAULT = 4"
definition LS_ENV_VIBRATION_LIMIT :: u16 where "LS_ENV_VIBRATION_LIMIT = 8"

definition leaking :: "u16 \<Rightarrow> bool" where
  "leaking flags \<longleftrightarrow> flags AND (LS_ENV_LEAK_DETECTED OR LS_ENV_WATER_INGRESS) \<noteq> 0"

definition merge_environment :: "ls_environment_sample_t \<Rightarrow> ls_environment_summary \<Rightarrow> ls_environment_summary" where
  "merge_environment v y =
     y\<lparr>ey_last := v,
       ey_sample_count := (if ey_sample_count y \<noteq> 0xffffffff then ey_sample_count y + 1 else ey_sample_count y),
       ey_maximum_pressure_pa := (if es_pressure_pa v > ey_maximum_pressure_pa y then es_pressure_pa v
                                  else ey_maximum_pressure_pa y),
       ey_maximum_depth_cm := (if sint (es_depth_cm v) > sint (ey_maximum_depth_cm y) then es_depth_cm v
                               else ey_maximum_depth_cm y),
       ey_maximum_temperature_c := (if sint (es_internal_temperature_c v) > sint (ey_maximum_temperature_c y)
                                    then es_internal_temperature_c v else ey_maximum_temperature_c y),
       ey_maximum_humidity_permyriad := (if es_humidity_permyriad v > ey_maximum_humidity_permyriad y
                                         then es_humidity_permyriad v else ey_maximum_humidity_permyriad y),
       ey_maximum_vibration_mg_rms := (if es_vibration_mg_rms v > ey_maximum_vibration_mg_rms y
                                       then es_vibration_mg_rms v else ey_maximum_vibration_mg_rms y),
       ey_leak_events := (if leaking (es_flags v) \<and> ey_leak_events y \<noteq> 0xffffffff then ey_leak_events y + 1
                          else ey_leak_events y)\<rparr>"

definition ls_environment_sample ::
    "'s latch_env \<Rightarrow> ls_environment_sample_t option \<Rightarrow> ('s, 't, 'p) latch_rt \<Rightarrow> ('s, 't, 'p) latch_rt" where
  "ls_environment_sample e sample rt =
     (case sample of
        None \<Rightarrow> rt
      | Some v \<Rightarrow>
          let (now, rt) = (if es_timestamp_ms v = 0 \<and> bt_initialized (lt_boot rt) then uptime e rt
                           else (es_timestamp_ms v, rt));
              v = v\<lparr>es_timestamp_ms := now\<rparr>;
              rt = on_telemetry (environment_update (merge_environment v)) rt;
              rt = (if leaking (es_flags v) then anomaly_begin e 30000 rt else rt);
              rt = ls_mission_set_depth_cm e (es_depth_cm v) rt
          in note_values e LS_BLACKBOX_SENSOR 0x454e
               (if leaking (es_flags v) then LS_BLACKBOX_IMPORTANT OR LS_BLACKBOX_ERROR else 0)
               (es_depth_cm v) (es_pressure_pa v) (ucast (es_vibration_mg_rms v)) (ucast (es_flags v)) rt)"

definition ls_environment_leak_detected :: "ls_telemetry \<Rightarrow> bool" where
  "ls_environment_leak_detected t = leaking (es_flags (ey_last (environment t)))"

section \<open>Wall-clock time\<close>

definition LS_TIME_SOURCE_NONE :: u8 where "LS_TIME_SOURCE_NONE = 0"
definition LS_TIME_SOURCE_HOST :: u8 where "LS_TIME_SOURCE_HOST = 5"

definition ls_time_sync_set ::
    "'s latch_env \<Rightarrow> u8 \<Rightarrow> u64 \<Rightarrow> u32 \<Rightarrow> ('s, 't, 'p) latch_rt \<Rightarrow> ls_result \<times> ('s, 't, 'p) latch_rt" where
  "ls_time_sync_set e source utc_ms uncertainty_ms rt =
     (if source \<le> LS_TIME_SOURCE_NONE \<or> source > LS_TIME_SOURCE_HOST \<or> utc_ms = 0 then (LS_EINVAL, rt)
      else case uptime e rt of
        (now, rt) \<Rightarrow>
          (LS_OK, on_telemetry (time_sync_update (\<lambda>s. s\<lparr>ts_source := source, ts_utc_ms_at_sync := utc_ms,
             ts_monotonic_ms_at_sync := now, ts_uncertainty_ms := uncertainty_ms,
             ts_generation := (if ts_generation s \<noteq> 0xffffffff then ts_generation s + 1 else ts_generation s),
             ts_synchronized := True\<rparr>)) rt))"

definition ls_time_sync_clear :: "ls_telemetry \<Rightarrow> ls_telemetry" where
  "ls_time_sync_clear t =
     t\<lparr>time_sync := \<lparr>ts_source = 0, ts_utc_ms_at_sync = 0, ts_monotonic_ms_at_sync = 0, ts_uncertainty_ms = 0,
                     ts_generation = ts_generation (time_sync t), ts_synchronized = False\<rparr>\<rparr>"

definition ls_time_utc_ms :: "'s latch_env \<Rightarrow> ('s, 't, 'p) latch_rt \<Rightarrow> (ls_result + u64) \<times> ('s, 't, 'p) latch_rt" where
  "ls_time_utc_ms e rt =
     (let s = time_sync (lt_telemetry rt)
      in if \<not> ts_synchronized s then (Inl LS_EAGAIN, rt)
         else case uptime e rt of
           (now, rt) \<Rightarrow>
             let delta = now - ts_monotonic_ms_at_sync s
             in if 0xffffffffffffffff - ts_utc_ms_at_sync s < ucast delta then (Inl LS_EOVERFLOW, rt)
                else (Inr (ts_utc_ms_at_sync s + ucast delta), rt))"

section \<open>Memory regions\<close>

definition LS_DUMP_SAFE :: u32 where "LS_DUMP_SAFE = 1"

text \<open>Addresses are numbers, 0 the null pointer.\<close>

definition ls_dump_region_register ::
    "ls_telemetry_config \<Rightarrow> cstring option \<Rightarrow> nat \<Rightarrow> nat \<Rightarrow> u32 \<Rightarrow> ls_telemetry \<Rightarrow> ls_result \<times> ls_telemetry" where
  "ls_dump_region_register c name address len flags t =
     (if name = None \<or> address = 0 \<or> len = 0 \<or> flags AND LS_DUMP_SAFE = 0 \<or>
         length (dump_regions t) \<ge> LS_MAX_DUMP_REGIONS c
      then (LS_EINVAL, t)
      else (LS_OK, t\<lparr>dump_regions := dump_regions t @
              [\<lparr>dr_name = name, dr_address = address, dr_length = len, dr_flags = flags\<rparr>]\<rparr>))"

definition ls_memory_redact ::
    "ls_telemetry_config \<Rightarrow> nat \<Rightarrow> nat \<Rightarrow> ls_redaction_mode \<Rightarrow> ls_telemetry \<Rightarrow> ls_result \<times> ls_telemetry" where
  "ls_memory_redact c address len mode t =
     (if address = 0 \<or> len = 0 \<or> length (redactions t) \<ge> LS_MAX_REDACTIONS c then (LS_EINVAL, t)
      else (LS_OK, t\<lparr>redactions := redactions t @ [\<lparr>re_address = address, re_length = len, re_mode = mode\<rparr>]\<rparr>))"

definition ls_memory_exclude :: "ls_telemetry_config \<Rightarrow> nat \<Rightarrow> nat \<Rightarrow> ls_telemetry \<Rightarrow> ls_telemetry" where
  "ls_memory_exclude c address len t = snd (ls_memory_redact c address len LS_REDACT_EXCLUDE t)"

text \<open>Sums of an address and a length are \<^verbatim>\<open>uintptr_t\<close>.\<close>

definition address_end :: "nat \<Rightarrow> nat \<Rightarrow> nat" where
  "address_end address len = (address + len) mod 2 ^ 64"

definition ls_redaction_for :: "nat \<Rightarrow> nat \<Rightarrow> ls_telemetry \<Rightarrow> ls_redaction_mode \<times> bool" where
  "ls_redaction_for address len t =
     (case first_where (\<lambda>r. address < address_end (re_address r) (re_length r) \<and> re_address r < address_end address len)
             (redactions t) of
        Some i \<Rightarrow> (re_mode (redactions t ! i), True)
      | None \<Rightarrow> (LS_REDACT_ZERO, False))"

definition ls_stack_bounds_set :: "nat \<Rightarrow> nat \<Rightarrow> ls_telemetry \<Rightarrow> ls_result \<times> ls_telemetry" where
  "ls_stack_bounds_set lower upper t =
     (if lower = 0 \<or> upper = 0 \<or> lower \<ge> upper then (LS_EINVAL, t)
      else (LS_OK, t\<lparr>stack_lower := lower, stack_upper := upper\<rparr>))"

definition ls_heap_stats_update :: "ls_heap_stats option \<Rightarrow> ls_telemetry \<Rightarrow> ls_telemetry" where
  "ls_heap_stats_update stats t = (case stats of None \<Rightarrow> t | Some s \<Rightarrow> t\<lparr>heap_stats := s\<rparr>)"

section \<open>The state after start-up\<close>

text \<open>What \<^verbatim>\<open>ls_init\<close> leaves: zeroed tables, every level recorded, the oldest breadcrumb dropped first.\<close>

definition zero_breadcrumb :: "ls_telemetry_config \<Rightarrow> ls_breadcrumb_record" where
  "zero_breadcrumb c =
     \<lparr>bc_at_ms = 0, bc_message_id = 0, bc_severity = 0, bc_value_count = 0, bc_category_hash = 0, bc_message_hash = 0,
      bc_category = [], bc_message = [],
      bc_values = replicate (LS_BREADCRUMB_KV_MAX c) \<lparr>kv_key_id = 0, kv_type = 0, kv_value = 0\<rparr>\<rparr>"

definition zero_environment :: ls_environment_summary where
  "zero_environment =
     \<lparr>ey_last = \<lparr>es_timestamp_ms = 0, es_pressure_pa = 0, es_depth_cm = 0, es_internal_temperature_c = 0,
        es_humidity_permyriad = 0, es_vibration_mg_rms = 0, es_flags = 0\<rparr>,
      ey_sample_count = 0, ey_maximum_pressure_pa = 0, ey_maximum_depth_cm = 0, ey_maximum_temperature_c = 0,
      ey_maximum_humidity_permyriad = 0, ey_maximum_vibration_mg_rms = 0, ey_leak_events = 0\<rparr>"

definition telemetry_init :: "ls_telemetry_config \<Rightarrow> ls_telemetry" where
  "telemetry_init c =
     \<lparr>breadcrumbs = replicate (LS_BREADCRUMB_CAPACITY c) (zero_breadcrumb c), breadcrumb_next = 0, breadcrumb_count = 0,
      breadcrumb_min_level = LS_SEVERITY_DEBUG, breadcrumb_policy = LS_BREADCRUMB_DROP_OLDEST, metrics = [],
      power_samples = replicate (LS_POWER_SAMPLE_CAPACITY c) zero_power, power_next = 0, power_count = 0, health = [],
      active_task = [], watchdog_last_feed = 0, watchdog_checkpoint = 0, dump_regions = [], redactions = [],
      stack_lower = 0, stack_upper = 0,
      heap_stats = \<lparr>hs_free_bytes = 0, hs_minimum_free_bytes = 0, hs_largest_block = 0, hs_allocation_failures = 0,
        hs_pool_exhaustions = 0\<rparr>,
      spans = replicate (LS_SPAN_CAPACITY c) \<lparr>sr_id = 0, sr_started_ms = 0, sr_elapsed_ms = 0, sr_active = False\<rparr>,
      assert_policy = LS_ASSERT_CONTINUE, assert_callback = False, log_stream = False, log_min_level = LS_SEVERITY_DEBUG,
      mission = zero_mission,
      time_sync = \<lparr>ts_source = LS_TIME_SOURCE_NONE, ts_utc_ms_at_sync = 0, ts_monotonic_ms_at_sync = 0,
        ts_uncertainty_ms = 0, ts_generation = 0, ts_synchronized = False\<rparr>,
      environment = zero_environment,
      supervisor_config = \<lparr>sc_watchdog_max_stale_ms = 0, sc_minimum_vdd_mv = 0, sc_minimum_battery_mv = 0,
        sc_maximum_temperature_c = 0, sc_minimum_heap_free_bytes = 0, sc_maximum_spool_percent = 0,
        sc_maximum_vibration_mg_rms = 0, sc_anomaly_hold_ms = 0\<rparr>,
      supervisor_status = \<lparr>ss_active_alarms = 0, ss_previous_alarms = 0, ss_transitions = 0, ss_last_change_ms = 0,
        ss_configured = False\<rparr>,
      powerfail_last = \<lparr>si_reason = 0, si_tier = 0, si_vcap_mv = 0, si_boot_id = 0, si_fault = 0, si_sealed_ok = False\<rparr>\<rparr>"

definition ls_telemetry_config_default :: ls_telemetry_config where
  "ls_telemetry_config_default =
     \<lparr>LS_ENABLE_BREADCRUMBS = True, LS_ENABLE_METRICS = True, LS_ENABLE_POWER_SAMPLES = True, LS_ENABLE_DUMPS = True,
      LS_ENABLE_STACK_SNAPSHOT = True, LS_ENABLE_WIDE_CONTEXT = False, LS_STORE_STRINGS = True, LS_COMPILED_MIN_LEVEL = 0,
      LS_BREADCRUMB_CAPACITY = 32, LS_BREADCRUMB_MESSAGE_MAX = 48, LS_BREADCRUMB_CATEGORY_MAX = 16,
      LS_BREADCRUMB_KV_MAX = 4, LS_METRIC_CAPACITY = 16, LS_METRIC_NAME_MAX = 32, LS_METRIC_WINDOW_SIZE = 8,
      LS_POWER_SAMPLE_CAPACITY = 16, LS_HEALTH_CAPACITY = 16, LS_MAX_DUMP_REGIONS = 8, LS_MAX_REDACTIONS = 8,
      LS_DUMP_REGION_MAX_BYTES = 512, LS_STACK_SNAPSHOT_MAX = 256, LS_ENABLE_LOGS = True, LS_LOG_ARG_MAX = 4,
      LS_ENABLE_PERFORMANCE = True, LS_SPAN_CAPACITY = 8, LS_BLACKBOX_ENVELOPE_MAX = 24, LS_MISSION_ID_MAX = 32,
      LS_DIVE_ID_MAX = 24, LS_NODE_ID_MAX = 24, LS_VEHICLE_MODE_MAX = 20\<rparr>"

end
