(* ===== verification/LS_Payload.thy ===== *)
theory LS_Payload
  imports LS_Telemetry
begin

text \<open>
  The payload of an envelope, \<^verbatim>\<open>put_identity\<close> to \<^verbatim>\<open>put_payload\<close> of \<^verbatim>\<open>src/envelope/lep.c\<close>:
  each part fills a nested buffer on the stack and then becomes one TLV of the payload. The state of an
  encoder is the payload's writer and the flag that something was left out; the parts that read the clock
  or the flight recorder thread the runtime too.
\<close>

section \<open>Writers\<close>

type_synonym put = "ls_writer \<times> bool"

definition writer_remaining :: "ls_writer \<Rightarrow> nat" where
  "writer_remaining w = (if w_length w > w_capacity w then 0 else w_capacity w - w_length w)"

definition string_value_capacity :: "ls_writer \<Rightarrow> nat" where
  "string_value_capacity w = (if writer_remaining w > 2 then writer_remaining w - 2 else 0)"

definition plain :: "(ls_writer \<Rightarrow> ls_result \<times> ls_writer) \<Rightarrow> put \<Rightarrow> ls_result \<times> put" where
  "plain f p = (case f (fst p) of (r, w) \<Rightarrow> (r, w, snd p))"

definition mark_truncated :: "put \<Rightarrow> put" where
  "mark_truncated p = (fst p, True)"

definition put_string_field :: "u8 \<Rightarrow> cstring option \<Rightarrow> nat \<Rightarrow> put \<Rightarrow> ls_result \<times> put" where
  "put_string_field field text value_limit p =
     (let n = ls_string_length text;
          (n, p) = (if n > 255 then (255, mark_truncated p) else (n, p));
          (n, p) = (if n > value_limit then (value_limit, mark_truncated p) else (n, p))
      in plain (ls_seq [ls_writer_u8 field, ls_writer_u8 (word_of_nat n), ls_writer_write text n]) p)"

text \<open>A string limited by the room of the buffer it goes to, when strings are stored at all.\<close>

definition stored_string :: "ls_telemetry_config \<Rightarrow> u8 \<Rightarrow> cstring option \<Rightarrow> (put \<Rightarrow> ls_result \<times> put) list" where
  "stored_string c field text =
     (if LS_STORE_STRINGS c then [\<lambda>p. put_string_field field text (string_value_capacity (fst p)) p] else [])"

abbreviation w8 :: "u8 \<Rightarrow> put \<Rightarrow> ls_result \<times> put" where "w8 v \<equiv> plain (ls_writer_u8 v)"
abbreviation w16 :: "u16 \<Rightarrow> put \<Rightarrow> ls_result \<times> put" where "w16 v \<equiv> plain (ls_writer_u16 v)"
abbreviation w32 :: "u32 \<Rightarrow> put \<Rightarrow> ls_result \<times> put" where "w32 v \<equiv> plain (ls_writer_u32 v)"
abbreviation w64 :: "u64 \<Rightarrow> put \<Rightarrow> ls_result \<times> put" where "w64 v \<equiv> plain (ls_writer_u64 v)"

definition flag8 :: "bool \<Rightarrow> u8" where "flag8 b = (if b then 1 else 0)"

definition put_tlv :: "u16 \<Rightarrow> bytes \<Rightarrow> put \<Rightarrow> ls_result \<times> put" where
  "put_tlv type v = plain (ls_writer_tlv type (Some v) (word_of_nat (length v)))"

definition put_optional_tlv :: "u16 \<Rightarrow> bytes \<Rightarrow> put \<Rightarrow> ls_result \<times> put" where
  "put_optional_tlv type v p =
     (case put_tlv type v p of
        (r, p') \<Rightarrow> if r = LS_ENOSPACE then (LS_OK, mark_truncated p') else (r, p'))"

text \<open>A nested buffer of a given size, filled by a sequence of steps; the flag is the caller's.\<close>

definition nested :: "nat \<Rightarrow> (put \<Rightarrow> ls_result \<times> put) list \<Rightarrow> bool \<Rightarrow> ls_result \<times> bytes \<times> bool" where
  "nested cap steps truncated =
     (case ls_seq steps (writer_init cap, truncated) of (r, w, t) \<Rightarrow> (r, w_data w, t))"

text \<open>The three endings of the code: the TLV is mandatory; it may be left out when the payload is full; and
  it may also be left out when its own buffer is too small.\<close>

definition put_mandatory :: "u16 \<Rightarrow> nat \<Rightarrow> (put \<Rightarrow> ls_result \<times> put) list \<Rightarrow> put \<Rightarrow> ls_result \<times> put" where
  "put_mandatory type cap steps p =
     (case nested cap steps (snd p) of
        (r, v, t) \<Rightarrow> if r \<noteq> LS_OK then (r, fst p, t) else put_tlv type v (fst p, t))"

definition put_optional :: "u16 \<Rightarrow> nat \<Rightarrow> (put \<Rightarrow> ls_result \<times> put) list \<Rightarrow> put \<Rightarrow> ls_result \<times> put" where
  "put_optional type cap steps p =
     (case nested cap steps (snd p) of
        (r, v, t) \<Rightarrow> if r \<noteq> LS_OK then (r, fst p, t) else put_optional_tlv type v (fst p, t))"

definition put_detail :: "u16 \<Rightarrow> nat \<Rightarrow> (put \<Rightarrow> ls_result \<times> put) list \<Rightarrow> put \<Rightarrow> ls_result \<times> put" where
  "put_detail type cap steps p =
     (case nested cap steps (snd p) of
        (r, v, t) \<Rightarrow> if r = LS_ENOSPACE then (LS_OK, mark_truncated (fst p, t))
                    else if r \<noteq> LS_OK then (r, fst p, t) else put_optional_tlv type v (fst p, t))"

text \<open>The loops over breadcrumbs and metrics end, with success, at the first entry that does not fit its
  buffer.\<close>

fun put_each :: "u16 \<Rightarrow> nat \<Rightarrow> ('a \<Rightarrow> (put \<Rightarrow> ls_result \<times> put) list) \<Rightarrow> 'a list \<Rightarrow> put \<Rightarrow> ls_result \<times> put" where
  "put_each type cap steps [] p = (LS_OK, p)"
| "put_each type cap steps (x # xs) p =
     (case nested cap (steps x) (snd p) of
        (r, v, t) \<Rightarrow> if r = LS_ENOSPACE then (LS_OK, mark_truncated (fst p, t))
                    else if r \<noteq> LS_OK then (r, fst p, t)
                    else and_then (put_optional_tlv type v (fst p, t)) (put_each type cap steps xs))"

section \<open>Identifiers\<close>

definition LS_TLV_IDENTITY :: u16 where "LS_TLV_IDENTITY = 1"
definition LS_TLV_RESET :: u16 where "LS_TLV_RESET = 2"
definition LS_TLV_EVENT :: u16 where "LS_TLV_EVENT = 3"
definition LS_TLV_CPU :: u16 where "LS_TLV_CPU = 4"
definition LS_TLV_FAULT :: u16 where "LS_TLV_FAULT = 5"
definition LS_TLV_BREADCRUMB :: u16 where "LS_TLV_BREADCRUMB = 6"
definition LS_TLV_METRIC :: u16 where "LS_TLV_METRIC = 7"
definition LS_TLV_POWER :: u16 where "LS_TLV_POWER = 8"
definition LS_TLV_HEALTH :: u16 where "LS_TLV_HEALTH = 9"
definition LS_TLV_ASSERT :: u16 where "LS_TLV_ASSERT = 10"
definition LS_TLV_PERIPHERAL :: u16 where "LS_TLV_PERIPHERAL = 11"
definition LS_TLV_LOG :: u16 where "LS_TLV_LOG = 12"
definition LS_TLV_MEMORY :: u16 where "LS_TLV_MEMORY = 13"
definition LS_TLV_STACK :: u16 where "LS_TLV_STACK = 14"
definition LS_TLV_HEAP :: u16 where "LS_TLV_HEAP = 15"
definition LS_TLV_CPU64 :: u16 where "LS_TLV_CPU64 = 16"
definition LS_TLV_BLACKBOX :: u16 where "LS_TLV_BLACKBOX = 17"
definition LS_TLV_MISSION :: u16 where "LS_TLV_MISSION = 18"
definition LS_TLV_TIME_SYNC :: u16 where "LS_TLV_TIME_SYNC = 19"
definition LS_TLV_PROVISIONING :: u16 where "LS_TLV_PROVISIONING = 20"
definition LS_TLV_SUPERVISOR :: u16 where "LS_TLV_SUPERVISOR = 21"
definition LS_TLV_ENVIRONMENT :: u16 where "LS_TLV_ENVIRONMENT = 22"
definition LS_TLV_POWERFAIL_SEAL :: u16 where "LS_TLV_POWERFAIL_SEAL = 23"

fun reset_reason_code :: "ls_reset_reason \<Rightarrow> u8" where
  "reset_reason_code LS_RESET_UNKNOWN = 0"
| "reset_reason_code LS_RESET_POWER_ON = 1"
| "reset_reason_code LS_RESET_PIN = 2"
| "reset_reason_code LS_RESET_SOFTWARE = 3"
| "reset_reason_code LS_RESET_WATCHDOG = 4"
| "reset_reason_code LS_RESET_INDEPENDENT_WATCHDOG = 5"
| "reset_reason_code LS_RESET_WINDOW_WATCHDOG = 6"
| "reset_reason_code LS_RESET_BROWNOUT = 7"
| "reset_reason_code LS_RESET_LOW_POWER_WAKE = 8"
| "reset_reason_code LS_RESET_LOCKUP = 9"
| "reset_reason_code LS_RESET_SECURITY = 10"
| "reset_reason_code LS_RESET_BOOTLOADER = 11"
| "reset_reason_code LS_RESET_FIRMWARE_UPDATE = 12"
| "reset_reason_code LS_RESET_CLOCK_FAILURE = 13"

section \<open>The mandatory parts\<close>

definition or_else :: "cstring option \<Rightarrow> cstring option \<Rightarrow> cstring option" where
  "or_else a b = (case a of None \<Rightarrow> b | Some _ \<Rightarrow> a)"

definition identity_fields :: "'s latch_env \<Rightarrow> cstring option list" where
  "identity_fields e =
     (let i = le_identity e
      in [id_project_id i, id_device_id i, id_product i, id_hardware_revision i, id_bom_revision i,
          id_manufacturing_batch i, id_firmware_version i, or_else (id_firmware_build_id i) (le_build_id e),
          id_bootloader_version i, id_git_commit i, id_variant i, id_architecture i, or_else (id_rtos i) (le_rtos e),
          or_else (id_region i) (le_region e), or_else (id_device_group i) (le_device_group e)])"

text \<open>Each field leaves room for the two bytes of every later field.\<close>

definition put_identity_field :: "nat \<Rightarrow> cstring option \<Rightarrow> put \<Rightarrow> ls_result \<times> put" where
  "put_identity_field index text p =
     (let fields_remaining = 14 - index;
          available = writer_remaining (fst p)
      in if available < 2 + fields_remaining * 2 then (LS_ENOSPACE, p)
         else put_string_field (word_of_nat (index + 1)) text (available - 2 - fields_remaining * 2) p)"

definition put_identity :: "'s latch_env \<Rightarrow> put \<Rightarrow> ls_result \<times> put" where
  "put_identity e p =
     (let outer_capacity = writer_remaining (fst p)
      in if outer_capacity < 4 + 30 then (LS_ENOSPACE, p)
         else
           let value_capacity = (if outer_capacity - 4 > 512 then 512 else outer_capacity - 4)
           in put_mandatory LS_TLV_IDENTITY value_capacity
                (map (\<lambda>(i, text). put_identity_field i text) (zip [0..<15] (identity_fields e))) p)"

definition put_reset :: "('s, 't, 'p) boot_rt \<Rightarrow> ls_event \<Rightarrow> put \<Rightarrow> ls_result \<times> put" where
  "put_reset bt event =
     put_mandatory LS_TLV_RESET 32
       [w8 (reset_reason_code (ri_reason (bt_reset_info bt))), w32 (ri_raw_reason (bt_reset_info bt)),
        w32 (bt_boot_count bt), w32 (ri_previous_uptime_ms (bt_reset_info bt)), w32 (ev_timestamp_ms event),
        w8 (flag8 (ri_expected (bt_reset_info bt))), w8 (flag8 (bt_previous_crashed bt)), w8 (flag8 (bt_boot_loop bt))]"

definition put_event :: "ls_event \<Rightarrow> put \<Rightarrow> ls_result \<times> put" where
  "put_event event =
     put_mandatory LS_TLV_EVENT 64
       [w8 (word_of_nat (priority_code (ev_priority event))), w8 (ev_severity event), w8 (ev_capture_level event),
        w32 (ls_hash_string (ev_domain event)), w32 (ev_code event),
        w32 (if ev_message event \<noteq> None then ls_hash_string (ev_message event) else 0), w32 (ev_fingerprint event),
        w32 (ev_repeat_count event), w32 (ev_first_seen_ms event), w32 (ev_last_seen_ms event)]"

definition put_cpu64 :: "ls_riscv64_context option \<Rightarrow> bool \<Rightarrow> put \<Rightarrow> ls_result \<times> put" where
  "put_cpu64 cx complete =
     put_mandatory LS_TLV_CPU64 292
       ([w8 1, w8 (if complete then 1 else 2), w8 (ucast LS_ARCH_RISCV64), w8 8] @
        (case cx of
           None \<Rightarrow> []
         | Some c \<Rightarrow> if complete then map w64 (rv_x c) @ [w64 (rv_mstatus c), w64 (rv_mcause c), w64 (rv_mtval c), w64 (rv_mepc c)]
                    else []))"

definition cpu_special :: "ls_arch_context \<Rightarrow> u32 list" where
  "cpu_special c =
     [ac_lr c, ac_pc c, ac_xpsr c, ac_msp c, ac_psp c, ac_control c, ac_primask c, ac_basepri c, ac_faultmask c,
      ac_exc_return c, ac_mcause c, ac_mtval c, ac_mstatus c, ac_mepc c, ac_exccause c, ac_excvaddr c, ac_ps c, ac_sar c]"

definition cpu_status :: "ls_arch_context \<Rightarrow> u32 list" where
  "cpu_status c =
     [ac_cfsr c, ac_hfsr c, ac_dfsr c, ac_afsr c, ac_mmfar c, ac_bfar c, ac_shcsr c, ac_icsr c, ac_vtor c, ac_sfsr c,
      ac_sfar c, ucast (ac_fault_address c), ac_signal_number c]"

definition put_cpu_base :: "ls_arch_context \<Rightarrow> put \<Rightarrow> ls_result \<times> put" where
  "put_cpu_base c =
     put_mandatory LS_TLV_CPU 512
       ([w8 (ucast (ac_architecture c)), w8 (ucast (ac_fault c))] @ map w32 (ac_registers c) @ map w32 (cpu_special c) @
        [w8 (flag8 (ac_has_fpu c)), w8 (flag8 (ac_fpu_lazy c))] @
        (if ac_has_fpu c then map w32 (ac_s c) @ [w32 (ac_fpscr c)] else []))"

definition full_cpu64 :: "ls_arch_context \<Rightarrow> ls_riscv64_context option \<Rightarrow> ls_writer \<Rightarrow> bool" where
  "full_cpu64 c riscv64 w \<longleftrightarrow>
     (let cpu_value_length = 2 + 32 * 4 + 18 * 4 + 2 + (if ac_has_fpu c then 17 * 4 else 0);
          legacy_required = 4 + cpu_value_length + 4 + 13 * 4;
          full_cpu64_required = 4 + 4 + (32 + 4) * 8
      in ac_architecture c = LS_ARCH_RISCV64 \<and> riscv64 \<noteq> None \<and>
         writer_remaining w \<ge> legacy_required + full_cpu64_required)"

definition put_cpu :: "ls_arch_context option \<Rightarrow> ls_riscv64_context option \<Rightarrow> put \<Rightarrow> ls_result \<times> put" where
  "put_cpu cpu riscv64 p =
     (case cpu of
        None \<Rightarrow> (LS_OK, p)
      | Some c \<Rightarrow>
          let full = full_cpu64 c riscv64 (fst p)
          in ls_seq
               [\<lambda>p. if ac_architecture c = LS_ARCH_RISCV64
                    then and_then (put_cpu64 riscv64 full p) (\<lambda>p. (LS_OK, if full then p else mark_truncated p))
                    else (LS_OK, p),
                put_cpu_base c,
                put_mandatory LS_TLV_FAULT 64 (map w32 (cpu_status c))] p)"

section \<open>The optional parts\<close>

definition breadcrumb_window :: "ls_telemetry_config \<Rightarrow> ls_telemetry \<Rightarrow> ls_breadcrumb_record list" where
  "breadcrumb_window c t =
     map (\<lambda>n. breadcrumbs t ! ((breadcrumb_next t + LS_BREADCRUMB_CAPACITY c - breadcrumb_count t + n) mod
                               LS_BREADCRUMB_CAPACITY c)) [0..<breadcrumb_count t]"

definition put_breadcrumbs :: "ls_telemetry_config \<Rightarrow> ls_telemetry \<Rightarrow> put \<Rightarrow> ls_result \<times> put" where
  "put_breadcrumbs c t p =
     (if \<not> LS_ENABLE_BREADCRUMBS c then (LS_OK, p)
      else put_each LS_TLV_BREADCRUMB 160
        (\<lambda>r. [w32 (bc_at_ms r), w16 (bc_message_id r), w8 (bc_severity r), w32 (bc_category_hash r),
              w32 (bc_message_hash r)] @
             stored_string c 1 (Some (bc_category r)) @ stored_string c 2 (Some (bc_message r)) @
             [w8 (bc_value_count r)] @
             concat (map (\<lambda>v. [w16 (kv_key_id v), w8 (kv_type v), w32 (kv_value v)])
               (take (unat (bc_value_count r)) (bc_values r))))
        (breadcrumb_window c t) p)"

definition put_metrics :: "ls_telemetry_config \<Rightarrow> ls_telemetry \<Rightarrow> put \<Rightarrow> ls_result \<times> put" where
  "put_metrics c t p =
     (if \<not> LS_ENABLE_METRICS c then (LS_OK, p)
      else put_each LS_TLV_METRIC 128
        (\<lambda>m. [w32 (mt_name_hash m)] @ stored_string c 1 (Some (mt_name m)) @
             [w8 (mt_type m), w32 (mt_value m), w32 (mt_previous m), w32 (mt_minimum m), w32 (mt_maximum m),
              w64 (mt_sum m), w32 (mt_count m), w8 (word_of_nat (mt_window_count m))] @
             map w32 (take (mt_window_count m) (mt_window m)))
        (metrics t) p)"

definition put_power_health :: "ls_telemetry_config \<Rightarrow> ls_telemetry \<Rightarrow> put \<Rightarrow> ls_result \<times> put" where
  "put_power_health c t =
     ls_seq
       ((if LS_ENABLE_POWER_SAMPLES c
         then map (\<lambda>x. put_optional LS_TLV_POWER 20
                [w32 (pw_timestamp_ms x), w16 (pw_vdd_mv x), w16 (pw_battery_mv x), w16 (pw_current_ma x),
                 w16 (pw_temperature_c x), w16 (pw_charger_status x), w16 (pw_power_flags x)]) (power_window c t)
         else []) @
        [put_optional LS_TLV_HEALTH 32
           [w32 (watchdog_last_feed t), w16 (watchdog_checkpoint t), w32 (ls_hash_string (Some (active_task t)))]])"

text \<open>The loop counts down the ages of the records; it ends when the flag is set after a record.\<close>

fun put_blackbox_loop :: "nat \<Rightarrow> put \<times> ls_blackbox \<Rightarrow> ls_result \<times> put \<times> ls_blackbox" where
  "put_blackbox_loop 0 pb = (LS_OK, pb)"
| "put_blackbox_loop (Suc age) (p, bb) =
     (case ls_blackbox_get_recent age bb of
        ((result, r), bb) \<Rightarrow>
          if result = LS_EAGAIN then put_blackbox_loop age (p, bb)
          else if result \<noteq> LS_OK then (result, p, bb)
          else if bb_flags (the r) AND LS_BLACKBOX_SENSITIVE \<noteq> 0 then put_blackbox_loop age (p, bb)
          else
            case put_optional LS_TLV_BLACKBOX 32
                ([w8 1, w32 (bb_timestamp_ms (the r)), w16 (bb_kind (the r)), w16 (bb_source_id (the r)),
                  w16 (bb_flags (the r))] @ map w32 (take 4 (bb_value (the r)))) p of
              (result, p) \<Rightarrow>
                if result \<noteq> LS_OK then (result, p, bb)
                else if snd p then (LS_OK, p, bb)
                else put_blackbox_loop age (p, bb))"

definition put_blackbox :: "ls_telemetry_config \<Rightarrow> put \<times> ls_blackbox \<Rightarrow> ls_result \<times> put \<times> ls_blackbox" where
  "put_blackbox c pb =
     (case ls_blackbox_get_stats (snd pb) of
        (stats, bb) \<Rightarrow>
          put_blackbox_loop
            (if bs_count stats < LS_BLACKBOX_ENVELOPE_MAX c then bs_count stats else LS_BLACKBOX_ENVELOPE_MAX c)
            (fst pb, bb))"

text \<open>\<open>elapsed\<close> is the value of \<^verbatim>\<open>ls_mission_elapsed_ms()\<close>.\<close>

definition mission_shown :: "ls_mission_context \<Rightarrow> bool" where
  "mission_shown m \<longleftrightarrow> mi_mission_id m \<noteq> [] \<or> mi_incident_active m"

definition put_mission :: "ls_telemetry_config \<Rightarrow> ls_mission_context \<Rightarrow> u32 \<Rightarrow> put \<Rightarrow> ls_result \<times> put" where
  "put_mission c m elapsed p =
     (if \<not> mission_shown m then (LS_OK, p)
      else put_optional LS_TLV_MISSION 256
        ([w8 1, w32 (ls_hash_string (Some (mi_mission_id m))), w32 (ls_hash_string (Some (mi_dive_id m))),
          w32 (ls_hash_string (Some (mi_node_id m))), w32 (ls_hash_string (Some (mi_vehicle_mode m))), w32 (mi_phase m),
          w32 (mi_depth_cm m), w32 elapsed, w64 (mi_incident_hi m), w64 (mi_incident_lo m),
          w8 (flag8 (mi_incident_active m))] @
         stored_string c 1 (Some (mi_mission_id m)) @ stored_string c 2 (Some (mi_dive_id m)) @
         stored_string c 3 (Some (mi_node_id m)) @ stored_string c 4 (Some (mi_vehicle_mode m))) p)"

definition put_time_sync :: "ls_time_sync_state \<Rightarrow> put \<Rightarrow> ls_result \<times> put" where
  "put_time_sync s p =
     (if \<not> ts_synchronized s then (LS_OK, p)
      else put_optional LS_TLV_TIME_SYNC 32
        [w8 1, w8 (ts_source s), w64 (ts_utc_ms_at_sync s), w32 (ts_monotonic_ms_at_sync s), w32 (ts_uncertainty_ms s),
         w32 (ts_generation s)] p)"

definition put_provisioning :: "ls_provisioning_state \<Rightarrow> put \<Rightarrow> ls_result \<times> put" where
  "put_provisioning s p =
     (if ps_state s = LS_PROVISIONING_UNPROVISIONED \<and> ps_generation s = 0 then (LS_OK, p)
      else put_optional LS_TLV_PROVISIONING 32
        [w8 1, w8 (ps_state s), w32 (ps_key_id s), w32 (ps_pending_key_id s), w32 (ps_generation s),
         w32 (ps_monotonic_counter s)] p)"

definition put_supervisor :: "ls_supervisor_status \<Rightarrow> put \<Rightarrow> ls_result \<times> put" where
  "put_supervisor s p =
     (if \<not> ss_configured s then (LS_OK, p)
      else put_optional LS_TLV_SUPERVISOR 24
        [w8 1, w32 (ss_active_alarms s), w32 (ss_previous_alarms s), w32 (ss_transitions s), w32 (ss_last_change_ms s)] p)"

definition put_environment :: "ls_environment_summary \<Rightarrow> put \<Rightarrow> ls_result \<times> put" where
  "put_environment y p =
     (if ey_sample_count y = 0 then (LS_OK, p)
      else put_optional LS_TLV_ENVIRONMENT 40
        [w8 1, w32 (es_timestamp_ms (ey_last y)), w32 (es_pressure_pa (ey_last y)), w32 (es_depth_cm (ey_last y)),
         w16 (es_internal_temperature_c (ey_last y)), w16 (es_humidity_permyriad (ey_last y)),
         w16 (es_vibration_mg_rms (ey_last y)), w16 (es_flags (ey_last y)), w32 (ey_sample_count y),
         w32 (ey_leak_events y)] p)"

definition put_powerfail_seal :: "bool \<Rightarrow> bool \<Rightarrow> ls_powerfail_seal_info \<Rightarrow> put \<Rightarrow> ls_result \<times> put" where
  "put_powerfail_seal enabled valid s p =
     (if \<not> enabled \<or> \<not> valid \<or> \<not> si_sealed_ok s \<or> si_reason s > LS_POWERFAIL_PVD then (LS_OK, p)
      else put_optional LS_TLV_POWERFAIL_SEAL 16
        [w8 1, w8 (ucast (si_reason s)), w8 (ucast (si_tier s)), w16 (si_vcap_mv s), w32 (si_boot_id s),
         w32 (si_fault s)] p)"

definition put_details :: "ls_telemetry_config \<Rightarrow> ls_event \<Rightarrow> put \<Rightarrow> ls_result \<times> put" where
  "put_details c event =
     ls_seq
       [\<lambda>p. case ev_assertion event of
              None \<Rightarrow> (LS_OK, p)
            | Some a \<Rightarrow> put_detail LS_TLV_ASSERT 200
                ([w32 (as_line a), w32 (ls_hash_string (as_expression a)), w32 (ls_hash_string (as_file a))] @
                 stored_string c 1 (as_expression a) @ stored_string c 2 (as_file a) @ stored_string c 3 (as_message a)) p,
        \<lambda>p. case ev_peripheral event of
              None \<Rightarrow> (LS_OK, p)
            | Some f \<Rightarrow> put_detail LS_TLV_PERIPHERAL 48
                ([w8 (pf_domain f), w16 (pf_fault f), w16 (pf_instance f), w32 (pf_status f), w32 (pf_address f),
                  w32 (pf_reg f), w32 (pf_timeout_ms f)] @ map w32 (take 4 (pf_auxiliary f))) p,
        \<lambda>p. case ev_log event of
              None \<Rightarrow> (LS_OK, p)
            | Some l \<Rightarrow> put_detail LS_TLV_LOG 24
                ([w16 (li_message_id l), w16 (li_format_id l), w8 (li_argument_count l)] @
                 map w32 (take (unat (li_argument_count l)) (li_arguments l))) p]"

section \<open>Memory\<close>

definition memory_bytes :: "(nat \<Rightarrow> u8) \<Rightarrow> nat \<Rightarrow> nat \<Rightarrow> bytes" where
  "memory_bytes mem address len = map mem [address..<address + len]"

text \<open>Zeros are written in chunks of 32.\<close>

function zero_chunks :: "nat \<Rightarrow> put \<Rightarrow> ls_result \<times> put" where
  "zero_chunks remaining p =
     (if remaining = 0 then (LS_OK, p)
      else let chunk = (if remaining > 32 then 32 else remaining)
           in and_then (plain (ls_writer_write (Some (replicate 32 0)) chunk) p) (zero_chunks (remaining - chunk)))"
  by pat_completeness auto
termination by (relation "measure fst") auto

declare zero_chunks.simps [simp del]

definition region_value :: "(nat \<Rightarrow> u8) \<Rightarrow> ls_dump_region \<Rightarrow> nat \<Rightarrow> (ls_redaction_mode \<times> bool) \<Rightarrow> (put \<Rightarrow> ls_result \<times> put) list" where
  "region_value mem region len redaction =
     [w32 (ls_hash_string (dr_name region)), w32 (word_of_nat (dr_address region)), w32 (word_of_nat (dr_length region)),
      w32 (dr_flags region),
      case redaction of
        (LS_REDACT_HASH, True) \<Rightarrow> w32 (ls_crc32 (memory_bytes mem (dr_address region) len))
      | (LS_REDACT_ZERO, True) \<Rightarrow> zero_chunks len
      | _ \<Rightarrow> plain (ls_writer_write (Some (memory_bytes mem (dr_address region) len)) len)]"

text \<open>The loop over the regions; \<open>True\<close> in the first component asks to end the dump.\<close>

definition put_region ::
    "'s latch_env \<Rightarrow> ls_telemetry \<Rightarrow> ls_dump_region \<Rightarrow> put \<Rightarrow> bool \<times> ls_result \<times> put" where
  "put_region e t region p =
     (let c = le_telemetry e
      in if dr_flags region AND LS_DUMP_SAFE = 0 then (False, LS_OK, p)
         else
           let (len, p) = (if dr_length region > LS_DUMP_REGION_MAX_BYTES c
                           then (LS_DUMP_REGION_MAX_BYTES c, mark_truncated p) else (dr_length region, p));
               redaction = ls_redaction_for (dr_address region) len t
           in if snd redaction \<and> fst redaction = LS_REDACT_EXCLUDE then (False, LS_OK, mark_truncated p)
              else case nested (LS_DUMP_REGION_MAX_BYTES c + 48) (region_value (le_memory e) region len redaction) (snd p) of
                     (r, v, tr) \<Rightarrow>
                       if r = LS_ENOSPACE then (True, LS_OK, mark_truncated (fst p, tr))
                       else if r \<noteq> LS_OK then (True, r, fst p, tr)
                       else (case put_optional_tlv LS_TLV_MEMORY v (fst p, tr) of (r, p) \<Rightarrow> (r \<noteq> LS_OK, r, p)))"

fun put_regions :: "'s latch_env \<Rightarrow> ls_telemetry \<Rightarrow> ls_dump_region list \<Rightarrow> put \<Rightarrow> bool \<times> ls_result \<times> put" where
  "put_regions e t [] p = (False, LS_OK, p)"
| "put_regions e t (region # regions) p =
     (case put_region e t region p of
        (stop, r, p) \<Rightarrow> if stop then (True, r, p) else put_regions e t regions p)"

definition put_stack :: "'s latch_env \<Rightarrow> ls_telemetry \<Rightarrow> ls_event \<Rightarrow> put \<Rightarrow> ls_result \<times> put" where
  "put_stack e t event p =
     (let c = le_telemetry e
      in case ev_cpu event of
           None \<Rightarrow> (LS_OK, p)
         | Some cpu \<Rightarrow>
             if \<not> LS_ENABLE_STACK_SNAPSHOT c \<or> ev_capture_level event < LS_CAPTURE_STACK \<or> stack_lower t = 0 \<or> stack_upper t = 0
             then (LS_OK, p)
             else
               let sp = (if ac_psp cpu \<noteq> 0 then ac_psp cpu else ac_msp cpu)
               in if unat sp < stack_lower t \<or> unat sp \<ge> stack_upper t then (LS_OK, p)
                  else
                    let len = stack_upper t - unat sp;
                        (len, p) = (if len > LS_STACK_SNAPSHOT_MAX c then (LS_STACK_SNAPSHOT_MAX c, mark_truncated p)
                                    else (len, p))
                    in put_detail LS_TLV_STACK (LS_STACK_SNAPSHOT_MAX c + 8)
                         [w32 sp, w32 (word_of_nat len),
                          plain (ls_writer_write (Some (memory_bytes (le_memory e) (unat sp) len)) len)] p)"

definition put_heap :: "ls_heap_stats \<Rightarrow> put \<Rightarrow> ls_result \<times> put" where
  "put_heap h =
     put_optional LS_TLV_HEAP 20
       [w32 (hs_free_bytes h), w32 (hs_minimum_free_bytes h), w32 (hs_largest_block h), w32 (hs_allocation_failures h),
        w32 (hs_pool_exhaustions h)]"

definition put_memory :: "'s latch_env \<Rightarrow> ls_telemetry \<Rightarrow> ls_event \<Rightarrow> put \<Rightarrow> ls_result \<times> put" where
  "put_memory e t event p =
     (if \<not> LS_ENABLE_DUMPS (le_telemetry e) then put_heap (heap_stats t) p
      else case (if ev_capture_level event \<ge> LS_CAPTURE_SELECTIVE then put_regions e t (dump_regions t) p
                 else (False, LS_OK, p)) of
             (stop, r, p) \<Rightarrow>
               if stop then (r, p) else and_then (put_stack e t event p) (put_heap (heap_stats t)))"

section \<open>The payload\<close>

definition on_put ::
    "(put \<Rightarrow> ls_result \<times> put) \<Rightarrow> put \<times> ('s, 't, 'p) latch_rt \<Rightarrow> ls_result \<times> put \<times> ('s, 't, 'p) latch_rt" where
  "on_put f x = (case f (fst x) of (r, p) \<Rightarrow> (r, p, snd x))"

definition put_payload ::
    "'s latch_env \<Rightarrow> ls_event \<Rightarrow> put \<times> ('s, 't, 'p) latch_rt \<Rightarrow> ls_result \<times> put \<times> ('s, 't, 'p) latch_rt" where
  "put_payload e event =
     (let c = le_telemetry e
      in ls_seq
           [on_put (put_identity e),
            \<lambda>x. on_put (put_reset (lt_boot (snd x)) event) x,
            on_put (put_event event),
            on_put (put_cpu (ev_cpu event) (ev_riscv64 event)),
            \<lambda>x. on_put (put_breadcrumbs c (lt_telemetry (snd x))) x,
            \<lambda>x. on_put (put_metrics c (lt_telemetry (snd x))) x,
            \<lambda>x. on_put (put_power_health c (lt_telemetry (snd x))) x,
            \<lambda>x. (case put_blackbox c (fst x, bt_blackbox (lt_boot (snd x))) of
                   (r, p, bb) \<Rightarrow> (r, p, (snd x)\<lparr>lt_boot := (lt_boot (snd x))\<lparr>bt_blackbox := bb\<rparr>\<rparr>)),
            \<lambda>x. (let (elapsed, rt) = (if mission_shown (mission (lt_telemetry (snd x)))
                                      then ls_mission_elapsed_ms e (snd x) else (0, snd x))
                 in on_put (put_mission c (mission (lt_telemetry rt)) elapsed) (fst x, rt)),
            \<lambda>x. on_put (put_time_sync (time_sync (lt_telemetry (snd x)))) x,
            \<lambda>x. on_put (put_provisioning (ls_provisioning_get_state (lt_boot (snd x)))) x,
            \<lambda>x. on_put (put_supervisor (supervisor_status (lt_telemetry (snd x)))) x,
            \<lambda>x. on_put (put_environment (environment (lt_telemetry (snd x)))) x,
            \<lambda>x. on_put (put_powerfail_seal (LS_ENABLE_POWERFAIL_SEAL (le_boot e)) (bt_powerfail_last_valid (lt_boot (snd x)))
                   (powerfail_last (lt_telemetry (snd x)))) x,
            on_put (put_details c event),
            \<lambda>x. on_put (put_memory e (lt_telemetry (snd x)) event) x])"

end
