(* ===== verification/LS_Payload_Facts.thy ===== *)
theory LS_Payload_Facts
  imports LS_Payload
begin

text \<open>
  Facts about the encoder of the payload: every part appends whole TLVs, the mandatory parts have exactly
  the values of the runtime and of the event, and the optional parts never fail.
\<close>

section \<open>Growing by whole TLVs\<close>

definition grown :: "(u16 \<times> bytes) list \<Rightarrow> put \<Rightarrow> put \<Rightarrow> bool" where
  "grown ts p p' \<longleftrightarrow>
     tlvs_ok ts \<and> w_data (fst p') = w_data (fst p) @ tlvs_bytes ts \<and> w_capacity (fst p') = w_capacity (fst p) \<and>
     (writer_ok (fst p) \<longrightarrow> writer_ok (fst p'))"

definition appends :: "('s \<Rightarrow> put) \<Rightarrow> ('s \<Rightarrow> ls_result \<times> 's) \<Rightarrow> bool" where
  "appends \<pi> f \<longleftrightarrow> (\<forall>s. \<exists>ts. grown ts (\<pi> s) (\<pi> (snd (f s))))"

lemma tlvs_bytes_append: "tlvs_bytes (ts @ us) = tlvs_bytes ts @ tlvs_bytes us"
  by (simp add: tlvs_bytes_def)

lemma tlvs_ok_append: "tlvs_ok (ts @ us) \<longleftrightarrow> tlvs_ok ts \<and> tlvs_ok us"
  by (auto simp: tlvs_ok_def)

lemma grown_same: "fst p' = fst p \<Longrightarrow> grown [] p p'"
  by (simp add: grown_def tlvs_ok_def)

lemma grown_flag [simp]: "grown ts (fst p, t) p' \<longleftrightarrow> grown ts p p'" "grown ts p (mark_truncated p') \<longleftrightarrow> grown ts p p'"
  by (simp_all add: grown_def mark_truncated_def)

lemma grown_trans: "grown ts p q \<Longrightarrow> grown us q r \<Longrightarrow> grown (ts @ us) p r"
  by (auto simp: grown_def tlvs_bytes_append tlvs_ok_append)

lemma appendsI: "(\<And>s. \<exists>ts. grown ts (\<pi> s) (\<pi> (snd (f s)))) \<Longrightarrow> appends \<pi> f"
  by (simp add: appends_def)

lemma appendsD: "appends \<pi> f \<Longrightarrow> \<exists>ts. grown ts (\<pi> s) (\<pi> (snd (f s)))"
  by (simp add: appends_def)

lemma appends_same: "(\<And>s. fst (\<pi> (snd (f s))) = fst (\<pi> s)) \<Longrightarrow> appends \<pi> f"
  by (metis appendsI grown_same)

lemma grown_and_then:
  assumes "\<exists>ts. grown ts p (\<pi> (snd q))" and "appends \<pi> f"
  shows "\<exists>ts. grown ts p (\<pi> (snd (and_then q f)))"
  using assms by (metis and_then_def appendsD grown_trans)

lemma appends_seq: "(\<And>f. f \<in> set fs \<Longrightarrow> appends \<pi> f) \<Longrightarrow> appends \<pi> (ls_seq fs)"
proof (induction fs)
  case Nil
  show ?case by (rule appends_same) simp
next
  case (Cons f fs)
  have "appends \<pi> f" and rest: "appends \<pi> (ls_seq fs)"
    using Cons by simp_all
  then have "\<exists>ts. grown ts (\<pi> s) (\<pi> (snd (and_then (f s) (ls_seq fs))))" for s
    by (intro grown_and_then [OF _ rest] appendsD)
  then show ?case by (simp add: appends_def)
qed

lemma put_tlv_full: "put_tlv ty v p = (r, p') \<Longrightarrow> r \<noteq> LS_OK \<Longrightarrow> r = LS_ENOSPACE \<and> p' = p"
  by (cases p) (auto simp: put_tlv_def plain_def ls_writer_tlv_def ls_writer_u16_def ls_writer_write_def
      w_length_def split: if_splits)

lemma put_tlv_grown:
  assumes "put_tlv ty v p = (LS_OK, p')" and "ty \<noteq> 0"
  shows "grown [(ty, take (length v mod 65536) v)] p p'"
proof -
  have "unat (word_of_nat (length v) :: u16) = length v mod 65536"
    by (simp add: unat_of_nat)
  moreover have "length (take (length v mod 65536) v) = length v mod 65536"
    by simp
  moreover have "(word_of_nat (length v mod 65536) :: u16) = word_of_nat (length v)"
    by (simp add: word_unat_eq_iff unat_of_nat)
  ultimately show ?thesis
    using assms
    by (cases p) (auto simp: put_tlv_def plain_def ls_writer_tlv_def ls_writer_u16_def ls_writer_write_def
        grown_def tlvs_ok_def tlv_bytes_def writer_ok_def w_length_def min_def split: if_splits)
qed

lemma some_grown_same: "fst p' = fst p \<Longrightarrow> \<exists>ts. grown ts p p'"
  by (metis grown_same)

lemma grown_other_flag: "grown ts q r \<Longrightarrow> fst q = fst p \<Longrightarrow> grown ts p r"
  by (simp add: grown_def)

lemma put_tlv_appends: "ty \<noteq> 0 \<Longrightarrow> fst q = fst p \<Longrightarrow> \<exists>ts. grown ts p (snd (put_tlv ty v q))"
  by (metis (no_types) grown_same grown_other_flag prod.collapse put_tlv_full put_tlv_grown)

lemma put_optional_tlv_appends: "ty \<noteq> 0 \<Longrightarrow> fst q = fst p \<Longrightarrow> \<exists>ts. grown ts p (snd (put_optional_tlv ty v q))"
  using put_tlv_appends [of ty q p v] by (auto simp: put_optional_tlv_def split: prod.splits)

lemmas some_grown = some_grown_same put_tlv_appends put_optional_tlv_appends

section \<open>Every part appends\<close>


abbreviation appends_put :: "(put \<Rightarrow> ls_result \<times> put) \<Rightarrow> bool" where
  "appends_put \<equiv> appends (\<lambda>p. p)"

lemma appends_id: "appends_put (\<lambda>p. (r, p))"
  by (rule appends_same) simp

lemma put_mandatory_appends: "ty \<noteq> 0 \<Longrightarrow> appends_put (put_mandatory ty cap steps)"
  by (rule appendsI)
    (auto simp: put_mandatory_def split: prod.split intro!: put_tlv_appends put_optional_tlv_appends intro: some_grown_same)

lemma put_optional_appends: "ty \<noteq> 0 \<Longrightarrow> appends_put (put_optional ty cap steps)"
  by (rule appendsI)
    (auto simp: put_optional_def mark_truncated_def split: prod.split intro!: put_tlv_appends put_optional_tlv_appends intro: some_grown_same)

lemma put_detail_appends: "ty \<noteq> 0 \<Longrightarrow> appends_put (put_detail ty cap steps)"
  by (rule appendsI)
    (auto simp: put_detail_def mark_truncated_def split: prod.split intro!: put_tlv_appends put_optional_tlv_appends intro: some_grown_same)

lemma put_each_appends: "ty \<noteq> 0 \<Longrightarrow> appends_put (put_each ty cap steps xs)"
proof (induction xs)
  case Nil
  then show ?case by (simp add: appends_id)
next
  case (Cons x xs)
  show ?case
  proof (rule appendsI)
    fix p :: put
    obtain r v t where n: "nested cap (steps x) (snd p) = (r, v, t)"
      by (cases "nested cap (steps x) (snd p)")
    have "\<exists>ts. grown ts p (snd (and_then (put_optional_tlv ty v (fst p, t)) (put_each ty cap steps xs)))"
      by (rule grown_and_then [where \<pi> = "\<lambda>p. p"]) (simp_all add: Cons some_grown)
    then show "\<exists>ts. grown ts p (snd (put_each ty cap steps (x # xs) p))"
      using n by (auto intro!: put_tlv_appends put_optional_tlv_appends intro: some_grown_same)
  qed
qed

lemma appends_if: "appends \<pi> f \<Longrightarrow> appends \<pi> g \<Longrightarrow> appends \<pi> (\<lambda>s. if b then f s else g s)"
  by (cases b) simp_all

lemma appends_option:
  "appends \<pi> f \<Longrightarrow> (\<And>x. appends \<pi> (g x)) \<Longrightarrow> appends \<pi> (\<lambda>s. case y of None \<Rightarrow> f s | Some x \<Rightarrow> g x s)"
  by (cases y) simp_all

lemmas part_appends = appends_id put_mandatory_appends put_optional_appends put_detail_appends put_each_appends

lemmas tlv_types =
  LS_TLV_IDENTITY_def LS_TLV_RESET_def LS_TLV_EVENT_def LS_TLV_CPU_def LS_TLV_FAULT_def LS_TLV_BREADCRUMB_def
  LS_TLV_METRIC_def LS_TLV_POWER_def LS_TLV_HEALTH_def LS_TLV_ASSERT_def LS_TLV_PERIPHERAL_def LS_TLV_LOG_def
  LS_TLV_MEMORY_def LS_TLV_STACK_def LS_TLV_HEAP_def LS_TLV_CPU64_def LS_TLV_BLACKBOX_def LS_TLV_MISSION_def
  LS_TLV_TIME_SYNC_def LS_TLV_PROVISIONING_def LS_TLV_SUPERVISOR_def LS_TLV_ENVIRONMENT_def
  LS_TLV_POWERFAIL_SEAL_def

lemma put_breadcrumbs_appends: "appends_put (put_breadcrumbs c t)"
  unfolding put_breadcrumbs_def by (intro appends_if part_appends) (simp_all add: tlv_types)

lemma put_metrics_appends: "appends_put (put_metrics c t)"
  unfolding put_metrics_def by (intro appends_if part_appends) (simp_all add: tlv_types)

lemma put_power_health_appends: "appends_put (put_power_health c t)"
  unfolding put_power_health_def by (rule appends_seq) (auto simp: tlv_types intro: part_appends split: if_splits)

lemma put_mission_appends: "appends_put (put_mission c m elapsed)"
  unfolding put_mission_def by (intro appends_if part_appends) (simp_all add: tlv_types)

lemma put_time_sync_appends: "appends_put (put_time_sync s)"
  unfolding put_time_sync_def by (intro appends_if part_appends) (simp_all add: tlv_types)

lemma put_provisioning_appends: "appends_put (put_provisioning s)"
  unfolding put_provisioning_def by (intro appends_if part_appends) (simp_all add: tlv_types)

lemma put_supervisor_appends: "appends_put (put_supervisor s)"
  unfolding put_supervisor_def by (intro appends_if part_appends) (simp_all add: tlv_types)

lemma put_environment_appends: "appends_put (put_environment y)"
  unfolding put_environment_def by (intro appends_if part_appends) (simp_all add: tlv_types)

lemma put_powerfail_seal_appends: "appends_put (put_powerfail_seal enabled valid s)"
  unfolding put_powerfail_seal_def by (intro appends_if part_appends) (simp_all add: tlv_types)

lemma put_details_appends: "appends_put (put_details c event)"
  unfolding put_details_def
  by (rule appends_seq) (auto simp: tlv_types intro!: appends_option intro: part_appends)

lemma put_region_appends: "\<exists>ts. grown ts p (snd (snd (put_region e t region p)))"
proof -
  have "\<exists>ts. grown ts p (snd (snd (case nested cap steps f of (r, v, tr) \<Rightarrow>
          if r = LS_ENOSPACE then (True, LS_OK, mark_truncated (fst q, tr))
          else if r \<noteq> LS_OK then (True, r, fst q, tr)
          else (case put_optional_tlv LS_TLV_MEMORY v (fst q, tr) of (r, p) \<Rightarrow> (r \<noteq> LS_OK, r, p)))))"
    if "fst q = fst p" for cap steps f and q :: put
  proof -
    obtain r v tr where n: "nested cap steps f = (r, v, tr)" by (metis prod_cases3)
    obtain r' q' where t: "put_optional_tlv LS_TLV_MEMORY v (fst q, tr) = (r', q')" by (metis surj_pair)
    have "\<exists>ts. grown ts p q'"
      using put_optional_tlv_appends [of LS_TLV_MEMORY "(fst q, tr)" p v] t that by (simp add: tlv_types)
    then show ?thesis using n t that by (simp add: some_grown_same)
  qed
  then show ?thesis
    by (cases "dr_length region > LS_DUMP_REGION_MAX_BYTES (le_telemetry e)")
      (simp_all add: put_region_def Let_def mark_truncated_def some_grown_same del: split_paired_Ex)
qed

lemma put_regions_appends: "\<exists>ts. grown ts p (snd (snd (put_regions e t regions p)))"
proof (induction regions arbitrary: p)
  case Nil
  show ?case by (simp add: some_grown_same)
next
  case (Cons region regions)
  show ?case
    using put_region_appends [of p e t region] Cons.IH
    by (auto split: prod.split) (metis grown_trans)
qed

lemma put_stack_appends: "appends_put (put_stack e t event)"
proof (rule appendsI)
  fix p
  have "fst q = fst p \<Longrightarrow> \<exists>ts. grown ts p (snd (put_detail LS_TLV_STACK cap steps q))" for q cap steps
    using appendsD [OF put_detail_appends [of LS_TLV_STACK cap steps], of q]
    by (auto simp: tlv_types dest: grown_other_flag)
  then show "\<exists>ts. grown ts p (snd (put_stack e t event p))"
    by (auto simp: put_stack_def Let_def mark_truncated_def split: option.split intro!: some_grown_same)
qed

lemma put_heap_appends: "appends_put (put_heap h)"
  unfolding put_heap_def by (rule part_appends) (simp add: tlv_types)

lemma put_memory_appends: "appends_put (put_memory e t event)"
proof (rule appendsI)
  fix p
  obtain stop r q where q:
    "(if ev_capture_level event \<ge> LS_CAPTURE_SELECTIVE then put_regions e t (dump_regions t) p else (False, LS_OK, p)) =
     (stop, r, q)"
    by (metis prod_cases3)
  then obtain ts where ts: "grown ts p q"
    using put_regions_appends [of p e t "dump_regions t"]
    by (cases "ev_capture_level event \<ge> LS_CAPTURE_SELECTIVE") (auto intro: grown_same)
  have "\<exists>us. grown us q (snd (and_then (put_stack e t event q) (put_heap (heap_stats t))))"
    by (rule grown_and_then [where \<pi> = "\<lambda>p. p"])
      (rule appendsD [OF put_stack_appends], rule put_heap_appends)
  then show "\<exists>ts. grown ts p (snd (put_memory e t event p))"
    using ts q appendsD [OF put_heap_appends, of p "heap_stats t"]
    by (auto simp: put_memory_def dest: grown_trans)
qed



lemma put_blackbox_loop_appends: "\<exists>ts. grown ts (fst pb) (fst (snd (put_blackbox_loop n pb)))"
proof (induction n arbitrary: pb)
  case 0
  show ?case by (simp add: some_grown_same)
next
  case (Suc age)
  obtain p bb where pb: "pb = (p, bb)" by (cases pb)
  obtain result r bb' where recent: "ls_blackbox_get_recent age bb = ((result, r), bb')" by (metis surj_pair)
  let ?part = "put_optional LS_TLV_BLACKBOX 32
      ([w8 1, w32 (bb_timestamp_ms (the r)), w16 (bb_kind (the r)), w16 (bb_source_id (the r)), w16 (bb_flags (the r))] @
       map w32 (take 4 (bb_value (the r))))"
  obtain r' q where q: "?part p = (r', q)" by (metis surj_pair)
  have "\<exists>ts. grown ts p (snd (?part p))"
    by (rule appendsD [OF put_optional_appends]) (simp add: tlv_types)
  then obtain ts where "grown ts p q" using q by auto
  then show ?case
    using Suc [of "(q, bb')"] Suc [of "(p, bb')"] pb recent q
    by (auto simp: some_grown_same dest: grown_trans)
qed

lemma put_blackbox_appends: "\<exists>ts. grown ts (fst pb) (fst (snd (put_blackbox c pb)))"
  using put_blackbox_loop_appends [of "(fst pb, snd (ls_blackbox_get_stats (snd pb)))"]
  by (auto simp: put_blackbox_def split: prod.split)

lemma on_put_appends: "appends_put f \<Longrightarrow> appends fst (on_put f)"
  by (simp add: appends_def on_put_def split: prod.split) (metis snd_conv)

section \<open>What is written\<close>

text \<open>A step that writes exactly the given bytes when there is room for them.\<close>

definition writes :: "bytes \<Rightarrow> (put \<Rightarrow> ls_result \<times> put) \<Rightarrow> bool" where
  "writes bs f \<longleftrightarrow>
     (\<forall>w t. w_length w + length bs \<le> w_capacity w \<longrightarrow> f (w, t) = (LS_OK, w\<lparr>w_data := w_data w @ bs\<rparr>, t))"

lemma writes_write: "n \<le> length d \<Longrightarrow> writes (take n d) (plain (ls_writer_write (Some d) n))"
  by (auto simp: writes_def plain_def ls_writer_write_def)

lemma writes_word:
  "writes [v8] (w8 v8)" "writes (le16 v16) (w16 v16)" "writes (le32 v32) (w32 v32)" "writes (le64 v64) (w64 v64)"
  using writes_write [of 1 "[v8]"] writes_write [of 2 "le16 v16"] writes_write [of 4 "le32 v32"] writes_write [of 8 "le64 v64"]
  by (simp_all add: ls_writer_u8_def ls_writer_u16_def ls_writer_u32_def ls_writer_u64_def)

lemma writes_Nil: "writes [] (ls_seq [])"
  by (simp add: writes_def)

lemma writes_then: "writes bs f \<Longrightarrow> writes cs g \<Longrightarrow> writes (bs @ cs) (\<lambda>p. and_then (f p) g)"
  by (simp add: writes_def w_length_def)

lemma writes_Cons: "writes bs f \<Longrightarrow> writes cs (ls_seq fs) \<Longrightarrow> writes (bs @ cs) (ls_seq (f # fs))"
  using writes_then [of bs f cs "ls_seq fs"] by (simp add: writes_def)

lemma writes_append: "writes bs (ls_seq fs) \<Longrightarrow> writes cs (ls_seq gs) \<Longrightarrow> writes (bs @ cs) (ls_seq (fs @ gs))"
  using writes_then [of bs "ls_seq fs" cs "ls_seq gs"] by (simp add: writes_def ls_seq_append)

lemma writes_words32: "writes (concat (map le32 vs)) (ls_seq (map w32 vs))"
  by (induction vs) (simp_all add: writes_Nil writes_Cons writes_word del: ls_seq.simps)

lemma writes_words64: "writes (concat (map le64 vs)) (ls_seq (map w64 vs))"
  by (induction vs) (simp_all add: writes_Nil writes_Cons writes_word del: ls_seq.simps)

lemmas writes_intros = writes_Nil writes_Cons writes_append writes_word writes_words32 writes_words64

lemma nested_writes:
  "writes bs (ls_seq steps) \<Longrightarrow> length bs \<le> cap \<Longrightarrow> nested cap steps t = (LS_OK, bs, t)"
  by (simp add: nested_def writes_def writer_init_def w_length_def)

lemma put_mandatory_writes:
  "writes bs (ls_seq steps) \<Longrightarrow> length bs \<le> cap \<Longrightarrow> put_mandatory ty cap steps p = put_tlv ty bs p"
  by (simp add: put_mandatory_def nested_writes)

section \<open>The mandatory parts\<close>

text \<open>The value of the RESET and of the EVENT part.\<close>

definition reset_value :: "('s, 't, 'p) boot_rt \<Rightarrow> ls_event \<Rightarrow> bytes" where
  "reset_value bt event =
     [reset_reason_code (ri_reason (bt_reset_info bt))] @ le32 (ri_raw_reason (bt_reset_info bt)) @
     le32 (bt_boot_count bt) @ le32 (ri_previous_uptime_ms (bt_reset_info bt)) @ le32 (ev_timestamp_ms event) @
     [flag8 (ri_expected (bt_reset_info bt)), flag8 (bt_previous_crashed bt), flag8 (bt_boot_loop bt)]"

definition event_value :: "ls_event \<Rightarrow> bytes" where
  "event_value event =
     [word_of_nat (priority_code (ev_priority event)), ev_severity event, ev_capture_level event] @
     le32 (ls_hash_string (ev_domain event)) @ le32 (ev_code event) @ le32 (ls_hash_string (ev_message event)) @
     le32 (ev_fingerprint event) @ le32 (ev_repeat_count event) @ le32 (ev_first_seen_ms event) @
     le32 (ev_last_seen_ms event)"

lemma writes_eq: "writes bs f \<Longrightarrow> bs = cs \<Longrightarrow> writes cs f"
  by simp

lemma put_reset_tlv: "put_reset bt event p = put_tlv LS_TLV_RESET (reset_value bt event) p"
  unfolding put_reset_def
  by (rule put_mandatory_writes, rule writes_eq, (rule writes_intros)+) (simp_all add: reset_value_def)

lemma put_event_tlv: "put_event event p = put_tlv LS_TLV_EVENT (event_value event) p"
  unfolding put_event_def
  by (rule put_mandatory_writes, rule writes_eq, (rule writes_intros)+)
    (simp_all add: event_value_def ls_hash_string_def split: option.split)

lemma put_mandatory_one:
  assumes "put_mandatory ty cap steps p = (LS_OK, q)" and "ty \<noteq> 0"
  shows "\<exists>v. grown [(ty, v)] p q"
proof -
  obtain v t where n: "nested cap steps (snd p) = (LS_OK, v, t)"
    using assms by (cases "nested cap steps (snd p)") (auto simp: put_mandatory_def split: if_splits)
  then have "put_tlv ty v (fst p, t) = (LS_OK, q)" using assms by (simp add: put_mandatory_def)
  from put_tlv_grown [OF this assms(2)] show ?thesis by auto
qed


text \<open>The types of the parts that a CPU context adds, none of which may be left out.\<close>

definition cpu_types :: "ls_arch_context option \<Rightarrow> u16 list" where
  "cpu_types cpu =
     (case cpu of None \<Rightarrow> []
      | Some c \<Rightarrow> (if ac_architecture c = LS_ARCH_RISCV64 then [LS_TLV_CPU64] else []) @ [LS_TLV_CPU, LS_TLV_FAULT])"

lemma grown_Cons: "grown [t] p q \<Longrightarrow> grown ts q r \<Longrightarrow> grown (t # ts) p r"
  using grown_trans [of "[t]" p q ts r] by simp

lemma put_cpu_grown:
  assumes "put_cpu cpu riscv64 p = (LS_OK, q)"
  shows "\<exists>ts. grown ts p q \<and> map fst ts = cpu_types cpu"
proof (cases cpu)
  case None
  then show ?thesis using assms by (auto simp: put_cpu_def cpu_types_def grown_same)
next
  case (Some c)
  let ?is = "ac_architecture c = LS_ARCH_RISCV64"
  obtain p1 p2 where
    first: "(if ?is then \<exists>p0. put_cpu64 riscv64 (full_cpu64 c riscv64 (fst p)) p = (LS_OK, p0) \<and> fst p1 = fst p0 else p1 = p)"
    and second: "put_cpu_base c p1 = (LS_OK, p2)"
    and third: "put_mandatory LS_TLV_FAULT 64 (map w32 (cpu_status c)) p2 = (LS_OK, q)"
    using assms Some
    by (fastforce simp: put_cpu_def Let_def and_then_eq_OK mark_truncated_def split: if_splits)
  obtain v2 where v2: "grown [(LS_TLV_CPU, v2)] p1 p2"
    using put_mandatory_one [OF second [unfolded put_cpu_base_def]] by (auto simp: tlv_types)
  obtain v3 where v3: "grown [(LS_TLV_FAULT, v3)] p2 q"
    using put_mandatory_one [OF third] by (auto simp: tlv_types)
  have base: "grown [(LS_TLV_CPU, v2), (LS_TLV_FAULT, v3)] p1 q"
    using grown_trans [OF v2 v3] by simp
  show ?thesis
  proof (cases ?is)
    case True
    then obtain p0 where "put_cpu64 riscv64 (full_cpu64 c riscv64 (fst p)) p = (LS_OK, p0)" and p1: "fst p1 = fst p0"
      using first by auto
    from put_mandatory_one [OF this(1) [unfolded put_cpu64_def]]
    obtain v1 where "grown [(LS_TLV_CPU64, v1)] p p0" by (auto simp: tlv_types)
    then have "grown [(LS_TLV_CPU64, v1), (LS_TLV_CPU, v2), (LS_TLV_FAULT, v3)] p q"
      using grown_Cons grown_other_flag [OF base p1] by blast
    then show ?thesis using True Some by (intro exI conjI) (auto simp: cpu_types_def)
  next
    case False
    then show ?thesis using first base Some by (intro exI conjI) (auto simp: cpu_types_def)
  qed
qed

text \<open>The parts that may be left out, in one step.\<close>

definition optional_parts ::
    "'s latch_env \<Rightarrow> ls_event \<Rightarrow> (put \<times> ('s, 't, 'p) latch_rt \<Rightarrow> ls_result \<times> put \<times> ('s, 't, 'p) latch_rt) list" where
  "optional_parts e event =
     (let c = le_telemetry e
      in [\<lambda>x. on_put (put_breadcrumbs c (lt_telemetry (snd x))) x,
          \<lambda>x. on_put (put_metrics c (lt_telemetry (snd x))) x,
          \<lambda>x. on_put (put_power_health c (lt_telemetry (snd x))) x,
          \<lambda>x. (case put_blackbox c (fst x, bt_blackbox (lt_boot (snd x))) of
                 (r, p, bb) \<Rightarrow> (r, p, (snd x)\<lparr>lt_boot := (lt_boot (snd x))\<lparr>bt_blackbox := bb\<rparr>\<rparr>)),
          \<lambda>x. (let (elapsed, rt) = (if mission_shown (mission (lt_telemetry (snd x)))
                                    then ls_mission_elapsed_ms e (snd x) else (0, snd x))
               in on_put (put_mission c (mission (lt_telemetry rt)) elapsed) (fst x, rt)),
          \<lambda>x. on_put (put_time_sync (time_sync (lt_telemetry (snd x)))) x,
          \<lambda>x. on_put (put_provisioning (ls_provisioning_get_state (lt_boot (snd x)))) x,
          \<lambda>x. on_put (put_supervisor (supervisor_status (lt_telemetry (snd x)))) x,
          \<lambda>x. on_put (put_environment (environment (lt_telemetry (snd x)))) x,
          \<lambda>x. on_put (put_powerfail_seal (LS_ENABLE_POWERFAIL_SEAL (le_boot e)) (bt_powerfail_last_valid (lt_boot (snd x)))
                 (powerfail_last (lt_telemetry (snd x)))) x,
          on_put (put_details c event),
          \<lambda>x. on_put (put_memory e (lt_telemetry (snd x)) event) x])"

lemma put_payload_parts:
  "put_payload e event =
   ls_seq ([on_put (put_identity e), \<lambda>x. on_put (put_reset (lt_boot (snd x)) event) x, on_put (put_event event),
            on_put (put_cpu (ev_cpu event) (ev_riscv64 event))] @ optional_parts e event)"
  by (simp add: put_payload_def optional_parts_def Let_def)

lemma appends_on_put: "(\<And>x. appends_put (f x)) \<Longrightarrow> appends fst (\<lambda>x. on_put (f x) x)"
  by (rule appendsI) (rule appendsD [OF on_put_appends])

lemma mission_part_appends:
  "appends fst (\<lambda>x. case g x of (elapsed, rt) \<Rightarrow> on_put (put_mission c (m rt) elapsed) (fst x, rt))"
  using put_mission_appends by (auto simp: appends_def on_put_def split: prod.split) (metis snd_conv)

lemma blackbox_part_appends:
  "appends fst (\<lambda>x. case put_blackbox c (fst x, f x) of (r, p, bb) \<Rightarrow> (r, p, g x bb))"
  using put_blackbox_appends by (auto simp: appends_def split: prod.split) (metis fst_conv snd_conv)

lemma optional_parts_append: "appends fst (ls_seq (optional_parts e event))"
  by (rule appends_seq)
    (auto simp: optional_parts_def Let_def [of "le_telemetry e"] intro!: appends_on_put on_put_appends
      mission_part_appends blackbox_part_appends
      put_breadcrumbs_appends put_metrics_appends put_power_health_appends put_time_sync_appends put_provisioning_appends
      put_supervisor_appends put_environment_appends put_powerfail_seal_appends put_details_appends put_memory_appends)


lemma put_identity_one: "put_identity e p = (LS_OK, q) \<Longrightarrow> \<exists>v. grown [(LS_TLV_IDENTITY, v)] p q"
  by (auto simp: put_identity_def Let_def tlv_types split: if_splits intro: put_mandatory_one)

lemma on_put_OK: "on_put f x = (LS_OK, y) \<longleftrightarrow> f (fst x) = (LS_OK, fst y) \<and> snd y = snd x"
  by (cases y) (auto simp: on_put_def split: prod.split)

lemma take_same_length: "length v < 65536 \<Longrightarrow> take (length v mod 65536) v = v"
  by simp

lemma length_values: "length (reset_value bt event) = 20" "length (event_value event) = 31"
  by (simp_all add: reset_value_def event_value_def)

lemma put_payload_grown:
  assumes "put_payload e event (p, rt) = (LS_OK, q, rt')"
  shows "\<exists>identity cpu rest. map fst cpu = cpu_types (ev_cpu event) \<and>
    grown ([(LS_TLV_IDENTITY, identity), (LS_TLV_RESET, reset_value (lt_boot rt) event),
            (LS_TLV_EVENT, event_value event)] @ cpu @ rest) p q"
proof -
  obtain p1 p2 p3 p4 where
    "put_identity e p = (LS_OK, p1)" "put_reset (lt_boot rt) event p1 = (LS_OK, p2)" "put_event event p2 = (LS_OK, p3)"
    "put_cpu (ev_cpu event) (ev_riscv64 event) p3 = (LS_OK, p4)" "ls_seq (optional_parts e event) (p4, rt) = (LS_OK, q, rt')"
    using assms by (auto simp: put_payload_parts and_then_eq_OK on_put_OK)
  note parts = this [unfolded put_reset_tlv put_event_tlv]
  obtain identity where 1: "grown [(LS_TLV_IDENTITY, identity)] p p1" using put_identity_one [OF parts(1)] by blast
  have 2: "grown [(LS_TLV_RESET, reset_value (lt_boot rt) event)] p1 p2"
    and 3: "grown [(LS_TLV_EVENT, event_value event)] p2 p3"
    using put_tlv_grown [OF parts(2)] put_tlv_grown [OF parts(3)] by (simp_all add: length_values tlv_types)
  obtain cpu where 4: "grown cpu p3 p4" "map fst cpu = cpu_types (ev_cpu event)" using put_cpu_grown [OF parts(4)] by blast
  obtain rest where 5: "grown rest p4 q"
    using appendsD [OF optional_parts_append, of "(p4, rt)" e event] parts(5) by auto
  show ?thesis
    using grown_Cons [OF 1 grown_Cons [OF 2 grown_Cons [OF 3 grown_trans [OF 4(1) 5]]]] 4(2) by auto
qed

section \<open>The encoder never gives up on an event\<close>

text \<open>Steps whose only failure is a full buffer.\<close>

definition spare :: "('s \<Rightarrow> ls_result \<times> 's) \<Rightarrow> bool" where
  "spare f \<longleftrightarrow> (\<forall>p. fst (f p) = LS_OK \<or> fst (f p) = LS_ENOSPACE)"

lemma spare_seq: "(\<And>f. f \<in> set fs \<Longrightarrow> spare f) \<Longrightarrow> spare (ls_seq fs)"
proof (induction fs)
  case Nil
  show ?case by (simp add: spare_def)
next
  case (Cons f fs)
  then have "spare f" "spare (ls_seq fs)" by simp_all
  then show ?case unfolding spare_def and_then_def ls_seq.simps by metis
qed

lemma write_spare: "spare (ls_writer_write d n)"
  by (simp add: spare_def ls_writer_write_def)

lemma plain_spare: "spare f \<Longrightarrow> spare (plain f)"
  unfolding spare_def plain_def by (metis (no_types, lifting) case_prod_beta' fst_conv)

lemma word_spare: "spare (w8 v8)" "spare (w16 v16)" "spare (w32 v32)" "spare (w64 v64)"
  by (simp_all add: ls_writer_u8_def ls_writer_u16_def ls_writer_u32_def ls_writer_u64_def plain_spare write_spare)

lemma string_field_spare: "fst (put_string_field field text limit p) = LS_OK \<or>
  fst (put_string_field field text limit p) = LS_ENOSPACE"
proof -
  have "spare (plain (ls_seq [ls_writer_u8 field, ls_writer_u8 v, ls_writer_write text n]))" for v n
    by (intro plain_spare spare_seq) (auto simp: ls_writer_u8_def write_spare)
  then have "fst (plain (ls_seq [ls_writer_u8 field, ls_writer_u8 v, ls_writer_write text n]) q) = LS_OK \<or>
      fst (plain (ls_seq [ls_writer_u8 field, ls_writer_u8 v, ls_writer_write text n]) q) = LS_ENOSPACE" for v n q
    unfolding spare_def by blast
  then show ?thesis by (simp add: put_string_field_def Let_def case_prod_beta' del: ls_seq.simps)
qed

lemma stored_string_spare: "f \<in> set (stored_string c field text) \<Longrightarrow> spare f"
  using string_field_spare by (auto simp: stored_string_def spare_def)

lemma zero_chunks_spare: "spare (zero_chunks n)"
proof (unfold spare_def, intro allI)
  fix p
  show "fst (zero_chunks n p) = LS_OK \<or> fst (zero_chunks n p) = LS_ENOSPACE"
  proof (induction n p rule: zero_chunks.induct)
    case (1 n p)
    let ?chunk = "if n > 32 then 32 else n"
    obtain r q where q: "plain (ls_writer_write (Some (replicate 32 0)) ?chunk) p = (r, q)" by (metis surj_pair)
    then have "r = LS_OK \<or> r = LS_ENOSPACE"
      using plain_spare [OF write_spare, of "Some (replicate 32 0)" ?chunk] unfolding spare_def by (metis fst_conv)
    then show ?case
      using 1 [OF _ refl, of q] q by (subst (1 2) zero_chunks.simps) (auto simp: Let_def)
  qed
qed

lemma nested_spare:
  assumes "\<And>f. f \<in> set steps \<Longrightarrow> spare f"
  shows "fst (nested cap steps t) = LS_OK \<or> fst (nested cap steps t) = LS_ENOSPACE"
  using spare_seq [of steps] assms by (auto simp: nested_def spare_def split: prod.split) (metis fst_conv)+

lemma put_optional_tlv_OK: "fst (put_optional_tlv ty v p) = LS_OK"
  using put_tlv_full [of ty v p] by (auto simp: put_optional_tlv_def split: prod.split)

lemma put_optional_OK: "writes bs (ls_seq steps) \<Longrightarrow> length bs \<le> cap \<Longrightarrow> fst (put_optional ty cap steps p) = LS_OK"
  by (simp add: put_optional_def nested_writes put_optional_tlv_OK)

lemma put_detail_OK: "(\<And>f. f \<in> set steps \<Longrightarrow> spare f) \<Longrightarrow> fst (put_detail ty cap steps p) = LS_OK"
  using nested_spare [of steps cap "snd p"]
  by (auto simp: put_detail_def put_optional_tlv_OK split: prod.split)

lemma put_each_OK: "(\<And>x f. f \<in> set (steps x) \<Longrightarrow> spare f) \<Longrightarrow> fst (put_each ty cap steps xs p) = LS_OK"
proof (induction xs arbitrary: p)
  case Nil
  show ?case by simp
next
  case (Cons x xs)
  show ?case
    using nested_spare [of "steps x" cap "snd p", OF Cons.prems] Cons.IH [OF Cons.prems]
    by (auto simp: put_optional_tlv_OK and_then_def split: prod.split)
qed


text \<open>Each optional part succeeds, whatever the room that is left.\<close>

lemma put_breadcrumbs_OK: "fst (put_breadcrumbs c t p) = LS_OK"
  by (auto simp: put_breadcrumbs_def intro!: put_each_OK dest: stored_string_spare intro: word_spare)

lemma put_metrics_OK: "fst (put_metrics c t p) = LS_OK"
  by (auto simp: put_metrics_def intro!: put_each_OK dest: stored_string_spare intro: word_spare)

lemma seq_OK: "(\<And>f p. f \<in> set fs \<Longrightarrow> fst (f p) = LS_OK) \<Longrightarrow> fst (ls_seq fs p) = LS_OK"
  by (induction fs arbitrary: p) (simp_all add: and_then_def)

lemma if_cases: "(b \<Longrightarrow> x = z) \<Longrightarrow> (\<not> b \<Longrightarrow> y = z) \<Longrightarrow> (if b then x else y) = z"
  by simp

lemma length_concat_le32: "length (concat (map le32 vs)) = 4 * length vs"
  by (induction vs) simp_all

lemma put_power_health_OK: "fst (put_power_health c t p) = LS_OK"
proof -
  have "fst (put_optional LS_TLV_POWER 20
      [w32 (pw_timestamp_ms x), w16 (pw_vdd_mv x), w16 (pw_battery_mv x), w16 (pw_current_ma x),
       w16 (pw_temperature_c x), w16 (pw_charger_status x), w16 (pw_power_flags x)] p) = LS_OK" for x p
    by (rule put_optional_OK, (rule writes_intros)+) simp
  moreover have "fst (put_optional LS_TLV_HEALTH 32
      [w32 (watchdog_last_feed t), w16 (watchdog_checkpoint t), w32 (ls_hash_string (Some (active_task t)))] p) = LS_OK" for p
    by (rule put_optional_OK, (rule writes_intros)+) simp
  ultimately show ?thesis
    unfolding put_power_health_def by (intro seq_OK) (auto split: if_splits)
qed

lemma put_time_sync_OK: "fst (put_time_sync s p) = LS_OK"
  unfolding put_time_sync_def if_distrib [of fst]
  by (rule if_cases) (simp, rule put_optional_OK, (rule writes_intros)+, simp)

lemma put_provisioning_OK: "fst (put_provisioning s p) = LS_OK"
  unfolding put_provisioning_def if_distrib [of fst]
  by (rule if_cases) (simp, rule put_optional_OK, (rule writes_intros)+, simp)

lemma put_supervisor_OK: "fst (put_supervisor s p) = LS_OK"
  unfolding put_supervisor_def if_distrib [of fst]
  by (rule if_cases) (simp, rule put_optional_OK, (rule writes_intros)+, simp)

lemma put_environment_OK: "fst (put_environment y p) = LS_OK"
  unfolding put_environment_def if_distrib [of fst]
  by (rule if_cases) (simp, rule put_optional_OK, (rule writes_intros)+, simp)

lemma put_powerfail_seal_OK: "fst (put_powerfail_seal enabled valid s p) = LS_OK"
  unfolding put_powerfail_seal_def if_distrib [of fst]
  by (rule if_cases) (simp, rule put_optional_OK, (rule writes_intros)+, simp)

lemma put_heap_OK: "fst (put_heap h p) = LS_OK"
  unfolding put_heap_def by (rule put_optional_OK, (rule writes_intros)+) simp

lemma put_details_OK: "fst (put_details c event p) = LS_OK"
  unfolding put_details_def
  by (rule seq_OK)
    (auto simp: word_spare stored_string_spare split: option.split intro!: put_detail_OK)

lemma put_region_OK: "fst (snd (put_region e t region p)) = LS_OK"
proof -
  have "fst (nested cap (region_value m region len redaction) f) = LS_OK \<or>
      fst (nested cap (region_value m region len redaction) f) = LS_ENOSPACE" for cap m len redaction f
    by (rule nested_spare)
      (auto simp: region_value_def word_spare plain_spare write_spare zero_chunks_spare split: prod.split ls_redaction_mode.split bool.split)
  then have "fst (snd (case nested cap (region_value m region len redaction) f of (r, v, tr) \<Rightarrow>
          if r = LS_ENOSPACE then (True, LS_OK, mark_truncated (fst q, tr))
          else if r \<noteq> LS_OK then (True, r, fst q, tr)
          else (case put_optional_tlv LS_TLV_MEMORY v (fst q, tr) of (r, p) \<Rightarrow> (r \<noteq> LS_OK, r, p)))) = LS_OK"
    for cap m len redaction f and q :: put
    using put_optional_tlv_OK by (simp add: case_prod_beta') (metis (no_types) fst_conv)
  then show ?thesis
    by (cases "dr_length region > LS_DUMP_REGION_MAX_BYTES (le_telemetry e)")
      (simp_all add: put_region_def Let_def)
qed

lemma put_regions_OK: "fst (snd (put_regions e t regions p)) = LS_OK"
proof (induction regions arbitrary: p)
  case (Cons region regions)
  then show ?case using put_region_OK [of e t region p] by (auto split: prod.split)
qed simp

lemma put_stack_OK: "fst (put_stack e t event p) = LS_OK"
  by (auto simp: put_stack_def Let_def split: option.split
      intro!: put_detail_OK word_spare plain_spare write_spare)

lemma put_memory_OK: "fst (put_memory e t event p) = LS_OK"
  using put_regions_OK [of e t "dump_regions t" p]
  by (auto simp: put_memory_def put_heap_OK put_stack_OK and_then_def split: prod.split)

lemma get_recent_result:
  "fst (fst (ls_blackbox_get_recent age bb)) = LS_OK \<or> fst (fst (ls_blackbox_get_recent age bb)) = LS_EAGAIN"
  by (auto simp: ls_blackbox_get_recent_def Let_def split: prod.split option.split)

lemma put_blackbox_loop_OK: "fst (put_blackbox_loop n pb) = LS_OK"
proof (induction n arbitrary: pb)
  case 0
  show ?case by simp
next
  case (Suc age)
  obtain p bb where pb: "pb = (p, bb)" by (cases pb)
  obtain result r bb' where recent: "ls_blackbox_get_recent age bb = ((result, r), bb')" by (metis surj_pair)
  have "fst (put_optional LS_TLV_BLACKBOX 32
      ([w8 1, w32 (bb_timestamp_ms (the r)), w16 (bb_kind (the r)), w16 (bb_source_id (the r)), w16 (bb_flags (the r))] @
       map w32 (take 4 (bb_value (the r)))) p) = LS_OK"
    by (rule put_optional_OK, (rule writes_intros)+) (simp add: length_concat_le32 min_def)
  then show ?case
    using Suc pb recent get_recent_result [of age bb] by (auto split: prod.split)
qed

lemma put_blackbox_OK: "fst (put_blackbox c pb) = LS_OK"
  by (simp add: put_blackbox_def put_blackbox_loop_OK split: prod.split)


text \<open>The strings of a mission fit the buffer of their part: with the default sizes of their arrays they have
  at most 96 characters.\<close>

definition mission_fits :: "ls_mission_context \<Rightarrow> bool" where
  "mission_fits m \<longleftrightarrow>
     length (mi_mission_id m) + length (mi_dive_id m) + length (mi_node_id m) + length (mi_vehicle_mode m) \<le> 200"

lemma plain_seq: "plain (ls_seq fs) (w, t) = ls_seq (map plain fs) (w, t)"
proof (induction fs arbitrary: w)
  case (Cons f fs)
  then show ?case by (cases "f w") (simp add: plain_def and_then_def)
qed (simp add: plain_def)

lemma writes_string_field:
  assumes "length text \<le> 255"
  shows "writes ([field, word_of_nat (length text)] @ text)
    (\<lambda>p. put_string_field field (Some text) (string_value_capacity (fst p)) p)"
proof -
  let ?bs = "[field, word_of_nat (length text)] @ text"
  let ?steps = "[w8 field, w8 (word_of_nat (length text)), plain (ls_writer_write (Some text) (length text))]"
  have "writes ([field] @ [word_of_nat (length text)] @ take (length text) text @ []) (ls_seq ?steps)"
    by (intro writes_Cons writes_word writes_write writes_Nil) simp
  then have "writes ?bs (ls_seq ?steps)" by simp
  moreover have "put_string_field field (Some text) (string_value_capacity w) (w, t) = ls_seq ?steps (w, t)"
    if "w_length w + length ?bs \<le> w_capacity w" for w t
  proof -
    have "n + 2 \<le> writer_remaining w \<Longrightarrow> \<not> string_value_capacity w < n" for n
      by (auto simp: string_value_capacity_def)
    then have "\<not> string_value_capacity w < length text"
      using that by (simp add: writer_remaining_def)
    then show ?thesis
      using assms by (simp add: put_string_field_def Let_def ls_string_length_def plain_seq del: ls_seq.simps)
  qed
  ultimately show ?thesis
    by (auto simp: writes_def simp del: ls_seq.simps)
qed

definition string_part :: "ls_telemetry_config \<Rightarrow> u8 \<Rightarrow> cstring \<Rightarrow> bytes" where
  "string_part c field text = (if LS_STORE_STRINGS c then [field, word_of_nat (length text)] @ text else [])"

lemma writes_stored_string:
  "length text \<le> 255 \<Longrightarrow> writes (string_part c field text) (ls_seq (stored_string c field (Some text)))"
  using writes_Cons [OF writes_string_field writes_Nil] by (simp add: stored_string_def string_part_def writes_Nil del: ls_seq.simps)

lemma length_string_part: "length (string_part c field text) \<le> 2 + length text"
  by (simp add: string_part_def)

lemma put_mission_OK:
  assumes "mission_fits m"
  shows "fst (put_mission c m elapsed p) = LS_OK"
proof -
  have "length (mi_mission_id m) \<le> 255" "length (mi_dive_id m) \<le> 255" "length (mi_node_id m) \<le> 255"
    "length (mi_vehicle_mode m) \<le> 255"
    using assms by (simp_all add: mission_fits_def)
  note strings = this [THEN writes_stored_string]
  have "fst (put_optional LS_TLV_MISSION 256
        ([w8 1, w32 (ls_hash_string (Some (mi_mission_id m))), w32 (ls_hash_string (Some (mi_dive_id m))),
          w32 (ls_hash_string (Some (mi_node_id m))), w32 (ls_hash_string (Some (mi_vehicle_mode m))), w32 (mi_phase m),
          w32 (mi_depth_cm m), w32 elapsed, w64 (mi_incident_hi m), w64 (mi_incident_lo m),
          w8 (flag8 (mi_incident_active m))] @
         stored_string c 1 (Some (mi_mission_id m)) @ stored_string c 2 (Some (mi_dive_id m)) @
         stored_string c 3 (Some (mi_node_id m)) @ stored_string c 4 (Some (mi_vehicle_mode m))) p) = LS_OK"
    apply (rule put_optional_OK, (rule writes_intros strings)+)
    using assms length_string_part [of c 1 "mi_mission_id m"] length_string_part [of c 2 "mi_dive_id m"]
      length_string_part [of c 3 "mi_node_id m"] length_string_part [of c 4 "mi_vehicle_mode m"]
    by (simp_all add: mission_fits_def)
  then show ?thesis by (simp add: put_mission_def)
qed


text \<open>The identity: each field leaves room for the rest.\<close>

lemma put_string_field_clipped:
  obtains n r where "put_string_field field text limit p =
      plain (ls_seq [ls_writer_u8 field, ls_writer_u8 (word_of_nat n), ls_writer_write text n]) r"
    and "fst r = fst p" and "n \<le> limit" and "n \<le> ls_string_length text"
proof -
  let ?n = "min (min (ls_string_length text) 255) limit"
  have "\<exists>r. put_string_field field text limit p =
      plain (ls_seq [ls_writer_u8 field, ls_writer_u8 (word_of_nat ?n), ls_writer_write text ?n]) r \<and> fst r = fst p"
    by (auto simp: put_string_field_def Let_def mark_truncated_def min_def intro: exI [of _ p]
        simp del: ls_seq.simps split_paired_Ex)
  then show ?thesis using that [of ?n] by auto
qed

lemma put_string_field_room:
  assumes "limit + 2 \<le> writer_remaining (fst p)"
  shows "\<exists>q n. put_string_field field text limit p = (LS_OK, q) \<and> n \<le> limit + 2 \<and>
    w_length (fst q) = w_length (fst p) + n \<and> w_capacity (fst q) = w_capacity (fst p)"
proof -
  have "\<exists>q. plain (ls_seq [ls_writer_u8 field, ls_writer_u8 v, ls_writer_write text n]) r = (LS_OK, q) \<and>
      w_length (fst q) = w_length (fst p) + (2 + n) \<and> w_capacity (fst q) = w_capacity (fst p)"
    if "fst r = fst p" "n \<le> limit" "n \<le> ls_string_length text" for v n r
  proof -
    obtain w f where r: "r = (w, f)" by (cases r)
    have room: "w_length w + 2 + n \<le> w_capacity w"
      using assms that r by (simp add: writer_remaining_def split: if_splits)
    show ?thesis
    proof (cases "text")
      case None
      then show ?thesis using r that room
        by (simp add: plain_def ls_writer_u8_def ls_writer_write_def ls_string_length_def w_length_def)
    next
      case (Some d)
      then show ?thesis using r that room
        by (simp add: plain_def ls_writer_u8_def ls_writer_write_def ls_string_length_def w_length_def)
    qed
  qed
  moreover obtain n r where "put_string_field field text limit p =
      plain (ls_seq [ls_writer_u8 field, ls_writer_u8 (word_of_nat n), ls_writer_write text n]) r"
    "fst r = fst p" "n \<le> limit" "n \<le> ls_string_length text"
    by (rule put_string_field_clipped)
  ultimately show ?thesis
    by (metis add.commute add_le_mono1)
qed

lemma put_identity_field_room:
  assumes "i < 15" and "writer_ok (fst p)" and "2 * (15 - i) \<le> writer_remaining (fst p)"
  shows "\<exists>q. put_identity_field i text p = (LS_OK, q) \<and> writer_ok (fst q) \<and>
    2 * (15 - Suc i) \<le> writer_remaining (fst q) \<and> w_capacity (fst q) = w_capacity (fst p)"
proof -
  let ?limit = "writer_remaining (fst p) - 2 - (14 - i) * 2"
  have room: "2 + (14 - i) * 2 \<le> writer_remaining (fst p)" using assms by simp
  then have "?limit + 2 \<le> writer_remaining (fst p)" by simp
  from put_string_field_room [OF this, of "word_of_nat (i + 1)" "text"]
  obtain q n where q: "put_string_field (word_of_nat (i + 1)) text ?limit p = (LS_OK, q)" "n \<le> ?limit + 2"
    "w_length (fst q) = w_length (fst p) + n" "w_capacity (fst q) = w_capacity (fst p)" by blast
  have "n + (14 - i) * 2 \<le> writer_remaining (fst p)" using q(2) room by linarith
  then have "w_length (fst p) + n + (14 - i) * 2 \<le> w_capacity (fst p)"
    using assms(2) by (simp add: writer_remaining_def writer_ok_def)
  then have "writer_ok (fst q)" "(14 - i) * 2 \<le> writer_remaining (fst q)"
    using q by (simp_all add: writer_remaining_def writer_ok_def)
  then show ?thesis using q room by (simp add: put_identity_field_def Let_def mult.commute)
qed

lemma identity_fields_room:
  assumes "k + length texts = 15" and "writer_ok (fst p)" and "2 * (15 - k) \<le> writer_remaining (fst p)"
  shows "\<exists>q. ls_seq (map (\<lambda>(i, text). put_identity_field i text) (zip [k..<15] texts)) p = (LS_OK, q) \<and>
    writer_ok (fst q) \<and> w_capacity (fst q) = w_capacity (fst p)"
  using assms
proof (induction texts arbitrary: k p)
  case Nil
  then show ?case by simp
next
  case (Cons t texts)
  then have k: "k < 15" by simp
  from put_identity_field_room [OF k Cons.prems(2,3), of t]
  obtain q where q: "put_identity_field k t p = (LS_OK, q)" "writer_ok (fst q)"
    "2 * (15 - Suc k) \<le> writer_remaining (fst q)" "w_capacity (fst q) = w_capacity (fst p)" by blast
  have "Suc k + length texts = 15" using Cons.prems by simp
  from Cons.IH [OF this q(2,3)] q show ?case using k by (simp add: upt_conv_Cons del: upt_rec_numeral)
qed

lemma put_tlv_room:
  assumes "4 + length v \<le> writer_remaining (fst p)" and "length v < 65536"
  shows "put_tlv ty v p = (LS_OK, (fst p)\<lparr>w_data := w_data (fst p) @ tlv_bytes (ty, v)\<rparr>, snd p)"
proof -
  have "unat (word_of_nat (length v) :: u16) = length v"
    using assms by (simp add: unat_of_nat)
  moreover have "w_length (fst p) + 4 + length v \<le> w_capacity (fst p)"
    using assms by (simp add: writer_remaining_def split: if_splits)
  ultimately show ?thesis
    by (auto simp: put_tlv_def plain_def ls_writer_tlv_def ls_writer_u16_def ls_writer_write_def w_length_def
        tlv_bytes_def)
qed

text \<open>What a part that succeeds leaves of the room.\<close>

definition leaves :: "nat \<Rightarrow> put \<Rightarrow> ls_result \<times> put \<Rightarrow> bool" where
  "leaves n p q \<longleftrightarrow> fst q = LS_OK \<and> writer_ok (fst (snd q)) \<and> writer_remaining (fst p) \<le> n + writer_remaining (fst (snd q))"

lemma put_tlv_leaves:
  assumes "4 + length v \<le> writer_remaining (fst p)" and "length v < 65536" and "writer_ok (fst p)"
  shows "leaves (4 + length v) p (put_tlv ty v p)"
  using put_tlv_room [OF assms(1,2), of ty] assms
  by (simp add: leaves_def writer_remaining_def writer_ok_def w_length_def)

lemma put_identity_leaves:
  assumes "516 \<le> writer_remaining (fst p)" and "writer_ok (fst p)"
  shows "leaves 516 p (put_identity e p)"
proof -
  let ?cap = "if writer_remaining (fst p) - 4 > 512 then 512 else writer_remaining (fst p) - 4"
  have cap: "?cap = 512" using assms(1) by auto
  have "2 * (15 - 0) \<le> writer_remaining (fst (writer_init 512, snd p))"
    by (simp add: writer_remaining_def writer_init_def w_length_def)
  moreover have "length (identity_fields e) = 15" by (simp add: identity_fields_def Let_def)
  ultimately obtain q where q: "ls_seq (map (\<lambda>(i, text). put_identity_field i text) (zip [0..<15] (identity_fields e)))
        (writer_init 512, snd p) = (LS_OK, q)" "writer_ok (fst q)" "w_capacity (fst q) = w_capacity (writer_init 512)"
    using identity_fields_room [of 0 "identity_fields e" "(writer_init 512, snd p)"] by (auto simp del: upt_rec_numeral)
  define v where "v = w_data (fst q)"
  have v: "length v \<le> 512" using q by (simp add: v_def writer_ok_def w_length_def writer_init_def)
  have "put_identity e p = put_tlv LS_TLV_IDENTITY v (fst p, snd q)"
    using assms q cap
    by (simp add: put_identity_def Let_def put_mandatory_def nested_def v_def case_prod_beta' del: upt_rec_numeral)
  moreover have "leaves (4 + length v) (fst p, snd q) (put_tlv LS_TLV_IDENTITY v (fst p, snd q))"
    using assms v by (intro put_tlv_leaves) simp_all
  ultimately show ?thesis using v by (simp add: leaves_def)
qed


lemma put_reset_leaves: "24 \<le> writer_remaining (fst p) \<Longrightarrow> writer_ok (fst p) \<Longrightarrow> leaves 24 p (put_reset bt event p)"
  using put_tlv_leaves [of "reset_value bt event" p LS_TLV_RESET] by (simp add: put_reset_tlv length_values)

lemma put_event_leaves: "35 \<le> writer_remaining (fst p) \<Longrightarrow> writer_ok (fst p) \<Longrightarrow> leaves 35 p (put_event event p)"
  using put_tlv_leaves [of "event_value event" p LS_TLV_EVENT] by (simp add: put_event_tlv length_values)

text \<open>The room a CPU context needs at least, and the sizes of its register banks.\<close>

definition cpu_ok :: "ls_arch_context \<Rightarrow> bool" where
  "cpu_ok c \<longleftrightarrow> length (ac_registers c) = 32 \<and> length (ac_s c) = 16"

definition cpu_room :: "ls_arch_context option \<Rightarrow> nat" where
  "cpu_room cpu =
     (case cpu of None \<Rightarrow> 0
      | Some c \<Rightarrow> (if ac_architecture c = LS_ARCH_RISCV64 then 8 else 0) + (if ac_has_fpu c then 332 else 264))"

definition cpu_base_value :: "ls_arch_context \<Rightarrow> bytes" where
  "cpu_base_value c =
     [ucast (ac_architecture c), ucast (ac_fault c)] @ concat (map le32 (ac_registers c)) @
     concat (map le32 (cpu_special c)) @ [flag8 (ac_has_fpu c), flag8 (ac_fpu_lazy c)] @
     (if ac_has_fpu c then concat (map le32 (ac_s c)) @ le32 (ac_fpscr c) else [])"

lemma length_cpu_base_value: "cpu_ok c \<Longrightarrow> length (cpu_base_value c) = (if ac_has_fpu c then 272 else 204)"
  by (simp add: cpu_base_value_def cpu_ok_def length_concat_le32 cpu_special_def)

lemma put_cpu_base_tlv:
  assumes "cpu_ok c"
  shows "put_cpu_base c p = put_tlv LS_TLV_CPU (cpu_base_value c) p"
proof -
  let ?fpu = "if ac_has_fpu c then concat (map le32 (ac_s c)) @ le32 (ac_fpscr c) @ [] else []"
  have fpu: "writes ?fpu (ls_seq (if ac_has_fpu c then map w32 (ac_s c) @ [w32 (ac_fpscr c)] else []))"
    using writes_append [OF writes_words32 writes_Cons [OF writes_word(3) writes_Nil]] writes_Nil by auto
  have "put_cpu_base c p = put_tlv LS_TLV_CPU
      (([ucast (ac_architecture c)] @ [ucast (ac_fault c)] @ []) @ concat (map le32 (ac_registers c)) @
       concat (map le32 (cpu_special c)) @ ([flag8 (ac_has_fpu c)] @ [flag8 (ac_fpu_lazy c)] @ []) @ ?fpu) p"
    unfolding put_cpu_base_def
    by (rule put_mandatory_writes, (rule fpu writes_intros)+)
      (use assms in \<open>simp add: cpu_ok_def length_concat_le32 cpu_special_def\<close>)
  then show ?thesis by (simp add: cpu_base_value_def)
qed

lemma put_fault_tlv:
  "put_mandatory LS_TLV_FAULT 64 (map w32 (cpu_status c)) p = put_tlv LS_TLV_FAULT (concat (map le32 (cpu_status c))) p"
  by (rule put_mandatory_writes, rule writes_intros) (simp add: length_concat_le32 cpu_status_def)

lemma put_cpu64_leaves:
  assumes "if full then riscv64 \<noteq> None \<and> length (rv_x (the riscv64)) = 32 \<and> 296 \<le> writer_remaining (fst p)
    else 8 \<le> writer_remaining (fst p)" and "writer_ok (fst p)"
  shows "leaves (if full then 296 else 8) p (put_cpu64 riscv64 full p)"
proof (cases full)
  case True
  then obtain c where c: "riscv64 = Some c" "length (rv_x c) = 32" using assms by auto
  let ?v = "([1] @ [1] @ [ucast LS_ARCH_RISCV64] @ [8] @ []) @ concat (map le64 (rv_x c)) @
    (le64 (rv_mstatus c) @ le64 (rv_mcause c) @ le64 (rv_mtval c) @ le64 (rv_mepc c) @ [])"
  have len: "length (concat (map le64 vs)) = 8 * length vs" for vs by (induction vs) simp_all
  have "put_cpu64 riscv64 full p = put_tlv LS_TLV_CPU64 ?v p"
  proof -
    have "put_cpu64 riscv64 full p = put_mandatory LS_TLV_CPU64 292
        ([w8 1, w8 1, w8 (ucast LS_ARCH_RISCV64), w8 8] @ map w64 (rv_x c) @
         [w64 (rv_mstatus c), w64 (rv_mcause c), w64 (rv_mtval c), w64 (rv_mepc c)]) p"
      using True c by (simp add: put_cpu64_def)
    also have "\<dots> = put_tlv LS_TLV_CPU64 ?v p"
      by (rule put_mandatory_writes, (rule writes_intros)+) (simp add: len c)
    finally show ?thesis .
  qed
  then show ?thesis
    using put_tlv_leaves [of ?v p LS_TLV_CPU64] True assms c by (simp add: len)
next
  case False
  let ?v = "[1] @ [2] @ [ucast LS_ARCH_RISCV64] @ [8] @ []"
  have "put_cpu64 riscv64 full p = put_mandatory LS_TLV_CPU64 292 [w8 1, w8 2, w8 (ucast LS_ARCH_RISCV64), w8 8] p"
    using False by (cases riscv64) (simp_all add: put_cpu64_def)
  also have "\<dots> = put_tlv LS_TLV_CPU64 ?v p"
    by (rule put_mandatory_writes, (rule writes_intros)+) simp
  finally show ?thesis
    using put_tlv_leaves [of ?v p LS_TLV_CPU64] False assms by simp
qed


lemma leaves_trans:
  assumes "leaves m p (r, q)" and "leaves n q x"
  shows "leaves (m + n) p x"
  using assms by (auto simp: leaves_def)

lemma put_cpu_leaves:
  assumes "cpu_room cpu \<le> writer_remaining (fst p)" and ok: "writer_ok (fst p)"
    and sizes: "\<And>c. cpu = Some c \<Longrightarrow> cpu_ok c" "\<And>c. riscv64 = Some c \<Longrightarrow> length (rv_x c) = 32"
  shows "fst (put_cpu cpu riscv64 p) = LS_OK"
proof (cases cpu)
  case None
  then show ?thesis by (simp add: put_cpu_def)
next
  case (Some c)
  let ?rv = "ac_architecture c = LS_ARCH_RISCV64" and ?full = "full_cpu64 c riscv64 (fst p)"
  let ?base = "if ac_has_fpu c then 276 else 208 :: nat"
  have room: "(if ?rv then 8 else 0) + ?base + 56 \<le> writer_remaining (fst p)"
    using assms(1) Some by (simp add: cpu_room_def split: if_splits)
  obtain p1 where p1: "(if ?rv then and_then (put_cpu64 riscv64 ?full p) (\<lambda>p. (LS_OK, if ?full then p else mark_truncated p))
      else (LS_OK, p)) = (LS_OK, p1)" "writer_ok (fst p1)" "?base + 56 \<le> writer_remaining (fst p1)"
  proof (cases ?rv)
    case True
    have full: "?full \<Longrightarrow> riscv64 \<noteq> None \<and> 296 + ?base + 56 \<le> writer_remaining (fst p)"
      by (auto simp: full_cpu64_def Let_def split: if_splits)
    have "leaves (if ?full then 296 else 8) p (put_cpu64 riscv64 ?full p)"
      using put_cpu64_leaves [of ?full riscv64 p] full room True sizes(2) ok by auto
    then obtain p0 where p0: "put_cpu64 riscv64 ?full p = (LS_OK, p0)" "writer_ok (fst p0)"
      "writer_remaining (fst p) \<le> (if ?full then 296 else 8) + writer_remaining (fst p0)"
      by (cases "put_cpu64 riscv64 ?full p") (auto simp: leaves_def)
    then have "?base + 56 \<le> writer_remaining (fst p0)"
      using full room True by (cases ?full) simp_all
    then show ?thesis using that p0 True by (simp add: mark_truncated_def split: if_splits)
  next
    case False
    then show ?thesis using that room ok by simp
  qed
  obtain p2 where p2: "put_cpu_base c p1 = (LS_OK, p2)" "writer_ok (fst p2)" "56 \<le> writer_remaining (fst p2)"
    using put_tlv_leaves [of "cpu_base_value c" p1 LS_TLV_CPU] p1 sizes(1) [OF Some]
    by (cases "put_cpu_base c p1") (auto simp: leaves_def put_cpu_base_tlv length_cpu_base_value split: if_splits)
  have status: "length (concat (map le32 (cpu_status c))) = 52"
    by (simp add: length_concat_le32 cpu_status_def)
  have "fst (put_mandatory LS_TLV_FAULT 64 (map w32 (cpu_status c)) p2) = LS_OK"
    using put_tlv_leaves [of "concat (map le32 (cpu_status c))" p2 LS_TLV_FAULT] p2 status
    by (simp add: put_fault_tlv leaves_def)
  then obtain p3 where "put_mandatory LS_TLV_FAULT 64 (map w32 (cpu_status c)) p2 = (LS_OK, p3)"
    by (cases "put_mandatory LS_TLV_FAULT 64 (map w32 (cpu_status c)) p2") simp
  then show ?thesis using Some p1(1) p2(1) by (simp add: put_cpu_def Let_def)
qed

text \<open>The optional parts keep the mission, and succeed when its strings fit.\<close>

definition keeps_going :: "(put \<times> ('s, 't, 'p) latch_rt \<Rightarrow> ls_result \<times> put \<times> ('s, 't, 'p) latch_rt) \<Rightarrow> bool" where
  "keeps_going f \<longleftrightarrow>
     (\<forall>x. mission_fits (mission (lt_telemetry (snd x))) \<longrightarrow>
          fst (f x) = LS_OK \<and> mission_fits (mission (lt_telemetry (snd (snd (f x))))))"

lemma keeps_going_seq: "(\<And>f. f \<in> set fs \<Longrightarrow> keeps_going f) \<Longrightarrow> keeps_going (ls_seq fs)"
proof (induction fs)
  case Nil
  show ?case by (simp add: keeps_going_def)
next
  case (Cons f fs)
  then have "keeps_going f" "keeps_going (ls_seq fs)" by simp_all
  then show ?case by (simp add: keeps_going_def and_then_def del: split_paired_All)
qed

lemma keeps_going_on_put: "(\<And>x. fst (f x (fst x)) = LS_OK) \<Longrightarrow> keeps_going (\<lambda>x. on_put (f x) x)"
  by (auto simp: keeps_going_def on_put_def split: prod.split) (metis fst_conv)+

lemma elapsed_keeps_mission: "mission (lt_telemetry (snd (ls_mission_elapsed_ms e rt))) = mission (lt_telemetry rt)"
  by (auto simp: ls_mission_elapsed_ms_def uptime_def split: prod.split)

lemma blackbox_part_keeps:
  "keeps_going (\<lambda>x. case put_blackbox c (fst x, bt_blackbox (lt_boot (snd x))) of
     (r, p, bb) \<Rightarrow> (r, p, (snd x)\<lparr>lt_boot := (lt_boot (snd x))\<lparr>bt_blackbox := bb\<rparr>\<rparr>))"
  using put_blackbox_OK by (auto simp: keeps_going_def split: prod.split) (metis fst_conv)+

lemma mission_part_keeps:
  "keeps_going (\<lambda>x. case (if mission_shown (mission (lt_telemetry (snd x))) then ls_mission_elapsed_ms e (snd x)
                          else (0, snd x)) of
     (elapsed, rt) \<Rightarrow> on_put (put_mission c (mission (lt_telemetry rt)) elapsed) (fst x, rt))"
proof (unfold keeps_going_def, intro allI impI)
  fix x :: "put \<times> ('a, 'b, 'c) latch_rt"
  let ?g = "if mission_shown (mission (lt_telemetry (snd x))) then ls_mission_elapsed_ms e (snd x) else (0, snd x)"
  assume fits: "mission_fits (mission (lt_telemetry (snd x)))"
  obtain elapsed rt where g: "?g = (elapsed, rt)" by (metis surj_pair)
  then have "mission (lt_telemetry rt) = mission (lt_telemetry (snd x))"
    using elapsed_keeps_mission [of e "snd x"] by (auto split: if_splits)
  then show "fst (case ?g of (elapsed, rt) \<Rightarrow> on_put (put_mission c (mission (lt_telemetry rt)) elapsed) (fst x, rt)) = LS_OK \<and>
      mission_fits (mission (lt_telemetry (snd (snd
        (case ?g of (elapsed, rt) \<Rightarrow> on_put (put_mission c (mission (lt_telemetry rt)) elapsed) (fst x, rt))))))"
    using fits g put_mission_OK [OF fits, of c elapsed "fst x"] by (simp add: on_put_def case_prod_beta')
qed

lemma optional_parts_OK: "keeps_going (ls_seq (optional_parts e event))"
  by (rule keeps_going_seq)
    (auto simp: optional_parts_def Let_def put_breadcrumbs_OK put_metrics_OK put_power_health_OK put_time_sync_OK
        put_provisioning_OK put_supervisor_OK put_environment_OK put_powerfail_seal_OK put_details_OK put_memory_OK
      intro: keeps_going_on_put [of "\<lambda>_. f" for f] keeps_going_on_put blackbox_part_keeps mission_part_keeps)

end
