(* ===== verification/LS_Payload_Safety.thy ===== *)
theory LS_Payload_Safety
  imports LS_Payload_Facts
begin

text \<open>
  What the encoder of the payload guarantees: the payload is a sequence of well-formed TLVs that begins
  with the mandatory ones, whatever had to be left out; with room for the mandatory parts the encoder
  always succeeds; and redacted memory does not reach the payload.
\<close>

section \<open>Enough room for the mandatory parts is enough\<close>

definition event_ok :: "ls_event \<Rightarrow> bool" where
  "event_ok event \<longleftrightarrow> pred_option cpu_ok (ev_cpu event) \<and> pred_option (\<lambda>c. length (rv_x c) = 32) (ev_riscv64 event)"

lemma put_payload_succeeds:
  assumes cap: "575 + cpu_room (ev_cpu event) \<le> cap" and ok: "event_ok event"
    and fits: "mission_fits (mission (lt_telemetry rt))"
  shows "fst (put_payload e event ((writer_init cap, False), rt)) = LS_OK"
proof -
  let ?p = "(writer_init cap, False)"
  have room: "575 + cpu_room (ev_cpu event) \<le> writer_remaining (fst ?p)"
    using cap by (simp add: writer_remaining_def writer_init_def w_length_def)
  obtain p1 where p1: "put_identity e ?p = (LS_OK, p1)" "leaves 516 ?p (LS_OK, p1)"
    using put_identity_leaves [of ?p e] room by (cases "put_identity e ?p") (auto simp: leaves_def)
  obtain p2 where p2: "put_reset (lt_boot rt) event p1 = (LS_OK, p2)" "leaves 24 p1 (LS_OK, p2)"
    using put_reset_leaves [of p1 "lt_boot rt" event] p1 room
    by (cases "put_reset (lt_boot rt) event p1") (auto simp: leaves_def)
  obtain p3 where p3: "put_event event p2 = (LS_OK, p3)" "leaves 35 p2 (LS_OK, p3)"
    using put_event_leaves [of p2 event] p1 p2 room by (cases "put_event event p2") (auto simp: leaves_def)
  have "fst (put_cpu (ev_cpu event) (ev_riscv64 event) p3) = LS_OK"
    using p1(2) p2(2) p3(2) room ok by (intro put_cpu_leaves) (auto simp: leaves_def event_ok_def)
  then obtain p4 where p4: "put_cpu (ev_cpu event) (ev_riscv64 event) p3 = (LS_OK, p4)"
    by (cases "put_cpu (ev_cpu event) (ev_riscv64 event) p3") simp
  have "fst (ls_seq (optional_parts e event) (p4, rt)) = LS_OK"
    using optional_parts_OK [of e event, unfolded keeps_going_def, rule_format, of "(p4, rt)"] fits by simp
  then show ?thesis
    using p1(1) p2(1) p3(1) p4 by (simp add: put_payload_parts on_put_def)
qed


text \<open>A device with one region of its memory registered for dumps, and the same device without storage.\<close>

definition device_env :: "'s boot_env \<Rightarrow> 's latch_env" where
  "device_env boot =
     \<lparr>le_boot = boot, le_telemetry = ls_telemetry_config_default,
      le_policy = \<lparr>LS_POLICY_CAPACITY = 16, LS_DEDUP_CAPACITY = 16, LS_DEDUP_WINDOW_MS = 60000\<rparr>,
      le_crypto = plain_build, le_build_id = Some (cstr ''build-0001''),
      le_identity = \<lparr>id_project_id = Some (cstr ''demo''), id_device_id = Some (cstr ''unit-7''), id_product = None,
        id_hardware_revision = None, id_bom_revision = None, id_manufacturing_batch = None, id_firmware_version = None,
        id_firmware_build_id = None, id_bootloader_version = None, id_git_commit = None, id_variant = None,
        id_architecture = None, id_rtos = None, id_region = None, id_device_group = None\<rparr>,
      le_architecture = 1, le_rtos = None, le_region = None, le_device_group = None,
      le_memory = (\<lambda>address. word_of_nat address), le_reset = False, le_reset_info = None\<rparr>"

definition device_rt :: "('s, 't, 'p) boot_rt \<Rightarrow> ('s, 't, 'p) latch_rt" where
  "device_rt bt =
     \<lparr>lt_boot = bt,
      lt_telemetry = (telemetry_init ls_telemetry_config_default)
        \<lparr>dump_regions := [\<lparr>dr_name = Some (cstr ''ram''), dr_address = 4096, dr_length = 64, dr_flags = LS_DUMP_SAFE\<rparr>],
         redactions := [\<lparr>re_address = 4100, re_length = 4, re_mode = LS_REDACT_ZERO\<rparr>]\<rparr>,
      lt_policy = one_limit, lt_capturing = False, lt_fault_memory = blank_fault_memory, lt_powerfail = dark_memory, lt_calls = []\<rparr>"

abbreviation example_env :: "unit latch_env" where
  "example_env \<equiv> device_env no_storage_env"

abbreviation example_rt :: "(unit, unit, unit) latch_rt" where
  "example_rt \<equiv> device_rt (blank_boot_rt () () ())"

definition example_event :: ls_event where
  "example_event = (network_event LS_PRIORITY_ERROR 100 1)\<lparr>ev_capture_level := LS_CAPTURE_SELECTIVE\<rparr>"

lemma example_event_fields [simp]: "ev_cpu example_event = None" "ev_riscv64 example_event = None"
  by (simp_all add: example_event_def network_event_def)

lemma example_fits [simp]:
  "event_ok example_event" "cpu_room None = 0" "mission_fits (mission (lt_telemetry (device_rt bt)))"
  by (simp_all add: event_ok_def cpu_room_def mission_fits_def device_rt_def telemetry_init_def zero_mission_def)


section \<open>The payload is well formed\<close>

text \<open>C17: Whenever the encoder succeeds, whatever it had to leave out, the payload fits its buffer and is a
  sequence of well-formed TLVs that validation accepts; it begins with the identity, the reset and the event,
  these two with exactly the values of the runtime and of the event, followed by the CPU parts when the event
  has a CPU context.\<close>

theorem payload_well_formed:
  assumes "put_payload e event ((writer_init cap, False), rt) = (LS_OK, (w, truncated), rt')"
  shows "\<exists>identity cpu rest.
    (let ts = [(LS_TLV_IDENTITY, identity), (LS_TLV_RESET, reset_value (lt_boot rt) event),
               (LS_TLV_EVENT, event_value event)] @ cpu @ rest
     in w_data w = tlvs_bytes ts \<and> tlvs_ok ts \<and> map fst cpu = cpu_types (ev_cpu event) \<and>
        length (w_data w) \<le> cap \<and> validate_payload (w_data w) = LS_OK)"
proof -
  obtain identity cpu rest where cpu: "map fst cpu = cpu_types (ev_cpu event)"
    and g: "grown ([(LS_TLV_IDENTITY, identity), (LS_TLV_RESET, reset_value (lt_boot rt) event),
            (LS_TLV_EVENT, event_value event)] @ cpu @ rest) (writer_init cap, False) (w, truncated)"
    using put_payload_grown [OF assms] by blast
  define ts where "ts = [(LS_TLV_IDENTITY, identity), (LS_TLV_RESET, reset_value (lt_boot rt) event),
            (LS_TLV_EVENT, event_value event)] @ cpu @ rest"
  have "tlvs_ok ts" "w_data w = tlvs_bytes ts" "w_capacity w = cap" "writer_ok w"
    using g writer_init_ok [of cap] unfolding ts_def [symmetric]
    by (auto simp: grown_def) (simp_all add: writer_init_def)
  moreover from this have "validate_payload (w_data w) = LS_OK"
    using validate_tlvs [of ts "[]"] by (simp add: validate_payload_def)
  moreover have "length (w_data w) \<le> cap"
    using \<open>writer_ok w\<close> \<open>w_capacity w = cap\<close> by (simp add: writer_ok_def w_length_def)
  ultimately show ?thesis
    using cpu unfolding Let_def ts_def by blast
qed


theorem payload_well_formed_witness:
  "\<exists>w truncated rt'. put_payload example_env example_event ((writer_init 600, False), example_rt) = (LS_OK, (w, truncated), rt') \<and>
     length (w_data w) \<le> 600 \<and> validate_payload (w_data w) = LS_OK"
proof -
  obtain w truncated rt' where
    "put_payload example_env example_event ((writer_init 600, False), example_rt) = (LS_OK, (w, truncated), rt')"
    using put_payload_succeeds [of example_event 600 example_rt example_env] by (auto simp: prod_eq_iff)
  with payload_well_formed [OF this] show ?thesis by (auto simp: Let_def)
qed

section \<open>Redacted memory\<close>

text \<open>Two memories that differ at redacted addresses only.\<close>

definition redacted :: "ls_telemetry \<Rightarrow> nat \<Rightarrow> bool" where
  "redacted t address \<longleftrightarrow> (\<exists>r \<in> set (redactions t). re_address r \<le> address \<and> address < re_address r + re_length r)"

definition same_unredacted :: "ls_telemetry \<Rightarrow> (nat \<Rightarrow> u8) \<Rightarrow> (nat \<Rightarrow> u8) \<Rightarrow> bool" where
  "same_unredacted t m m' \<longleftrightarrow> (\<forall>a. \<not> redacted t a \<longrightarrow> m a = m' a)"

lemma first_where_None: "first_where P xs = None \<longleftrightarrow> (\<forall>x \<in> set xs. \<not> P x)"
  by (induction xs) auto

text \<open>Addresses do not wrap, and no redaction asks for a hash of what it hides.\<close>

definition redactions_ok :: "ls_telemetry \<Rightarrow> bool" where
  "redactions_ok t \<longleftrightarrow>
     (\<forall>r \<in> set (redactions t). re_address r + re_length r < 2 ^ 64 \<and> re_mode r \<noteq> LS_REDACT_HASH) \<and>
     (\<forall>d \<in> set (dump_regions t). dr_address d + dr_length d < 2 ^ 64)"

lemma memory_bytes_cong:
  assumes "ls_redaction_for address len t = (mode, False)" and "redactions_ok t" and "address + len < 2 ^ 64"
    and "same_unredacted t m m'"
  shows "memory_bytes m address len = memory_bytes m' address len"
proof -
  have "\<not> redacted t a" if a: "address \<le> a" "a < address + len" for a
  proof
    assume "redacted t a"
    then obtain r where r: "r \<in> set (redactions t)" "re_address r \<le> a" "a < re_address r + re_length r"
      by (auto simp: redacted_def)
    have "first_where (\<lambda>r. address < address_end (re_address r) (re_length r) \<and> re_address r < address_end address len)
        (redactions t) = None"
      using assms(1) by (auto simp: ls_redaction_for_def split: option.splits)
    then have "\<not> (address < address_end (re_address r) (re_length r) \<and> re_address r < address_end address len)"
      using r(1) by (simp add: first_where_None)
    moreover have "re_address r + re_length r < 2 ^ 64" using assms(2) r(1) by (simp add: redactions_ok_def)
    ultimately show False using a r assms(3) by (simp add: address_end_def)
  qed
  then show ?thesis using assms(4) by (simp add: memory_bytes_def same_unredacted_def)
qed

lemma redaction_mode: "ls_redaction_for address len t = (LS_REDACT_HASH, True) \<Longrightarrow> redactions_ok t \<Longrightarrow> False"
  by (auto simp: ls_redaction_for_def redactions_ok_def split: option.splits dest!: first_where_SomeD)

lemma region_value_cong:
  assumes "redactions_ok t" and "dr_address region + len < 2 ^ 64" and "same_unredacted t m m'"
    and "ls_redaction_for (dr_address region) len t \<noteq> (LS_REDACT_EXCLUDE, True)"
  shows "region_value m region len (ls_redaction_for (dr_address region) len t) =
    region_value m' region len (ls_redaction_for (dr_address region) len t)"
proof (cases "ls_redaction_for (dr_address region) len t")
  case (Pair mode matched)
  show ?thesis
  proof (cases matched)
    case True
    then show ?thesis
      using Pair redaction_mode [of "dr_address region" len t] assms(1,4)
      by (cases mode) (auto simp: region_value_def)
  next
    case False
    then show ?thesis
      using Pair memory_bytes_cong [OF _ assms(1,2,3), of mode] by (cases mode) (auto simp: region_value_def)
  qed
qed

abbreviation with_memory :: "'s latch_env \<Rightarrow> (nat \<Rightarrow> u8) \<Rightarrow> 's latch_env" where
  "with_memory e m \<equiv> e\<lparr>le_memory := m\<rparr>"

lemma put_region_cong:
  assumes "redactions_ok t" and "region \<in> set (dump_regions t)" and "same_unredacted t m m'"
  shows "put_region (with_memory e m) t region p = put_region (with_memory e m') t region p"
proof -
  have bound: "dr_address region + dr_length region < 2 ^ 64" using assms by (simp add: redactions_ok_def)
  have value_cong: "region_value m region len (ls_redaction_for (dr_address region) len t) =
      region_value m' region len (ls_redaction_for (dr_address region) len t)"
    if "len \<le> dr_length region"
      and "\<not> (snd (ls_redaction_for (dr_address region) len t) \<and>
              fst (ls_redaction_for (dr_address region) len t) = LS_REDACT_EXCLUDE)" for len
    using that bound assms by (intro region_value_cong) auto
  show ?thesis
    by (cases "dr_length region > LS_DUMP_REGION_MAX_BYTES (le_telemetry e)")
      (auto simp: put_region_def Let_def value_cong)
qed

lemma put_regions_cong:
  assumes "redactions_ok t" and "set regions \<subseteq> set (dump_regions t)" and "same_unredacted t m m'"
  shows "put_regions (with_memory e m) t regions p = put_regions (with_memory e m') t regions p"
  using assms(2)
proof (induction regions arbitrary: p)
  case (Cons region regions)
  then have "put_region (with_memory e m) t region p = put_region (with_memory e m') t region p"
    by (intro put_region_cong assms) simp
  then show ?case using Cons by (auto split: prod.split)
qed simp

lemma put_memory_cong:
  assumes "redactions_ok t" and "same_unredacted t m m'"
    and "ev_cpu event = None \<or> stack_lower t = 0 \<or> \<not> LS_ENABLE_STACK_SNAPSHOT (le_telemetry e)"
  shows "put_memory (with_memory e m) t event p = put_memory (with_memory e m') t event p"
proof -
  have "put_stack (with_memory e m) t event = put_stack (with_memory e m') t event"
    using assms(3) by (auto simp: put_stack_def Let_def fun_eq_iff split: option.split)
  then show ?thesis
    by (simp add: put_memory_def put_regions_cong [OF assms(1) subset_refl assms(2)] split: prod.split)
qed

lemma identity_memory: "put_identity (with_memory e m) = put_identity e"
proof -
  have "identity_fields (with_memory e m) = identity_fields e" by (simp add: identity_fields_def)
  then show ?thesis by (simp add: put_identity_def Let_def fun_eq_iff)
qed

lemma elapsed_memory: "ls_mission_elapsed_ms (with_memory e m) rt = ls_mission_elapsed_ms e rt"
  by (simp add: ls_mission_elapsed_ms_def uptime_def)

text \<open>All parts but the last, which dumps memory.\<close>

definition before_memory ::
    "'s latch_env \<Rightarrow> ls_event \<Rightarrow> (put \<times> ('s, 't, 'p) latch_rt \<Rightarrow> ls_result \<times> put \<times> ('s, 't, 'p) latch_rt) list" where
  "before_memory e event =
     [on_put (put_identity e), \<lambda>x. on_put (put_reset (lt_boot (snd x)) event) x, on_put (put_event event),
      on_put (put_cpu (ev_cpu event) (ev_riscv64 event))] @ butlast (optional_parts e event)"

lemma optional_parts_split:
  "optional_parts e event =
   butlast (optional_parts e event) @ [\<lambda>x. on_put (put_memory e (lt_telemetry (snd x)) event) x]"
  by (simp add: optional_parts_def Let_def)

lemma put_payload_split:
  "put_payload e event =
   ls_seq (before_memory e event @ [\<lambda>x. on_put (put_memory e (lt_telemetry (snd x)) event) x])"
  unfolding put_payload_parts before_memory_def by (metis append_assoc optional_parts_split)

lemma put_payload_before_memory:
  "put_payload e event x =
   and_then (ls_seq (before_memory e event) x) (\<lambda>x. on_put (put_memory e (lt_telemetry (snd x)) event) x)"
  by (simp add: put_payload_split ls_seq_append ls_seq_single del: ls_seq.simps)

lemma before_memory_same: "before_memory (with_memory e m) event = before_memory e event"
  by (simp add: before_memory_def optional_parts_def Let_def identity_memory elapsed_memory cong: if_cong)

lemma seq_keeps:
  assumes "\<And>f s. f \<in> set fs \<Longrightarrow> \<pi> (snd (f s)) = \<pi> s"
  shows "\<pi> (snd (ls_seq fs s)) = \<pi> s"
  using assms by (induction fs arbitrary: s) (simp_all add: and_then_def)

lemma before_memory_telemetry:
  "lt_telemetry (snd (snd (ls_seq (before_memory e event) x))) = lt_telemetry (snd x)"
proof (rule seq_keeps [where \<pi> = "\<lambda>x. lt_telemetry (snd x)"])
  have elapsed: "lt_telemetry (snd (ls_mission_elapsed_ms e rt)) = lt_telemetry rt" for rt
    by (auto simp: ls_mission_elapsed_ms_def uptime_def split: prod.split)
  fix f s
  assume "f \<in> set (before_memory e event)"
  then show "lt_telemetry (snd (snd (f s))) = lt_telemetry (snd s)"
    by (auto simp: before_memory_def optional_parts_def Let_def on_put_def elapsed split: prod.split)
      (metis elapsed snd_conv)+
qed

text \<open>C19: Redacted memory does not leave the device: as long as no redaction asks for a hash, two memories that
  differ only at redacted addresses give the same payload, byte for byte, whatever regions are registered for
  dumps. The stack snapshot, which the encoder does not redact, is excluded.\<close>

theorem redacted_memory_not_encoded:
  assumes "redactions_ok (lt_telemetry rt)" and "same_unredacted (lt_telemetry rt) m m'"
    and "ev_cpu event = None \<or> stack_lower (lt_telemetry rt) = 0 \<or> \<not> LS_ENABLE_STACK_SNAPSHOT (le_telemetry e)"
  shows "put_payload (e\<lparr>le_memory := m\<rparr>) event (p, rt) = put_payload (e\<lparr>le_memory := m'\<rparr>) event (p, rt)"
proof -
  have "lt_telemetry (snd (snd (ls_seq (before_memory e event) (p, rt)))) = lt_telemetry rt"
    by (simp add: before_memory_telemetry)
  then show ?thesis
    using put_memory_cong [OF assms]
    by (simp add: put_payload_before_memory before_memory_same and_then_def on_put_def)
qed

theorem redacted_memory_not_encoded_witness:
  "put_payload (example_env\<lparr>le_memory := (\<lambda>_. 0)\<rparr>) example_event ((writer_init 600, False), example_rt) =
   put_payload (example_env\<lparr>le_memory := (\<lambda>a. if a = 4102 then 0x5a else 0)\<rparr>) example_event ((writer_init 600, False), example_rt)"
  by (rule redacted_memory_not_encoded)
    (auto simp: redactions_ok_def same_unredacted_def redacted_def device_rt_def)

end
