(* ===== verification/LS_Capture.thy ===== *)
theory LS_Capture
  imports LS_Payload_Safety
begin

text \<open>
  Capturing an event, \<^verbatim>\<open>src/core/runtime.c\<close>: policy, encoding and the spool; the writers of the retained
  crash record and its recovery, \<^verbatim>\<open>src/capture/capture.c\<close>; the recovery of a power-fail seal,
  \<^verbatim>\<open>src/core/powerfail.c\<close>; and initialisation and boot.
\<close>

section \<open>Events\<close>

text \<open>The room that \<^verbatim>\<open>ls_envelope_encode\<close> gives to the payload; nothing when the buffer is too small for the
  rest of an envelope.\<close>

definition payload_room :: "'p ls_security \<Rightarrow> nat \<Rightarrow> nat option" where
  "payload_room s capacity =
     (let secured = security_key_length s \<noteq> 0;
          aead = (secured \<and> sp_algorithm (security_policy s) = LS_SECURITY_XCHACHA20_POLY1305);
          metadata_size = (if aead then LS_ENVELOPE_SECURITY_METADATA_SIZE else 0);
          authentication_size = (if secured then if aead then LS_AEAD_TAG_SIZE else LS_HMAC_SHA256_SIZE else 0)
      in if capacity < LS_LEP_HEADER_SIZE + metadata_size + 4 + authentication_size then None
         else Some (capacity - LS_LEP_HEADER_SIZE - metadata_size - 4 - authentication_size))"

definition run_payload ::
    "'s latch_env \<Rightarrow> ls_event \<Rightarrow> ('s, 't, 'p) latch_rt \<Rightarrow> nat \<Rightarrow> ls_result \<times> bytes \<times> bool" where
  "run_payload e event rt n =
     (case put_payload e event ((writer_init n, False), rt) of (r, (w, truncated), _) \<Rightarrow> (r, w_data w, truncated))"

text \<open>Encoding: the payload reads the runtime and may advance the clock and repair the flight recorder; sealing
  changes the security state and, on success, the last sequence number of the boot record.\<close>

definition encode_event ::
    "'s latch_env \<Rightarrow> ls_event \<Rightarrow> u32 \<Rightarrow> ('s, 't, 'p) latch_rt \<Rightarrow> (ls_result + bytes) \<times> ('s, 't, 'p) latch_rt" where
  "encode_event e event sequence rt =
     (let capacity = LS_MAX_EVENT_SIZE (en_config (le_boot e));
          architecture = (case ev_cpu event of Some c \<Rightarrow> ucast (ac_architecture c) | None \<Rightarrow> ucast (le_architecture e));
          security = bt_security (lt_boot rt);
          rt' = (case payload_room security capacity of
                   None \<Rightarrow> rt
                 | Some n \<Rightarrow> snd (snd (put_payload e event ((writer_init n, False), rt))))
      in case ls_envelope_encode (le_crypto e) (run_payload e event rt) (le_build_id e) (ev_type event) architecture
                capacity sequence security of
           (Inl r, s) \<Rightarrow> (Inl r, rt'\<lparr>lt_boot := (lt_boot rt')\<lparr>bt_security := s\<rparr>\<rparr>)
         | (Inr data, s) \<Rightarrow>
             (Inr data, rt'\<lparr>lt_boot := on_boot (\<lambda>p. p\<lparr>pb_last_sequence := sequence\<rparr>)
                              ((lt_boot rt')\<lparr>bt_security := s\<rparr>)\<rparr>))"

definition append_event ::
    "'s latch_env \<Rightarrow> bytes \<Rightarrow> ls_priority \<Rightarrow> ('s, 't, 'p) latch_rt \<Rightarrow> ls_result \<times> ('s, 't, 'p) latch_rt" where
  "append_event e data priority rt =
     (case ls_spool_append (en_config (le_boot e)) (en_storage (le_boot e)) (Some data) priority (bt_spool (lt_boot rt)) of
        (r, sp) \<Rightarrow> (r, rt\<lparr>lt_boot := (lt_boot rt)\<lparr>bt_spool := sp\<rparr>\<rparr>))"

definition next_sequence :: "('s, 't, 'p) latch_rt \<Rightarrow> u32 \<times> ('s, 't, 'p) latch_rt" where
  "next_sequence rt =
     (let sequence = rt_sequence (bt_spool (lt_boot rt)) + 1
      in (sequence, rt\<lparr>lt_boot := (lt_boot rt)\<lparr>bt_spool := (bt_spool (lt_boot rt))\<lparr>rt_sequence := sequence\<rparr>\<rparr>\<rparr>))"

definition freeze_recorder :: "('s, 't, 'p) latch_rt \<Rightarrow> ('s, 't, 'p) latch_rt" where
  "freeze_recorder rt = rt\<lparr>lt_boot := (lt_boot rt)\<lparr>bt_blackbox := ls_blackbox_freeze (bt_blackbox (lt_boot rt))\<rparr>\<rparr>"

definition ls_capture_event ::
    "'s latch_env \<Rightarrow> ls_event \<Rightarrow> ('s, 't, 'p) latch_rt \<Rightarrow> ls_result \<times> ('s, 't, 'p) latch_rt" where
  "ls_capture_event e event rt =
     (if lt_capturing rt then (LS_EAGAIN, rt)
      else
        let (sequence, rt) = next_sequence (rt\<lparr>lt_capturing := True\<rparr>);
            rt = (if ev_type event = LS_EVENT_CRASH then freeze_recorder rt else rt);
            (accepted, filtered, policy) = ls_policy_apply (le_policy e) event (lt_policy rt);
            rt = rt\<lparr>lt_policy := policy\<rparr>;
            (result, rt) =
              (if accepted
               then (case encode_event e filtered sequence rt of
                       (Inl r, rt) \<Rightarrow> (r, rt)
                     | (Inr data, rt) \<Rightarrow> append_event e data (ev_priority filtered) rt)
               else (LS_OK, rt))
        in (result, rt\<lparr>lt_capturing := False\<rparr>))"

text \<open>The event with nothing but a type, a priority and a moment.\<close>

definition plain_event :: "u8 \<Rightarrow> ls_priority \<Rightarrow> u32 \<Rightarrow> ls_event" where
  "plain_event type priority now =
     \<lparr>ev_type = type, ev_priority = priority, ev_timestamp_ms = now, ev_fingerprint = 0, ev_domain = None, ev_code = 0,
      ev_severity = 0, ev_message = None, ev_cpu = None, ev_riscv64 = None, ev_assertion = None, ev_peripheral = None,
      ev_log = None, ev_capture_level = 0, ev_repeat_count = 0, ev_first_seen_ms = 0, ev_last_seen_ms = 0\<rparr>"

record ls_error =
  er_domain :: "cstring option"
  er_code :: u32
  er_severity :: u8
  er_message :: "cstring option"

definition error_event :: "ls_error \<Rightarrow> u32 \<Rightarrow> ls_event" where
  "error_event error now =
     (plain_event LS_EVENT_ERROR (if er_severity error \<ge> LS_SEVERITY_ERROR then LS_PRIORITY_ERROR else LS_PRIORITY_WARNING) now)
       \<lparr>ev_domain := er_domain error, ev_code := er_code error, ev_severity := er_severity error,
        ev_message := er_message error, ev_capture_level := LS_CAPTURE_SNAPSHOT\<rparr>"

definition ls_capture_error ::
    "'s latch_env \<Rightarrow> ls_error \<Rightarrow> ('s, 't, 'p) latch_rt \<Rightarrow> ('s, 't, 'p) latch_rt" where
  "ls_capture_error e error rt =
     (case uptime e rt of (now, rt) \<Rightarrow> snd (ls_capture_event e (error_event error now) rt))"

definition ls_capture_message ::
    "'s latch_env \<Rightarrow> cstring option \<Rightarrow> u8 \<Rightarrow> ('s, 't, 'p) latch_rt \<Rightarrow> ('s, 't, 'p) latch_rt" where
  "ls_capture_message e message severity =
     ls_capture_error e \<lparr>er_domain = Some (cstr ''message''), er_code = 0, er_severity = severity, er_message = message\<rparr>"

section \<open>Retained crash records\<close>

definition on_fault_memory :: "(fault_memory \<Rightarrow> fault_memory) \<Rightarrow> ('s, 't, 'p) latch_rt \<Rightarrow> ('s, 't, 'p) latch_rt" where
  "on_fault_memory f rt = rt\<lparr>lt_fault_memory := f (lt_fault_memory rt)\<rparr>"

abbreviation wide_enabled :: "'s latch_env \<Rightarrow> bool" where
  "wide_enabled e \<equiv> LS_ENABLE_WIDE_CONTEXT (le_telemetry e)"

definition ls_capture_minimal_fault ::
    "'s latch_env \<Rightarrow> u32 \<Rightarrow> u32 \<Rightarrow> u32 \<Rightarrow> u32 \<Rightarrow> u32 \<Rightarrow> u32 \<Rightarrow> u32 \<Rightarrow> u32 \<Rightarrow> u32 \<Rightarrow> u32 \<Rightarrow> u32 \<Rightarrow> u32 \<Rightarrow> u32 \<Rightarrow>
     ('s, 't, 'p) latch_rt \<Rightarrow> ('s, 't, 'p) latch_rt" where
  "ls_capture_minimal_fault e pc lr msp psp cfsr hfsr fault exc_return xpsr fpscr flags emergency_stack_used
     fault_sequence rt =
     on_fault_memory
       (minimal_snapshot_store pc lr msp psp cfsr hfsr fault exc_return xpsr fpscr flags emergency_stack_used
          fault_sequence None)
       (freeze_recorder (on_fault_memory (wide_snapshot_clear (wide_enabled e)) rt))"

definition ls_capture_minimal_context_fault ::
    "'s latch_env \<Rightarrow> ls_arch_context \<Rightarrow> ('s, 't, 'p) latch_rt \<Rightarrow> ('s, 't, 'p) latch_rt" where
  "ls_capture_minimal_context_fault e c rt =
     (let flags = (if ac_has_fpu c then LS_MINIMAL_SNAPSHOT_FPU_FRAME else 0);
          flags = (if ac_fpu_lazy c then flags OR LS_MINIMAL_SNAPSHOT_FPU_LAZY else flags)
      in on_fault_memory
           (minimal_snapshot_store (ac_pc c) (ac_lr c) (ac_msp c) (ac_psp c) (ac_cfsr c) (ac_hfsr c) (ac_fault c)
              (ac_exc_return c) (ac_xpsr c) (ac_fpscr c) flags 0 0 (Some c))
           (freeze_recorder (on_fault_memory (wide_snapshot_clear (wide_enabled e)) rt)))"

definition ls_capture_minimal ::
    "'s latch_env \<Rightarrow> ls_arch_context option \<Rightarrow> ('s, 't, 'p) latch_rt \<Rightarrow> ls_result \<times> ('s, 't, 'p) latch_rt" where
  "ls_capture_minimal e cx rt =
     (case cx of None \<Rightarrow> (LS_EINVAL, rt) | Some c \<Rightarrow> (LS_OK, ls_capture_minimal_context_fault e c rt))"

text \<open>The event of a retained record.\<close>

definition retained_event :: "'s latch_env \<Rightarrow> fault_memory \<Rightarrow> ls_minimal_snapshot \<Rightarrow> u32 \<Rightarrow> ls_event" where
  "retained_event e mem m now =
     (let riscv64 = recovered_riscv64 (wide_enabled e) mem m;
          cx = (case riscv64 of
                  None \<Rightarrow> recovered_context (le_architecture e) m
                | Some c \<Rightarrow> riscv64_context_to_arch c (ms_fault m))
      in (plain_event LS_EVENT_CRASH LS_PRIORITY_EMERGENCY now)
           \<lparr>ev_fingerprint := ls_crash_fingerprint (le_build_id e) (Some cx), ev_domain := Some (cstr ''fault''),
            ev_code := ms_fault m, ev_severity := LS_SEVERITY_FATAL, ev_message := Some (cstr ''retained_fault''),
            ev_cpu := Some cx, ev_riscv64 := riscv64, ev_capture_level := LS_CAPTURE_SNAPSHOT\<rparr>)"

definition ls_capture_minimal_recover ::
    "'s latch_env \<Rightarrow> ('s, 't, 'p) latch_rt \<Rightarrow> ls_result \<times> ('s, 't, 'p) latch_rt" where
  "ls_capture_minimal_recover e rt =
     (case ls_minimal_snapshot_read (lt_fault_memory rt) of
        None \<Rightarrow> (LS_OK, rt)
      | Some m \<Rightarrow>
          if en_storage (le_boot e) = None then (LS_EAGAIN, rt)
          else case uptime e rt of
            (now, rt) \<Rightarrow>
              case ls_capture_event e (retained_event e (lt_fault_memory rt) m now) rt of
                (result, rt) \<Rightarrow>
                  (result, if result = LS_OK then on_fault_memory (ls_minimal_snapshot_clear (wide_enabled e)) rt else rt))"

definition cpu_fault_event :: "'s latch_env \<Rightarrow> ls_arch_context \<Rightarrow> ls_riscv64_context option \<Rightarrow> u32 \<Rightarrow> ls_event" where
  "cpu_fault_event e c riscv64 now =
     (plain_event LS_EVENT_CRASH LS_PRIORITY_EMERGENCY now)
       \<lparr>ev_fingerprint := ls_crash_fingerprint (le_build_id e) (Some c), ev_domain := Some (cstr ''cpu''),
        ev_code := ac_fault c, ev_severity := LS_SEVERITY_FATAL, ev_message := Some (cstr ''exception''),
        ev_cpu := Some c, ev_riscv64 := riscv64,
        ev_capture_level := (if LS_ENABLE_STACK_SNAPSHOT (le_telemetry e) then LS_CAPTURE_STACK else LS_CAPTURE_SNAPSHOT)\<rparr>"

definition cpu_breadcrumb :: ls_breadcrumb_t where
  "cpu_breadcrumb =
     \<lparr>br_category = Some (cstr ''cpu''), br_level = LS_SEVERITY_FATAL, br_message_id = 1,
      br_message = Some (cstr ''cpu_fault''), br_values = None, br_value_count = 0\<rparr>"

definition port_called :: "port_call \<Rightarrow> ('s, 't, 'p) latch_rt \<Rightarrow> ('s, 't, 'p) latch_rt" where
  "port_called c rt = rt\<lparr>lt_calls := lt_calls rt @ [c]\<rparr>"

definition capture_cpu_context ::
    "'s latch_env \<Rightarrow> ls_arch_context option \<Rightarrow> ls_riscv64_context option \<Rightarrow> ('s, 't, 'p) latch_rt \<Rightarrow>
     ls_result \<times> ('s, 't, 'p) latch_rt" where
  "capture_cpu_context e cx riscv64 rt =
     (case cx of
        None \<Rightarrow> (LS_EINVAL, rt)
      | Some c \<Rightarrow>
          if lt_capturing rt
          then (case riscv64 of
                  Some r \<Rightarrow> (LS_OK, on_fault_memory (ls_capture_minimal_riscv64_fault (wide_enabled e) r) rt)
                | None \<Rightarrow> ls_capture_minimal e (Some c) rt)
          else
            let rt = ls_breadcrumb_event e (Some cpu_breadcrumb) rt;
                (now, rt) = uptime e rt;
                event = cpu_fault_event e c riscv64 now;
                rt = rt\<lparr>lt_boot := ls_boot_state_mark_crash (le_boot e) (ev_fingerprint event)
                                    ((lt_boot rt)\<lparr>bt_previous_crashed := True\<rparr>)\<rparr>;
                (result, rt) = ls_capture_event e event rt;
                rt = (if result \<noteq> LS_OK then snd (ls_capture_minimal e (Some c) rt) else rt)
            in (result, if le_reset e then port_called Reset_device rt else rt))"

definition ls_capture_cpu_context ::
    "'s latch_env \<Rightarrow> ls_arch_context option \<Rightarrow> ('s, 't, 'p) latch_rt \<Rightarrow> ls_result \<times> ('s, 't, 'p) latch_rt" where
  "ls_capture_cpu_context e cx = capture_cpu_context e cx None"

definition ls_capture_riscv64_context ::
    "'s latch_env \<Rightarrow> ls_riscv64_context option \<Rightarrow> ('s, 't, 'p) latch_rt \<Rightarrow> ls_result \<times> ('s, 't, 'p) latch_rt" where
  "ls_capture_riscv64_context e cx rt =
     (case cx of
        None \<Rightarrow> (LS_EINVAL, rt)
      | Some c \<Rightarrow> capture_cpu_context e (Some (riscv64_context_to_arch c LS_FAULT_TRAP)) (Some c) rt)"

section \<open>Power-fail seals\<close>

definition ls_powerfail_last_seal :: "('s, 't, 'p) latch_rt \<Rightarrow> ls_powerfail_seal_info" where
  "ls_powerfail_last_seal rt =
     (if bt_powerfail_last_valid (lt_boot rt) then powerfail_last (lt_telemetry rt)
      else \<lparr>si_reason = 0, si_tier = 0, si_vcap_mv = 0, si_boot_id = 0, si_fault = 0, si_sealed_ok = False\<rparr>)"

definition seal_event :: "'s latch_env \<Rightarrow> ls_powerfail_sealed \<Rightarrow> u32 \<Rightarrow> ls_event" where
  "seal_event e p now =
     (let cx = zero_context\<lparr>ac_architecture := le_architecture e, ac_fault := ps_fault p, ac_lr := ps_lr p,
                 ac_pc := ps_pc p, ac_msp := ps_msp p, ac_psp := ps_psp p, ac_cfsr := ps_cfsr p, ac_hfsr := ps_hfsr p,
                 ac_fault_address := ucast (ps_cfsr p)\<rparr>
      in (plain_event LS_EVENT_RESET LS_PRIORITY_EMERGENCY now)
           \<lparr>ev_fingerprint := ps_reason p XOR push_bit 8 (ps_vcap_mv p) XOR ps_sequence p,
            ev_domain := Some (cstr ''powerfail''), ev_code := ps_reason p, ev_severity := LS_SEVERITY_FATAL,
            ev_message := Some (cstr ''brownout_seal''), ev_cpu := Some cx, ev_capture_level := LS_CAPTURE_SNAPSHOT\<rparr>)"

definition ls_powerfail_recover ::
    "'s latch_env \<Rightarrow> ('s, 't, 'p) latch_rt \<Rightarrow> ls_result \<times> ('s, 't, 'p) latch_rt" where
  "ls_powerfail_recover e rt =
     (if \<not> LS_ENABLE_POWERFAIL_SEAL (le_boot e) then (LS_OK, rt)
      else case sealed_read_retained (lt_powerfail rt) of
        None \<Rightarrow> (LS_OK, rt)
      | Some p \<Rightarrow>
          let rt = rt\<lparr>lt_boot := (lt_boot rt)\<lparr>bt_previous_crashed := True\<rparr>\<rparr>
          in if en_storage (le_boot e) = None then (LS_EAGAIN, rt)
             else
               let rt = on_telemetry (\<lambda>t. t\<lparr>powerfail_last := seal_info p\<rparr>) rt;
                   rt = rt\<lparr>lt_boot := (lt_boot rt)\<lparr>bt_powerfail_last_valid := True\<rparr>\<rparr>;
                   (now, rt) = uptime e rt;
                   (result, rt) = ls_capture_event e (seal_event e p now) rt
               in (result,
                   if result = LS_OK then rt\<lparr>lt_powerfail := ls_powerfail_sealed_clear (lt_powerfail rt)\<rparr>
                   else rt\<lparr>lt_boot := (lt_boot rt)\<lparr>bt_powerfail_last_valid := False\<rparr>\<rparr>))"

section \<open>Start-up\<close>

definition zero_reset_info :: ls_reset_info where
  "zero_reset_info =
     \<lparr>ri_reason = LS_RESET_UNKNOWN, ri_raw_reason = 0, ri_boot_count = 0, ri_previous_uptime_ms = 0,
      ri_expected = False, ri_crash_pending = False, ri_boot_loop = False\<rparr>"

text \<open>\<^verbatim>\<open>ls_init\<close> zeroes the runtime; retained memory, the media, the network and the clock are outside of it. The
  backend of the storage, which the application registers afterwards, is part of the environment.\<close>

definition spool_init_rt :: "('s, 't) spool_rt \<Rightarrow> ('s, 't) spool_rt" where
  "spool_init_rt sp =
     sp\<lparr>rt_faults := \<lparr>fault_injections = replicate (length (fault_injections (rt_faults sp))) zero_fault,
                      fault_injection_active = False\<rparr>,
        rt_transports := [], rt_sequence := 0, spool_high_watermark := 0, spool_dropped_records := 0,
        spool_corrupt_records := 0, spool_transport_failures := 0, spool_retry_saturated := 0\<rparr>"

definition boot_init_rt :: "('s, 't, 'p) boot_rt \<Rightarrow> ('s, 't, 'p) boot_rt" where
  "boot_init_rt bt =
     \<lparr>bt_spool = spool_init_rt (bt_spool bt), bt_security = security_init (port (bt_security bt)),
      bt_blackbox = ls_blackbox_init (bt_blackbox bt), bt_initialized = True, bt_persistent = zero_boot,
      bt_reset_info = zero_reset_info, bt_boot_started_ms = 0, bt_boot_count = 0, bt_previous_crashed = False,
      bt_boot_loop = False, bt_safe_mode = False, bt_powerfail_last_valid = False,
      bt_clock_reads = bt_clock_reads bt\<rparr>"

definition policy_init :: "cstring option \<Rightarrow> cstring option \<Rightarrow> ls_policy" where
  "policy_init build device_id =
     \<lparr>policies = [], dedup = [], dedup_next = 0,
      random_state = ls_hash_string build XOR ls_hash_string device_id XOR 0x9e3779b9\<rparr>"

definition ls_init :: "'s latch_env \<Rightarrow> nat \<Rightarrow> ('s, 't, 'p) latch_rt \<Rightarrow> ls_result \<times> ('s, 't, 'p) latch_rt" where
  "ls_init e build_id_max rt =
     (let build = or_else (id_firmware_build_id (le_identity e)) (le_build_id e)
      in if \<not> ls_build_id_validate build_id_max build then (LS_EINVAL, rt)
         else (LS_OK, rt\<lparr>lt_boot := boot_init_rt (lt_boot rt), lt_telemetry := telemetry_init (le_telemetry e),
                         lt_policy := policy_init build (id_device_id (le_identity e)), lt_capturing := False\<rparr>))"

definition ls_boot :: "'s latch_env \<Rightarrow> ('s, 't, 'p) latch_rt \<Rightarrow> ls_result \<times> ('s, 't, 'p) latch_rt" where
  "ls_boot e rt =
     (let retained_fault = (ls_minimal_snapshot_read (lt_fault_memory rt) \<noteq> None);
          info = (case le_reset_info e of None \<Rightarrow> zero_reset_info | Some i \<Rightarrow> i)
      in case boot_sequence (le_boot e) retained_fault info (lt_boot rt) of
           (result, bt) \<Rightarrow>
             let rt = rt\<lparr>lt_boot := bt\<rparr>
             in if result \<noteq> LS_OK then (result, rt)
                else
                  let rt = snd (ls_powerfail_recover e rt);
                      rt = (if retained_fault then snd (ls_capture_minimal_recover e rt) else rt)
                  in (LS_OK, rt))"

end
