(* ===== verification/LS_Capture_Safety.thy ===== *)
theory LS_Capture_Safety
  imports LS_Capture LS_Spool_Safety
begin

text \<open>
  What capturing guarantees: a captured event is in the spool as an envelope that validates and that begins
  with the identity, the reset and the event; retained evidence is cleared only once its event is stored.
\<close>

section \<open>What encoding leaves alone\<close>

text \<open>The state that encoding a payload does not touch.\<close>

definition aside :: "('s, 't, 'p) latch_rt \<Rightarrow> ('s, 't) spool_rt \<times> 'p ls_security \<times> fault_memory \<times> powerfail_memory \<times> ls_telemetry" where
  "aside rt = (bt_spool (lt_boot rt), bt_security (lt_boot rt), lt_fault_memory rt, lt_powerfail rt, lt_telemetry rt)"

lemma aside_uptime: "aside (snd (uptime e rt)) = aside rt"
  by (simp add: uptime_def aside_def split: prod.split) (metis ls_uptime_ms_snd read_timestamp_frame(2,3) snd_conv)

lemma aside_elapsed: "aside (snd (ls_mission_elapsed_ms e rt)) = aside rt"
  using aside_uptime [of e rt] by (auto simp: ls_mission_elapsed_ms_def split: prod.split)

lemma on_put_snd: "snd (snd (on_put f x)) = snd x"
  by (simp add: on_put_def split: prod.split)

lemma aside_optional_part: "f \<in> set (optional_parts e event) \<Longrightarrow> aside (snd (snd (f x))) = aside (snd x)"
  by (auto simp: optional_parts_def Let_def on_put_snd case_prod_beta' aside_elapsed) (simp add: aside_def)

lemma aside_payload: "aside (snd (snd (put_payload e event x))) = aside (snd x)"
  unfolding put_payload_parts
  by (rule seq_keeps [where \<pi> = "\<lambda>x. aside (snd x)"]) (auto simp: on_put_snd aside_optional_part)

lemma aside_encode:
  assumes "encode_event e event sequence rt = (out, rt')"
  shows "bt_spool (lt_boot rt') = bt_spool (lt_boot rt)" "lt_fault_memory rt' = lt_fault_memory rt"
    "lt_powerfail rt' = lt_powerfail rt" "lt_telemetry rt' = lt_telemetry rt"
proof -
  define rt1 where "rt1 = (case payload_room (bt_security (lt_boot rt)) (LS_MAX_EVENT_SIZE (en_config (le_boot e))) of
      None \<Rightarrow> rt | Some n \<Rightarrow> snd (snd (put_payload e event ((writer_init n, False), rt))))"
  have "aside rt1 = aside rt"
    by (simp add: rt1_def aside_payload split: option.split)
  moreover have "bt_spool (lt_boot rt') = bt_spool (lt_boot rt1) \<and> lt_fault_memory rt' = lt_fault_memory rt1 \<and>
      lt_powerfail rt' = lt_powerfail rt1 \<and> lt_telemetry rt' = lt_telemetry rt1"
    using assms unfolding encode_event_def Let_def rt1_def [symmetric]
    by (auto simp: on_boot_def split: prod.splits sum.splits)
  ultimately show "bt_spool (lt_boot rt') = bt_spool (lt_boot rt)" "lt_fault_memory rt' = lt_fault_memory rt"
    "lt_powerfail rt' = lt_powerfail rt" "lt_telemetry rt' = lt_telemetry rt"
    by (simp_all add: aside_def)
qed

section \<open>A captured event is stored\<close>

text \<open>The event as the policy completes it, and the runtime just before it is encoded.\<close>

definition judged_event :: "'s latch_env \<Rightarrow> ls_event \<Rightarrow> ('s, 't, 'p) latch_rt \<Rightarrow> ls_event" where
  "judged_event e event rt = fst (snd (ls_policy_apply (le_policy e) event (lt_policy rt)))"

definition spool_next :: "('s, 't, 'p) latch_rt \<Rightarrow> ('s, 't) spool_rt" where
  "spool_next rt = (bt_spool (lt_boot rt))\<lparr>rt_sequence := rt_sequence (bt_spool (lt_boot rt)) + 1\<rparr>"

definition encoding_rt :: "'s latch_env \<Rightarrow> ls_event \<Rightarrow> ('s, 't, 'p) latch_rt \<Rightarrow> ('s, 't, 'p) latch_rt" where
  "encoding_rt e event rt =
     (let rt = snd (next_sequence (rt\<lparr>lt_capturing := True\<rparr>));
          rt = (if ev_type event = LS_EVENT_CRASH then freeze_recorder rt else rt)
      in rt\<lparr>lt_policy := snd (snd (ls_policy_apply (le_policy e) event (lt_policy rt)))\<rparr>)"

lemma encoding_rt_fields [simp]:
  "bt_spool (lt_boot (encoding_rt e event rt)) = spool_next rt"
  "bt_security (lt_boot (encoding_rt e event rt)) = bt_security (lt_boot rt)"
  "bt_reset_info (lt_boot (encoding_rt e event rt)) = bt_reset_info (lt_boot rt)"
  "lt_fault_memory (encoding_rt e event rt) = lt_fault_memory rt"
  "lt_powerfail (encoding_rt e event rt) = lt_powerfail rt"
  "lt_telemetry (encoding_rt e event rt) = lt_telemetry rt"
  by (simp_all add: encoding_rt_def Let_def next_sequence_def spool_next_def freeze_recorder_def)

lemma policy_keeps_event:
  "ev_type (fst (snd (ls_policy_apply cfg event s))) = ev_type event"
  "ev_priority (fst (snd (ls_policy_apply cfg event s))) = ev_priority event"
  "ev_cpu (fst (snd (ls_policy_apply cfg event s))) = ev_cpu event"
  "ev_riscv64 (fst (snd (ls_policy_apply cfg event s))) = ev_riscv64 event"
  by (auto simp: ls_policy_apply_def Let_def split: prod.split option.split)

lemma policy_accepts_critical: "ev_priority event \<le> LS_PRIORITY_CRITICAL \<Longrightarrow> fst (ls_policy_apply cfg event s)"
  by (auto simp: ls_policy_apply_def Let_def split: prod.split)

lemma capture_event_cases:
  assumes "ev_priority event \<le> LS_PRIORITY_CRITICAL" and "\<not> lt_capturing rt"
  obtains (refused) r rt1 where "encode_event e (judged_event e event rt) (rt_sequence (spool_next rt)) (encoding_rt e event rt) = (Inl r, rt1)"
      "ls_capture_event e event rt = (r, rt1\<lparr>lt_capturing := False\<rparr>)"
    | (encoded) data rt1 r sp where
      "encode_event e (judged_event e event rt) (rt_sequence (spool_next rt)) (encoding_rt e event rt) = (Inr data, rt1)"
      "ls_spool_append (en_config (le_boot e)) (en_storage (le_boot e)) (Some data) (ev_priority event) (spool_next rt) = (r, sp)"
      "ls_capture_event e event rt = (r, rt1\<lparr>lt_boot := (lt_boot rt1)\<lparr>bt_spool := sp\<rparr>, lt_capturing := False\<rparr>)"
proof -
  let ?out = "encode_event e (judged_event e event rt) (rt_sequence (spool_next rt)) (encoding_rt e event rt)"
  obtain filtered policy where P: "ls_policy_apply (le_policy e) event (lt_policy rt) = (True, filtered, policy)"
    using policy_accepts_critical [OF assms(1)] by (metis prod.collapse)
  then have prio: "ev_priority filtered = ev_priority event"
    using policy_keeps_event(2) [of "le_policy e" event "lt_policy rt"] by simp
  have event: "ls_capture_event e event rt =
      (case (case ?out of (Inl r, rt) \<Rightarrow> (r, rt) | (Inr data, rt) \<Rightarrow> append_event e data (ev_priority event) rt) of
         (result, rt) \<Rightarrow> (result, rt\<lparr>lt_capturing := False\<rparr>))"
    using assms P prio
    by (simp add: ls_capture_event_def encoding_rt_def judged_event_def Let_def next_sequence_def spool_next_def
        freeze_recorder_def cong del: prod.case_cong_weak sum.case_cong_weak)
  show ?thesis
  proof (cases ?out)
    case (Pair out rt1)
    show ?thesis
    proof (cases out)
      case (Inl r)
      then show ?thesis using refused Pair event by simp
    next
      case (Inr data)
      have sp: "bt_spool (lt_boot rt1) = spool_next rt" using aside_encode(1) [OF Pair] by simp
      obtain r sp where "ls_spool_append (en_config (le_boot e)) (en_storage (le_boot e)) (Some data) (ev_priority event) (spool_next rt) = (r, sp)"
        by (metis surj_pair)
      then show ?thesis using encoded Pair Inr event sp by (simp add: append_event_def)
    qed
  qed
qed


text \<open>An error of the encoder is never reported as success.\<close>

lemma random_error: "ls_security_random n s = (Inl r, s') \<Longrightarrow> r \<noteq> LS_OK"
  by (auto simp: ls_security_random_def split: option.splits prod.splits if_splits)

lemma hkdf_error: "ls_crypto_hkdf_sha256 b salt ikm info n s = (Inl r, s') \<Longrightarrow> r \<noteq> LS_OK"
  by (auto simp: ls_crypto_hkdf_sha256_def ls_hkdf_sha256_def Let_def split: option.splits prod.splits if_splits)

lemma encrypt_error: "ls_crypto_xchacha20_poly1305_encrypt b key nonce aad plaintext s = (Inl r, s') \<Longrightarrow> r \<noteq> LS_OK"
  by (auto simp: ls_crypto_xchacha20_poly1305_encrypt_def ls_xchacha20_poly1305_encrypt_def ls_chacha20_poly1305_encrypt_def
      Let_def split: option.splits prod.splits if_splits)

lemma seal_error: "seal_aead b header sequence event_id payload s = (Inl r, s') \<Longrightarrow> r \<noteq> LS_OK"
  by (auto simp: seal_aead_def Let_def split: prod.splits sum.splits if_splits dest: random_error hkdf_error encrypt_error)

lemma encode_error:
  "ls_envelope_encode b put build type architecture capacity sequence s = (Inl r, s') \<Longrightarrow> r \<noteq> LS_OK"
  by (auto simp: ls_envelope_encode_def Let_def split: prod.splits sum.splits if_splits dest: seal_error)

lemma encode_event_error: "encode_event e event sequence rt = (Inl r, rt') \<Longrightarrow> r \<noteq> LS_OK"
  by (auto simp: encode_event_def Let_def split: prod.splits sum.splits dest: encode_error)

lemma encode_plain:
  assumes "encode_event e event sequence rt = (Inr data, rt')" and "security_key_length (bt_security (lt_boot rt)) = 0"
  shows "\<exists>n w truncated rt1 architecture event_id.
    put_payload e event ((writer_init n, False), rt) = (LS_OK, (w, truncated), rt1) \<and> length (w_data w) \<le> UINT32_MAX \<and>
    data = plain_envelope (ev_type event) architecture (if truncated then LS_ENVELOPE_TRUNCATED else 0) sequence event_id (w_data w)"
proof -
  let ?s = "bt_security (lt_boot rt)" and ?cap = "LS_MAX_EVENT_SIZE (en_config (le_boot e))"
  let ?arch = "(case ev_cpu event of Some c \<Rightarrow> ucast (ac_architecture c) | None \<Rightarrow> ucast (le_architecture e)) :: u8"
  let ?n = "?cap - LS_LEP_HEADER_SIZE - 4"
  obtain s' where enc: "ls_envelope_encode (le_crypto e) (run_payload e event rt) (le_build_id e) (ev_type event) ?arch ?cap sequence ?s =
      (Inr data, s')"
    using assms(1) by (auto simp: encode_event_def Let_def split: prod.splits sum.splits)
  obtain w truncated rt1 r where p: "put_payload e event ((writer_init ?n, False), rt) = (r, (w, truncated), rt1)"
    by (metis surj_pair)
  then have "run_payload e event rt ?n = (r, w_data w, truncated)" by (simp add: run_payload_def)
  then have "r = LS_OK \<and> length (w_data w) \<le> UINT32_MAX \<and> (\<exists>event_id. data =
      plain_envelope (ev_type event) ?arch (if truncated then LS_ENVELOPE_TRUNCATED else 0) sequence event_id (w_data w))"
    using enc assms(2) by (auto simp: ls_envelope_encode_def Let_def plain_envelope_def split: if_splits)
  then show ?thesis using p by blast
qed

lemma encoding_rt_reset_value: "reset_value (lt_boot (encoding_rt e event rt)) event' = reset_value (lt_boot rt) event'"
  by (simp add: reset_value_def encoding_rt_def Let_def next_sequence_def freeze_recorder_def)

lemma bslice_plain_envelope:
  "length payload \<le> UINT32_MAX \<Longrightarrow>
   bslice LS_LEP_HEADER_SIZE (length payload) (plain_envelope type architecture flags sequence event_id payload) = payload"
  by (simp add: plain_envelope_def bslice_def LS_LEP_HEADER_SIZE_def lep_write_header_def Let_def)

lemma plain_envelope_payload:
  assumes "tlvs_ok ts" and "length (tlvs_bytes ts) \<le> UINT32_MAX" and "flags \<in> {0, LS_ENVELOPE_TRUNCATED}"
    and "data = plain_envelope type architecture flags sequence event_id (tlvs_bytes ts)"
  shows "\<exists>info. ls_envelope_validate data = Inr info \<and> ei_type info = type \<and> ei_sequence info = sequence \<and>
    bslice LS_LEP_HEADER_SIZE (unat (ei_payload_length info)) data = tlvs_bytes ts"
proof -
  have "unat (of_nat (length (tlvs_bytes ts)) :: u32) = length (tlvs_bytes ts)"
    using assms(2) by (simp add: unat_of_nat UINT32_MAX_def)
  then show ?thesis
    using validate_plain_envelope [OF assms(1-3)] assms(4) bslice_plain_envelope [OF assms(2)] by simp
qed

text \<open>What a successful encoding without a key produced.\<close>

lemma encoded_event:
  assumes "encode_event e event sequence rt = (Inr data, rt')" and "security_key_length (bt_security (lt_boot rt)) = 0"
  shows "\<exists>info identity rest.
    ls_envelope_validate data = Inr info \<and> ei_type info = ev_type event \<and> ei_sequence info = sequence \<and>
    bslice LS_LEP_HEADER_SIZE (unat (ei_payload_length info)) data =
      tlvs_bytes ((LS_TLV_IDENTITY, identity) # (LS_TLV_RESET, reset_value (lt_boot rt) event) #
                  (LS_TLV_EVENT, event_value event) # rest)"
proof -
  obtain n w truncated rt2 architecture event_id where
    p: "put_payload e event ((writer_init n, False), rt) = (LS_OK, (w, truncated), rt2)"
    and len: "length (w_data w) \<le> UINT32_MAX"
    and data: "data = plain_envelope (ev_type event) architecture (if truncated then LS_ENVELOPE_TRUNCATED else 0)
      sequence event_id (w_data w)"
    using encode_plain [OF assms] by auto
  obtain identity cpu rest where g: "grown ([(LS_TLV_IDENTITY, identity), (LS_TLV_RESET, reset_value (lt_boot rt) event),
      (LS_TLV_EVENT, event_value event)] @ cpu @ rest) (writer_init n, False) (w, truncated)"
    using put_payload_grown [OF p] by auto
  define ts where "ts = (LS_TLV_IDENTITY, identity) # (LS_TLV_RESET, reset_value (lt_boot rt) event) #
    (LS_TLV_EVENT, event_value event) # cpu @ rest"
  have ts: "w_data w = tlvs_bytes ts" "tlvs_ok ts"
    using g by (simp_all add: ts_def grown_def writer_init_def)
  show ?thesis
    using plain_envelope_payload [OF ts(2) len [unfolded ts(1)] _ data [unfolded ts(1)]]
    unfolding ts_def by (cases truncated) auto
qed

text \<open>Without a key, encoding succeeds as soon as the buffer has room for the mandatory parts.\<close>

lemma encode_event_ok:
  assumes "security_key_length (bt_security (lt_boot rt)) = 0" and "event_ok event"
    and "mission_fits (mission (lt_telemetry rt))"
    and "603 + cpu_room (ev_cpu event) \<le> LS_MAX_EVENT_SIZE (en_config (le_boot e))"
    and "LS_MAX_EVENT_SIZE (en_config (le_boot e)) \<le> UINT16_MAX"
  shows "\<exists>data rt'. encode_event e event sequence rt = (Inr data, rt') \<and> data \<noteq> [] \<and>
    length data \<le> LS_MAX_EVENT_SIZE (en_config (le_boot e))"
proof -
  let ?cap = "LS_MAX_EVENT_SIZE (en_config (le_boot e))"
  let ?n = "?cap - LS_LEP_HEADER_SIZE - 4"
  have cap: "575 + cpu_room (ev_cpu event) \<le> ?n" "LS_LEP_HEADER_SIZE + 4 \<le> ?cap"
    using assms(4) by (simp_all add: LS_LEP_HEADER_SIZE_def)
  have "fst (put_payload e event ((writer_init ?n, False), rt)) = LS_OK"
    by (rule put_payload_succeeds) (use assms cap in auto)
  then obtain w truncated rt1 where p: "put_payload e event ((writer_init ?n, False), rt) = (LS_OK, (w, truncated), rt1)"
    by (metis prod.collapse)
  obtain ts where g: "grown ts (writer_init ?n, False) (w, truncated)" using put_payload_grown [OF p] by blast
  then have w: "length (w_data w) \<le> ?n"
    using writer_init_ok [of ?n] by (auto simp: grown_def writer_ok_def w_length_def) (simp add: writer_init_def)
  then have "length (w_data w) \<le> UINT32_MAX" using assms(5) by (simp add: UINT16_MAX_def UINT32_MAX_def)
  moreover have "run_payload e event rt ?n = (LS_OK, w_data w, truncated)" using p by (simp add: run_payload_def)
  ultimately obtain type architecture flags seq event_id s' where
    "ls_envelope_encode (le_crypto e) (run_payload e event rt) (le_build_id e) (ev_type event)
       (case ev_cpu event of Some c \<Rightarrow> ucast (ac_architecture c) | None \<Rightarrow> ucast (le_architecture e)) ?cap sequence
       (bt_security (lt_boot rt)) = (Inr (plain_envelope type architecture flags seq event_id (w_data w)), s')"
    using assms(1) cap(2) unfolding plain_envelope_def by (auto simp: ls_envelope_encode_def Let_def)
  then show ?thesis
    using w cap(2)
    by (auto simp: encode_event_def Let_def plain_envelope_def lep_write_header_def LS_LEP_HEADER_SIZE_def)
qed

text \<open>The spool can take one more record of the given priority: the device works, no fault is armed, and a slot
  that the priority may use is erased.\<close>

definition spool_ready :: "ls_build_config \<Rightarrow> nat \<Rightarrow> nat \<Rightarrow> nat \<Rightarrow> ls_priority \<Rightarrow> (ls_storage_sim, 't) spool_rt \<Rightarrow> bool" where
  "spool_ready cfg cap erase_sz write_sz priority sp \<longleftrightarrow>
     sim_ok cap (rt_store sp) \<and> sim_healthy (rt_store sp) \<and> \<not> fault_injection_active (rt_faults sp) \<and>
     write_sz \<le> LS_STORAGE_MAX_WRITE_SIZE cfg \<and> 1 \<le> LS_STORAGE_MAX_WRITE_SIZE cfg \<and>
     write_sz dvd cap \<and> cap + write_sz \<le> SIZE_MAX \<and> spool_usable cfg (Some (sim_backend cap erase_sz write_sz)) \<and>
     (\<exists>k. k < slot_limit_for_priority cfg priority \<and> (\<forall>i<28. sim_content (rt_store sp) ! (slot_offset cfg k + i) = 0xff)) \<and>
     (\<forall>k. k < slot_limit_for_priority cfg priority \<longrightarrow>
        (\<forall>i<28. sim_content (rt_store sp) ! (slot_offset cfg k + i) = 0xff) \<longrightarrow>
        (\<forall>i<record_size cfg. sim_content (rt_store sp) ! (slot_offset cfg k + i) = 0xff))"

lemma spool_ready_append:
  assumes "spool_ready cfg cap erase_sz write_sz priority sp" and "data \<noteq> []" "length data \<le> LS_MAX_EVENT_SIZE cfg"
    and "length data \<le> UINT16_MAX" and "ls_envelope_validate data = Inr info"
    and "LS_EVENT_CRASH \<le> ei_type info" "ei_type info \<le> LS_EVENT_COREDUMP"
  shows "\<exists>sp' k. ls_spool_append cfg (Some (sim_backend cap erase_sz write_sz)) (Some data) priority sp = (LS_OK, sp') \<and>
    k < slot_limit_for_priority cfg priority \<and> spool_view cfg (sim_content (rt_store sp)) k = None \<and>
    spool_view cfg (sim_content (rt_store sp')) =
      (spool_view cfg (sim_content (rt_store sp)))(k \<mapsto> (of_nat (priority_code priority), ei_sequence info, ls_crc32 data, data))"
proof -
  note ready = assms(1) [unfolded spool_ready_def]
  have "\<exists>sp'. ls_spool_append cfg (Some (sim_backend cap erase_sz write_sz)) (Some data) priority sp = (LS_OK, sp')"
    by (rule sim.spool_append_ok) (use ready assms(2-5) in \<open>auto simp: sim_backend_def\<close>)
  then obtain sp' where app: "ls_spool_append cfg (Some (sim_backend cap erase_sz write_sz)) (Some data) priority sp = (LS_OK, sp')"
    by blast
  have "sim_ok cap (rt_store sp)" "1 \<le> LS_STORAGE_MAX_WRITE_SIZE cfg" using ready by auto
  from sim.spool_append_effect [OF app this assms(4)] show ?thesis using app assms(5-7) by auto
qed


text \<open>A flash with room for two records, all erased.\<close>

definition capture_config :: ls_build_config where
  "capture_config = \<lparr>LS_MAX_EVENT_SIZE = 640, LS_SPOOL_MAX_RECORDS = 2, LS_SPOOL_RESERVED_CRITICAL = 1,
     LS_SPOOL_RESERVED_EMERGENCY = 0, LS_STORAGE_MAX_WRITE_SIZE = 8, LS_MAX_TRANSPORTS = 1\<rparr>"

definition capture_rt :: "(ls_storage_sim, unit, unit) latch_rt" where
  "capture_rt = device_rt (blank_boot_rt (ctx (example_flash (replicate 1400 0xff))) () ())"

lemma capture_rt_ready: "spool_ready capture_config 1400 8 8 LS_PRIORITY_CRITICAL (bt_spool (lt_boot capture_rt))"
proof -
  have "spool_usable capture_config (Some (sim_backend 1400 8 8))"
    by (simp add: spool_usable_def ls_spool_storage_size_def raw_storage_size_def record_size_def spool_add_size_def
        capture_config_def sim_backend_def spool_layout SIZE_MAX_def Let_def)
  then show ?thesis
    by (auto simp: spool_ready_def capture_rt_def device_rt_def blank_boot_rt_def blank_spool_rt_def capture_config_def
        faults_none_def SIZE_MAX_def slot_limit_for_priority_def slot_offset_def record_size_def spool_layout
        intro!: exI [of _ "0 :: nat"])
qed


section \<open>Evidence is kept until it is stored\<close>

text \<open>An emergency event has been stored: its envelope was encoded, whatever the key, and appended.\<close>

definition event_stored :: "'s latch_env \<Rightarrow> ls_event \<Rightarrow> ('s, 't, 'p) latch_rt \<Rightarrow> ('s, 't, 'p) latch_rt \<Rightarrow> bool" where
  "event_stored e event rt rt' \<longleftrightarrow>
     (\<exists>data. fst (encode_event e (judged_event e event rt) (rt_sequence (spool_next rt)) (encoding_rt e event rt)) = Inr data \<and>
             ls_spool_append (en_config (le_boot e)) (en_storage (le_boot e)) (Some data) (ev_priority event) (spool_next rt) =
               (LS_OK, bt_spool (lt_boot rt')))"

lemma capture_event_stored:
  assumes "ls_capture_event e event rt = (LS_OK, rt')" and "ev_priority event \<le> LS_PRIORITY_CRITICAL"
  shows "event_stored e event rt rt'"
proof -
  have idle: "\<not> lt_capturing rt" using assms(1) by (auto simp: ls_capture_event_def)
  show ?thesis
    by (rule capture_event_cases [OF assms(2) idle, of e])
      (use assms(1) encode_event_error in \<open>force simp: event_stored_def\<close>)+
qed

lemma capture_event_keeps:
  assumes "ls_capture_event e event rt = (r, rt')" and "ev_priority event \<le> LS_PRIORITY_CRITICAL"
  shows "lt_fault_memory rt' = lt_fault_memory rt" "lt_powerfail rt' = lt_powerfail rt" "lt_telemetry rt' = lt_telemetry rt"
proof -
  have "lt_fault_memory rt' = lt_fault_memory rt \<and> lt_powerfail rt' = lt_powerfail rt \<and> lt_telemetry rt' = lt_telemetry rt"
  proof (cases "lt_capturing rt")
    case True
    then show ?thesis using assms(1) by (simp add: ls_capture_event_def)
  next
    case False
    show ?thesis
      by (rule capture_event_cases [OF assms(2) False, of e]) (use assms(1) in \<open>auto dest: aside_encode\<close>)
  qed
  then show "lt_fault_memory rt' = lt_fault_memory rt" "lt_powerfail rt' = lt_powerfail rt" "lt_telemetry rt' = lt_telemetry rt"
    by simp_all
qed

lemma cleared_snapshot_read: "ls_minimal_snapshot_read (ls_minimal_snapshot_clear wide mem) = None"
  by (simp add: ls_minimal_snapshot_read_def ls_minimal_snapshot_clear_def wide_snapshot_clear_def
      ls_minimal_snapshot_validate_def LS_MINIMAL_MAGIC_def)

lemma read_u32_low_byte: "(ucast (read_u32 d 0) :: u8) = d ! 0"
  by (rule bit_word_eqI) (auto simp: read_u32_def bit_simps)

lemma cleared_seal_read:
  assumes "60 \<le> length (sealed_retained pm)"
  shows "sealed_read_retained (ls_powerfail_sealed_clear pm) = None"
proof -
  have invalid: "\<not> sealed_validate_copy p" if "ps_magic p = 0" for p
    using that by (simp add: sealed_validate_copy_def LS_POWERFAIL_MAGIC_def)
  have retained: "ps_magic (sealed_parse (overwrite 0 (le32 0) (sealed_retained pm))) = 0"
    by (simp add: sealed_parse_def overwrite_def)
  have "read_u32 (take SEALED_SIZE (w[0 := 0])) 0 \<noteq> LS_POWERFAIL_MAGIC \<and>
      read_u32 (take SEALED_SIZE (w[0 := 0])) 0 \<noteq> LS_POWERFAIL_BACKUP_MAGIC" if "SEALED_SIZE \<le> length w" for w
  proof -
    have "0 < SEALED_SIZE" by (simp add: SEALED_SIZE_def)
    moreover from this that have "0 < length w" by linarith
    ultimately have "(ucast (read_u32 (take SEALED_SIZE (w[0 := 0])) 0) :: u8) = 0"
      by (simp only: read_u32_low_byte nth_take nth_list_update_eq)
    then show ?thesis by (auto simp: LS_POWERFAIL_MAGIC_def LS_POWERFAIL_BACKUP_MAGIC_def)
  qed
  then show ?thesis
    using retained invalid
    by (auto simp: sealed_read_retained_def ls_powerfail_sealed_clear_def window_usable_def store_backup_def Let_def
        sealed_parse_def split: option.split)
qed


text \<open>A device without storage after a trap and a power failure.\<close>

definition sealed_power :: powerfail_memory where
  "sealed_power = dark_memory\<lparr>sealed_retained :=
     sealed_bytes ((seal_snapshot 7 None 1 2900 1 True)\<lparr>ps_magic := LS_POWERFAIL_MAGIC\<rparr>)\<rparr>"

definition evidence_rt :: "(unit, unit, unit) latch_rt" where
  "evidence_rt = example_rt\<lparr>lt_powerfail := sealed_power,
     lt_fault_memory := blank_fault_memory\<lparr>minimal_snapshot := sealed_minimal (riscv64_summary 5 example_trap 0 1)\<rparr>\<rparr>"


end
