(* ===== verification/Spec2Isabelle.thy ===== *)
theory Spec2Isabelle
  imports LS_Compression LS_Flash_Mirror LS_Spool_Safety LS_Stream LS_Capture_Safety
begin

text \<open>
  A verification library for Latch.
\<close>

end
